(* ===== verification/Tars_Prelude.thy ===== *)
theory Tars_Prelude
  imports Main "HOL-Library.Char_ord" "HOL-Library.List_Lexorder" "HOL-Library.Word"
begin

text \<open>
  Shared vocabulary of the development: C++ integer arithmetic as the sources use it, the
  operations of \<open>std::string\<close> the sources call, the record of the utility functions that the
  repository takes from its submodule (and that are therefore parameters of the model), the
  generic invariant argument for event-driven objects and the collections of rewrite rules that
  the component theories fill.
\<close>

section \<open>Rule collections\<close>

text \<open>Unfoldings of the model's small operations, one collection per subsystem.\<close>

named_theorems node_defs
named_theorems task_defs

section \<open>Integers\<close>

text \<open>C++ integer division truncates towards zero.\<close>

definition c_div :: "int \<Rightarrow> int \<Rightarrow> int" where
  "c_div a b = sgn a * sgn b * (\<bar>a\<bar> div \<bar>b\<bar>)"

lemma c_div_nonneg [simp]: "0 \<le> a \<Longrightarrow> 0 < b \<Longrightarrow> c_div a b = a div b"
  by (auto simp: c_div_def sgn_if)

lemma c_div_zero [simp]: "c_div 0 b = 0"
  by (simp add: c_div_def)

text \<open>
  Signed 32-bit and 64-bit arithmetic: a result outside the type's range is undefined behaviour
  in C++, which the model makes visible as \<open>None\<close>.
\<close>

definition ck32 :: "int \<Rightarrow> int option" where
  "ck32 x = (if - (2 ^ 31) \<le> x \<and> x < 2 ^ 31 then Some x else None)"

definition ck64 :: "int \<Rightarrow> int option" where
  "ck64 x = (if - (2 ^ 63) \<le> x \<and> x < 2 ^ 63 then Some x else None)"

lemma ck32_Some: "ck32 x = Some y \<longleftrightarrow> y = x \<and> - (2 ^ 31) \<le> x \<and> x < 2 ^ 31"
  by (auto simp: ck32_def)

lemma ck64_Some: "ck64 x = Some y \<longleftrightarrow> y = x \<and> - (2 ^ 63) \<le> x \<and> x < 2 ^ 63"
  by (auto simp: ck64_def)

lemma ck32_in [simp]: "0 \<le> x \<Longrightarrow> x < 2147483648 \<Longrightarrow> ck32 x = Some x"
  by (simp add: ck32_def)

lemma ck64_in [simp]: "0 \<le> x \<Longrightarrow> x < 9223372036854775808 \<Longrightarrow> ck64 x = Some x"
  by (simp add: ck64_def)

section \<open>Strings\<close>

text \<open>
  \<open>std::string\<close> positions are natural numbers, \<open>npos\<close> is \<open>None\<close>.
  \<open>str_find_from c s i\<close> is \<open>s.find(c, i)\<close>, \<open>str_substr s p n\<close> is \<open>s.substr(p, n)\<close> for a
  position inside the string, \<open>str_rfind c s\<close> is \<open>s.find_last_of(c)\<close>, and \<open>str_contains\<close> is
  \<open>s.find(t) != npos\<close>.
\<close>

fun str_find :: "char \<Rightarrow> string \<Rightarrow> nat option" where
  "str_find c [] = None"
| "str_find c (x # xs) = (if x = c then Some 0 else map_option Suc (str_find c xs))"

definition str_find_from :: "char \<Rightarrow> string \<Rightarrow> nat \<Rightarrow> nat option" where
  "str_find_from c s i = map_option (\<lambda>p. i + p) (str_find c (drop i s))"

fun str_rfind :: "char \<Rightarrow> string \<Rightarrow> nat option" where
  "str_rfind c [] = None"
| "str_rfind c (x # xs) =
     (case str_rfind c xs of Some p \<Rightarrow> Some (Suc p) | None \<Rightarrow> if x = c then Some 0 else None)"

definition str_substr :: "string \<Rightarrow> nat \<Rightarrow> nat \<Rightarrow> string" where
  "str_substr s p n = take n (drop p s)"

fun is_prefix_of :: "string \<Rightarrow> string \<Rightarrow> bool" where
  "is_prefix_of [] s = True"
| "is_prefix_of (x # xs) [] = False"
| "is_prefix_of (x # xs) (y # ys) = (x = y \<and> is_prefix_of xs ys)"

fun str_contains :: "string \<Rightarrow> string \<Rightarrow> bool" where
  "str_contains [] t = (t = [])"
| "str_contains (x # xs) t = (is_prefix_of t (x # xs) \<or> str_contains xs t)"

lemma str_find_append: "c \<notin> set xs \<Longrightarrow> str_find c (xs @ c # ys) = Some (length xs)"
  by (induction xs) auto

lemma str_find_None_iff: "str_find c xs = None \<longleftrightarrow> c \<notin> set xs"
  by (induction xs) auto

lemma str_rfind_None_iff: "str_rfind c xs = None \<longleftrightarrow> c \<notin> set xs"
  by (induction xs) (auto split: option.splits)

lemma str_rfind_append: "c \<notin> set ys \<Longrightarrow> str_rfind c (xs @ c # ys) = Some (length xs)"
  by (induction xs) (auto split: option.splits simp: str_rfind_None_iff[THEN iffD2])

text \<open>Decimal printing of an unsigned number (\<open>%u\<close>, \<open>TC_Common::tostr\<close> of a size).\<close>

fun show_nat :: "nat \<Rightarrow> string" where
  "show_nat n = (if n < 10 then [char_of (n + 48)] else show_nat (n div 10) @ [char_of (n mod 10 + 48)])"

declare show_nat.simps [simp del]

definition show_int :: "int \<Rightarrow> string" where
  "show_int i = (if i < 0 then ''-'' @ show_nat (nat (- i)) else show_nat (nat i))"

lemma digit_not_dot: "d < 10 \<Longrightarrow> char_of (d + 48 :: nat) \<noteq> CHR ''.''"
proof
  assume "d < 10" and "char_of (d + 48) = CHR ''.''"
  then have "of_char (char_of (d + 48) :: char) = (46 :: nat)" by simp
  with \<open>d < 10\<close> show False by simp
qed

lemma show_nat_no_dot: "CHR ''.'' \<notin> set (show_nat n)"
proof (induction n rule: show_nat.induct)
  case (1 n)
  show ?case
  proof (cases "n < 10")
    case True
    then show ?thesis using digit_not_dot[of n] by (subst show_nat.simps) auto
  next
    case False
    with 1 show ?thesis using digit_not_dot[of "n mod 10"] by (subst show_nat.simps) auto
  qed
qed

lemma show_nat_nonempty: "show_nat n \<noteq> []"
  by (subst show_nat.simps) simp

lemma show_nat_len: "n < 256 \<Longrightarrow> length (show_nat n) \<le> 3"
  by (subst show_nat.simps, subst show_nat.simps, subst show_nat.simps) auto

section \<open>Functions taken from the utility library\<close>

text \<open>
  \<open>TC_Common\<close> lives in a git submodule that is not part of the repository: its string functions
  are parameters of every definition that calls them, bundled in one record.
  \<open>tc_sepstr s d e\<close> is \<open>TC_Common::sepstr<string>\<close> with separators \<open>d\<close> and the keep-empty flag
  \<open>e\<close>, \<open>tc_sepstr_int\<close> is \<open>TC_Common::sepstr<int>\<close>, \<open>tc_strto_uint\<close> is \<open>strto<unsigned int>\<close>.
\<close>

record tc_common =
  tc_lower :: "string \<Rightarrow> string"
  tc_trim :: "string \<Rightarrow> string"
  tc_strto_int :: "string \<Rightarrow> int"
  tc_strto_uint :: "string \<Rightarrow> nat"
  tc_sepstr :: "string \<Rightarrow> string \<Rightarrow> bool \<Rightarrow> string list"
  tc_sepstr_int :: "string \<Rightarrow> string \<Rightarrow> bool \<Rightarrow> int list"
  tc_isdigit :: "string \<Rightarrow> bool"

text \<open>A concrete instance, used only where a property is applied to an example.\<close>

fun dec_val :: "nat \<Rightarrow> string \<Rightarrow> nat" where
  "dec_val acc [] = acc"
| "dec_val acc (c # cs) =
     (let d = of_char c :: nat in if 48 \<le> d \<and> d \<le> 57 then dec_val (acc * 10 + (d - 48)) cs else acc)"

definition ascii_lower :: "char \<Rightarrow> char" where
  "ascii_lower c = (let d = of_char c :: nat in if 65 \<le> d \<and> d \<le> 90 then char_of (d + 32) else c)"

fun split_at :: "string \<Rightarrow> string \<Rightarrow> string \<Rightarrow> string list" where
  "split_at d cur [] = [rev cur]"
| "split_at d cur (c # cs) = (if c \<in> set d then rev cur # split_at d [] cs else split_at d (c # cur) cs)"

definition sample_tc :: tc_common where
  "sample_tc = \<lparr> tc_lower = map ascii_lower, tc_trim = id,
     tc_strto_int = (\<lambda>s. int (dec_val 0 s)), tc_strto_uint = dec_val 0,
     tc_sepstr = (\<lambda>s d e. if e then split_at d [] s else filter (\<lambda>x. x \<noteq> []) (split_at d [] s)),
     tc_sepstr_int = (\<lambda>s d e. map (\<lambda>x. int (dec_val 0 x))
       (if e then split_at d [] s else filter (\<lambda>x. x \<noteq> []) (split_at d [] s))),
     tc_isdigit = (\<lambda>s. s \<noteq> [] \<and> list_all (\<lambda>c. 48 \<le> (of_char c :: nat) \<and> (of_char c :: nat) \<le> 57) s) \<rparr>"

section \<open>Server states\<close>

text \<open>\<open>tars::ServerState\<close>, what nodes report to the registry.\<close>

datatype server_state =
  tars_Inactive | tars_Activating | tars_Active | tars_Deactivating | tars_Destroying | tars_Destroyed

section \<open>Loops that may fail\<close>

text \<open>A loop whose body may have no defined result: \<open>None\<close> ends it.\<close>

fun fold_opt :: "('a \<Rightarrow> 's \<Rightarrow> 's option) \<Rightarrow> 'a list \<Rightarrow> 's \<Rightarrow> 's option" where
  "fold_opt f [] s = Some s"
| "fold_opt f (x # xs) s = Option.bind (f x s) (fold_opt f xs)"

fun map_opt :: "('a \<Rightarrow> 'b option) \<Rightarrow> 'a list \<Rightarrow> 'b list option" where
  "map_opt f [] = Some []"
| "map_opt f (x # xs) = Option.bind (f x) (\<lambda>y. map_option (\<lambda>ys. y # ys) (map_opt f xs))"

lemma fold_opt_append:
  "fold_opt f (xs @ ys) s = (case fold_opt f xs s of None \<Rightarrow> None | Some t \<Rightarrow> fold_opt f ys t)"
proof (induction xs arbitrary: s)
  case Nil
  then show ?case by simp
next
  case (Cons x xs)
  then show ?case by (cases "f x s") simp_all
qed

lemma fold_opt_inv:
  "fold_opt f xs s = Some t \<Longrightarrow> P s \<Longrightarrow>
     (\<And>x s t. x \<in> set xs \<Longrightarrow> P s \<Longrightarrow> f x s = Some t \<Longrightarrow> P t) \<Longrightarrow> P t"
proof (induction xs arbitrary: s)
  case Nil
  then show ?case by simp
next
  case (Cons x xs)
  then obtain u where u: "f x s = Some u" "fold_opt f xs u = Some t" by (cases "f x s") auto
  show ?case
    using u(2)
  proof (rule Cons.IH)
    show "P u" using Cons.prems(2) u(1) by (rule Cons.prems(3)[of x, rotated]) simp
    show "\<And>y s t. y \<in> set xs \<Longrightarrow> P s \<Longrightarrow> f y s = Some t \<Longrightarrow> P t"
      by (rule Cons.prems(3)) simp_all
  qed
qed

lemma map_opt_Some:
  "map_opt f xs = Some ys \<Longrightarrow> length ys = length xs \<and> (\<forall>i < length xs. f (xs ! i) = Some (ys ! i))"
  by (induction xs arbitrary: ys) (auto split: Option.bind_splits simp: nth_Cons split: nat.splits)

lemma map_opt_total: "(\<forall>x \<in> set xs. f x \<noteq> None) \<Longrightarrow> \<exists>ys. map_opt f xs = Some ys"
  by (induction xs) auto

section \<open>Event-driven objects\<close>

text \<open>
  The servers are objects whose handlers run one at a time under the object's lock: a history is
  a list of events, and a state property that every handler keeps holds after every history.
\<close>

locale event_system =
  fixes step :: "'e \<Rightarrow> 's \<Rightarrow> 's"
    and inv :: "'s \<Rightarrow> bool"
  assumes step_inv: "inv s \<Longrightarrow> inv (step e s)"
begin

lemma run_inv: "inv s \<Longrightarrow> inv (fold step es s)"
  by (induction es arbitrary: s) (auto intro: step_inv)

lemma run_inv_append: "inv s \<Longrightarrow> inv (fold step (es @ [e]) s)"
  by (simp add: run_inv step_inv)

end

section \<open>Loops that wait for the clock\<close>

lemma clocked_loop_returns:
  fixes f :: "'s \<Rightarrow> 'r option" and g :: "'s \<Rightarrow> 's" and t :: "'s \<Rightarrow> nat"
  assumes "\<And>s. f s \<noteq> None \<or> f s = f (g s)" and "\<And>s. t s < t (g s)" and "\<And>s. n \<le> t s \<Longrightarrow> f s \<noteq> None"
  shows "f s \<noteq> None"
proof (induction "n - t s" arbitrary: s rule: less_induct)
  case less
  show ?case
  proof (cases "n \<le> t s")
    case True
    then show ?thesis by (rule assms(3))
  next
    case False
    with assms(2)[of s] have "n - t (g s) < n - t s" by arith
    from less[OF this] assms(1)[of s] show ?thesis by metis
  qed
qed

end
