(* ===== verification/Node_Limit.thy ===== *)
theory Node_Limit
  imports Tars_Prelude
begin

text \<open>
  \<open>NodeServer/Activator\<close> and \<open>NodeServer/ServerLimitResource\<close>: the two counters that keep a failing
  server from being restarted without end and from filling the disk with core files. Every
  operation takes the time it reads as an argument. Starting and killing processes is left to the
  operating system; of the scripts, the parsing of their output is modelled.
\<close>

section \<open>Restart limit\<close>

record activator =
  activingRecord :: "int list"
  limited :: bool
  curCount :: int
  maxCount :: int
  timeInterval :: int
  punishInterval :: int

definition clearRunntimeData :: "activator \<Rightarrow> activator" where
  "clearRunntimeData a = a\<lparr> activingRecord := [], limited := False, curCount := 0 \<rparr>"

definition new_activator :: "int \<Rightarrow> int \<Rightarrow> int \<Rightarrow> activator" where
  "new_activator iTimeInterval iMaxCount iPunishInterval =
     clearRunntimeData \<lparr> activingRecord = [], limited = False, curCount = 0, maxCount = iMaxCount,
       timeInterval = iTimeInterval, punishInterval = iPunishInterval \<rparr>"

definition setLimitInfo :: "int \<Rightarrow> int \<Rightarrow> int \<Rightarrow> activator \<Rightarrow> activator" where
  "setLimitInfo iTimeInterval iMaxCount iPunishInterval a =
     clearRunntimeData (a\<lparr> timeInterval := iTimeInterval, maxCount := iMaxCount, punishInterval := iPunishInterval \<rparr>)"

definition isActivatingLimited :: "int \<Rightarrow> activator \<Rightarrow> bool" where
  "isActivatingLimited now a \<longleftrightarrow>
     limited a \<and> activingRecord a \<noteq> [] \<and> now - last (activingRecord a) < punishInterval a"

text \<open>The comparison with \<open>_punishInterval * 1.5\<close> is exact in twice the values.\<close>

definition addActivatingRecord :: "int \<Rightarrow> activator \<Rightarrow> activator" where
  "addActivatingRecord tNow a =
     (let a1 = (if activingRecord a \<noteq> [] then
             (let lst = last (activingRecord a);
                  b = (if tNow - lst < timeInterval a then a\<lparr> curCount := curCount a + 1 \<rparr> else a);
                  c = (if limited b \<and> 2 * (tNow - lst) > 3 * punishInterval b
                       then b\<lparr> curCount := 0, limited := False, activingRecord := [] \<rparr> else b)
              in if curCount c > maxCount c then c\<lparr> limited := True \<rparr> else c)
           else a)
      in a1\<lparr> activingRecord := activingRecord a1 @ [tNow] \<rparr>)"

text \<open>The lines \<open>name=value\<close> of a script's output; the notification of \<open>notify\<close> lines is left out.\<close>

definition parseScriptResult :: "tc_common \<Rightarrow> string \<Rightarrow> string \<Rightarrow> string option" where
  "parseScriptResult tc strResult =
     fold (\<lambda>line m. case str_find CHR ''='' line of
         None \<Rightarrow> m
       | Some pos \<Rightarrow>
           m(tc_lower tc (tc_trim tc (take pos line)) \<mapsto> tc_trim tc (drop (pos + 1) line)))
       (tc_sepstr tc strResult [char_of (10 :: nat)] False) Map.empty"

section \<open>Core file limit\<close>

record server_limit_resource =
  closeCore :: bool
  curExcStopCount :: int
  maxExcStopCount :: int
  excStopRecordTime :: int
  coreLimitTimeInterval :: int
  enableCoreLimitTime :: int
  coreLimitExpiredTime :: int

definition resetRunTimeData :: "int \<Rightarrow> server_limit_resource \<Rightarrow> server_limit_resource" where
  "resetRunTimeData tNow r =
     r\<lparr> closeCore := False, curExcStopCount := 0, excStopRecordTime := tNow, enableCoreLimitTime := 0 \<rparr>"

definition new_limit_resource :: "int \<Rightarrow> int \<Rightarrow> int \<Rightarrow> int \<Rightarrow> server_limit_resource" where
  "new_limit_resource tNow iMaxCount iTimeInterval iExpiredTime =
     resetRunTimeData tNow \<lparr> closeCore = False, curExcStopCount = 0, maxExcStopCount = iMaxCount,
       excStopRecordTime = 0, coreLimitTimeInterval = iTimeInterval * 60, enableCoreLimitTime = 0,
       coreLimitExpiredTime = iExpiredTime * 60 \<rparr>"

definition setLimitCheckInfo :: "int \<Rightarrow> int \<Rightarrow> int \<Rightarrow> server_limit_resource \<Rightarrow> server_limit_resource" where
  "setLimitCheckInfo iMaxCount iTimeInterval iExpiredTime r =
     r\<lparr> maxExcStopCount := (if iMaxCount > 0 then iMaxCount else 1),
        coreLimitTimeInterval := (if iTimeInterval > 0 then iTimeInterval else 1) * 60,
        coreLimitExpiredTime := (if iExpiredTime > 0 then iExpiredTime else 1) * 60 \<rparr>"

definition addExcStopRecord :: "int \<Rightarrow> server_limit_resource \<Rightarrow> server_limit_resource" where
  "addExcStopRecord tNow r =
     (if tNow - excStopRecordTime r < coreLimitTimeInterval r then
        (let r1 = r\<lparr> curExcStopCount := curExcStopCount r + 1 \<rparr>
         in if \<not> closeCore r1 \<and> curExcStopCount r1 \<ge> maxExcStopCount r1
            then r1\<lparr> closeCore := True, enableCoreLimitTime := tNow \<rparr> else r1)
      else r\<lparr> curExcStopCount := 1, excStopRecordTime := tNow \<rparr>)"

text \<open>The result is the return value, the output parameter and the new state.\<close>

definition IsCoreLimitNeedClose :: "int \<Rightarrow> server_limit_resource \<Rightarrow> int \<times> bool \<times> server_limit_resource" where
  "IsCoreLimitNeedClose tNow r =
     (if closeCore r then
        if tNow - enableCoreLimitTime r < coreLimitExpiredTime r then (1, True, r)
        else (2, False, r\<lparr> curExcStopCount := 0, closeCore := False, excStopRecordTime := 0, enableCoreLimitTime := 0 \<rparr>)
      else (1, False, r))"

section \<open>The restart counter along a history\<close>

text \<open>A burst: every start comes less than the interval after the previous one.\<close>

fun burst :: "int \<Rightarrow> int list \<Rightarrow> bool" where
  "burst iv (t # u # ts) \<longleftrightarrow> u - t < iv \<and> burst iv (u # ts)"
| "burst iv _ \<longleftrightarrow> True"

definition starts :: "int list \<Rightarrow> activator \<Rightarrow> activator" where
  "starts ts a = fold addActivatingRecord ts a"

lemma burst_snoc: "burst iv (ts @ [t]) \<longleftrightarrow> burst iv ts \<and> (ts \<noteq> [] \<longrightarrow> t - last ts < iv)"
  by (induction iv ts rule: burst.induct) auto

lemma starts_burst:
  assumes "burst (timeInterval a) ts" and "a = clearRunntimeData a" and "0 \<le> maxCount a"
    and "2 * timeInterval a \<le> 3 * punishInterval a"
  shows "starts ts a = a\<lparr> activingRecord := ts, curCount := (if ts = [] then 0 else int (length ts) - 1),
    limited := int (length ts) - 1 > maxCount a \<rparr>"
  using assms(1)
proof (induction ts rule: rev_induct)
  case Nil
  with assms(3) show ?case
    by (subst assms(2)) (simp add: starts_def clearRunntimeData_def)
next
  case (snoc t ts)
  then have IH: "starts ts a = a\<lparr> activingRecord := ts, curCount := (if ts = [] then 0 else int (length ts) - 1),
    limited := int (length ts) - 1 > maxCount a \<rparr>" by (simp add: burst_snoc)
  have step: "starts (ts @ [t]) a = addActivatingRecord t (starts ts a)" by (simp add: starts_def)
  show ?case
  proof (cases "ts = []")
    case True
    with assms(3) show ?thesis unfolding step IH by (simp add: addActivatingRecord_def)
  next
    case False
    with snoc.prems have gap: "t - last ts < timeInterval a" by (simp add: burst_snoc)
    then have "\<not> 2 * (t - last ts) > 3 * punishInterval a" using assms(4) by simp
    with gap False show ?thesis by (simp add: step IH addActivatingRecord_def Let_def)
  qed
qed

section \<open>The core limit along a history\<close>

datatype limit_event = ExcStop int | LimitCheck int

fun limit_step :: "limit_event \<Rightarrow> server_limit_resource \<Rightarrow> server_limit_resource" where
  "limit_step (ExcStop t) r = addExcStopRecord t r"
| "limit_step (LimitCheck t) r = snd (snd (IsCoreLimitNeedClose t r))"

text \<open>While core files are allowed the count stays below the maximum, a fresh window's first stop aside.\<close>

definition limit_inv :: "server_limit_resource \<Rightarrow> bool" where
  "limit_inv r \<longleftrightarrow> 0 \<le> curExcStopCount r \<and> 1 \<le> maxExcStopCount r \<and>
     (\<not> closeCore r \<longrightarrow> curExcStopCount r < maxExcStopCount r \<or> curExcStopCount r = 1)"

interpretation core_limit: event_system limit_step limit_inv
proof
  fix r e
  assume "limit_inv r"
  then show "limit_inv (limit_step e r)"
    by (cases e) (auto simp: limit_inv_def addExcStopRecord_def IsCoreLimitNeedClose_def Let_def)
qed

section \<open>Properties\<close>

text \<open>
  Fact (burst_limit_exact). In a burst of restarts, each within the interval of the one
  before, automatic starts become limited exactly with start number \<open>maxCount + 2\<close>, and stay
  limited until the punishment interval after the last start has passed.
\<close>

theorem burst_limit_exact:
  assumes "burst iTime ts" and "ts \<noteq> []" and "0 \<le> iMax" and "2 * iTime \<le> 3 * iPunish"
  shows "isActivatingLimited now (starts ts (new_activator iTime iMax iPunish)) \<longleftrightarrow>
    int (length ts) \<ge> iMax + 2 \<and> now - last ts < iPunish"
proof -
  have "burst (timeInterval (new_activator iTime iMax iPunish)) ts"
    using assms(1) by (simp add: new_activator_def clearRunntimeData_def)
  from starts_burst[OF this] assms(2-4) show ?thesis
    by (auto simp: new_activator_def clearRunntimeData_def isActivatingLimited_def)
qed

text \<open>
  Fact (slow_restarts_are_limited). The counter never forgets: a server that is restarted
  every 50 seconds is limited from the twelfth start on although no minute holds more than two
  starts (the constructor's comment promises ten starts within 60 seconds).
\<close>

theorem slow_restarts_are_limited:
  "isActivatingLimited now (starts (map (\<lambda>k. 50 * int k) [0..<n]) (new_activator 60 10 600)) \<longleftrightarrow>
     n \<ge> 12 \<and> now - 50 * (int n - 1) < 600"
proof (cases "n = 0")
  case True
  then show ?thesis by (simp add: starts_def new_activator_def clearRunntimeData_def isActivatingLimited_def)
next
  case False
  have "burst 60 (map (\<lambda>k. 50 * int k) [0..<n])" for n
    by (induction n) (auto simp: burst_snoc last_map)
  from burst_limit_exact[OF this[of n], of 10 600 now] False show ?thesis
    by (auto simp: last_map)
qed

text \<open>
  Fact (core_limit_cycle). The stop that reaches the maximum within the window closes core
  files; every check before the expiry says so, the first check at or after it reports the change
  (2), reopens them and clears the counters, and the checks after that report nothing to change.
\<close>

theorem core_limit_cycle:
  assumes "\<not> closeCore r" and "curExcStopCount r + 1 \<ge> maxExcStopCount r"
    and "t - excStopRecordTime r < coreLimitTimeInterval r" and "q = addExcStopRecord t r"
  shows "IsCoreLimitNeedClose u q =
    (if u - t < coreLimitExpiredTime r then (1, True, q)
     else (2, False, q\<lparr> curExcStopCount := 0, closeCore := False, excStopRecordTime := 0, enableCoreLimitTime := 0 \<rparr>))
   \<and> (u - t \<ge> coreLimitExpiredTime r \<longrightarrow>
       IsCoreLimitNeedClose v (snd (snd (IsCoreLimitNeedClose u q))) =
         (1, False, snd (snd (IsCoreLimitNeedClose u q))))"
  using assms by (simp add: addExcStopRecord_def IsCoreLimitNeedClose_def Let_def)

text \<open>
  Fact (core_open_below_maximum). After any history of abnormal stops and checks, core files
  are allowed only while the count is below the maximum, with the exception of the first stop of a
  new window, which is never compared with it.
\<close>

theorem core_open_below_maximum:
  assumes "1 \<le> iMax" and "r = fold limit_step es (new_limit_resource t0 iMax iTime iExpire)"
  shows "closeCore r \<or> curExcStopCount r < maxExcStopCount r \<or> curExcStopCount r = 1"
proof -
  have "limit_inv (new_limit_resource t0 iMax iTime iExpire)"
    using assms(1) by (simp add: limit_inv_def new_limit_resource_def resetRunTimeData_def)
  from core_limit.run_inv[OF this, of es] show ?thesis by (auto simp: assms(2) limit_inv_def)
qed

section \<open>Examples\<close>

theorem burst_limit_exact_witness:
  "isActivatingLimited 12 (starts [0, 1, 2, 3] (new_activator 60 2 600))"
  using burst_limit_exact[of 60 "[0, 1, 2, 3]" 2 600 12] by simp

theorem core_limit_cycle_witness:
  "IsCoreLimitNeedClose 100 (addExcStopRecord 50 ((new_limit_resource 0 2 5 30)\<lparr> curExcStopCount := 1 \<rparr>)) =
     (1, True, addExcStopRecord 50 ((new_limit_resource 0 2 5 30)\<lparr> curExcStopCount := 1 \<rparr>))"
  using core_limit_cycle[of "(new_limit_resource 0 2 5 30)\<lparr> curExcStopCount := 1 \<rparr>" 50 _ 100 0, OF _ _ _ refl]
  by (simp add: new_limit_resource_def resetRunTimeData_def)

theorem core_open_below_maximum_witness:
  "closeCore (fold limit_step [ExcStop 1, ExcStop 2] (new_limit_resource 0 5 10 60)) \<or>
   curExcStopCount (fold limit_step [ExcStop 1, ExcStop 2] (new_limit_resource 0 5 10 60)) < 5 \<or>
   curExcStopCount (fold limit_step [ExcStop 1, ExcStop 2] (new_limit_resource 0 5 10 60)) = 1"
  using core_open_below_maximum[of 5 _ "[ExcStop 1, ExcStop 2]" 0 10 60, OF _ refl]
  by (simp add: new_limit_resource_def resetRunTimeData_def addExcStopRecord_def Let_def)

end
