(* ===== verification/Tars_Map.thy ===== *)
theory Tars_Map
  imports Tars_Prelude
begin

text \<open>
  \<open>std::map\<close> as the sources use it: a finite map whose iteration runs in key order. The model is
  an association list kept sorted by key, with \<open>find\<close>, assignment through \<open>operator[]\<close> and
  \<open>erase\<close>. The interface is the locale \<open>std_map\<close>; what the servers rely on (bulk assignment in a
  loop, the update-or-insert idiom) is proved once inside it.
\<close>

type_synonym ('k, 'v) omap = "('k \<times> 'v) list"

abbreviation om_find :: "('k, 'v) omap \<Rightarrow> 'k \<Rightarrow> 'v option" where
  "om_find \<equiv> map_of"

fun om_put :: "'k::linorder \<Rightarrow> 'v \<Rightarrow> ('k, 'v) omap \<Rightarrow> ('k, 'v) omap" where
  "om_put k v [] = [(k, v)]"
| "om_put k v ((k', v') # m) =
     (if k = k' then (k, v) # m
      else if k < k' then (k, v) # (k', v') # m
      else (k', v') # om_put k v m)"

definition om_erase :: "'k \<Rightarrow> ('k, 'v) omap \<Rightarrow> ('k, 'v) omap" where
  "om_erase k m = filter (\<lambda>e. fst e \<noteq> k) m"

definition om_ok :: "('k::linorder, 'v) omap \<Rightarrow> bool" where
  "om_ok m \<longleftrightarrow> sorted_wrt (<) (map fst m)"

text \<open>\<open>m[k]\<close> read through \<open>operator[]\<close>: a missing key yields the default value.\<close>

definition om_get :: "'v \<Rightarrow> ('k, 'v) omap \<Rightarrow> 'k \<Rightarrow> 'v" where
  "om_get d m k = (case om_find m k of None \<Rightarrow> d | Some v \<Rightarrow> v)"

text \<open>The loop \<open>for (e : src) dst[e.first] = e.second;\<close>.\<close>

definition om_put_all :: "('k::linorder, 'v) omap \<Rightarrow> ('k, 'v) omap \<Rightarrow> ('k, 'v) omap" where
  "om_put_all src dst = fold (\<lambda>e. om_put (fst e) (snd e)) src dst"

lemma om_find_put [simp]: "om_find (om_put k v m) = (om_find m)(k \<mapsto> v)"
  by (induction k v m rule: om_put.induct) (auto simp: fun_eq_iff)

lemma om_find_erase [simp]: "om_find (om_erase k m) = (om_find m)(k := None)"
  by (induction m) (auto simp: om_erase_def fun_eq_iff)

lemma om_get_put [simp]: "om_get d (om_put k v m) k' = (if k' = k then v else om_get d m k')"
  by (simp add: om_get_def)

lemma om_get_Nil [simp]: "om_get d [] k = d"
  by (simp add: om_get_def)

lemma om_put_keys [simp]: "fst ` set (om_put k v m) = insert k (fst ` set m)"
  by (induction k v m rule: om_put.induct) auto

lemma om_put_set: "set (om_put k v m) \<subseteq> insert (k, v) (set m)"
  by (induction k v m rule: om_put.induct) auto

lemma om_ok_Nil [simp]: "om_ok []"
  by (simp add: om_ok_def)

lemma om_ok_Cons: "om_ok (e # m) \<longleftrightarrow> (\<forall>k \<in> fst ` set m. fst e < k) \<and> om_ok m"
  by (auto simp: om_ok_def)

lemma om_ok_put [simp]: "om_ok m \<Longrightarrow> om_ok (om_put k v m)"
proof (induction k v m rule: om_put.induct)
  case (1 k v)
  then show ?case by (simp add: om_ok_Cons)
next
  case (2 k v k' v' m)
  then have below: "\<forall>x \<in> fst ` set m. k' < x" and "om_ok m"
    by (simp_all add: om_ok_Cons)
  show ?case
  proof (cases "k < k' \<or> k = k'")
    case True
    with below \<open>om_ok m\<close> show ?thesis by (auto simp: om_ok_Cons)
  next
    case False
    then have "k' < k" by (metis linorder_cases)
    with below have "\<forall>x \<in> fst ` set (om_put k v m). k' < x" by simp
    with False 2 \<open>om_ok m\<close> show ?thesis by (simp add: om_ok_Cons)
  qed
qed

lemma om_ok_erase [simp]: "om_ok m \<Longrightarrow> om_ok (om_erase k m)"
  by (induction m) (auto simp: om_ok_Cons om_erase_def)

lemma om_ok_filter: "om_ok m \<Longrightarrow> om_ok (filter P m)"
  by (induction m) (auto simp: om_ok_Cons)

lemma om_ok_distinct: "om_ok m \<Longrightarrow> distinct (map fst m)"
  by (induction m) (auto simp: om_ok_Cons)

lemma om_find_set: "om_ok m \<Longrightarrow> om_find m k = Some v \<longleftrightarrow> (k, v) \<in> set m"
  by (simp add: om_ok_distinct)

section \<open>The interface\<close>

locale std_map =
  fixes find :: "'m \<Rightarrow> 'k \<Rightarrow> 'v option"
    and put :: "'k \<Rightarrow> 'v \<Rightarrow> 'm \<Rightarrow> 'm"
    and erase :: "'k \<Rightarrow> 'm \<Rightarrow> 'm"
    and ok :: "'m \<Rightarrow> bool"
  assumes find_put: "find (put k v m) = (find m)(k \<mapsto> v)"
    and find_erase: "find (erase k m) = (find m)(k := None)"
    and ok_put: "ok m \<Longrightarrow> ok (put k v m)"
    and ok_erase: "ok m \<Longrightarrow> ok (erase k m)"
begin

lemma find_put_same: "find (put k v m) k = Some v"
  by (simp add: find_put)

lemma find_put_other: "k' \<noteq> k \<Longrightarrow> find (put k v m) k' = find m k'"
  by (simp add: find_put)

lemma ok_put_loop: "ok m \<Longrightarrow> ok (fold (\<lambda>e. put (fst e) (snd e)) es m)"
  by (induction es arbitrary: m) (auto intro: ok_put)

lemma find_put_loop:
  "find (fold (\<lambda>e. put (fst e) (snd e)) es m) k =
     (case map_of (rev es) k of Some v \<Rightarrow> Some v | None \<Rightarrow> find m k)"
  by (induction es arbitrary: m) (auto simp: find_put map_add_Some_iff split: option.splits)

lemma find_put_const_loop:
  "find (fold (\<lambda>x. put (f x) v) xs m) k = (if k \<in> f ` set xs then Some v else find m k)"
  by (induction xs arbitrary: m) (auto simp: find_put)

end

interpretation om: std_map om_find om_put om_erase om_ok
  by unfold_locales auto

text \<open>The loop that copies one map over another, read key by key.\<close>

lemma map_of_rev_distinct: "distinct (map fst m) \<Longrightarrow> map_of (rev m) = map_of m"
  by (rule map_of_inject_set[THEN iffD2]) (simp_all add: rev_map[symmetric])

lemma om_find_put_all:
  "om_ok src \<Longrightarrow> om_find (om_put_all src dst) k =
     (case om_find src k of Some v \<Rightarrow> Some v | None \<Rightarrow> om_find dst k)"
  unfolding om_put_all_def om.find_put_loop
  by (simp add: map_of_rev_distinct om_ok_distinct)

lemma om_ok_put_all: "om_ok dst \<Longrightarrow> om_ok (om_put_all src dst)"
  unfolding om_put_all_def by (rule om.ok_put_loop)

end
