(* ===== verification/Node_Server.thy ===== *)
theory Node_Server
  imports Node_Limit Tars_Map
begin

text \<open>
  \<open>NodeServer/ServerObject\<close>: what a node knows of one server and how that changes. The object is a
  record; everything a handler reads from outside (the clock, whether a process is alive, what
  docker says, what the registry answers) is an oracle indexed by the number of interactions so
  far, so that every interleaving of answers is covered. Reports to the registry are recorded in
  the order they are sent. Log lines and \<open>g_app.reportServer\<close> messages are left out.
\<close>

section \<open>States\<close>

datatype internal_state = Inactive | Activating | Active | Deactivating | Destroying | Destroyed
  | Loading | Patching | BatchPatching | AddFilesing

fun toServerState :: "internal_state \<Rightarrow> server_state" where
  "toServerState Inactive = tars_Inactive"
| "toServerState Activating = tars_Activating"
| "toServerState Active = tars_Active"
| "toServerState Deactivating = tars_Deactivating"
| "toServerState Destroying = tars_Destroying"
| "toServerState Destroyed = tars_Destroyed"
| "toServerState _ = tars_Inactive"

fun toStringState :: "internal_state \<Rightarrow> string" where
  "toStringState Inactive = ''Inactive''"
| "toStringState Activating = ''Activating''"
| "toStringState Active = ''Active''"
| "toStringState Deactivating = ''Deactivating''"
| "toStringState Destroying = ''Destroying''"
| "toStringState Destroyed = ''Destroyed''"
| "toStringState Loading = ''Loading''"
| "toStringState Patching = ''Patching''"
| "toStringState BatchPatching = ''BatchPatching''"
| "toStringState AddFilesing = ''AddFilesing''"

text \<open>The test \<open>toStringState(_state).find("ing") != npos\<close> for a state in transition.\<close>

definition in_transition :: "internal_state \<Rightarrow> bool" where
  "in_transition st = str_contains (toStringState st) ''ing''"

section \<open>Data\<close>

record patch_info =
  bPatching :: bool
  iPercent :: int
  iModifyTime :: int
  sVersion :: string
  sResult :: string
  bSucc :: bool

datatype core_type = EM_AUTO_LIMIT | EM_MANUAL_LIMIT

record server_limit_info =
  bEnableCoreLimit :: bool
  bCloseCore :: bool
  eCoreType :: core_type
  iMaxExcStopCount :: int
  iCoreLimitTimeInterval :: int
  iCoreLimitExpiredTime :: int
  iActivatorMaxCount :: int
  iActivatorTimeInterval :: int
  iActivatorPunishInterval :: int

record server_descriptor =
  d_application :: string
  d_serverName :: string
  d_runType :: string
  d_settingState :: string
  d_adapters :: "string list"

record server_object =
  so_tarsServer :: bool
  so_serverType :: string
  so_container :: bool
  so_enabled :: bool
  so_loaded :: bool
  so_patched :: bool
  so_noticed :: bool
  so_noticeFailTimes :: nat
  so_enSynState :: bool
  so_application :: string
  so_serverName :: string
  so_desc :: server_descriptor
  so_startScript :: string
  so_stopScript :: string
  so_monitorScript :: string
  so_exePath :: string
  so_exeFile :: string
  so_macro :: "(string, string) omap"
  so_ports :: "(string, string \<times> int) omap"
  so_patchInfo :: patch_info
  so_pid :: int
  so_version :: string
  so_procStartTime :: int
  so_activator :: activator
  so_keepAliveTime :: int
  so_adapterKeepAliveTime :: "(string, int) omap"
  so_state :: internal_state
  so_lastState :: internal_state
  so_timeout :: int
  so_coreTimeout :: int
  so_activatingTimeout :: int
  so_limitStateUpdated :: bool
  so_limitStateInfo :: server_limit_info
  so_limitResource :: server_limit_resource
  so_started :: bool
  so_startTime :: int
  so_isStarting :: bool

section \<open>The world around an object\<close>

text \<open>
  \<open>c_status\<close>, \<open>c_start\<close> and \<open>c_pid\<close> are what \<open>docker inspect\<close> says of the container; \<open>None\<close>
  is a failed call. A registry call either returns a code or raises (\<open>None\<close>).
\<close>

record container_info =
  c_status :: string
  c_start :: int
  c_pid :: int

record node_env =
  e_now :: "nat \<Rightarrow> int"
  e_now_ms :: "nat \<Rightarrow> int"
  e_alive :: "nat \<Rightarrow> int \<Rightarrow> bool"
  e_pid_start :: "nat \<Rightarrow> int \<Rightarrow> int"
  e_inspect :: "nat \<Rightarrow> container_info option"
  e_pulling :: "nat \<Rightarrow> bool"
  e_registry :: "nat \<Rightarrow> int option"

text \<open>A report: sent and awaited (\<open>updateServer\<close>) or sent asynchronously.\<close>

datatype update = SyncUpdate server_state int | AsyncUpdate server_state int

text \<open>What a handler does to the operating system, in order.\<close>

datatype action =
    StartScript string
  | StartProcess string
  | StartContainer
  | StopScript string
  | AdminShutdown
  | KillProcess int
  | AbortProcess int
  | DockerStop
  | NotifyServer string
  | RemovePath string

record node_state =
  ob :: server_object
  tick :: nat
  sent :: "update list"
  acts :: "action list"

abbreviation now :: "node_env \<Rightarrow> node_state \<Rightarrow> int" where
  "now e s \<equiv> e_now e (tick s)"

abbreviation now_ms :: "node_env \<Rightarrow> node_state \<Rightarrow> int" where
  "now_ms e s \<equiv> e_now_ms e (tick s)"

abbreviation state_of :: "node_state \<Rightarrow> internal_state" where
  "state_of s \<equiv> so_state (ob s)"

definition on_ob :: "(server_object \<Rightarrow> server_object) \<Rightarrow> node_state \<Rightarrow> node_state" where
  "on_ob f s = s\<lparr> ob := f (ob s) \<rparr>"

definition pass_time :: "node_state \<Rightarrow> node_state" where
  "pass_time s = s\<lparr> tick := Suc (tick s) \<rparr>"

section \<open>Configuration\<close>

definition setLastKeepAliveTime :: "int \<Rightarrow> string \<Rightarrow> server_object \<Rightarrow> server_object" where
  "setLastKeepAliveTime t adapter so =
     (let so1 = so\<lparr> so_keepAliveTime := t \<rparr>
      in if adapter = [] then so1\<lparr> so_adapterKeepAliveTime := map (\<lambda>e. (fst e, t)) (so_adapterKeepAliveTime so1) \<rparr>
         else if om_find (so_adapterKeepAliveTime so1) adapter \<noteq> None
              then so1\<lparr> so_adapterKeepAliveTime := om_put adapter t (so_adapterKeepAliveTime so1) \<rparr>
              else so1)"

definition getLastKeepAliveTime :: "string \<Rightarrow> server_object \<Rightarrow> int" where
  "getLastKeepAliveTime adapter so =
     (if adapter = [] then so_keepAliveTime so else om_get (-1) (so_adapterKeepAliveTime so) adapter)"

definition setServerDescriptor :: "server_descriptor \<Rightarrow> int \<Rightarrow> server_object \<Rightarrow> server_object" where
  "setServerDescriptor tDesc t so =
     (let so1 = so\<lparr> so_desc := tDesc, so_application := d_application tDesc, so_serverName := d_serverName tDesc,
             so_container := (d_runType tDesc = ''container''),
             so_enabled := (d_settingState tDesc = ''active''),
             so_adapterKeepAliveTime := om_put ''AdminAdapter'' t (fold (\<lambda>a. om_put a t) (d_adapters tDesc) []) \<rparr>
      in setLastKeepAliveTime t [] so1)"

definition setEnabled :: "bool \<Rightarrow> server_object \<Rightarrow> server_object" where
  "setEnabled enable so = so\<lparr> so_enabled := enable \<rparr>"

definition setPatched :: "bool \<Rightarrow> server_object \<Rightarrow> server_object" where
  "setPatched b so = so\<lparr> so_patched := b, so_patchInfo := (so_patchInfo so)\<lparr> iPercent := 100 \<rparr> \<rparr>"

definition setLoaded :: "bool \<Rightarrow> server_object \<Rightarrow> server_object" where
  "setLoaded b so = so\<lparr> so_loaded := b \<rparr>"

definition setEnSynState :: "bool \<Rightarrow> server_object \<Rightarrow> server_object" where
  "setEnSynState b so = so\<lparr> so_enSynState := b \<rparr>"

definition setStarted :: "bool \<Rightarrow> server_object \<Rightarrow> server_object" where
  "setStarted b so = so\<lparr> so_started := b \<rparr>"

definition setStartTime :: "int \<Rightarrow> server_object \<Rightarrow> server_object" where
  "setStartTime t so = so\<lparr> so_startTime := t \<rparr>"

definition setStarting :: "bool \<Rightarrow> server_object \<Rightarrow> server_object" where
  "setStarting b so = so\<lparr> so_isStarting := b \<rparr>"

definition setLastState :: "internal_state \<Rightarrow> server_object \<Rightarrow> server_object" where
  "setLastState st so = so\<lparr> so_lastState := st \<rparr>"

text \<open>\<open>setMacro\<close> overwrites or adds every entry.\<close>

definition setMacro :: "(string, string) omap \<Rightarrow> server_object \<Rightarrow> server_object" where
  "setMacro mMacro so = so\<lparr> so_macro := om_put_all mMacro (so_macro so) \<rparr>"

definition setServerType :: "tc_common \<Rightarrow> string \<Rightarrow> server_object \<Rightarrow> server_object" where
  "setServerType tc t so =
     (let ty = tc_lower tc (tc_trim tc t)
      in so\<lparr> so_serverType := ty, so_tarsServer := (ty \<noteq> ''not_tars'') \<rparr>)"

text \<open>One line of the port table: \<open>80/tcp\<close> with \<open>ip:port\<close>.\<close>

definition addPorts :: "tc_common \<Rightarrow> (string, string) omap \<Rightarrow> server_object \<Rightarrow> server_object" where
  "addPorts tc lines so =
     fold (\<lambda>e so. case str_rfind CHR '':'' (snd e) of
         None \<Rightarrow> so
       | Some c \<Rightarrow> so\<lparr> so_ports := om_put (fst e) (take c (snd e), tc_strto_int tc (drop (c + 1) (snd e))) (so_ports so) \<rparr>)
       lines so"

section \<open>Patch progress\<close>

definition setPatchPercent :: "int \<Rightarrow> int \<Rightarrow> server_object \<Rightarrow> server_object" where
  "setPatchPercent p t so =
     so\<lparr> so_patchInfo := (so_patchInfo so)\<lparr> iPercent := (if p > 99 then 99 else p), iModifyTime := t \<rparr> \<rparr>"

definition setPatchResult :: "string \<Rightarrow> bool \<Rightarrow> server_object \<Rightarrow> server_object" where
  "setPatchResult r succ so = so\<lparr> so_patchInfo := (so_patchInfo so)\<lparr> sResult := r, bSucc := succ \<rparr> \<rparr>"

definition setPatchVersion :: "string \<Rightarrow> server_object \<Rightarrow> server_object" where
  "setPatchVersion v so = so\<lparr> so_patchInfo := (so_patchInfo so)\<lparr> sVersion := v \<rparr> \<rparr>"

definition getPatchPercent :: "server_object \<Rightarrow> int \<times> patch_info" where
  "getPatchPercent so =
     (let busy = (so_state so = Patching \<or> so_state so = BatchPatching);
          t = (so_patchInfo so)\<lparr> bPatching := busy \<rparr>
      in (if bSucc t \<or> so_state so = Patching \<or> so_state so = BatchPatching then 0 else -1, t))"

section \<open>Reporting the state\<close>

definition onUpdateServerResult :: "int \<Rightarrow> server_object \<Rightarrow> server_object" where
  "onUpdateServerResult result so =
     (if result < 0 then so\<lparr> so_noticed := False, so_noticeFailTimes := so_noticeFailTimes so + 1 \<rparr>
      else so\<lparr> so_noticed := True, so_noticeFailTimes := 0 \<rparr>)"

definition callback_updateServer :: "int \<Rightarrow> server_object \<Rightarrow> server_object" where
  "callback_updateServer ret so = onUpdateServerResult ret so"

definition callback_updateServer_exception :: "int \<Rightarrow> server_object \<Rightarrow> server_object" where
  "callback_updateServer_exception ret so = onUpdateServerResult (if ret = 0 then -1 else ret) so"

definition reported :: "server_object \<Rightarrow> server_state" where
  "reported so = (if so_enSynState so then toServerState (so_state so) else tars_Inactive)"

definition synState :: "node_env \<Rightarrow> node_state \<Rightarrow> node_state" where
  "synState e s =
     (if so_noticeFailTimes (ob s) < 3 then
        let s1 = pass_time (s\<lparr> sent := sent s @ [SyncUpdate (reported (ob s)) (so_pid (ob s))] \<rparr>)
        in case e_registry e (tick s) of
             None \<Rightarrow> on_ob (\<lambda>so. so\<lparr> so_noticed := False, so_noticeFailTimes := so_noticeFailTimes so + 1 \<rparr>) s1
           | Some ret \<Rightarrow>
               on_ob (\<lambda>so. so\<lparr> so_noticed := True, so_noticeFailTimes := 0 \<rparr>) (on_ob (onUpdateServerResult ret) s1)
      else
        let s1 = s\<lparr> sent := sent s @ [AsyncUpdate (reported (ob s)) (so_pid (ob s))] \<rparr>
        in on_ob (\<lambda>so. so\<lparr> so_noticed := True, so_noticeFailTimes := 0 \<rparr>) s1)"

definition asyncSynState :: "node_state \<Rightarrow> node_state" where
  "asyncSynState s = s\<lparr> sent := sent s @ [AsyncUpdate (reported (ob s)) (so_pid (ob s))] \<rparr>"

definition setState :: "node_env \<Rightarrow> internal_state \<Rightarrow> bool \<Rightarrow> node_state \<Rightarrow> node_state" where
  "setState e eState bSynState s =
     (if state_of s = eState \<and> so_noticed (ob s) then s
      else
        let s1 = (if state_of s \<noteq> eState then on_ob (\<lambda>so. so\<lparr> so_state := eState \<rparr>) s else s)
        in if bSynState then synState e s1 else s1)"

section \<open>Process id\<close>

definition setPid :: "node_env \<Rightarrow> int \<Rightarrow> node_state \<Rightarrow> node_state" where
  "setPid e p s =
     (if p = so_pid (ob s) then s
      else on_ob (\<lambda>so.
        (let so1 = so\<lparr> so_pid := p \<rparr>
         in if p \<noteq> 0 then (if \<not> so_container so1 then so1\<lparr> so_procStartTime := e_pid_start e (tick s) p \<rparr> else so1)
            else so1\<lparr> so_procStartTime := 0 \<rparr>)) s)"

text \<open>The process table or the container is looked at once per call; the look takes time.\<close>

definition checkPid :: "node_env \<Rightarrow> node_state \<Rightarrow> int \<times> node_state" where
  "checkPid e s =
     (if so_container (ob s) then
        (case e_inspect e (tick s) of
           Some c \<Rightarrow>
             if c_status c = ''running'' then
               (0, pass_time (setPid e (c_pid c) (on_ob (\<lambda>so. so\<lparr> so_procStartTime := c_start c \<rparr>) s)))
             else (if e_pulling e (tick s) then 0 else -1, pass_time s)
         | None \<Rightarrow> (if e_pulling e (tick s) then 0 else -1, pass_time s))
      else if so_pid (ob s) > 0 then (if e_alive e (tick s) (so_pid (ob s)) then 0 else -1, pass_time s)
      else (-1, pass_time s))"

section \<open>Heart beats\<close>

definition keepAlive :: "node_env \<Rightarrow> int \<Rightarrow> string \<Rightarrow> node_state \<Rightarrow> node_state" where
  "keepAlive e p adapter s =
     (if p \<le> 0 then s
      else
        let s1 = on_ob (setLastKeepAliveTime (now e s) adapter) s;
            (flag, s2) = checkPid e s1;
            s3 = (if flag \<noteq> 0 \<or> state_of s2 \<noteq> Active
                  then (if \<not> so_container (ob s2) then setPid e p s2 else s2) else s2);
            s4 = (if \<not> in_transition (state_of s3) \<or> state_of s3 = Activating then setState e Active True s3 else s3)
        in on_ob (\<lambda>so. let so1 = (if \<not> so_loaded so then so\<lparr> so_loaded := True \<rparr> else so)
                       in if \<not> so_patched so1 then so1\<lparr> so_patched := True \<rparr> else so1) s4)"

definition keepActiving :: "node_env \<Rightarrow> int \<Rightarrow> node_state \<Rightarrow> node_state" where
  "keepActiving e p s =
     (if p \<le> 0 then s
      else
        let s1 = on_ob (setLastKeepAliveTime (now e s) []) s;
            s2 = (if \<not> so_container (ob s1) then setPid e p s1 else s1)
        in setState e Activating True s2)"

definition isTimeOut :: "int \<Rightarrow> int \<Rightarrow> server_object \<Rightarrow> bool" where
  "isTimeOut t iTimeout so \<longleftrightarrow>
     t - so_keepAliveTime so > iTimeout \<or> (\<exists>e \<in> set (so_adapterKeepAliveTime so). t - snd e > iTimeout)"

definition isStartTimeOut :: "int \<Rightarrow> server_object \<Rightarrow> bool" where
  "isStartTimeOut t_ms so \<longleftrightarrow>
     (let timeout = (if so_activatingTimeout so > 0 then so_activatingTimeout so else 30000)
      in t_ms - so_startTime so \<ge> timeout \<and> t_ms - so_keepAliveTime so \<ge> timeout)"

definition isAutoStart :: "int \<Rightarrow> server_object \<Rightarrow> bool" where
  "isAutoStart t so =
     (if in_transition (so_state so) then False
      else if \<not> so_enabled so \<or> \<not> so_loaded so \<or> \<not> so_patched so \<or> isActivatingLimited t (so_activator so) then False
      else True)"

section \<open>Limits\<close>

definition setLimitInfoUpdate :: "bool \<Rightarrow> server_object \<Rightarrow> server_object" where
  "setLimitInfoUpdate bUpdate so = so\<lparr> so_limitStateUpdated := True \<rparr>"

definition setServerLimitInfo :: "server_limit_info \<Rightarrow> server_object \<Rightarrow> server_object" where
  "setServerLimitInfo tInfo so =
     so\<lparr> so_limitStateInfo := tInfo,
         so_limitResource := setLimitCheckInfo (iMaxExcStopCount tInfo) (iCoreLimitTimeInterval tInfo)
           (iCoreLimitExpiredTime tInfo) (so_limitResource so),
         so_activator := setLimitInfo (iActivatorTimeInterval tInfo) (iActivatorMaxCount tInfo)
           (iActivatorPunishInterval tInfo) (so_activator so),
         so_limitStateUpdated := True \<rparr>"

definition resetCoreInfo :: "int \<Rightarrow> server_object \<Rightarrow> server_object" where
  "resetCoreInfo t so = so\<lparr> so_limitResource := resetRunTimeData t (so_limitResource so) \<rparr>"

section \<open>Lemmas\<close>

lemmas [node_defs] = on_ob_def pass_time_def setEnabled_def setPatched_def setLoaded_def setEnSynState_def
  setStarted_def setStartTime_def setStarting_def setLastState_def setMacro_def setServerType_def
  setPatchPercent_def setPatchResult_def setPatchVersion_def setLimitInfoUpdate_def
  setServerLimitInfo_def resetCoreInfo_def onUpdateServerResult_def

lemma in_transition_iff:
  "in_transition st \<longleftrightarrow> st \<noteq> Inactive \<and> st \<noteq> Active \<and> st \<noteq> Destroyed"
  by (cases st) (simp_all add: in_transition_def)

lemma on_ob_simps [simp]:
  "ob (on_ob f s) = f (ob s)" "tick (on_ob f s) = tick s" "sent (on_ob f s) = sent s" "acts (on_ob f s) = acts s"
  by (simp_all add: on_ob_def)

lemma pass_time_simps [simp]:
  "ob (pass_time s) = ob s" "tick (pass_time s) = Suc (tick s)" "sent (pass_time s) = sent s"
  "acts (pass_time s) = acts s"
  by (simp_all add: pass_time_def)

text \<open>Reporting changes the notice fields only.\<close>

lemma synState_ob:
  "\<exists>n f. ob (synState e s) = (ob s)\<lparr> so_noticed := n, so_noticeFailTimes := f \<rparr>"
  by (auto simp: synState_def Let_def onUpdateServerResult_def split: option.split)

lemma synState_fields [simp]:
  "so_state (ob (synState e s)) = so_state (ob s)" "so_pid (ob (synState e s)) = so_pid (ob s)"
  "so_enabled (ob (synState e s)) = so_enabled (ob s)" "so_loaded (ob (synState e s)) = so_loaded (ob s)"
  "so_patched (ob (synState e s)) = so_patched (ob s)" "so_container (ob (synState e s)) = so_container (ob s)"
  "so_keepAliveTime (ob (synState e s)) = so_keepAliveTime (ob s)" "so_started (ob (synState e s)) = so_started (ob s)"
  "so_patchInfo (ob (synState e s)) = so_patchInfo (ob s)" "so_desc (ob (synState e s)) = so_desc (ob s)"
  "so_lastState (ob (synState e s)) = so_lastState (ob s)"
  "so_adapterKeepAliveTime (ob (synState e s)) = so_adapterKeepAliveTime (ob s)"
  "so_activator (ob (synState e s)) = so_activator (ob s)"
  "so_limitResource (ob (synState e s)) = so_limitResource (ob s)"
  "so_startTime (ob (synState e s)) = so_startTime (ob s)" "so_isStarting (ob (synState e s)) = so_isStarting (ob s)"
  using synState_ob[of e s] by auto

lemma synState_acts [simp]: "acts (synState e s) = acts s"
  by (simp add: synState_def Let_def split: option.split)

lemma setState_acts [simp]: "acts (setState e st b s) = acts s"
  by (simp add: setState_def Let_def)

lemma synState_sent: "\<exists>u. sent (synState e s) = sent s @ [u] \<and>
  (u = SyncUpdate (reported (ob s)) (so_pid (ob s)) \<or> u = AsyncUpdate (reported (ob s)) (so_pid (ob s)))"
  by (auto simp: synState_def Let_def split: option.split)

lemma setState_ob:
  "\<exists>n f. ob (setState e st b s) = (ob s)\<lparr> so_state := st, so_noticed := n, so_noticeFailTimes := f \<rparr>"
proof (cases "state_of s = st \<and> so_noticed (ob s)")
  case True
  then have "ob (setState e st b s) = (ob s)\<lparr> so_state := st, so_noticed := so_noticed (ob s),
      so_noticeFailTimes := so_noticeFailTimes (ob s) \<rparr>" by (simp add: setState_def)
  then show ?thesis by blast
next
  case False
  let ?s1 = "if state_of s \<noteq> st then on_ob (\<lambda>so. so\<lparr> so_state := st \<rparr>) s else s"
  have s1: "ob ?s1 = (ob s)\<lparr> so_state := st \<rparr>" by auto
  show ?thesis
  proof (cases b)
    case True
    with False synState_ob[of e ?s1] show ?thesis by (auto simp: setState_def Let_def s1)
  next
    case nb: False
    have "ob (setState e st b s) = (ob s)\<lparr> so_state := st, so_noticed := so_noticed (ob s),
      so_noticeFailTimes := so_noticeFailTimes (ob s) \<rparr>" using False nb by (auto simp: setState_def Let_def)
    then show ?thesis by blast
  qed
qed

lemma setState_fields [simp]:
  "so_state (ob (setState e st b s)) = st" "so_pid (ob (setState e st b s)) = so_pid (ob s)"
  "so_enabled (ob (setState e st b s)) = so_enabled (ob s)" "so_loaded (ob (setState e st b s)) = so_loaded (ob s)"
  "so_patched (ob (setState e st b s)) = so_patched (ob s)" "so_container (ob (setState e st b s)) = so_container (ob s)"
  "so_keepAliveTime (ob (setState e st b s)) = so_keepAliveTime (ob s)" "so_started (ob (setState e st b s)) = so_started (ob s)"
  "so_patchInfo (ob (setState e st b s)) = so_patchInfo (ob s)" "so_desc (ob (setState e st b s)) = so_desc (ob s)"
  "so_lastState (ob (setState e st b s)) = so_lastState (ob s)"
  "so_adapterKeepAliveTime (ob (setState e st b s)) = so_adapterKeepAliveTime (ob s)"
  "so_activator (ob (setState e st b s)) = so_activator (ob s)"
  "so_limitResource (ob (setState e st b s)) = so_limitResource (ob s)"
  "so_startTime (ob (setState e st b s)) = so_startTime (ob s)" "so_isStarting (ob (setState e st b s)) = so_isStarting (ob s)"
  using setState_ob[of e st b s] by auto

lemma setPid_fields [simp]:
  "so_pid (ob (setPid e p s)) = p" "so_state (ob (setPid e p s)) = so_state (ob s)"
  "so_enabled (ob (setPid e p s)) = so_enabled (ob s)" "so_loaded (ob (setPid e p s)) = so_loaded (ob s)"
  "so_patched (ob (setPid e p s)) = so_patched (ob s)" "so_container (ob (setPid e p s)) = so_container (ob s)"
  "so_keepAliveTime (ob (setPid e p s)) = so_keepAliveTime (ob s)" "so_started (ob (setPid e p s)) = so_started (ob s)"
  "so_patchInfo (ob (setPid e p s)) = so_patchInfo (ob s)" "so_desc (ob (setPid e p s)) = so_desc (ob s)"
  "so_noticed (ob (setPid e p s)) = so_noticed (ob s)"
  "so_noticeFailTimes (ob (setPid e p s)) = so_noticeFailTimes (ob s)"
  "so_lastState (ob (setPid e p s)) = so_lastState (ob s)"
  "so_adapterKeepAliveTime (ob (setPid e p s)) = so_adapterKeepAliveTime (ob s)"
  "so_activator (ob (setPid e p s)) = so_activator (ob s)"
  "so_limitResource (ob (setPid e p s)) = so_limitResource (ob s)"
  "so_startTime (ob (setPid e p s)) = so_startTime (ob s)" "so_isStarting (ob (setPid e p s)) = so_isStarting (ob s)"
  "sent (setPid e p s) = sent s" "tick (setPid e p s) = tick s" "acts (setPid e p s) = acts s"
  by (simp_all add: setPid_def Let_def)

lemma checkPid_fields [simp]:
  "so_state (ob (snd (checkPid e s))) = so_state (ob s)"
  "so_enabled (ob (snd (checkPid e s))) = so_enabled (ob s)" "so_loaded (ob (snd (checkPid e s))) = so_loaded (ob s)"
  "so_patched (ob (snd (checkPid e s))) = so_patched (ob s)" "so_container (ob (snd (checkPid e s))) = so_container (ob s)"
  "so_keepAliveTime (ob (snd (checkPid e s))) = so_keepAliveTime (ob s)"
  "so_started (ob (snd (checkPid e s))) = so_started (ob s)"
  "so_patchInfo (ob (snd (checkPid e s))) = so_patchInfo (ob s)" "so_desc (ob (snd (checkPid e s))) = so_desc (ob s)"
  "so_noticed (ob (snd (checkPid e s))) = so_noticed (ob s)"
  "so_noticeFailTimes (ob (snd (checkPid e s))) = so_noticeFailTimes (ob s)"
  "so_lastState (ob (snd (checkPid e s))) = so_lastState (ob s)"
  "so_adapterKeepAliveTime (ob (snd (checkPid e s))) = so_adapterKeepAliveTime (ob s)"
  "so_activator (ob (snd (checkPid e s))) = so_activator (ob s)"
  "so_limitResource (ob (snd (checkPid e s))) = so_limitResource (ob s)"
  "so_startTime (ob (snd (checkPid e s))) = so_startTime (ob s)"
  "so_isStarting (ob (snd (checkPid e s))) = so_isStarting (ob s)"
  "sent (snd (checkPid e s)) = sent s" "tick (snd (checkPid e s)) = Suc (tick s)"
  "acts (snd (checkPid e s)) = acts s"
  by (simp_all add: checkPid_def split: option.split)

lemma keepTime_fields [simp]:
  "so_state (setLastKeepAliveTime t a so) = so_state so" "so_pid (setLastKeepAliveTime t a so) = so_pid so"
  "so_enabled (setLastKeepAliveTime t a so) = so_enabled so"
  "so_keepAliveTime (setLastKeepAliveTime t a so) = t"
  "so_container (setLastKeepAliveTime t a so) = so_container so"
  "so_noticed (setLastKeepAliveTime t a so) = so_noticed so"
  "so_noticeFailTimes (setLastKeepAliveTime t a so) = so_noticeFailTimes so"
  "so_patchInfo (setLastKeepAliveTime t a so) = so_patchInfo so"
  "so_loaded (setLastKeepAliveTime t a so) = so_loaded so" "so_patched (setLastKeepAliveTime t a so) = so_patched so"
  "so_started (setLastKeepAliveTime t a so) = so_started so" "so_desc (setLastKeepAliveTime t a so) = so_desc so"
  "so_activator (setLastKeepAliveTime t a so) = so_activator so"
  "so_limitResource (setLastKeepAliveTime t a so) = so_limitResource so"
  "so_isStarting (setLastKeepAliveTime t a so) = so_isStarting so"
  by (simp_all add: setLastKeepAliveTime_def Let_def)

text \<open>The part of a heart beat before the flags: who the process is and whether the state moves.\<close>

definition alive_part :: "node_env \<Rightarrow> int \<Rightarrow> string \<Rightarrow> node_state \<Rightarrow> node_state" where
  "alive_part e p a s =
     (let (flag, s2) = checkPid e (on_ob (setLastKeepAliveTime (now e s) a) s)
      in if flag \<noteq> 0 \<or> state_of s2 \<noteq> Active then (if \<not> so_container (ob s2) then setPid e p s2 else s2) else s2)"

lemma alive_part_fields [simp]:
  "so_state (ob (alive_part e p a s)) = so_state (ob s)"
  "so_enabled (ob (alive_part e p a s)) = so_enabled (ob s)"
  "so_keepAliveTime (ob (alive_part e p a s)) = now e s"
  "so_noticed (ob (alive_part e p a s)) = so_noticed (ob s)"
  "so_noticeFailTimes (ob (alive_part e p a s)) = so_noticeFailTimes (ob s)"
  "so_patchInfo (ob (alive_part e p a s)) = so_patchInfo (ob s)"
  "so_started (ob (alive_part e p a s)) = so_started (ob s)"
  "so_activator (ob (alive_part e p a s)) = so_activator (ob s)"
  "so_isStarting (ob (alive_part e p a s)) = so_isStarting (ob s)"
  "sent (alive_part e p a s) = sent s" "acts (alive_part e p a s) = acts s"
  by (simp_all add: alive_part_def Let_def split_beta)

definition alive_state :: "internal_state \<Rightarrow> internal_state" where
  "alive_state st = (if in_transition st \<and> st \<noteq> Activating then st else Active)"

lemma keepAlive_eq:
  "0 < p \<Longrightarrow> keepAlive e p a s =
     on_ob (\<lambda>so. so\<lparr> so_loaded := True, so_patched := True \<rparr>)
       (if alive_state (state_of s) = Active then setState e Active True (alive_part e p a s) else alive_part e p a s)"
proof -
  assume "0 < p"
  have flags: "(\<lambda>so. let so1 = (if \<not> so_loaded so then so\<lparr> so_loaded := True \<rparr> else so)
      in if \<not> so_patched so1 then so1\<lparr> so_patched := True \<rparr> else so1) =
      (\<lambda>so :: server_object. so\<lparr> so_loaded := True, so_patched := True \<rparr>)"
    by (rule ext) (simp add: Let_def)
  have cond: "(\<not> in_transition st \<or> st = Activating) = (alive_state st = Active)" for st
    by (cases st) (simp_all add: alive_state_def in_transition_iff)
  have st: "state_of (alive_part e p a s) = state_of s" by simp
  from \<open>0 < p\<close> show ?thesis
    unfolding keepAlive_def Let_def split_beta flags[unfolded Let_def] cond
    using st[unfolded alive_part_def Let_def split_beta]
    by (simp add: alive_part_def Let_def split_beta)
qed

lemma synState_reported [simp]: "reported (ob (synState e s)) = reported (ob s)"
  using synState_ob[of e s] by (auto simp: reported_def)

lemma synState_down:
  assumes "e_registry e (tick s) = None"
  shows "sent (synState e s) = sent s @
      [if so_noticeFailTimes (ob s) < 3 then SyncUpdate (reported (ob s)) (so_pid (ob s))
       else AsyncUpdate (reported (ob s)) (so_pid (ob s))]"
    and "so_noticeFailTimes (ob (synState e s)) =
      (if so_noticeFailTimes (ob s) < 3 then so_noticeFailTimes (ob s) + 1 else 0)"
  using assms by (simp_all add: synState_def Let_def)

section \<open>Properties\<close>

text \<open>
  Fact (heartbeat_effect). A heart beat of a running process makes the server active unless
  it is in a transition other than starting, which it does not disturb; it always marks the server
  loaded and patched and refreshes the time, and it never enables a server.
\<close>

theorem heartbeat_effect:
  assumes "0 < p"
  shows "state_of (keepAlive e p a s) = (if in_transition (state_of s) \<and> state_of s \<noteq> Activating then state_of s else Active)
    \<and> so_loaded (ob (keepAlive e p a s)) \<and> so_patched (ob (keepAlive e p a s))
    \<and> so_keepAliveTime (ob (keepAlive e p a s)) = now e s
    \<and> so_enabled (ob (keepAlive e p a s)) = so_enabled (ob s)"
  unfolding keepAlive_eq[OF assms] by (simp add: alive_state_def)

text \<open>
  Fact (set_state_reports). A synchronised change of state ends in the requested state and
  either the object was in it and the registry knew (then nothing is sent), or exactly one report
  goes out, and that report carries the new state.
\<close>

theorem set_state_reports:
  "state_of (setState e st True s) = st \<and>
   (if state_of s = st \<and> so_noticed (ob s) then setState e st True s = s
    else \<exists>u. sent (setState e st True s) = sent s @ [u] \<and>
      u \<in> {SyncUpdate (reported ((ob s)\<lparr> so_state := st \<rparr>)) (so_pid (ob s)),
           AsyncUpdate (reported ((ob s)\<lparr> so_state := st \<rparr>)) (so_pid (ob s))})"
proof -
  let ?s1 = "if state_of s \<noteq> st then on_ob (\<lambda>so. so\<lparr> so_state := st \<rparr>) s else s"
  have s1: "ob ?s1 = (ob s)\<lparr> so_state := st \<rparr>" "sent ?s1 = sent s" by auto
  show ?thesis
  proof (cases "state_of s = st \<and> so_noticed (ob s)")
    case True
    then show ?thesis by (simp add: setState_def)
  next
    case False
    then have "setState e st True s = synState e ?s1" by (auto simp: setState_def Let_def)
    with False synState_sent[of e ?s1] s1 show ?thesis by (auto simp: reported_def)
  qed
qed

text \<open>
  Fact (rejected_report_is_forgotten). When the registry answers a synchronous report with
  an error code, the object still counts the state as reported, with no failure on record, and
  setting the same state again sends nothing.
\<close>

theorem rejected_report_is_forgotten:
  assumes "so_noticeFailTimes (ob s) < 3" and "e_registry e (tick s) = Some ret" and "ret < 0"
  shows "so_noticed (ob (synState e s)) \<and> so_noticeFailTimes (ob (synState e s)) = 0 \<and>
    setState e (state_of s) True (synState e s) = synState e s"
  using assms by (simp add: setState_def synState_def Let_def onUpdateServerResult_def)

text \<open>
  Fact (async_every_fourth_report). While the registry is unreachable only every fourth
  report is asynchronous: the asynchronous one resets the failure counter, so the three blocking
  attempts start over.
\<close>

theorem async_every_fourth_report:
  assumes "\<And>n. e_registry e n = None" and "so_noticeFailTimes (ob s) = 0"
  shows "sent ((synState e ^^ n) s) = sent s @
    map (\<lambda>k. if k mod 4 = 3 then AsyncUpdate (reported (ob s)) (so_pid (ob s))
             else SyncUpdate (reported (ob s)) (so_pid (ob s))) [0..<n]"
proof -
  let ?s = "\<lambda>n. (synState e ^^ n) s"
  have "sent (?s n) = sent s @ map (\<lambda>k. if k mod 4 = 3 then AsyncUpdate (reported (ob s)) (so_pid (ob s))
             else SyncUpdate (reported (ob s)) (so_pid (ob s))) [0..<n] \<and>
      so_noticeFailTimes (ob (?s n)) = n mod 4 \<and> reported (ob (?s n)) = reported (ob s) \<and>
      so_pid (ob (?s n)) = so_pid (ob s)"
  proof (induction n)
    case 0
    with assms(2) show ?case by simp
  next
    case (Suc n)
    have "n mod 4 = 3 \<or> n mod 4 < 3" by presburger
    moreover have "n mod 4 = 3 \<Longrightarrow> Suc n mod 4 = 0" "n mod 4 < 3 \<Longrightarrow> Suc n mod 4 = Suc (n mod 4)"
      by presburger+
    ultimately show ?case
      using Suc synState_down[OF assms(1), of "?s n"] by auto
  qed
  then show ?thesis by blast
qed

section \<open>Examples\<close>

definition sample_object :: server_object where
  "sample_object = \<lparr> so_tarsServer = True, so_serverType = ''tars_cpp'', so_container = False, so_enabled = True,
     so_loaded = False, so_patched = True, so_noticed = False, so_noticeFailTimes = 0, so_enSynState = True,
     so_application = ''App'', so_serverName = ''Svr'',
     so_desc = \<lparr> d_application = ''App'', d_serverName = ''Svr'', d_runType = [], d_settingState = ''active'', d_adapters = [''A''] \<rparr>,
     so_startScript = [], so_stopScript = [], so_monitorScript = [], so_exePath = ''/bin'', so_exeFile = ''/bin/Svr'',
     so_macro = [], so_ports = [],
     so_patchInfo = \<lparr> bPatching = False, iPercent = 0, iModifyTime = 0, sVersion = [], sResult = [], bSucc = False \<rparr>,
     so_pid = 0, so_version = [], so_procStartTime = 0, so_activator = new_activator 60 10 600, so_keepAliveTime = 0,
     so_adapterKeepAliveTime = [(''A'', 0), (''AdminAdapter'', 0)], so_state = Inactive, so_lastState = Inactive,
     so_timeout = 0, so_coreTimeout = 60, so_activatingTimeout = 0, so_limitStateUpdated = False,
     so_limitStateInfo = \<lparr> bEnableCoreLimit = False, bCloseCore = False, eCoreType = EM_AUTO_LIMIT, iMaxExcStopCount = 3,
       iCoreLimitTimeInterval = 5, iCoreLimitExpiredTime = 30, iActivatorMaxCount = 10, iActivatorTimeInterval = 60,
       iActivatorPunishInterval = 600 \<rparr>,
     so_limitResource = new_limit_resource 0 5 10 60, so_started = False, so_startTime = 0, so_isStarting = False \<rparr>"

definition sample_node :: node_state where
  "sample_node = \<lparr> ob = sample_object, tick = 0, sent = [], acts = [] \<rparr>"

text \<open>A clock of one second per interaction, a registry that answers \<open>ret\<close>.\<close>

definition sample_world :: "int option \<Rightarrow> (int \<Rightarrow> bool) \<Rightarrow> node_env" where
  "sample_world ret up = \<lparr> e_now = (\<lambda>n. 1000 + int n), e_now_ms = (\<lambda>n. 1000000 + 1000 * int n),
     e_alive = (\<lambda>_. up), e_pid_start = (\<lambda>_ _. 999), e_inspect = (\<lambda>_. None), e_pulling = (\<lambda>_. False),
     e_registry = (\<lambda>_. ret) \<rparr>"

theorem heartbeat_effect_witness:
  "state_of (keepAlive (sample_world (Some 0) (\<lambda>_. True)) 77 ''A'' sample_node) = Active"
  using heartbeat_effect[of 77 "sample_world (Some 0) (\<lambda>_. True)" "''A''" sample_node]
  by (simp add: sample_node_def sample_object_def in_transition_iff)

theorem rejected_report_is_forgotten_witness:
  "so_noticed (ob (synState (sample_world (Some (-1)) (\<lambda>_. True)) sample_node))"
  using rejected_report_is_forgotten[of sample_node "sample_world (Some (-1)) (\<lambda>_. True)" "-1"]
  by (simp add: sample_node_def sample_object_def sample_world_def)

theorem async_every_fourth_report_witness:
  "length (sent ((synState (sample_world None (\<lambda>_. True)) ^^ 9) sample_node)) = 9"
  using async_every_fourth_report[of "sample_world None (\<lambda>_. True)" sample_node 9]
  by (simp add: sample_node_def sample_object_def sample_world_def)

end
