(* ===== verification/Node_Commands.thy ===== *)
theory Node_Commands
  imports Node_Server "HOL-Library.Multiset"
begin

text \<open>
  The commands of \<open>NodeServer\<close>: \<open>ServerCommand::doProcess\<close> with \<open>CommandStart\<close>,
  \<open>CommandStop\<close>, \<open>CommandNotify\<close>, \<open>CommandDestroy\<close> and \<open>CommandAddFile\<close>. A command first
  decides under the object's lock whether it may run and then runs; its waits read the clock until
  a deadline, so they are partial functions, defined whenever the clock moves on. Files, scripts,
  docker and the clock are oracles; what a command does to the system is recorded in \<open>acts\<close>.
\<close>

section \<open>The environment of a command\<close>

record cmd_env =
  k_env :: node_env
  k_throws :: "nat \<Rightarrow> bool"
  k_script :: "nat \<Rightarrow> bool"
  k_ps :: "nat \<Rightarrow> string"
  k_fork :: "nat \<Rightarrow> int option"
  k_pidfile :: "nat \<Rightarrow> string option"
  k_notify :: "nat \<Rightarrow> string option"
  k_docker :: "nat \<Rightarrow> int option"
  k_start_timeout :: int
  k_stop_timeout :: "int option"
  k_pid_state :: "nat \<Rightarrow> int \<Rightarrow> char"
  k_monitor :: "nat \<Rightarrow> (string \<rightharpoonup> string) option"
  k_heart_beat :: int

text \<open>
  The file functions of the utility library: regular file, directory, directory listing in order,
  executable, last path component, absolute path.
\<close>

record tc_file =
  f_exist :: "string \<Rightarrow> bool"
  f_is_dir :: "string \<Rightarrow> bool"
  f_list :: "string \<Rightarrow> string list"
  f_exec :: "string \<Rightarrow> bool"
  f_name :: "string \<Rightarrow> string"
  f_abs :: "string \<Rightarrow> bool"
  f_simplify :: "string \<Rightarrow> string"

definition act :: "action \<Rightarrow> node_state \<Rightarrow> node_state" where
  "act a s = s\<lparr> acts := acts s @ [a] \<rparr>"

section \<open>The common frame\<close>

datatype exe_status = EXECUTABLE | DIS_EXECUTABLE | NO_NEED_EXECUTE

type_synonym outcome = "(int \<times> node_state) option"

definition doProcess :: "exe_status \<times> node_state \<Rightarrow> (node_state \<Rightarrow> outcome) \<Rightarrow> outcome" where
  "doProcess can exec =
     (case fst can of
        DIS_EXECUTABLE \<Rightarrow> Some (-1, snd can)
      | NO_NEED_EXECUTE \<Rightarrow> Some (0, snd can)
      | EXECUTABLE \<Rightarrow> exec (snd can))"

text \<open>The contract of the decision step: a command that does not run leaves the state alone.\<close>

locale server_command =
  fixes can :: "node_state \<Rightarrow> exe_status \<times> node_state"
  assumes refuses: "fst (can s) \<noteq> EXECUTABLE \<Longrightarrow> state_of (snd (can s)) = state_of s \<and> acts (snd (can s)) = acts s"
begin

lemma not_run:
  assumes "fst (can s) \<noteq> EXECUTABLE" and "doProcess (can s) exec = Some (r, s')"
  shows "r = (if fst (can s) = NO_NEED_EXECUTE then 0 else -1) \<and> state_of s' = state_of s \<and> acts s' = acts s"
  using assms refuses[OF assms(1)] by (cases "fst (can s)") (auto simp: doProcess_def)

lemma acted_only_if_allowed:
  assumes "doProcess (can s) exec = Some (r, s')" and "acts s' \<noteq> acts s"
  shows "fst (can s) = EXECUTABLE"
  using not_run[OF _ assms(1)] assms(2) by blast

end

section \<open>Killing\<close>

definition activator_kill :: "int \<Rightarrow> node_state \<Rightarrow> node_state" where
  "activator_kill p s =
     (if so_container (ob s) then act DockerStop s else if p < 0 then s else act (KillProcess p) s)"

definition deactivate :: "int \<Rightarrow> node_state \<Rightarrow> node_state" where
  "deactivate p s = (if p > 0 then activator_kill p s else s)"

definition deactivateAndGenerateCore :: "int \<Rightarrow> node_state \<Rightarrow> node_state" where
  "deactivateAndGenerateCore p s = (if p > 0 then act (AbortProcess p) s else s)"

section \<open>Stop\<close>

definition stop_can :: "node_env \<Rightarrow> bool \<Rightarrow> node_state \<Rightarrow> exe_status \<times> node_state" where
  "stop_can e byNode s =
     (let eState = state_of s;
          s1 = (if byNode then on_ob (setEnabled False) s else s)
      in if eState = Inactive then (NO_NEED_EXECUTE, synState e s1)
         else if eState = Destroying then (DIS_EXECUTABLE, s1)
         else
           let iTimes = (if eState = BatchPatching then 10 * 60 else 10)
           in if (eState = Patching \<or> eState = BatchPatching) \<and>
                 now e s1 - iModifyTime (snd (getPatchPercent (ob s1))) < iTimes
              then (DIS_EXECUTABLE, s1)
              else (EXECUTABLE, setState e Deactivating True s1))"

definition stopped :: "node_env \<Rightarrow> node_state \<Rightarrow> node_state" where
  "stopped e s = on_ob (setStarted False) (setState e Inactive True (setPid e 0 s))"

text \<open>The loop that waits until the process is gone; \<open>False\<close> is the expired deadline.\<close>

partial_function (option) wait_dead :: "node_env \<Rightarrow> int \<Rightarrow> int \<Rightarrow> node_state \<Rightarrow> (bool \<times> node_state) option" where
  "wait_dead e interval tNow s =
     (if now e s - interval < tNow then
        (if fst (checkPid e s) \<noteq> 0 then Some (True, stopped e (snd (checkPid e s)))
         else wait_dead e interval tNow (pass_time (snd (checkPid e s))))
      else Some (False, s))"

definition stop_interval :: "int option \<Rightarrow> int" where
  "stop_interval conf =
     (case conf of
        None \<Rightarrow> 2
      | Some ms \<Rightarrow>
          (let i = c_div ms 1000; i = (if i < 2 then 2 else i) in if i > 60 then 60 else i))"

definition stop_by_script :: "tc_common \<Rightarrow> server_object \<Rightarrow> bool" where
  "stop_by_script tc so \<longleftrightarrow> tc_lower tc (tc_trim tc (so_serverType so)) = ''tars_php'' \<or>
     so_stopScript so \<noteq> [] \<or> \<not> so_tarsServer so"

text \<open>
  The script to run: for PHP a generated one when none is configured, and inside a container always
  the generated one.
\<close>

definition stop_script_path :: "tc_common \<Rightarrow> tc_file \<Rightarrow> server_object \<Rightarrow> string" where
  "stop_script_path tc fs so =
     (if tc_lower tc (tc_trim tc (so_serverType so)) = ''tars_php'' \<and> (so_container so \<or> so_stopScript so = [])
      then f_simplify fs (so_exePath so @ ''/tars_stop.sh'') else so_stopScript so)"

text \<open>The polite request, by script or by the admin object. An exception kills the process at once.\<close>

definition stop_request :: "tc_common \<Rightarrow> tc_file \<Rightarrow> cmd_env \<Rightarrow> bool \<Rightarrow> node_state \<Rightarrow> bool \<times> node_state" where
  "stop_request tc fs k useAdmin s =
     (let failed = (False, pass_time (deactivate (so_pid (ob s)) s))
      in if stop_by_script tc (ob s) then
           (if k_throws k (tick s) then failed
            else (True, pass_time (act (StopScript (stop_script_path tc fs (ob s))) s)))
         else if useAdmin then
           (if k_throws k (tick s) then failed else (True, pass_time (act AdminShutdown s)))
         else (False, s))"

definition stop_exec :: "tc_common \<Rightarrow> tc_file \<Rightarrow> cmd_env \<Rightarrow> bool \<Rightarrow> bool \<Rightarrow> node_state \<Rightarrow> outcome" where
  "stop_exec tc fs k useAdmin generateCore s =
     (let e = k_env k; (needWait, s1) = stop_request tc fs k useAdmin s
      in Option.bind (if needWait then wait_dead e (stop_interval (k_stop_timeout k)) (now e s1) s1
                      else Some (False, s1)) (\<lambda>(gone, s2).
         if gone then Some (0, s2)
         else
           let s3 = pass_time (if generateCore then deactivateAndGenerateCore (so_pid (ob s2)) s2
                               else deactivate (so_pid (ob s2)) s2)
           in Option.bind (wait_dead e 2 (now e s3) s3) (\<lambda>(gone, s4).
                Some (if gone then 0 else -1, s4))))"

definition command_stop :: "tc_common \<Rightarrow> tc_file \<Rightarrow> cmd_env \<Rightarrow> bool \<Rightarrow> bool \<Rightarrow> bool \<Rightarrow> node_state \<Rightarrow> outcome" where
  "command_stop tc fs k useAdmin byNode generateCore s =
     doProcess (stop_can (k_env k) byNode s) (stop_exec tc fs k useAdmin generateCore)"

section \<open>Start\<close>

text \<open>
  \<open>searchServer\<close>: the files of a directory in listing order, then its subdirectories, depth
  first. The recursion is the stack of directories still to visit.
\<close>

definition has_server_name :: "string \<Rightarrow> bool" where
  "has_server_name n \<longleftrightarrow> str_contains n ''Server'' \<or> str_contains n ''server''"

definition server_file :: "tc_file \<Rightarrow> string \<Rightarrow> string \<Rightarrow> bool" where
  "server_file fs exe f \<longleftrightarrow> \<not> f_is_dir fs f \<and>
     (f = exe \<and> f_exist fs f \<or> f_exec fs f \<and> has_server_name (f_name fs f))"

partial_function (option) searchServer :: "tc_file \<Rightarrow> string \<Rightarrow> string list \<Rightarrow> string option option" where
  "searchServer fs exe stack =
     (case stack of
        [] \<Rightarrow> Some None
      | d # rest \<Rightarrow>
          (case List.find (server_file fs exe) (f_list fs d) of
             Some f \<Rightarrow> Some (Some f)
           | None \<Rightarrow> searchServer fs exe (filter (f_is_dir fs) (f_list fs d) @ rest)))"

text \<open>The executable to start, and whether one was found.\<close>

definition resolve_exe :: "tc_file \<Rightarrow> server_object \<Rightarrow> (bool \<times> string) option" where
  "resolve_exe fs so =
     (let exe = so_exeFile so
      in if so_serverType so = ''tars_cpp'' \<or> so_serverType so = ''tars_go'' then
           (if \<not> f_exist fs exe then
              map_option (\<lambda>r. case r of Some f \<Rightarrow> (True, f) | None \<Rightarrow> (False, exe)) (searchServer fs exe [so_exePath so])
            else Some (True, exe))
         else if so_serverType so = ''tars_nodejs'' then
           (let node = so_exePath so @ ''/tars_nodejs/node'' in Some (True, if \<not> f_exist fs node then ''node'' else node))
         else if so_serverType so = ''tars_java'' then
           Some (True, if f_abs fs exe \<and> \<not> f_exist fs exe then ''java'' else exe)
         else if so_serverType so = ''tars_php'' then
           Some (True, if f_abs fs exe \<and> \<not> f_exist fs exe then ''php'' else exe)
         else Some (True, exe))"

text \<open>\<open>found\<close> is the result of the search, which only servers without a start script need.\<close>

definition start_can :: "node_env \<Rightarrow> bool \<Rightarrow> bool \<Rightarrow> node_state \<Rightarrow> exe_status \<times> node_state" where
  "start_can e found byNode s =
     (let eState = state_of s
      in if \<not> byNode \<and> \<not> so_enabled (ob s) then (DIS_EXECUTABLE, s)
         else
           let s1 = (if byNode then on_ob (setEnabled True) s else s)
           in if eState = Active \<or> eState = Activating then (NO_NEED_EXECUTE, synState e s1)
              else if eState \<noteq> Inactive then (DIS_EXECUTABLE, s1)
              else if so_startScript (ob s1) = [] \<and> \<not> found then (DIS_EXECUTABLE, on_ob (setPatched False) s1)
              else (EXECUTABLE, setState e Activating False (on_ob (setPatched True) s1)))"

text \<open>
  \<open>savePid\<close>: \<open>k_ps\<close> is the text that \<open>ps | awk\<close> leaves in the pid file, one line of program name and
  process id for each match; the second word is taken when there are more than two words.
\<close>

definition savePid :: "tc_common \<Rightarrow> cmd_env \<Rightarrow> node_state \<Rightarrow> int \<times> node_state" where
  "savePid tc k s =
     (let v = tc_sepstr tc (k_ps k (tick s)) (CHR '' '' # [char_of (9 :: nat)]) False
      in if length v > 2 \<and> tc_isdigit tc (tc_trim tc (v ! 1)) then
           (let p = tc_strto_int tc (tc_trim tc (v ! 1));
                (flag, s1) = checkPid (k_env k) (setPid (k_env k) p s)
            in (if flag \<noteq> 0 then -1 else p, pass_time s1))
         else (0, pass_time s))"

partial_function (option) wait_pid :: "tc_common \<Rightarrow> cmd_env \<Rightarrow> int \<Rightarrow> int \<Rightarrow> node_state \<Rightarrow> (bool \<times> node_state) option" where
  "wait_pid tc k interval tNow s =
     (if now (k_env k) s - interval < tNow then
        (if fst (savePid tc k s) \<noteq> 0 then Some (True, snd (savePid tc k s))
         else wait_pid tc k interval tNow (pass_time (snd (savePid tc k s))))
      else Some (False, s))"

definition record_start :: "node_env \<Rightarrow> node_state \<Rightarrow> node_state" where
  "record_start e s = on_ob (\<lambda>so. so\<lparr> so_activator := addActivatingRecord (now e s) (so_activator so) \<rparr>) s"

text \<open>The result is the success flag; an exception is a failure with the state reached so far.\<close>

definition startByScript :: "tc_common \<Rightarrow> cmd_env \<Rightarrow> node_state \<Rightarrow> (bool \<times> node_state) option" where
  "startByScript tc k s =
     (let e = k_env k; s1 = record_start e s
      in if \<not> k_script k (tick s) then Some (False, pass_time s1)
         else
           let s2 = pass_time (act (StartScript (so_startScript (ob s1))) s1);
               interval = (let i = c_div (k_start_timeout k) 1000 in if i < 3 then 3 else i)
           in Option.bind (wait_pid tc k interval (now e s2) s2) (\<lambda>(succ, s3).
                let (flag, s4) = checkPid e s3 in Some (if flag \<noteq> 0 then False else succ, s4)))"

partial_function (option) wait_file :: "cmd_env \<Rightarrow> int \<Rightarrow> node_state \<Rightarrow> node_state option" where
  "wait_file k t0 s =
     (if k_pidfile k (tick s) = None \<and> now (k_env k) s - t0 < 20 then wait_file k t0 (pass_time s) else Some s)"

definition startNormal :: "tc_common \<Rightarrow> cmd_env \<Rightarrow> node_state \<Rightarrow> (bool \<times> node_state) option" where
  "startNormal tc k s =
     (let e = k_env k; s1 = record_start e s
      in case k_fork k (tick s) of
           None \<Rightarrow> Some (False, pass_time s1)
         | Some iPid \<Rightarrow>
             if iPid = 0 then Some (False, pass_time s1)
             else
             let s2 = pass_time (act (StartProcess (so_exePath (ob s1) @ ''/tars_start.sh'')) s1)
             in Option.bind (wait_file k (now e s2) s2) (\<lambda>s3.
                  let p = (case k_pidfile k (tick s3) of Some (c # cs) \<Rightarrow> tc_strto_int tc (c # cs) | _ \<Rightarrow> iPid);
                      (flag, s4) = checkPid e (setPid e p s3)
                  in Some (flag = 0, s4)))"

definition startFinish :: "node_env \<Rightarrow> bool \<Rightarrow> node_state \<Rightarrow> node_state" where
  "startFinish e succ s =
     (if succ then
        (let s1 = synState e s
         in on_ob (\<lambda>so. setStartTime (now_ms e s1) (setStarted True (setLimitInfoUpdate True
              (setLastKeepAliveTime (now e s1) [] so)))) s1)
      else on_ob (setStarted False) (setState e Inactive True (setPid e 0 s)))"

text \<open>A container is started by a callback once the image has been pulled.\<close>

definition start_exec :: "tc_common \<Rightarrow> cmd_env \<Rightarrow> node_state \<Rightarrow> outcome" where
  "start_exec tc k s =
     (let e = k_env k
      in if so_startScript (ob s) \<noteq> [] \<or> \<not> so_tarsServer (ob s) then
           map_option (\<lambda>(succ, s1). (if succ then 0 else -1, startFinish e succ s1)) (startByScript tc k s)
         else if so_container (ob s) then Some (0, s)
         else map_option (\<lambda>(succ, s1). (if succ then 0 else -1, startFinish e succ s1)) (startNormal tc k s))"

text \<open>\<open>k_docker\<close> is the process id of the created container, \<open>None\<close> when a docker call fails.\<close>

definition container_pulled :: "cmd_env \<Rightarrow> bool \<Rightarrow> node_state \<Rightarrow> node_state" where
  "container_pulled k succ s =
     (if \<not> succ then startFinish (k_env k) False s
      else case k_docker k (tick s) of
          None \<Rightarrow> startFinish (k_env k) False (pass_time s)
        | Some p \<Rightarrow> startFinish (k_env k) True (setPid (k_env k) p (pass_time (act StartContainer s))))"

text \<open>
  The constructor marks the object as starting, the destructor clears the mark. The executable is
  looked for only after the other conditions have let the start through.
\<close>

definition needs_search :: "bool \<Rightarrow> server_object \<Rightarrow> bool" where
  "needs_search byNode so \<longleftrightarrow> (byNode \<or> so_enabled so) \<and> so_state so = Inactive \<and> so_startScript so = []"

definition command_start :: "tc_common \<Rightarrow> tc_file \<Rightarrow> cmd_env \<Rightarrow> bool \<Rightarrow> node_state \<Rightarrow> outcome" where
  "command_start tc fs k byNode s =
     (let s0 = on_ob (setStarting True) s
      in Option.bind (if needs_search byNode (ob s) then resolve_exe fs (ob s) else Some (True, so_exeFile (ob s))) (\<lambda>(found, exe).
           map_option (\<lambda>(r, s1). (r, on_ob (setStarting False) s1))
             (doProcess (start_can (k_env k) found byNode s0) (start_exec tc k))))"

section \<open>The start script\<close>

text \<open>
  The lines of the generated script on Linux; \<open>join\<close> is \<open>TC_Common::tostr\<close> of a list of words,
  \<open>pkg\<close> the directory \<open>searchPackage\<close> finds for Node.js, \<open>entrance\<close> the configured PHP entry.
\<close>

definition script_options :: "tc_common \<Rightarrow> tc_file \<Rightarrow> string \<Rightarrow> string \<Rightarrow> string \<Rightarrow> string \<Rightarrow> string \<Rightarrow> string option \<Rightarrow> string \<Rightarrow>
    server_object \<Rightarrow> string list" where
  "script_options tc fs conf jvm mainClass classPath format pkg entrance so =
     (if so_serverType so = ''tars_java'' then
        (''-Dconfig='' @ conf) #
        tc_sepstr tc (if format = ''jar'' then jvm @ '' '' @ mainClass
                      else jvm @ '' -cp '' @ classPath @ ''/*'' @ '' '' @ mainClass) (CHR '' '' # [char_of (9 :: nat)]) False
      else if so_serverType so = ''tars_nodejs'' then
        f_simplify fs (so_exePath so @ ''/tars_nodejs/node-agent/bin/node-agent'') #
        tc_sepstr tc (f_simplify fs (case pkg of Some d \<Rightarrow> d | None \<Rightarrow> so_exePath so) @ '' -c '' @ conf)
          (CHR '' '' # [char_of (9 :: nat)]) False
      else if so_serverType so = ''tars_php'' then [entrance, ''--config='' @ conf]
      else [''--config='' @ conf])"

definition prepareScript ::
  "(string list \<Rightarrow> string) \<Rightarrow> string list \<Rightarrow> string \<Rightarrow> string \<Rightarrow> string list \<Rightarrow> string \<Rightarrow> server_object \<Rightarrow> string list" where
  "prepareScript join env libPath exe options script so =
     (let envs = env @ [''LD_LIBRARY_PATH=$LD_LIBRARY_PATH:'' @ so_exePath so @ '':'' @ libPath];
          cmd = exe @ '' '' @ join options
      in [''#!/bin/sh''] @ (if so_container so then [] else [''. /etc/profile'']) @
         map (\<lambda>v. ''export '' @ v) envs @
         [''trap ''@ [CHR 0x27] @ ''exit'' @ [CHR 0x27] @ '' SIGTERM SIGINT'', ''pid=0'', []] @
         (if so_serverType so = ''tars_php'' then
            [cmd] @ (if so_container so then [''while true; do sleep 1; done''] else []) @
            (if so_container so then [] else ['' & pid=$!'', ''echo $pid > '' @ script @ ''.pid'', []])
          else (if so_container so then [cmd] else [cmd @ '' & pid=$!'', ''echo $pid > '' @ script @ ''.pid'', []])))"

section \<open>Notify, destroy, add a file\<close>

definition notify_can :: "node_state \<Rightarrow> exe_status \<times> node_state" where
  "notify_can s =
     (if state_of s = Inactive \<or> state_of s = Destroying then (DIS_EXECUTABLE, s) else (EXECUTABLE, s))"

definition notify_exec :: "cmd_env \<Rightarrow> string \<Rightarrow> node_state \<Rightarrow> outcome" where
  "notify_exec k msg s =
     (let s1 = pass_time (act (NotifyServer msg) s)
      in case k_notify k (tick s) of None \<Rightarrow> Some (-1, s1) | Some r \<Rightarrow> Some (0, s1))"

definition command_notify :: "cmd_env \<Rightarrow> string \<Rightarrow> node_state \<Rightarrow> outcome" where
  "command_notify k msg s = doProcess (notify_can s) (notify_exec k msg)"

definition destroy_can :: "node_state \<Rightarrow> exe_status \<times> node_state" where
  "destroy_can s = (if state_of s \<noteq> Inactive then (DIS_EXECUTABLE, s) else (EXECUTABLE, s))"

definition destroy_exec :: "tc_common \<Rightarrow> tc_file \<Rightarrow> string \<Rightarrow> string \<Rightarrow> node_state \<Rightarrow> outcome" where
  "destroy_exec tc fs logPath serverDir s =
     (let sLogPath = (if logPath = [] then ''/usr/local/app/tars/app_log/'' else logPath);
          names = tc_sepstr tc (so_application (ob s) @ ''.'' @ so_serverName (ob s)) ''.'' False
      in if length names \<noteq> 2 then Some (0, s)
         else
           let s1 = act (RemovePath (f_simplify fs (sLogPath @ names ! 0 @ ''/'' @ names ! 1))) s
           in Some (0, if f_is_dir fs serverDir then act (RemovePath serverDir) s1 else s1))"

definition command_destroy :: "tc_common \<Rightarrow> tc_file \<Rightarrow> string \<Rightarrow> string \<Rightarrow> node_state \<Rightarrow> outcome" where
  "command_destroy tc fs logPath serverDir s = doProcess (destroy_can s) (destroy_exec tc fs logPath serverDir)"

text \<open>
  \<open>StatExChange\<close> sets one state when the command is allowed and another when the command object
  goes away. \<open>getScriptFile\<close> returns 0 on success and -1 otherwise, \<open>addConfig\<close> a boolean;
  both are assigned to the same \<open>bool\<close>, and \<open>execute\<close> returns that as its \<open>int\<close>.
\<close>

definition addfile_can :: "node_env \<Rightarrow> string \<Rightarrow> node_state \<Rightarrow> exe_status \<times> node_state" where
  "addfile_can e file s =
     (if so_application (ob s) = [] \<or> so_serverName (ob s) = [] then (DIS_EXECUTABLE, s)
      else if file = [] then (DIS_EXECUTABLE, s)
      else (EXECUTABLE, setState e AddFilesing True s))"

definition addfile_exec :: "bool \<Rightarrow> bool \<Rightarrow> bool \<Rightarrow> node_state \<Rightarrow> outcome" where
  "addfile_exec mkdir_ok is_script fetched s =
     (if \<not> mkdir_ok then Some (-1, s)
      else
        let bRet = (if is_script then (if fetched then (0 :: int) else -1) \<noteq> 0 else fetched)
        in Some (if bRet then 1 else 0, s))"

definition command_addfile :: "node_env \<Rightarrow> string \<Rightarrow> bool \<Rightarrow> bool \<Rightarrow> bool \<Rightarrow> node_state \<Rightarrow> outcome" where
  "command_addfile e file mkdir_ok is_script fetched s =
     map_option (\<lambda>(r, s1). (r, if fst (addfile_can e file s) = EXECUTABLE then setState e (state_of s) True s1 else s1))
       (doProcess (addfile_can e file s) (addfile_exec mkdir_ok is_script fetched))"

lemmas [code] = wait_dead.simps searchServer.simps wait_pid.simps wait_file.simps

section \<open>Frame lemmas\<close>

text \<open>The part of the object that waiting, reporting and changing the process leave alone.\<close>

definition cfg :: "server_object \<Rightarrow> bool \<times> bool \<times> bool \<times> bool \<times> server_descriptor \<times> bool \<times> internal_state \<times> patch_info" where
  "cfg so = (so_enabled so, so_loaded so, so_patched so, so_isStarting so, so_desc so, so_container so,
     so_lastState so, so_patchInfo so)"

lemma cfg_simps [simp]:
  "cfg (ob (synState e s)) = cfg (ob s)" "cfg (ob (setState e st b s)) = cfg (ob s)"
  "cfg (ob (setPid e p s)) = cfg (ob s)" "cfg (ob (snd (checkPid e s))) = cfg (ob s)"
  by (simp_all add: cfg_def)

lemma act_simps [simp]:
  "ob (act a s) = ob s" "tick (act a s) = tick s" "sent (act a s) = sent s" "acts (act a s) = acts s @ [a]"
  by (simp_all add: act_def)

lemma stopped_simps [simp]:
  "so_state (ob (stopped e s)) = Inactive" "so_pid (ob (stopped e s)) = 0" "\<not> so_started (ob (stopped e s))"
  "cfg (ob (stopped e s)) = cfg (ob s)" "acts (stopped e s) = acts s"
  "so_activator (ob (stopped e s)) = so_activator (ob s)"
  by (simp_all add: stopped_def setStarted_def cfg_def)

lemma deactivate_simps [simp]:
  "ob (deactivate p s) = ob s" "tick (deactivate p s) = tick s"
  "ob (deactivateAndGenerateCore p s) = ob s" "tick (deactivateAndGenerateCore p s) = tick s"
  by (simp_all add: deactivate_def activator_kill_def deactivateAndGenerateCore_def)

lemma setStarting_simps [simp]:
  "so_state (setStarting b so) = so_state so" "so_enabled (setStarting b so) = so_enabled so"
  "so_startScript (setStarting b so) = so_startScript so" "so_isStarting (setStarting b so) = b"
  by (simp_all add: setStarting_def)

text \<open>The actions that start the server.\<close>

fun is_start :: "action \<Rightarrow> bool" where
  "is_start (StartScript f) = True"
| "is_start (StartProcess f) = True"
| "is_start StartContainer = True"
| "is_start _ = False"

definition starts_of :: "node_state \<Rightarrow> action list" where
  "starts_of s = filter is_start (acts s)"

lemma starts_of_simps [simp]:
  "starts_of (act a s) = starts_of s @ (if is_start a then [a] else [])"
  "starts_of (pass_time s) = starts_of s" "starts_of (on_ob f s) = starts_of s"
  "starts_of (deactivate p s) = starts_of s" "starts_of (deactivateAndGenerateCore p s) = starts_of s"
  "starts_of (synState e s) = starts_of s" "starts_of (setState e st b s) = starts_of s"
  "starts_of (setPid e p s) = starts_of s" "starts_of (snd (checkPid e s)) = starts_of s"
  by (simp_all add: starts_of_def deactivate_def activator_kill_def deactivateAndGenerateCore_def)

lemma starts_of_acts: "acts s' = acts s \<Longrightarrow> starts_of s' = starts_of s"
  by (simp add: starts_of_def)

lemma cfg_enabled: "cfg so = cfg so' \<Longrightarrow> so_enabled so = so_enabled so'"
  by (simp add: cfg_def)

section \<open>Waiting\<close>

lemma wait_dead_outcome:
  assumes "wait_dead e interval tNow s = Some y"
  shows "acts (snd y) = acts s \<and> cfg (ob (snd y)) = cfg (ob s) \<and> so_activator (ob (snd y)) = so_activator (ob s) \<and>
     (if fst y then so_state (ob (snd y)) = Inactive \<and> so_pid (ob (snd y)) = 0 \<and> \<not> so_started (ob (snd y))
      else state_of (snd y) = state_of s \<and> so_started (ob (snd y)) = so_started (ob s))"
using assms
proof (induction e interval tNow s y rule: wait_dead.raw_induct[rotated, consumes 1])
  case (1 f e interval tNow s y)
  show ?case
  proof (cases "now e s - interval < tNow")
    case False
    with 1(2) show ?thesis by auto
  next
    case True
    show ?thesis
    proof (cases "fst (checkPid e s) = 0")
      case True
      with 1(2) \<open>now e s - interval < tNow\<close> have "f e interval tNow (pass_time (snd (checkPid e s))) = Some y"
        by simp
      from 1(1)[OF this] show ?thesis by simp
    next
      case False
      with 1(2) True have "y = (True, stopped e (snd (checkPid e s)))" by simp
      then show ?thesis by simp
    qed
  qed
qed

text \<open>A clock that passes every bound and stays past it.\<close>

definition clock_runs :: "node_env \<Rightarrow> bool" where
  "clock_runs e \<longleftrightarrow> (\<forall>m. \<exists>n. \<forall>k\<ge>n. m \<le> e_now e k)"

lemma clock_runsE:
  assumes "clock_runs e"
  obtains n where "\<And>k. n \<le> k \<Longrightarrow> m \<le> e_now e k"
  using assms unfolding clock_runs_def by blast

lemma wait_dead_returns:
  assumes "clock_runs e"
  shows "\<exists>y. wait_dead e interval tNow s = Some y"
proof -
  obtain n where n: "\<And>k. n \<le> k \<Longrightarrow> tNow + interval \<le> e_now e k" using clock_runsE[OF assms] by blast
  have "wait_dead e interval tNow s \<noteq> None"
  proof (rule clocked_loop_returns[where f = "wait_dead e interval tNow"
        and g = "\<lambda>s. pass_time (snd (checkPid e s))" and t = tick and n = n])
    show "wait_dead e interval tNow s \<noteq> None \<or>
        wait_dead e interval tNow s = wait_dead e interval tNow (pass_time (snd (checkPid e s)))" for s
      using wait_dead.simps[of e interval tNow s] by (metis option.distinct(1))
  next
    fix s :: node_state assume "n \<le> tick s"
    then have "\<not> now e s - interval < tNow" using n[of "tick s"] by linarith
    then show "wait_dead e interval tNow s \<noteq> None" by (simp add: wait_dead.simps)
  qed simp
  then show ?thesis by simp
qed

lemma savePid_simps [simp]:
  "acts (snd (savePid tc k s)) = acts s" "cfg (ob (snd (savePid tc k s))) = cfg (ob s)"
  "so_activator (ob (snd (savePid tc k s))) = so_activator (ob s)"
  "state_of (snd (savePid tc k s)) = state_of s" "tick s < tick (snd (savePid tc k s))"
  by (simp_all add: savePid_def Let_def split_beta)

lemma wait_pid_returns:
  assumes "clock_runs (k_env k)"
  shows "\<exists>y. wait_pid tc k interval tNow s = Some y"
proof -
  obtain n where n: "\<And>j. n \<le> j \<Longrightarrow> tNow + interval \<le> e_now (k_env k) j" using clock_runsE[OF assms] by blast
  have "wait_pid tc k interval tNow s \<noteq> None"
  proof (rule clocked_loop_returns[where f = "wait_pid tc k interval tNow"
        and g = "\<lambda>s. pass_time (snd (savePid tc k s))" and t = tick and n = n])
    show "wait_pid tc k interval tNow s \<noteq> None \<or>
        wait_pid tc k interval tNow s = wait_pid tc k interval tNow (pass_time (snd (savePid tc k s)))" for s
      using wait_pid.simps[of tc k interval tNow s] by (metis option.distinct(1))
  next
    fix s :: node_state assume "n \<le> tick s"
    then have "\<not> now (k_env k) s - interval < tNow" using n[of "tick s"] by linarith
    then show "wait_pid tc k interval tNow s \<noteq> None" by (simp add: wait_pid.simps)
  next
    show "tick s < tick (pass_time (snd (savePid tc k s)))" for s using savePid_simps(5)[of s tc k] by (simp del: savePid_simps(5))
  qed
  then show ?thesis by simp
qed

lemma wait_file_returns:
  assumes "clock_runs (k_env k)"
  shows "\<exists>y. wait_file k t0 s = Some y"
proof -
  obtain n where n: "\<And>j. n \<le> j \<Longrightarrow> t0 + 20 \<le> e_now (k_env k) j" using clock_runsE[OF assms] by blast
  have "wait_file k t0 s \<noteq> None"
  proof (rule clocked_loop_returns[where f = "wait_file k t0" and g = "pass_time :: node_state \<Rightarrow> node_state"
        and t = tick and n = n])
    show "wait_file k t0 s \<noteq> None \<or> wait_file k t0 s = wait_file k t0 (pass_time s)" for s
      using wait_file.simps[of k t0 s] by (metis option.distinct(1))
  next
    fix s :: node_state assume "n \<le> tick s"
    then have "\<not> now (k_env k) s - t0 < 20" using n[of "tick s"] by linarith
    then show "wait_file k t0 s \<noteq> None" by (simp add: wait_file.simps)
  qed simp
  then show ?thesis by simp
qed

lemma wait_pid_outcome:
  assumes "wait_pid tc k interval tNow s = Some y"
  shows "acts (snd y) = acts s \<and> cfg (ob (snd y)) = cfg (ob s) \<and> state_of (snd y) = state_of s \<and>
     so_activator (ob (snd y)) = so_activator (ob s)"
  using assms
proof (induction tc k interval tNow s y rule: wait_pid.raw_induct[rotated, consumes 1])
  case (1 f tc k interval tNow s y)
  then show ?case by (fastforce split: if_splits)
qed

lemma wait_file_outcome:
  assumes "wait_file k t0 s = Some s'"
  shows "ob s' = ob s \<and> acts s' = acts s"
  using assms
proof (induction k t0 s s' rule: wait_file.raw_induct[rotated, consumes 1])
  case (1 f k t0 s s')
  then show ?case by (fastforce split: if_splits)
qed

section \<open>Decisions\<close>

interpretation cmd_stop: server_command "stop_can e byNode"
  by unfold_locales (auto simp: stop_can_def Let_def setEnabled_def split: if_splits)

interpretation cmd_start: server_command "start_can e found byNode"
  by unfold_locales (auto simp: start_can_def Let_def setEnabled_def setPatched_def split: if_splits)

interpretation cmd_notify: server_command notify_can
  by unfold_locales (simp_all add: notify_can_def split: if_splits)

interpretation cmd_destroy: server_command destroy_can
  by unfold_locales (simp_all add: destroy_can_def split: if_splits)

interpretation cmd_addfile: server_command "addfile_can e file"
  by unfold_locales (auto simp: addfile_can_def split: if_splits)

lemma stop_can_run:
  assumes "fst (stop_can e byNode s) = EXECUTABLE"
  shows "state_of (snd (stop_can e byNode s)) = Deactivating \<and> state_of s \<noteq> Inactive \<and> state_of s \<noteq> Destroying \<and>
    acts (snd (stop_can e byNode s)) = acts s"
  using assms by (auto simp: stop_can_def Let_def split: if_splits)

lemma start_can_run:
  assumes "fst (start_can e found byNode s) = EXECUTABLE"
  shows "state_of s = Inactive \<and> (byNode \<or> so_enabled (ob s)) \<and> (found \<or> so_startScript (ob s) \<noteq> []) \<and>
    state_of (snd (start_can e found byNode s)) = Activating \<and> acts (snd (start_can e found byNode s)) = acts s"
  using assms by (auto simp: start_can_def Let_def setEnabled_def setPatched_def split: if_splits)

section \<open>Stopping\<close>

lemma stop_request_state [simp]:
  "ob (snd (stop_request tc fs k ua s)) = ob s" "starts_of (snd (stop_request tc fs k ua s)) = starts_of s"
  by (simp_all add: stop_request_def Let_def)

lemma stop_exec_returns:
  assumes "clock_runs (k_env k)"
  shows "\<exists>r s'. stop_exec tc fs k ua core s = Some (r, s')"
proof -
  obtain b s1 where req: "stop_request tc fs k ua s = (b, s1)" by fastforce
  obtain g s2 where first: "(if b then wait_dead (k_env k) (stop_interval (k_stop_timeout k)) (now (k_env k) s1) s1
      else Some (False, s1)) = Some (g, s2)"
    using wait_dead_returns[OF assms] by (cases b) fastforce+
  let ?s3 = "pass_time (if core then deactivateAndGenerateCore (so_pid (ob s2)) s2 else deactivate (so_pid (ob s2)) s2)"
  obtain g' s4 where "wait_dead (k_env k) 2 (now (k_env k) ?s3) ?s3 = Some (g', s4)"
    using wait_dead_returns[OF assms] by fastforce
  then show ?thesis using first by (simp add: stop_exec_def req Let_def)
qed

text \<open>The part of the object and of the trace that stopping leaves alone.\<close>

definition stop_frame :: "node_state \<Rightarrow> node_state \<Rightarrow> bool" where
  "stop_frame s s' \<longleftrightarrow> so_enabled (ob s') = so_enabled (ob s) \<and> starts_of s' = starts_of s"

lemma wait_dead_frame:
  assumes "wait_dead e interval tNow s = Some (b, s')"
  shows "stop_frame s s'"
  using wait_dead_outcome[OF assms] starts_of_acts[of s' s] cfg_enabled[of "ob s'" "ob s"]
  by (simp add: stop_frame_def)

lemma stop_exec_outcome:
  assumes "stop_exec tc fs k ua core s = Some (r, s')"
  shows "(r = 0 \<and> state_of s' = Inactive \<and> so_pid (ob s') = 0 \<and> \<not> so_started (ob s') \<or>
    r = -1 \<and> state_of s' = state_of s \<and> so_started (ob s') = so_started (ob s)) \<and> stop_frame s s'"
proof -
  obtain b s1 where req: "stop_request tc fs k ua s = (b, s1)" by fastforce
  have s1: "ob s1 = ob s" "stop_frame s s1"
    using stop_request_state[of tc fs k ua s] by (simp_all add: req stop_frame_def)
  obtain g s2 where first: "(if b then wait_dead (k_env k) (stop_interval (k_stop_timeout k)) (now (k_env k) s1) s1
      else Some (False, s1)) = Some (g, s2)"
    using assms by (auto simp: stop_exec_def req Let_def bind_eq_Some_conv)
  then have f2: "stop_frame s s2" using wait_dead_frame s1 by (fastforce simp: stop_frame_def split: if_splits)
  let ?s3 = "pass_time (if core then deactivateAndGenerateCore (so_pid (ob s2)) s2 else deactivate (so_pid (ob s2)) s2)"
  show ?thesis
  proof (cases g)
    case True
    then have "b" using first by (simp split: if_splits)
    with True first wait_dead_outcome[of "k_env k" _ _ s1 "(g, s2)"] assms f2 show ?thesis
      by (simp add: stop_exec_def req Let_def)
  next
    case False
    have s2: "state_of s2 = state_of s \<and> so_started (ob s2) = so_started (ob s)"
      using first False wait_dead_outcome[of "k_env k" _ _ s1 "(g, s2)"] s1
      by (cases b) auto
    obtain g' s4 where w: "wait_dead (k_env k) 2 (now (k_env k) ?s3) ?s3 = Some (g', s4)"
        and r: "r = (if g' then 0 else -1)" "s' = s4"
      using assms first False by (auto simp: stop_exec_def req Let_def bind_eq_Some_conv split: if_splits)
    have "stop_frame s s4" using wait_dead_frame[OF w] f2 by (simp add: stop_frame_def)
    with wait_dead_outcome[OF w] show ?thesis using s2 by (auto simp: r split: if_splits)
  qed
qed

lemma command_stop_outcome:
  assumes "command_stop tc fs k ua byNode core s = Some (r, s')"
  shows "(r = 0 \<and> state_of s' = Inactive \<and>
      (state_of s = Inactive \<and> acts s' = acts s \<or>
       state_of s \<noteq> Inactive \<and> state_of s \<noteq> Destroying \<and> so_pid (ob s') = 0 \<and> \<not> so_started (ob s')) \<or>
    r = -1 \<and> (state_of s \<noteq> Inactive \<and> state_of s \<noteq> Destroying \<and> state_of s' = Deactivating \<or>
       state_of s' = state_of s \<and> acts s' = acts s)) \<and>
    so_enabled (ob s') = (so_enabled (ob s) \<and> \<not> byNode) \<and> starts_of s' = starts_of s"
proof -
  have en: "so_enabled (ob (snd (stop_can (k_env k) byNode s))) = (so_enabled (ob s) \<and> \<not> byNode)"
    by (simp add: stop_can_def Let_def setEnabled_def)
  show ?thesis
  proof (cases "fst (stop_can (k_env k) byNode s) = EXECUTABLE")
    case True
    then have "stop_exec tc fs k ua core (snd (stop_can (k_env k) byNode s)) = Some (r, s')"
      using assms by (simp add: command_stop_def doProcess_def)
    from stop_exec_outcome[OF this] stop_can_run[OF True] en
      starts_of_acts[of "snd (stop_can (k_env k) byNode s)" s] show ?thesis
      unfolding stop_frame_def by auto
  next
    case False
    have r: "s' = snd (stop_can (k_env k) byNode s)"
      using False assms by (auto simp: command_stop_def doProcess_def split: exe_status.splits)
    have no: "fst (stop_can (k_env k) byNode s) = NO_NEED_EXECUTE \<longrightarrow> state_of s = Inactive"
      by (simp add: stop_can_def Let_def)
    from cmd_stop.not_run[OF False assms[unfolded command_stop_def]] en no starts_of_acts[of s' s] show ?thesis
      by (auto simp: r split: if_splits)
  qed
qed

section \<open>Starting\<close>

lemma record_start_simps [simp]:
  "so_state (ob (record_start e s)) = so_state (ob s)" "cfg (ob (record_start e s)) = cfg (ob s)"
  "acts (record_start e s) = acts s" "so_exePath (ob (record_start e s)) = so_exePath (ob s)"
  "so_startScript (ob (record_start e s)) = so_startScript (ob s)"
  by (simp_all add: record_start_def cfg_def)

text \<open>A start does at most one thing to the system and leaves the configuration and the state alone.\<close>

definition start_frame :: "node_state \<Rightarrow> node_state \<Rightarrow> bool" where
  "start_frame s s' \<longleftrightarrow> cfg (ob s') = cfg (ob s) \<and> state_of s' = state_of s \<and>
     (acts s' = acts s \<or> (\<exists>f. acts s' = acts s @ [StartScript f] \<or> acts s' = acts s @ [StartProcess f]))"

lemma startByScript_outcome:
  assumes "startByScript tc k s = Some (succ, s')"
  shows "start_frame s s'"
proof (cases "k_script k (tick s)")
  case False
  with assms show ?thesis by (auto simp: startByScript_def start_frame_def)
next
  case True
  with assms obtain i n b s3 where
    w: "wait_pid tc k i n (pass_time (act (StartScript (so_startScript (ob s))) (record_start (k_env k) s))) = Some (b, s3)"
    and s': "s' = snd (checkPid (k_env k) s3)"
    by (auto simp: startByScript_def Let_def bind_eq_Some_conv split_beta)
  from wait_pid_outcome[OF w] show ?thesis by (simp add: s' start_frame_def)
qed

lemma startByScript_returns:
  assumes "clock_runs (k_env k)"
  shows "\<exists>y. startByScript tc k s = Some y"
proof -
  let ?s2 = "pass_time (act (StartScript (so_startScript (ob s))) (record_start (k_env k) s))"
  let ?i = "let i = c_div (k_start_timeout k) 1000 in if i < 3 then 3 else i"
  obtain b s3 where "wait_pid tc k ?i (now (k_env k) ?s2) ?s2 = Some (b, s3)" using wait_pid_returns[OF assms] by fastforce
  then have "startByScript tc k s =
      (if \<not> k_script k (tick s) then Some (False, pass_time (record_start (k_env k) s))
       else let (flag, s4) = checkPid (k_env k) s3 in Some (if flag \<noteq> 0 then False else b, s4))"
    by (simp add: startByScript_def)
  then show ?thesis by (auto simp: split_beta)
qed

lemma startNormal_returns:
  assumes "clock_runs (k_env k)"
  shows "\<exists>y. startNormal tc k s = Some y"
proof (cases "k_fork k (tick s)")
  case None
  then have "startNormal tc k s = Some (False, pass_time (record_start (k_env k) s))"
    by (simp add: startNormal_def Let_def)
  then show ?thesis by blast
next
  case (Some p)
  let ?s2 = "pass_time (act (StartProcess (so_exePath (ob s) @ ''/tars_start.sh'')) (record_start (k_env k) s))"
  obtain s3 where "wait_file k (now (k_env k) ?s2) ?s2 = Some s3" using wait_file_returns[OF assms] by blast
  with Some show ?thesis by (auto simp: startNormal_def Let_def split_beta)
qed

lemma startNormal_outcome:
  assumes "startNormal tc k s = Some (succ, s')"
  shows "start_frame s s'"
proof (cases "k_fork k (tick s) = None \<or> k_fork k (tick s) = Some 0")
  case True
  with assms show ?thesis by (auto simp: startNormal_def Let_def start_frame_def)
next
  case False
  then obtain p where p: "k_fork k (tick s) = Some p" "p \<noteq> 0" by auto
  let ?s2 = "pass_time (act (StartProcess (so_exePath (ob s) @ ''/tars_start.sh'')) (record_start (k_env k) s))"
  from assms p obtain s3 q where w: "wait_file k (now (k_env k) ?s2) ?s2 = Some s3"
    and s': "s' = snd (checkPid (k_env k) (setPid (k_env k) q s3))"
    by (auto simp: startNormal_def Let_def bind_eq_Some_conv split_beta)
  from wait_file_outcome[OF w] show ?thesis by (simp add: s' start_frame_def)
qed

lemma startFinish_fields [simp]:
  "state_of (startFinish e b s) = (if b then state_of s else Inactive)"
  "so_pid (ob (startFinish e b s)) = (if b then so_pid (ob s) else 0)"
  "so_started (ob (startFinish e b s)) = b"
  "acts (startFinish e b s) = acts s"
  "so_enabled (ob (startFinish e b s)) = so_enabled (ob s)"
  by (simp_all add: startFinish_def Let_def setStarted_def setStartTime_def setLimitInfoUpdate_def)

definition start_one :: "tc_common \<Rightarrow> cmd_env \<Rightarrow> node_state \<Rightarrow> (bool \<times> node_state) option" where
  "start_one tc k s =
     (if so_startScript (ob s) \<noteq> [] \<or> \<not> so_tarsServer (ob s) then startByScript tc k s else startNormal tc k s)"

lemma start_exec_one:
  "start_exec tc k s =
     (if (so_startScript (ob s) \<noteq> [] \<or> \<not> so_tarsServer (ob s)) \<or> \<not> so_container (ob s) then
        map_option (\<lambda>(b, s1). (if b then 0 else -1, startFinish (k_env k) b s1)) (start_one tc k s)
      else Some (0, s))"
  by (simp add: start_exec_def start_one_def Let_def)

lemma start_one_outcome: "start_one tc k s = Some (b, s') \<Longrightarrow> start_frame s s'"
  by (auto simp: start_one_def split: if_splits intro: startByScript_outcome startNormal_outcome)

lemma start_exec_returns:
  assumes "clock_runs (k_env k)"
  shows "\<exists>y. start_exec tc k s = Some y"
  using startByScript_returns[OF assms] startNormal_returns[OF assms]
  by (simp add: start_exec_one start_one_def del: split_paired_Ex)

lemma start_exec_outcome:
  assumes "start_exec tc k s = Some (r, s')"
  shows "(r = 0 \<and> state_of s' = state_of s \<or>
      r = -1 \<and> state_of s' = Inactive \<and> so_pid (ob s') = 0 \<and> \<not> so_started (ob s')) \<and>
    (r = 0 \<longrightarrow> \<not> so_container (ob s) \<longrightarrow> so_started (ob s')) \<and>
    (acts s' = acts s \<or> (\<exists>f. acts s' = acts s @ [StartScript f] \<or> acts s' = acts s @ [StartProcess f]))"
proof (cases "(so_startScript (ob s) \<noteq> [] \<or> \<not> so_tarsServer (ob s)) \<or> \<not> so_container (ob s)")
  case False
  with assms show ?thesis by (simp add: start_exec_one)
next
  case True
  with assms obtain b s1 where one: "start_one tc k s = Some (b, s1)"
    and r: "r = (if b then 0 else -1)" "s' = startFinish (k_env k) b s1"
    by (auto simp: start_exec_one simp del: not_None_eq)
  from start_one_outcome[OF one] show ?thesis by (auto simp: r start_frame_def)
qed

lemma start_exec_enabled:
  assumes "start_exec tc k s = Some (r, s')"
  shows "so_enabled (ob s') = so_enabled (ob s)"
proof (cases "(so_startScript (ob s) \<noteq> [] \<or> \<not> so_tarsServer (ob s)) \<or> \<not> so_container (ob s)")
  case False
  with assms show ?thesis by (simp add: start_exec_one)
next
  case True
  with assms obtain b s1 where "start_one tc k s = Some (b, s1)" "s' = startFinish (k_env k) b s1"
    by (auto simp: start_exec_one simp del: not_None_eq)
  with start_one_outcome show ?thesis by (fastforce simp: start_frame_def cfg_def)
qed

section \<open>Searching the executable\<close>

text \<open>The subdirectory relation, and the entries of a directory and of everything below it.\<close>

definition subdirs :: "tc_file \<Rightarrow> (string \<times> string) set" where
  "subdirs fs = {(x, d). x \<in> set (f_list fs d) \<and> f_is_dir fs x}"

inductive in_tree :: "tc_file \<Rightarrow> string \<Rightarrow> string \<Rightarrow> bool" for fs where
  here: "f \<in> set (f_list fs d) \<Longrightarrow> in_tree fs d f"
| below: "x \<in> set (f_list fs d) \<Longrightarrow> f_is_dir fs x \<Longrightarrow> in_tree fs x f \<Longrightarrow> in_tree fs d f"

definition search_result :: "tc_file \<Rightarrow> string \<Rightarrow> string list \<Rightarrow> string option \<Rightarrow> bool" where
  "search_result fs exe stack r \<longleftrightarrow>
     (case r of
        None \<Rightarrow> \<forall>d\<in>set stack. \<forall>f. in_tree fs d f \<longrightarrow> \<not> server_file fs exe f
      | Some f \<Rightarrow> server_file fs exe f \<and> (\<exists>d\<in>set stack. in_tree fs d f))"

lemma search_result_step:
  assumes "List.find (server_file fs exe) (f_list fs d) = None"
    and "search_result fs exe (filter (f_is_dir fs) (f_list fs d) @ rest) r"
  shows "search_result fs exe (d # rest) r"
proof (cases r)
  case (Some f)
  with assms(2) show ?thesis by (auto simp: search_result_def intro: in_tree.below)
next
  case None
  have "\<not> server_file fs exe f" if "in_tree fs d f" for f
    using that
  proof cases
    case here
    with assms(1) show ?thesis by (simp add: find_None_iff)
  next
    case (below x)
    with assms(2) None show ?thesis by (auto simp: search_result_def)
  qed
  with assms(2) None show ?thesis by (auto simp: search_result_def)
qed

lemma search_step_less:
  "(mset (filter (f_is_dir fs) (f_list fs d) @ rest), mset (d # rest)) \<in> mult (subdirs fs)"
  unfolding mult_def
  by (rule r_into_trancl, rule mult1I[of _ d "mset rest" _ "mset (filter (f_is_dir fs) (f_list fs d))"])
    (auto simp: subdirs_def)

lemma searchServer_correct:
  assumes "wf (subdirs fs)"
  shows "\<exists>r. searchServer fs exe stack = Some r \<and> search_result fs exe stack r"
proof (induction "mset stack" arbitrary: stack rule: wf_induct_rule[OF wf_mult[OF assms]])
  case 1
  show ?case
  proof (cases stack)
    case Nil
    then show ?thesis by (simp add: searchServer.simps search_result_def)
  next
    case (Cons d rest)
    show ?thesis
    proof (cases "List.find (server_file fs exe) (f_list fs d)")
      case (Some f)
      then have "server_file fs exe f \<and> in_tree fs d f"
        by (auto simp: find_Some_iff intro: in_tree.here)
      with Some Cons show ?thesis by (simp add: searchServer.simps search_result_def)
    next
      case None
      have "(mset (filter (f_is_dir fs) (f_list fs d) @ rest), mset stack) \<in> mult (subdirs fs)"
        using search_step_less Cons by blast
      from 1[OF this] obtain r where
        "searchServer fs exe (filter (f_is_dir fs) (f_list fs d) @ rest) = Some r"
        "search_result fs exe (filter (f_is_dir fs) (f_list fs d) @ rest) r" by blast
      with None Cons search_result_step[OF None] show ?thesis by (simp add: searchServer.simps)
    qed
  qed
qed

lemma resolve_exe_returns:
  assumes "wf (subdirs fs)"
  shows "\<exists>found exe. resolve_exe fs so = Some (found, exe)"
proof -
  obtain r where "searchServer fs (so_exeFile so) [so_exePath so] = Some r"
    using searchServer_correct[OF assms] by blast
  then show ?thesis by (auto simp: resolve_exe_def Let_def split: option.split)
qed

section \<open>Properties\<close>


text \<open>
  Fact (stop_command_returns). When the clock keeps running, a stop command returns, whatever
  the processes and the scripts do.
\<close>

theorem stop_command_returns:
  assumes "clock_runs (k_env k)"
  shows "\<exists>r s'. command_stop tc fs k ua byNode core s = Some (r, s')"
proof (cases "fst (stop_can (k_env k) byNode s)")
  case EXECUTABLE
  with stop_exec_returns[OF assms] show ?thesis by (simp add: command_stop_def doProcess_def)
qed (simp_all add: command_stop_def doProcess_def)

text \<open>
  Fact (search_finds_server). In a directory tree without cycles the search for an executable
  ends, returns only a matching entry of the tree, and reports none only when there is none.
\<close>

theorem search_finds_server:
  assumes "wf (subdirs fs)"
  shows "\<exists>r. searchServer fs exe [d] = Some r \<and>
    (case r of None \<Rightarrow> \<not> (\<exists>f. in_tree fs d f \<and> server_file fs exe f)
             | Some f \<Rightarrow> in_tree fs d f \<and> server_file fs exe f)"
  using searchServer_correct[OF assms, of exe "[d]"]
  by (fastforce simp: search_result_def split: option.splits)

lemma command_start_outcome:
  assumes "command_start tc fs k byNode s = Some (r, s')"
  shows "\<not> so_isStarting (ob s') \<and>
    (acts s' = acts s \<or> state_of s = Inactive \<and> (byNode \<or> so_enabled (ob s)) \<and>
       (\<exists>f. acts s' = acts s @ [StartScript f] \<or> acts s' = acts s @ [StartProcess f])) \<and>
    (r = -1 \<longrightarrow> state_of s = Inactive \<longrightarrow> state_of s' = Inactive) \<and>
    (state_of s \<noteq> Inactive \<longrightarrow> state_of s' = state_of s) \<and>
    (state_of s = Inactive \<longrightarrow> state_of s' \<in> {Inactive, Activating}) \<and>
    so_enabled (ob s') = (so_enabled (ob s) \<or> byNode)"
proof -
  let ?s0 = "on_ob (setStarting True) s"
  obtain found s1 where run: "doProcess (start_can (k_env k) found byNode ?s0) (start_exec tc k) = Some (r, s1)"
    and s': "s' = on_ob (setStarting False) s1"
    using assms by (auto simp: command_start_def Let_def bind_eq_Some_conv split_beta)
  have s': "state_of s' = state_of s1" "acts s' = acts s1" "\<not> so_isStarting (ob s')" "so_enabled (ob s') = so_enabled (ob s1)"
    by (simp_all add: s')
  have en: "so_enabled (ob (snd (start_can (k_env k) found byNode ?s0))) = (so_enabled (ob s) \<or> byNode)"
    by (simp add: start_can_def Let_def setEnabled_def setPatched_def)
  show ?thesis
  proof (cases "fst (start_can (k_env k) found byNode ?s0) = EXECUTABLE")
    case True
    then have ex: "start_exec tc k (snd (start_can (k_env k) found byNode ?s0)) = Some (r, s1)"
      using run by (simp add: doProcess_def)
    note out = start_exec_outcome[OF ex]
    from start_can_run[OF True] have can: "state_of s = Inactive" "byNode \<or> so_enabled (ob s)"
      "acts (snd (start_can (k_env k) found byNode ?s0)) = acts s"
      "state_of (snd (start_can (k_env k) found byNode ?s0)) = Activating" by simp_all
    have "r = -1 \<longrightarrow> state_of s1 = Inactive" "state_of s1 \<in> {Inactive, Activating}" using out can(4) by auto
    with out can s' start_exec_enabled[OF ex] en show ?thesis by simp
  next
    case False
    have "so_enabled (ob s1) = (so_enabled (ob s) \<or> byNode)"
      using en run False by (auto simp: doProcess_def split: exe_status.splits)
    with cmd_start.not_run[OF False run] show ?thesis by (simp add: s')
  qed
qed

text \<open>
  Fact (start_command_result). A start command acts on the system only when the server was
  Inactive and either enabled or started by the node itself, and then at most once. It always clears the
  starting mark. A start that fails after it was let through leaves the server Inactive without a process id.
\<close>

theorem start_command_result:
  assumes "command_start tc fs k byNode s = Some (r, s')"
  shows "\<not> so_isStarting (ob s') \<and>
    (acts s' = acts s \<or> state_of s = Inactive \<and> (byNode \<or> so_enabled (ob s)) \<and>
       (\<exists>f. acts s' = acts s @ [StartScript f] \<or> acts s' = acts s @ [StartProcess f])) \<and>
    (r = -1 \<longrightarrow> state_of s = Inactive \<longrightarrow> state_of s' = Inactive) \<and>
    (state_of s \<noteq> Inactive \<longrightarrow> state_of s' = state_of s)"
  using command_start_outcome[OF assms] by blast

lemma command_start_total:
  assumes "clock_runs (k_env k)" and "wf (subdirs fs)"
  shows "\<exists>r s'. command_start tc fs k byNode s = Some (r, s')"
proof -
  let ?s0 = "on_ob (setStarting True) s"
  obtain found exe where f: "(if needs_search byNode (ob s) then resolve_exe fs (ob s) else Some (True, so_exeFile (ob s)))
      = Some (found, exe)"
    using resolve_exe_returns[OF assms(2), of "ob s"] by (cases "needs_search byNode (ob s)") auto
  obtain r s1 where "doProcess (start_can (k_env k) found byNode ?s0) (start_exec tc k) = Some (r, s1)"
    using start_exec_returns[OF assms(1), of tc "snd (start_can (k_env k) found byNode ?s0)"]
    by (cases "fst (start_can (k_env k) found byNode ?s0)") (auto simp: doProcess_def)
  with f show ?thesis by (simp add: command_start_def Let_def)
qed

text \<open>
  Fact (start_command_returns). When the clock keeps running and the directories have no
  cycles, a start command returns.
\<close>

theorem start_command_returns:
  assumes "clock_runs (k_env k)" and "wf (subdirs fs)"
  shows "\<exists>r s'. command_start tc fs k byNode s = Some (r, s')"
  by (rule command_start_total[OF assms])

text \<open>
  Fact (addfile_result_inverted). Fetching a configuration file answers 1 when it worked and 0
  when it failed, the opposite of every other command and of fetching a script; the state of the
  server is the same before and after in every case.
\<close>

theorem addfile_result_inverted:
  assumes "so_application (ob s) \<noteq> []" and "so_serverName (ob s) \<noteq> []" and "file \<noteq> []"
  shows "\<exists>s'. command_addfile e file True script fetched s = Some (if fetched = script then 0 else 1, s') \<and>
    state_of s' = state_of s"
  using assms by (cases script; cases fetched) (simp_all add: command_addfile_def addfile_can_def doProcess_def addfile_exec_def)

text \<open>
  Fact (destroy_needs_inactive). A destroy command removes files only when the server is
  Inactive, and then exactly the log directory of the server and its own directory when that exists.
\<close>

theorem destroy_needs_inactive:
  assumes "command_destroy tc fs logPath dir s = Some (r, s')"
  shows "ob s' = ob s \<and>
    (acts s' = acts s \<or> state_of s = Inactive \<and>
       (\<exists>l. acts s' = acts s @ [RemovePath l] @ (if f_is_dir fs dir then [RemovePath dir] else [])))"
  using assms by (auto simp: command_destroy_def doProcess_def destroy_can_def destroy_exec_def Let_def split: if_splits)

text \<open>
  Fact (php_script_splits_line). The script generated for a PHP server outside a container ends
  the line of the command before the text that puts it into the background, so that text starts a line
  of its own.
\<close>

theorem php_script_splits_line:
  assumes "so_serverType so = ''tars_php''" and "\<not> so_container so"
  shows "\<exists>ls. prepareScript join env lib exe opts script so =
    ls @ [exe @ '' '' @ join opts, '' & pid=$!'', ''echo $pid > '' @ script @ ''.pid'', []]"
  using assms by (simp add: prepareScript_def)

section \<open>Examples\<close>

definition sample_cmd :: "(int \<Rightarrow> bool) \<Rightarrow> cmd_env" where
  "sample_cmd up = \<lparr> k_env = sample_world (Some 0) up, k_throws = (\<lambda>_. False), k_script = (\<lambda>_. True), k_ps = (\<lambda>_. ''prog 77''),
     k_fork = (\<lambda>_. Some 77), k_pidfile = (\<lambda>_. Some ''77''), k_notify = (\<lambda>_. Some ''ok''), k_docker = (\<lambda>_. Some 77),
     k_start_timeout = 3000, k_stop_timeout = None,
     k_pid_state = (\<lambda>_ _. CHR ''S''), k_monitor = (\<lambda>_. None), k_heart_beat = 10 \<rparr>"

text \<open>A directory with a library directory and an executable.\<close>

definition sample_fs :: tc_file where
  "sample_fs = \<lparr> f_exist = (\<lambda>f. f = ''/bin/AppServer''), f_is_dir = (\<lambda>f. f = ''/bin/lib''),
     f_list = (\<lambda>d. if d = ''/bin'' then [''/bin/lib'', ''/bin/AppServer''] else if d = ''/bin/lib'' then [''/bin/lib/x''] else []),
     f_exec = (\<lambda>f. f = ''/bin/AppServer''), f_name = drop 5, f_abs = (\<lambda>f. take 1 f = ''/''), f_simplify = (\<lambda>f. f) \<rparr>"

lemma sample_clock: "clock_runs (k_env (sample_cmd up))"
  unfolding clock_runs_def
proof
  fix m
  show "\<exists>n. \<forall>j\<ge>n. m \<le> e_now (k_env (sample_cmd up)) j"
    by (rule exI[of _ "nat m"]) (auto simp: sample_cmd_def sample_world_def)
qed

lemma sample_subdirs: "wf (subdirs sample_fs)"
proof (rule wf_subset)
  show "subdirs sample_fs \<subseteq> {(''/bin/lib'', ''/bin'')}"
    by (auto simp: subdirs_def sample_fs_def split: if_splits)
  show "wf {(''/bin/lib'', ''/bin'')}" by (simp add: wf_insert)
qed

definition running_node :: node_state where
  "running_node = sample_node\<lparr> ob := sample_object\<lparr> so_state := Active, so_pid := 77, so_started := True \<rparr> \<rparr>"


theorem stop_command_returns_witness:
  "\<exists>r s'. command_stop sample_tc sample_fs (sample_cmd (\<lambda>_. True)) True False False running_node = Some (r, s')"
  by (rule stop_command_returns[OF sample_clock])

theorem search_finds_server_witness:
  "\<exists>r. searchServer sample_fs ''/bin/AppServer'' [''/bin''] = Some r"
  using search_finds_server[OF sample_subdirs, of "''/bin/AppServer''" "''/bin''"] by blast

theorem start_command_returns_witness:
  "\<exists>r s'. command_start sample_tc sample_fs (sample_cmd (\<lambda>_. True)) False sample_node = Some (r, s')"
  by (rule start_command_returns[OF sample_clock sample_subdirs])

theorem addfile_result_inverted_witness:
  "\<exists>s'. command_addfile (sample_world (Some 0) (\<lambda>_. True)) ''App.conf'' True False True sample_node = Some (1, s')"
  using addfile_result_inverted[of sample_node "''App.conf''" "sample_world (Some 0) (\<lambda>_. True)" False True]
  by (auto simp: sample_node_def sample_object_def)

theorem destroy_needs_inactive_witness:
  "ob (snd (the (command_destroy sample_tc sample_fs [] ''/bin/lib'' sample_node))) = sample_object"
proof -
  have "\<exists>r s'. command_destroy sample_tc sample_fs [] ''/bin/lib'' sample_node = Some (r, s')"
    by (simp add: command_destroy_def doProcess_def destroy_can_def destroy_exec_def sample_node_def sample_object_def Let_def)
  then obtain r s' where *: "command_destroy sample_tc sample_fs [] ''/bin/lib'' sample_node = Some (r, s')" by blast
  from destroy_needs_inactive[OF *] * show ?thesis by (simp add: sample_node_def)
qed

theorem php_script_splits_line_witness:
  "'' & pid=$!'' \<in> set (prepareScript concat [] ''/lib'' ''php'' [''index.php''] ''/bin/start.sh''
     (sample_object\<lparr> so_serverType := ''tars_php'' \<rparr>))"
  using php_script_splits_line[of "sample_object\<lparr> so_serverType := ''tars_php'' \<rparr>" concat "[]" "''/lib''" "''php''"
      "[''index.php'']" "''/bin/start.sh''"]
  by (auto simp: sample_object_def)

theorem start_command_result_witness:
  "\<not> so_isStarting (ob (snd (the (command_start sample_tc sample_fs (sample_cmd (\<lambda>_. True)) False sample_node))))"
proof -
  obtain r s1 where *: "command_start sample_tc sample_fs (sample_cmd (\<lambda>_. True)) False sample_node = Some (r, s1)"
    using command_start_total[OF sample_clock sample_subdirs] by blast
  from start_command_result[OF *] * show ?thesis by simp
qed

end
