(* ===== verification/Node_Patch.thy ===== *)
theory Node_Patch
  imports Node_Commands
begin

text \<open>
  Patching a server on a node: \<open>ServerManager::patchPro\<close> puts a request on the queue of
  \<open>BatchPatch\<close>, a thread takes it (\<open>BatchPatchThread::doPatchRequest\<close>) and runs \<open>CommandPatch\<close>: download
  (\<open>SingleFileDownloader::download\<close>), check of the digest, unpacking, rotation of the backups and
  installation. The disk is a map from paths to package files and a map from paths to directories.
\<close>

section \<open>Data\<close>

datatype entry = FileE string string | DirE string "entry list"

fun entry_name :: "entry \<Rightarrow> string" where
  "entry_name (FileE n c) = n"
| "entry_name (DirE n es) = n"

fun is_dirE :: "entry \<Rightarrow> bool" where
  "is_dirE (DirE n es) = True"
| "is_dirE (FileE n c) = False"

record patch_request =
  rq_appname :: string
  rq_servername :: string
  rq_groupname :: string
  rq_version :: string
  rq_md5 :: string
  rq_ostype :: string

record patch_disk =
  files_of :: "string \<rightharpoonup> string"
  dirs_of :: "string \<rightharpoonup> entry list"

text \<open>
  The patch server as the node sees it, one answer per call; \<open>None\<close> is an exception of the call. A
  listing answers with a code and the number of files, a download with a code and a buffer.
\<close>

record patch_remote =
  pr_throws :: bool
  pr_list :: "nat \<Rightarrow> (int \<times> nat) option"
  pr_size :: int
  pr_open :: bool
  pr_chunk :: "nat \<Rightarrow> int \<Rightarrow> (int \<times> string) option"

section \<open>Downloading one file\<close>

text \<open>Two attempts; when both raise, the code of the previous call and an empty buffer remain.\<close>

definition fetch_chunk :: "patch_remote \<Rightarrow> nat \<Rightarrow> int \<Rightarrow> int \<Rightarrow> int \<times> string \<times> nat" where
  "fetch_chunk r n pos prev =
     (case pr_chunk r n pos of
        Some (d, buf) \<Rightarrow> (d, buf, n + 1)
      | None \<Rightarrow>
          (case pr_chunk r (n + 1) pos of
             Some (d, buf) \<Rightarrow> (d, buf, n + 2)
           | None \<Rightarrow> (prev, [], n + 2)))"

definition onDownloading :: "patch_remote \<Rightarrow> int \<Rightarrow> int \<Rightarrow> server_object \<Rightarrow> server_object" where
  "onDownloading r t pos so = (if pr_size r > 0 then setPatchPercent (c_div (pos * 100) (pr_size r)) t so else so)"

text \<open>\<open>content\<close> is what has been written; its length is the position.\<close>

partial_function (option) dl_loop ::
  "patch_remote \<Rightarrow> int \<Rightarrow> nat \<Rightarrow> int \<Rightarrow> string \<Rightarrow> server_object \<Rightarrow> (bool \<times> string \<times> server_object) option" where
  "dl_loop r t n prev content so =
     (let (d, buf, n') = fetch_chunk r n (int (length content)) prev
      in if d < 0 then Some (False, content, so)
         else if d = 0 then
           (if buf = [] then Some (False, content, so)
            else dl_loop r t n' d (content @ buf) (onDownloading r t (int (length (content @ buf))) so))
         else if d = 1 then Some (True, content, so)
         else dl_loop r t n' d content so)"

lemmas [code] = dl_loop.simps

definition list_remote :: "patch_remote \<Rightarrow> int \<times> nat" where
  "list_remote r =
     (case pr_list r 0 of
        Some x \<Rightarrow> x
      | None \<Rightarrow> (case pr_list r 1 of Some x \<Rightarrow> x | None \<Rightarrow> (0, 0)))"

text \<open>The result is the code, the content of the local file when it was opened, and the object.\<close>

definition sfd_download :: "patch_remote \<Rightarrow> int \<Rightarrow> server_object \<Rightarrow> (int \<times> string option \<times> server_object) option" where
  "sfd_download r t so =
     (let (ret, n) = list_remote r
      in if ret \<noteq> 1 then Some (-1, None, so)
         else if n < 1 then Some (-2, None, so)
         else if \<not> pr_open r then Some (-3, None, so)
         else map_option (\<lambda>(ended, content, so1). (if ended then 0 else -6, Some content, so1)) (dl_loop r t 0 0 [] so))"

section \<open>The command's download\<close>

text \<open>
  \<open>x_md5\<close> is the digest of a file's content. \<open>x_unpack\<close> is the content of the extraction directory
  after the unpacking command for an archive (\<open>True\<close> for \<open>unzip\<close>), \<open>x_copy\<close> the recursive copy of a
  directory's entries over another, \<open>None\<close> an exception. \<open>x_ext\<close> is the extension of a name. The registry's answer to the recorded
  version is \<open>None\<close> without a proxy or when the call raises.
\<close>

record patch_env =
  x_md5 :: "string \<Rightarrow> string"
  x_mkdir :: "string \<Rightarrow> bool"
  x_remove :: "string \<Rightarrow> bool"
  x_unpack :: "bool \<Rightarrow> string \<Rightarrow> string \<Rightarrow> entry list"
  x_copy :: "entry list \<Rightarrow> entry list \<Rightarrow> entry list option"
  x_replace :: "string \<Rightarrow> string \<Rightarrow> string \<Rightarrow> string"
  x_ext :: "string \<Rightarrow> string"
  x_registry :: "int option"
  x_conf_throws :: bool

definition makeDir :: "patch_env \<Rightarrow> string \<Rightarrow> patch_disk \<Rightarrow> bool \<times> patch_disk" where
  "makeDir x p d =
     (if dirs_of d p \<noteq> None then (True, d)
      else if x_mkdir x p then (True, d\<lparr> dirs_of := (dirs_of d)(p \<mapsto> []) \<rparr>) else (False, d))"

definition removeDir :: "patch_env \<Rightarrow> string \<Rightarrow> patch_disk \<Rightarrow> bool \<times> patch_disk" where
  "removeDir x p d =
     (if dirs_of d p = None then (True, d)
      else if x_remove x p then (True, d\<lparr> dirs_of := (dirs_of d)(p := None) \<rparr>) else (False, d))"

text \<open>\<open>rename\<close> of a directory: the target must be absent or empty.\<close>

definition rename_dir :: "string \<Rightarrow> string \<Rightarrow> patch_disk \<Rightarrow> patch_disk" where
  "rename_dir a b d =
     (case dirs_of d a of
        None \<Rightarrow> d
      | Some es \<Rightarrow>
          if a \<noteq> b \<and> (dirs_of d b = None \<or> dirs_of d b = Some [])
          then d\<lparr> dirs_of := (dirs_of d)(a := None, b \<mapsto> es) \<rparr> else d)"

text \<open>The check before and the check inside the lock see the same disk when no other thread patches.\<close>

definition cached :: "patch_env \<Rightarrow> string \<Rightarrow> string \<Rightarrow> patch_disk \<Rightarrow> bool" where
  "cached x path md5 d \<longleftrightarrow> (\<exists>c \<in> set_option (files_of d path). x_md5 x c = md5)"

definition patch_download ::
  "patch_remote \<Rightarrow> patch_env \<Rightarrow> int \<Rightarrow> string \<Rightarrow> string \<Rightarrow> string \<Rightarrow> patch_disk \<times> server_object \<Rightarrow>
     (int \<times> patch_disk \<times> server_object) option" where
  "patch_download r x t dir path md5 z =
     (let (d, so) = z
      in if cached x path md5 d then Some (0, d, setPatchPercent 100 t so)
         else
           let (made, d1) = makeDir x dir d
           in if \<not> made then Some (-1, d1, so)
              else if pr_throws r then Some (-3, d1, so)
              else map_option (\<lambda>(ret, content, so1).
                (let d2 = (case content of None \<Rightarrow> d1 | Some c \<Rightarrow> d1\<lparr> files_of := (files_of d1)(path \<mapsto> c) \<rparr>)
                 in if ret \<noteq> 0 then (ret - 100, d2, so1)
                    else if files_of d2 path = None then (-5, d2, so1)
                    else if \<not> cached x path md5 d2 then (-6, d2, so1)
                    else (0, d2, so1))) (sfd_download r t so))"

section \<open>Backups\<close>

definition bin_of :: "string \<Rightarrow> string" where
  "bin_of srcPath = srcPath @ ''bin/''"

definition bak_of :: "string \<Rightarrow> nat \<Rightarrow> string" where
  "bak_of destPath i = destPath @ ''bin_bak'' @ [char_of (48 + i)] @ ''/''"

text \<open>One round of the rotation: the i-th backup becomes the next one.\<close>

definition rotate_bak :: "patch_env \<Rightarrow> string \<Rightarrow> nat \<Rightarrow> patch_disk \<Rightarrow> patch_disk" where
  "rotate_bak x destPath i d =
     (if dirs_of d (bak_of destPath i) = None then d
      else
        let newFile = bak_of destPath (Suc i);
            d1 = snd (removeDir x newFile d);
            (made, d2) = makeDir x newFile d1
        in if made then rename_dir (bak_of destPath i) newFile d2 else d2)"

definition backupBinFiles :: "patch_env \<Rightarrow> string \<Rightarrow> string \<Rightarrow> patch_disk \<Rightarrow> int \<times> patch_disk" where
  "backupBinFiles x srcPath destPath d =
     (let (made, d1) = makeDir x srcPath d
      in if \<not> made then (-1, d1)
         else
           let (made, d2) = makeDir x destPath d1;
               d3 = (if made then fold (rotate_bak x destPath) [4, 3, 2, 1] d2 else d2);
               d4 = snd (removeDir x (bak_of destPath 1) d3);
               d5 = snd (makeDir x (bin_of srcPath) d4);
               d6 = rename_dir (bin_of srcPath) (bak_of destPath 1) d5
           in (0, snd (makeDir x (bin_of srcPath) d6)))"

text \<open>
  \<open>restoreFiles\<close> copies the configured names back from a backup, where they are directories.
  \<open>None\<close> is an exception of a copy.
\<close>

definition restore_one :: "patch_env \<Rightarrow> string \<Rightarrow> string \<Rightarrow> string \<Rightarrow> patch_disk \<Rightarrow> patch_disk option" where
  "restore_one x from to f d =
     (case dirs_of d (from @ f) of
        None \<Rightarrow> Some d
      | Some es \<Rightarrow>
          let d1 = snd (makeDir x (to @ f) d)
          in case dirs_of d1 (to @ f) of
               None \<Rightarrow> None
             | Some es' \<Rightarrow> map_option (\<lambda>r. d1\<lparr> dirs_of := (dirs_of d1)((to @ f) \<mapsto> r) \<rparr>) (x_copy x es es'))"

definition restoreFiles :: "tc_common \<Rightarrow> patch_env \<Rightarrow> string \<Rightarrow> string \<Rightarrow> string \<Rightarrow> patch_disk \<Rightarrow> patch_disk option" where
  "restoreFiles tc x backupFiles from to d = fold_opt (restore_one x from to) (tc_sepstr tc backupFiles '';|'' False) d"

definition dir_or_empty :: "patch_disk \<Rightarrow> string \<Rightarrow> entry list" where
  "dir_or_empty d p = (case dirs_of d p of None \<Rightarrow> [] | Some es \<Rightarrow> es)"

text \<open>The branch for \<open>tars_node\<close>, a type no server has, keeps entries with three extensions as well.\<close>

definition keep_one :: "patch_env \<Rightarrow> string \<Rightarrow> entry \<Rightarrow> patch_disk \<Rightarrow> patch_disk option" where
  "keep_one x to en d =
     (if x_ext x (entry_name en) = ''conf'' \<or> x_ext x (entry_name en) = ''sh'' \<or> x_ext x (entry_name en) = ''bak''
      then map_option (\<lambda>r. d\<lparr> dirs_of := (dirs_of d)(to \<mapsto> r) \<rparr>) (x_copy x [en] (dir_or_empty d to))
      else Some d)"

definition backupfiles :: "tc_common \<Rightarrow> patch_env \<Rightarrow> string \<Rightarrow> string \<Rightarrow> string \<Rightarrow> string \<Rightarrow> patch_disk \<Rightarrow> int \<times> patch_disk" where
  "backupfiles tc x serverType backupFiles srcPath destPath d =
     (let d1 = snd (backupBinFiles x srcPath destPath d)
      in if serverType = ''tars_java'' then
           (case restoreFiles tc x backupFiles (bak_of destPath 1) (bin_of srcPath) d1 of
              None \<Rightarrow> (-1, d1) | Some d2 \<Rightarrow> (0, d2))
         else if serverType = ''tars_node'' then
           (if dirs_of d1 (bin_of srcPath) = None then (-1, snd (makeDir x (bin_of srcPath) d1))
            else case Option.bind (restoreFiles tc x backupFiles (bak_of destPath 1) (bin_of srcPath) d1)
                     (\<lambda>d2. fold_opt (keep_one x (bin_of srcPath)) (dir_or_empty d2 (bak_of destPath 1)) d2) of
                   None \<Rightarrow> (-1, d1) | Some d2 \<Rightarrow> (0, d2))
         else (0, d1))"

section \<open>Where the program is in the package\<close>

text \<open>
  Descend while the only visible entry is a directory. The flag is the \<open>iRet = -6\<close> of an empty
  directory, which does not keep the copy from happening.
\<close>

definition visible :: "entry \<Rightarrow> bool" where
  "visible e \<longleftrightarrow> take 1 (entry_name e) \<noteq> ''.''"

lemma filter_size: "size_list size (filter P es) \<le> size_list size (es :: entry list)"
  by (induction es) auto

function exec_source :: "entry list \<Rightarrow> bool \<times> entry list" where
  "exec_source es =
     (case filter visible es of
        [] \<Rightarrow> (False, es)
      | [DirE n es'] \<Rightarrow> exec_source es'
      | _ \<Rightarrow> (True, es))"
  by pat_completeness auto
termination
proof (relation "measure (size_list size)")
  fix es :: "entry list" and e es0 n es'
  assume *: "filter visible es = e # es0" "es0 = []" "e = DirE n es'"
  have "size_list size (filter visible es) \<le> size_list size es" by (rule filter_size)
  with * show "(es', es) \<in> measure (size_list size)" by simp
qed simp

declare exec_source.simps [simp del]

text \<open>A package built for another name: the program file is renamed inside its directory.\<close>

definition rename_program :: "string \<Rightarrow> string \<Rightarrow> entry list \<Rightarrow> entry list" where
  "rename_program grp server es =
     map (\<lambda>e. case e of
         DirE n es' \<Rightarrow>
           if n = grp \<and> (\<exists>f \<in> set es'. entry_name f = grp) \<and> (\<forall>f \<in> set es'. \<not> (is_dirE f \<and> entry_name f = server)) then
             DirE n (map (\<lambda>f. if entry_name f = grp then (case f of FileE _ c \<Rightarrow> FileE server c | DirE _ s \<Rightarrow> DirE server s) else f)
                      (filter (\<lambda>f. entry_name f \<noteq> server) es'))
           else e
       | FileE n c \<Rightarrow> e) es"

section \<open>Installing\<close>

text \<open>What the command knows of the server besides the object itself.\<close>

record patch_paths =
  pp_download :: string
  pp_data :: string
  pp_tmp :: string
  pp_format :: string
  pp_backups :: string

definition package_name :: "patch_request \<Rightarrow> string" where
  "package_name rq = (if rq_groupname rq = [] then rq_servername rq else rq_groupname rq)"

definition tgz_dir :: "patch_paths \<Rightarrow> patch_request \<Rightarrow> string" where
  "tgz_dir pp rq = pp_download pp @ ''/BatchPatchingLoad/'' @ rq_appname rq @ ''.'' @ package_name rq"

definition tgz_file :: "patch_paths \<Rightarrow> patch_request \<Rightarrow> string" where
  "tgz_file pp rq = tgz_dir pp rq @ ''/'' @ rq_appname rq @ ''.'' @ package_name rq @
     (if rq_ostype rq \<noteq> [] then ''.'' @ rq_version rq @ ''.'' @ rq_ostype rq else []) @ ''.tgz''"

definition extract_dir :: "patch_paths \<Rightarrow> patch_request \<Rightarrow> string" where
  "extract_dir pp rq = pp_download pp @ ''/BatchPatching/'' @ rq_appname rq @ ''.'' @ rq_servername rq"

text \<open>
  The body of the loop from the existence check on: \<open>iRet\<close> is the code the download left, \<open>None\<close> an
  exception. For Java the archive is moved first; a jar is copied as it is.
\<close>

definition patch_install ::
  "tc_common \<Rightarrow> patch_env \<Rightarrow> patch_paths \<Rightarrow> patch_request \<Rightarrow> server_object \<Rightarrow> int \<Rightarrow> patch_disk \<Rightarrow>
     (int \<times> patch_disk) option" where
  "patch_install tc x pp rq so iRet d =
     (let tgz = tgz_file pp rq; ext = extract_dir pp rq; java = (so_serverType so = ''tars_java''); jar = (pp_format pp = ''jar'')
      in case files_of d tgz of
           None \<Rightarrow> Some (-2, d)
         | Some content \<Rightarrow>
             let (gone, d1) = removeDir x ext d
             in if \<not> gone then Some (-4, d1)
                else
                  let (made, d2) = makeDir x ext d1
                  in if \<not> made then Some (-5, d2)
                     else if x_conf_throws x then None
                     else
                       let moved = x_replace x tgz ''.tgz'' (if jar then ''.jar'' else ''.war'');
                           d3 = (if java then d2\<lparr> files_of := (files_of d2)(tgz := None, moved \<mapsto> content) \<rparr> else d2);
                           es = (if java \<and> jar then [] else x_unpack x java (package_name rq) content);
                           d4 = d3\<lparr> dirs_of := (dirs_of d3)(ext \<mapsto> es) \<rparr>
                       in if \<not> jar \<and> es = [] then Some (-6, d4)
                          else
                            let es1 = (if \<not> jar \<and> package_name rq \<noteq> rq_servername rq
                                       then rename_program (package_name rq) (rq_servername rq) es else es);
                                d5 = d4\<lparr> dirs_of := (dirs_of d4)(ext \<mapsto> es1) \<rparr>;
                                (b, d6) = backupfiles tc x (so_serverType so) (pp_backups pp) (pp_data pp) (pp_tmp pp) d5
                            in if b \<noteq> 0 then Some (-7, d6)
                               else if java \<and> jar then
                                 Some (iRet, case x_copy x [FileE moved content] (dir_or_empty d6 (so_exePath so)) of
                                     None \<Rightarrow> d6
                                   | Some r \<Rightarrow> d6\<lparr> dirs_of := (dirs_of d6)(so_exePath so \<mapsto> r) \<rparr>)
                               else
                                 let (ok, src) = exec_source es1
                                 in map_option (\<lambda>r. (if ok then iRet else -6,
                                      d6\<lparr> dirs_of := (dirs_of d6)(so_exePath so \<mapsto> r) \<rparr>))
                                      (x_copy x src (dir_or_empty d6 (so_exePath so))))"

text \<open>After a new-style download fails, the installation goes on; after an old-style one it does not.\<close>

definition patch_stages ::
  "tc_common \<Rightarrow> patch_remote \<Rightarrow> patch_env \<Rightarrow> patch_paths \<Rightarrow> patch_request \<Rightarrow> int \<Rightarrow> patch_disk \<times> server_object \<Rightarrow>
     (int option \<times> patch_disk \<times> server_object) option" where
  "patch_stages tc r x pp rq t z =
     map_option (\<lambda>(ret, d, so).
       (let iRet = (if ret \<noteq> 0 then ret - 100 else 0)
        in if ret \<noteq> 0 \<and> rq_ostype rq = [] then (Some iRet, d, so)
           else case patch_install tc x pp rq so iRet d of
                  None \<Rightarrow> (None, d, so)
                | Some (iRet', d') \<Rightarrow> (Some iRet', d', so)))
       (patch_download r x t (tgz_dir pp rq) (tgz_file pp rq) (rq_md5 rq) z)"

definition updatePatchResult :: "patch_env \<Rightarrow> int" where
  "updatePatchResult x =
     (case x_registry x of None \<Rightarrow> -1 | Some reply \<Rightarrow> 0)"

section \<open>The command\<close>

text \<open>\<open>msg\<close> is the text for an outcome; an exception of a stage is the code -8.\<close>

definition patch_execute ::
  "tc_common \<Rightarrow> patch_remote \<Rightarrow> patch_env \<Rightarrow> patch_paths \<Rightarrow> (int \<Rightarrow> string) \<Rightarrow> node_env \<Rightarrow> patch_request \<Rightarrow>
     patch_disk \<times> node_state \<Rightarrow> (int \<times> patch_disk \<times> node_state) option" where
  "patch_execute tc r x pp msg e rq z =
     (let (d, s) = z; t = now e s
      in map_option (\<lambda>(out, d', so').
           (let iRet = (case out of None \<Rightarrow> -8 | Some i \<Rightarrow> if i = 0 then updatePatchResult x else i)
            in (iRet, d', s\<lparr> ob := resetCoreInfo t (setPatched True (setPatchResult (msg iRet) (iRet = 0) so')) \<rparr>)))
           (patch_stages tc r x pp rq t (d, ob s)))"

definition patch_can :: "node_env \<Rightarrow> patch_request \<Rightarrow> node_state \<Rightarrow> node_state" where
  "patch_can e rq s =
     (let s1 = setState e BatchPatching True s
      in on_ob (\<lambda>so. setPatchResult [] True (setPatchPercent 0 (now e s1) (setPatchVersion (rq_version rq) so))) s1)"

text \<open>The guard object of the command sets the last state back when the command goes away.\<close>

definition doPatchRequest ::
  "tc_common \<Rightarrow> patch_remote \<Rightarrow> patch_env \<Rightarrow> patch_paths \<Rightarrow> (int \<Rightarrow> string) \<Rightarrow> node_env \<Rightarrow> patch_request \<Rightarrow>
     patch_disk \<times> node_state \<Rightarrow> (int \<times> patch_disk \<times> node_state) option" where
  "doPatchRequest tc r x pp msg e rq z =
     (let (d, s) = z; eState = so_lastState (ob s)
      in map_option (\<lambda>(iRet, d', s'). (iRet, d', setState e eState True s'))
           (patch_execute tc r x pp msg e rq (d, patch_can e rq s)))"

section \<open>The queue\<close>

record batch_patch =
  patchQueue :: "patch_request list"
  patchIng :: "string list"

definition patch_key :: "patch_request \<Rightarrow> string" where
  "patch_key rq = rq_appname rq @ rq_servername rq"

definition push_back :: "patch_request \<Rightarrow> bool \<Rightarrow> batch_patch \<Rightarrow> string + batch_patch" where
  "push_back rq server_ok q =
     (if patch_key rq \<in> set (patchIng q) then Inl ''reduplicate patch request''
      else if \<not> server_ok then Inl ''sever null''
      else Inr \<lparr> patchQueue = patchQueue q @ [rq], patchIng = patchIng q @ [patch_key rq] \<rparr>)"

definition pop_front :: "batch_patch \<Rightarrow> patch_request option \<times> batch_patch" where
  "pop_front q =
     (case patchQueue q of
        [] \<Rightarrow> (None, q)
      | rq # rest \<Rightarrow> (Some rq, \<lparr> patchQueue = rest, patchIng = removeAll (patch_key rq) (patchIng q) \<rparr>))"

section \<open>The request\<close>

datatype patch_reply = EM_TARS_SUCCESS | EM_TARS_SERVICE_STATE_ERR | EM_TARS_LOAD_SERVICE_DESC_ERR
  | EM_TARS_PARAMETER_ERR | EM_TARS_REQ_ALREADY_ERR | EM_TARS_UNKNOWN_ERR

text \<open>The first pattern with an existing path names the system; \<open>patterns\<close> is the configured list.\<close>

definition getOsType :: "tc_common \<Rightarrow> string \<Rightarrow> (string \<times> string) list \<Rightarrow> (string \<Rightarrow> bool) \<Rightarrow> string" where
  "getOsType tc defaultOs patterns exist =
     (case List.find (\<lambda>(key, paths). list_ex exist (tc_sepstr tc paths '':'' False)) patterns of
        Some (key, paths) \<Rightarrow> key
      | None \<Rightarrow> defaultOs)"

definition checkOsType :: "string \<Rightarrow> bool" where
  "checkOsType checkStr \<longleftrightarrow> checkStr = ''Y'' \<or> checkStr = ''y'' \<or> checkStr = ''yes'' \<or> checkStr = ''true''"

text \<open>\<open>loaded\<close> is the error text of \<open>loadServer\<close>, or nothing when the server was loaded.\<close>

definition patchPro ::
  "node_env \<Rightarrow> string option \<Rightarrow> string \<Rightarrow> string \<Rightarrow> patch_request \<Rightarrow> node_state \<times> batch_patch \<Rightarrow>
     patch_reply \<times> node_state \<times> batch_patch" where
  "patchPro e loaded enableOs osType rq z =
     (let (s, q) = z
      in case loaded of
           Some sError \<Rightarrow>
             (if str_contains sError ''server state'' then EM_TARS_SERVICE_STATE_ERR else EM_TARS_LOAD_SERVICE_DESC_ERR, s, q)
         | None \<Rightarrow>
             if in_transition (state_of s) \<and> state_of s \<noteq> Activating then (EM_TARS_SERVICE_STATE_ERR, s, q)
             else if rq_md5 rq = [] then (EM_TARS_PARAMETER_ERR, s, q)
             else if checkOsType enableOs \<and> rq_ostype rq \<noteq> [] \<and> rq_ostype rq \<noteq> osType then (EM_TARS_PARAMETER_ERR, s, q)
             else
               let s1 = setState e BatchPatching True (on_ob (setLastState (state_of s)) s);
                   s2 = on_ob (setPatchPercent 0 (now e s1)) s1
               in case push_back rq True q of
                    Inl err \<Rightarrow> (if str_contains err ''reduplicate'' then EM_TARS_REQ_ALREADY_ERR else EM_TARS_UNKNOWN_ERR, s2, q)
                  | Inr q' \<Rightarrow> (EM_TARS_SUCCESS, s2, q'))"

section \<open>Lemmas on the disk\<close>

text \<open>A disk on which making and removing directories works.\<close>

definition disk_ok :: "patch_env \<Rightarrow> bool" where
  "disk_ok x \<longleftrightarrow> (\<forall>p. x_mkdir x p) \<and> (\<forall>p. x_remove x p)"

lemma makeDir_ok:
  assumes "disk_ok x"
  shows "fst (makeDir x p d)"
    and "dirs_of (snd (makeDir x p d)) = (dirs_of d)(p := (case dirs_of d p of None \<Rightarrow> Some [] | Some es \<Rightarrow> Some es))"
    and "files_of (snd (makeDir x p d)) = files_of d"
  using assms by (auto simp: makeDir_def disk_ok_def fun_upd_idem split: option.split)

lemma removeDir_ok:
  assumes "disk_ok x"
  shows "fst (removeDir x p d)" and "dirs_of (snd (removeDir x p d)) = (dirs_of d)(p := None)"
    and "files_of (snd (removeDir x p d)) = files_of d"
  using assms by (auto simp: removeDir_def disk_ok_def fun_upd_idem)

lemma rename_dir_dirs:
  assumes "dirs_of d b = None \<or> dirs_of d b = Some []" and "a \<noteq> b" and "dirs_of d a = Some es"
  shows "dirs_of (rename_dir a b d) = (dirs_of d)(a := None, b \<mapsto> es)"
  using assms by (auto simp: rename_dir_def)

lemma bak_of_eq: "i < 10 \<Longrightarrow> j < 10 \<Longrightarrow> bak_of p i = bak_of p j \<longleftrightarrow> i = j"
proof -
  assume "i < 10" "j < 10"
  then have "char_of (48 + i) = (char_of (48 + j) :: char) \<longleftrightarrow> i = j"
    using of_char_of[of "48 + i"] of_char_of[of "48 + j"] by (auto simp del: of_char_of)
  then show ?thesis by (simp add: bak_of_def)
qed

lemma bak_not_bin: "i < 10 \<Longrightarrow> bak_of p i \<noteq> bin_of q"
proof
  assume "i < 10" and "bak_of p i = bin_of q"
  then have "rev (bak_of p i) ! 1 = rev (bin_of q) ! 1" by simp
  then have "char_of (48 + i) = CHR ''n''" by (simp add: bak_of_def bin_of_def)
  then have "(of_char (char_of (48 + i)) :: nat) = of_char CHR ''n''" by simp
  with \<open>i < 10\<close> show False by simp
qed

lemma rotate_dirs:
  assumes "disk_ok x" and "i < 9"
  shows "dirs_of (rotate_bak x p i d) =
    (if dirs_of d (bak_of p i) = None then dirs_of d
     else (dirs_of d)(bak_of p i := None, bak_of p (Suc i) := dirs_of d (bak_of p i)))"
proof (cases "dirs_of d (bak_of p i)")
  case None
  then show ?thesis by (simp add: rotate_bak_def)
next
  case (Some es)
  let ?d1 = "snd (removeDir x (bak_of p (Suc i)) d)"
  let ?d2 = "snd (makeDir x (bak_of p (Suc i)) ?d1)"
  have ne: "bak_of p i \<noteq> bak_of p (Suc i)" using assms(2) by (simp add: bak_of_eq)
  have d2: "dirs_of ?d2 = (dirs_of d)(bak_of p (Suc i) := Some [])"
    by (simp add: makeDir_ok[OF assms(1)] removeDir_ok[OF assms(1)])
  have "rotate_bak x p i d = rename_dir (bak_of p i) (bak_of p (Suc i)) ?d2"
    using Some makeDir_ok(1)[OF assms(1)] by (simp add: rotate_bak_def Let_def split_beta)
  moreover have "dirs_of (rename_dir (bak_of p i) (bak_of p (Suc i)) ?d2) =
      (dirs_of ?d2)(bak_of p i := None, bak_of p (Suc i) \<mapsto> es)"
    by (rule rename_dir_dirs) (use d2 ne Some in auto)
  ultimately show ?thesis using Some ne by (simp add: d2 fun_upd_twist)
qed

lemma rotations:
  assumes "disk_ok x"
  shows "dirs_of (fold (rotate_bak x p) [4, 3, 2, 1] d) = (\<lambda>q.
    if q = bak_of p 5 then (if dirs_of d (bak_of p 4) = None then dirs_of d q else dirs_of d (bak_of p 4))
    else if q = bak_of p 4 then dirs_of d (bak_of p 3)
    else if q = bak_of p 3 then dirs_of d (bak_of p 2)
    else if q = bak_of p 2 then dirs_of d (bak_of p 1)
    else if q = bak_of p 1 then None
    else dirs_of d q)"
  by (rule ext) (auto simp: rotate_dirs[OF assms] bak_of_eq)

lemma backupBinFiles_dirs:
  assumes "disk_ok x" and "\<forall>i\<in>{1..5}. srcPath \<noteq> bak_of destPath i" and "destPath \<noteq> bin_of srcPath"
  shows "fst (backupBinFiles x srcPath destPath d) = 0"
    and "dirs_of (snd (backupBinFiles x srcPath destPath d)) (bin_of srcPath) = Some []"
    and "dirs_of (snd (backupBinFiles x srcPath destPath d)) (bak_of destPath 1) = Some (dir_or_empty d (bin_of srcPath))"
    and "i \<in> {2, 3, 4} \<Longrightarrow> dirs_of (snd (backupBinFiles x srcPath destPath d)) (bak_of destPath i) = dirs_of d (bak_of destPath (i - 1))"
    and "dirs_of (snd (backupBinFiles x srcPath destPath d)) (bak_of destPath 5) =
      (if dirs_of d (bak_of destPath 4) = None then dirs_of d (bak_of destPath 5) else dirs_of d (bak_of destPath 4))"
proof -
  let ?D = "destPath" and ?b = "bin_of srcPath"
  let ?d1 = "snd (makeDir x srcPath d)"
  let ?d2 = "snd (makeDir x ?D ?d1)"
  obtain d3 where d3_eq: "d3 = fold (rotate_bak x ?D) [4, 3, 2, 1] ?d2" by blast
  let ?d4 = "snd (removeDir x (bak_of ?D 1) d3)"
  let ?d5 = "snd (makeDir x ?b ?d4)"
  let ?d6 = "rename_dir ?b (bak_of ?D 1) ?d5"
  have run: "backupBinFiles x srcPath ?D d = (0, snd (makeDir x ?b ?d6))"
    unfolding d3_eq using makeDir_ok(1)[OF assms(1)] by (simp add: backupBinFiles_def Let_def split_beta)
  have nb: "?b \<noteq> bak_of ?D i" if "i < 10" for i using bak_not_bin[OF that] by metis
  have ns: "srcPath \<noteq> ?b" "bak_of ?D i \<noteq> ?D" for i by (simp_all add: bin_of_def bak_of_def)
  have sp: "bak_of ?D i \<noteq> srcPath" if "i \<in> {1..5}" for i using assms(2) that by metis
  have d2: "dirs_of ?d2 (bak_of ?D i) = dirs_of d (bak_of ?D i)" if "i \<in> {1..5}" for i
    using sp[OF that] ns by (simp add: makeDir_ok[OF assms(1)])
  have d2b: "dirs_of ?d2 ?b = dirs_of d ?b" using assms(3) ns by (simp add: makeDir_ok[OF assms(1)])
  have d3: "dirs_of d3 = (\<lambda>q.
    if q = bak_of ?D 5 then (if dirs_of d (bak_of ?D 4) = None then dirs_of d q else dirs_of d (bak_of ?D 4))
    else if q = bak_of ?D 4 then dirs_of d (bak_of ?D 3)
    else if q = bak_of ?D 3 then dirs_of d (bak_of ?D 2)
    else if q = bak_of ?D 2 then dirs_of d (bak_of ?D 1)
    else if q = bak_of ?D 1 then None
    else dirs_of ?d2 q)"
    unfolding d3_eq rotations[OF assms(1)] using d2[of 5] d2[of 4] d2[of 3] d2[of 2] d2[of 1] by (intro ext) auto
  have d5: "dirs_of ?d5 = (dirs_of d3)(bak_of ?D 1 := None, ?b := Some (dir_or_empty d ?b))"
    using nb d2b by (auto simp: makeDir_ok[OF assms(1)] removeDir_ok[OF assms(1)] d3 dir_or_empty_def fun_eq_iff
        split: option.split)
  have d6: "dirs_of ?d6 = (dirs_of ?d5)(?b := None, bak_of ?D 1 \<mapsto> dir_or_empty d ?b)"
    by (rule rename_dir_dirs) (use nb[of 1] d5 in simp_all)
  have fin: "dirs_of (snd (backupBinFiles x srcPath ?D d)) =
      (dirs_of d3)(bak_of ?D 1 \<mapsto> dir_or_empty d ?b, ?b := Some [])"
    unfolding run using nb[of 1] d6 d5 by (simp add: makeDir_ok[OF assms(1)] removeDir_ok[OF assms(1)] fun_eq_iff)
  show "fst (backupBinFiles x srcPath ?D d) = 0" by (simp add: run)
  show "dirs_of (snd (backupBinFiles x srcPath ?D d)) ?b = Some []" by (simp add: fin)
  show "dirs_of (snd (backupBinFiles x srcPath ?D d)) (bak_of ?D 1) = Some (dir_or_empty d ?b)"
    using nb[of 1] by (simp add: fin)
  show "i \<in> {2, 3, 4} \<Longrightarrow> dirs_of (snd (backupBinFiles x srcPath ?D d)) (bak_of ?D i) = dirs_of d (bak_of ?D (i - 1))"
    using nb[of i] by (auto simp: fin d3 bak_of_eq)
  show "dirs_of (snd (backupBinFiles x srcPath ?D d)) (bak_of ?D 5) =
      (if dirs_of d (bak_of ?D 4) = None then dirs_of d (bak_of ?D 5) else dirs_of d (bak_of ?D 4))"
    using nb[of 5] by (auto simp: fin d3 bak_of_eq)
qed

section \<open>Lemmas on the download\<close>

text \<open>
  A patch server that serves \<open>c\<close>: at every position before the end one of two attempts gives a
  non-empty part of the file from there, at the end the code 1.
\<close>

definition answer :: "patch_remote \<Rightarrow> nat \<Rightarrow> int \<Rightarrow> (int \<times> string) option" where
  "answer r n pos = (if pr_chunk r n pos = None then pr_chunk r (n + 1) pos else pr_chunk r n pos)"

definition serves :: "patch_remote \<Rightarrow> string \<Rightarrow> bool" where
  "serves r c \<longleftrightarrow> (\<exists>m>0. list_remote r = (1, m)) \<and> pr_open r \<and> \<not> pr_throws r \<and>
     (\<forall>n. \<forall>k\<le>length c.
        if k < length c then \<exists>b. b \<noteq> [] \<and> answer r n (int k) = Some (0, b) \<and> take (length b) (drop k c) = b
        else \<exists>b. answer r n (int k) = Some (1, b))"

lemma fetch_answer: "answer r n pos = Some (d, b) \<Longrightarrow> \<exists>n'. fetch_chunk r n pos prev = (d, b, n')"
  by (auto simp: answer_def fetch_chunk_def split: option.splits if_splits)

lemma dl_loop_serves:
  assumes "serves r c"
  shows "content = take k c \<Longrightarrow> k \<le> length c \<Longrightarrow> \<exists>so'. dl_loop r t n prev content so = Some (True, c, so')"
proof (induction "length c - k" arbitrary: k content n prev so rule: less_induct)
  case less
  have len: "length content = k" using less.prems by simp
  show ?case
  proof (cases "k < length c")
    case True
    then obtain b where b: "b \<noteq> []" "answer r n (int k) = Some (0, b)" "take (length b) (drop k c) = b"
      using assms unfolding serves_def by (metis less_imp_le)
    from fetch_answer[OF b(2)] obtain n' where f: "fetch_chunk r n (int k) prev = (0, b, n')" by blast
    have lb: "length b \<le> length c - k"
    proof -
      have "length (take (length b) (drop k c)) = length b" using b(3) by simp
      then show ?thesis by simp
    qed
    have c': "content @ b = take (k + length b) c" using less.prems(1) b(3) by (simp add: take_add)
    have "\<exists>so'. dl_loop r t n' 0 (content @ b) (onDownloading r t (int (length (content @ b))) so) = Some (True, c, so')"
      using b(1) lb True by (intro less.hyps[OF _ c']) (auto simp: neq_Nil_conv)
    then show ?thesis using f b(1) len by (subst dl_loop.simps) (simp add: Let_def)
  next
    case False
    then have "k = length c" using less.prems by simp
    then obtain b where "answer r n (int k) = Some (1, b)"
      using assms unfolding serves_def by (metis le_refl less_irrefl)
    from fetch_answer[OF this] obtain n' where "fetch_chunk r n (int k) prev = (1, b, n')" by blast
    then show ?thesis using less.prems len \<open>k = length c\<close> by (subst dl_loop.simps) (simp add: Let_def)
  qed
qed

lemma sfd_serves:
  assumes "serves r c"
  shows "\<exists>so'. sfd_download r t so = Some (0, Some c, so')"
proof -
  obtain m where m: "list_remote r = (1, m)" "0 < m" "pr_open r" using assms by (auto simp: serves_def)
  obtain so' where "dl_loop r t 0 0 [] so = Some (True, c, so')" using dl_loop_serves[OF assms, of "[]" 0 t 0 0 so] by auto
  with m show ?thesis by (simp add: sfd_download_def)
qed

lemma sfd_codes: "sfd_download r t so = Some (ret, content, so') \<Longrightarrow> ret \<in> {0, -1, -2, -3, -6}"
  by (auto simp: sfd_download_def split: prod.splits if_splits)

lemma patch_download_checked:
  assumes "patch_download r x t dir path md5 (d, so) = Some (0, d', so')"
  shows "cached x path md5 d'"
proof (cases "cached x path md5 d")
  case True
  with assms show ?thesis by (simp add: patch_download_def)
next
  case False
  from assms False obtain ret content so1 where s: "sfd_download r t so = Some (ret, content, so1)"
    by (auto simp: patch_download_def Let_def split_beta split: if_splits)
  from sfd_codes[OF s] have "ret \<noteq> 100" by auto
  with s assms False show ?thesis
    by (auto simp: patch_download_def Let_def split_beta split: if_splits)
qed

section \<open>Lemmas on the installation\<close>

text \<open>The fields a patch relies on, which downloading does not change.\<close>

definition patch_frame :: "server_object \<Rightarrow> string \<times> string \<times> internal_state \<times> internal_state \<times> string" where
  "patch_frame so = (so_serverType so, so_exePath so, so_lastState so, so_state so, sVersion (so_patchInfo so))"

lemma patch_frame_simps [simp]:
  "patch_frame (onDownloading r t p so) = patch_frame so"
  "patch_frame (setPatchPercent p t so) = patch_frame so"
  "patch_frame (setPatchResult m b so) = patch_frame so"
  "patch_frame (setPatched b so) = patch_frame so" "patch_frame (resetCoreInfo t so) = patch_frame so"
  by (simp_all add: onDownloading_def setPatchPercent_def setPatchResult_def setPatched_def resetCoreInfo_def patch_frame_def)

lemma dl_loop_frame:
  assumes "dl_loop r t n prev content so = Some y"
  shows "patch_frame (snd (snd y)) = patch_frame so"
  using assms
proof (induction r t n prev content so y rule: dl_loop.raw_induct[rotated, consumes 1])
  case (1 f r t n prev content so y)
  obtain d buf n' where f: "fetch_chunk r n (int (length content)) prev = (d, buf, n')" by (metis prod_cases3)
  consider (stop) "d < 0 \<or> d = 1 \<or> d = 0 \<and> buf = []" | (more) "d = 0" "buf \<noteq> []" | (other) "d > 1" by fastforce
  then show ?case
  proof cases
    case stop
    with 1(2) f show ?thesis by auto
  next
    case more
    with 1(2) f have "f r t n' d (content @ buf) (onDownloading r t (int (length (content @ buf))) so) = Some y" by simp
    from 1(1)[OF this] show ?thesis by simp
  next
    case other
    with 1(2) f have "f r t n' d content so = Some y" by simp
    from 1(1)[OF this] show ?thesis .
  qed
qed

lemma sfd_frame:
  assumes "sfd_download r t so = Some (ret, content, so')"
  shows "patch_frame so' = patch_frame so"
proof (cases "\<exists>b c. dl_loop r t 0 0 [] so = Some (b, c, so')")
  case True
  then show ?thesis using dl_loop_frame by fastforce
next
  case False
  with assms show ?thesis by (auto simp: sfd_download_def split: prod.splits if_splits)
qed

lemma patch_download_frame:
  assumes "patch_download r x t dir path md5 (d, so) = Some (ret, d', so')"
  shows "patch_frame so' = patch_frame so \<and> (\<forall>p. dir_or_empty d' p = dir_or_empty d p)"
proof -
  have mk: "dir_or_empty (snd (makeDir x dir d)) p = dir_or_empty d p" for p
    by (simp add: makeDir_def dir_or_empty_def)
  have up: "dir_or_empty (case c of None \<Rightarrow> z | Some c \<Rightarrow> z\<lparr> files_of := g c \<rparr>) p = dir_or_empty z p" for c :: "string option" and g p and z :: patch_disk
    by (simp add: dir_or_empty_def split: option.split)
  show ?thesis
  proof (cases "cached x path md5 d \<or> \<not> fst (makeDir x dir d) \<or> pr_throws r")
    case True
    with assms mk show ?thesis by (auto simp: patch_download_def Let_def split_beta split: if_splits)
  next
    case False
    with assms obtain ret' content where s: "sfd_download r t so = Some (ret', content, so')"
      by (auto simp: patch_download_def Let_def split_beta split: if_splits)
    with assms False mk up sfd_frame[OF s] show ?thesis
      by (auto simp: patch_download_def Let_def split_beta split: if_splits)
  qed
qed

text \<open>The installation of an ordinary package on a working disk, as one equation.\<close>

definition plain_server :: "patch_paths \<Rightarrow> server_object \<Rightarrow> bool" where
  "plain_server pp so \<longleftrightarrow> so_serverType so \<noteq> ''tars_java'' \<and> so_serverType so \<noteq> ''tars_node'' \<and> pp_format pp \<noteq> ''jar'' \<and>
     so_exePath so = bin_of (pp_data pp)"

definition paths_apart :: "patch_paths \<Rightarrow> patch_request \<Rightarrow> bool" where
  "paths_apart pp rq \<longleftrightarrow> (\<forall>i\<in>{1..5}. pp_data pp \<noteq> bak_of (pp_tmp pp) i) \<and> pp_tmp pp \<noteq> bin_of (pp_data pp) \<and>
     extract_dir pp rq \<noteq> bin_of (pp_data pp)"

definition program_of :: "patch_env \<Rightarrow> patch_request \<Rightarrow> string \<Rightarrow> entry list" where
  "program_of x rq content =
     (let es = x_unpack x False (package_name rq) content
      in if package_name rq \<noteq> rq_servername rq then rename_program (package_name rq) (rq_servername rq) es else es)"

lemma rename_program_Nil [simp]: "rename_program a b [] = []"
  by (simp add: rename_program_def)

lemma rename_dir_files [simp]: "files_of (rename_dir a b d) = files_of d"
  by (simp add: rename_dir_def split: option.split)

lemma backup_files:
  assumes "disk_ok x"
  shows "files_of (snd (backupBinFiles x a b d)) = files_of d"
proof -
  have r: "files_of (rotate_bak x p i d) = files_of d" for p i d
    by (simp add: rotate_bak_def Let_def split_beta makeDir_ok[OF assms] removeDir_ok[OF assms])
  show ?thesis
    by (simp add: backupBinFiles_def Let_def split_beta makeDir_ok[OF assms] removeDir_ok[OF assms] r)
qed

lemma install_plain:
  assumes "disk_ok x" and "plain_server pp so" and "paths_apart pp rq" and "files_of d (tgz_file pp rq) = Some c"
  shows "\<exists>d4 d6. files_of d4 = files_of d \<and> files_of d6 = files_of d \<and>
    dirs_of d6 (bak_of (pp_tmp pp) 1) = Some (dir_or_empty d (so_exePath so)) \<and>
    patch_install tc x pp rq so iRet d =
      (if x_conf_throws x then None
       else if program_of x rq c = [] then Some (-6, d4)
       else map_option (\<lambda>r. (if fst (exec_source (program_of x rq c)) then iRet else -6,
              d6\<lparr> dirs_of := (dirs_of d6)(so_exePath so \<mapsto> r) \<rparr>))
              (x_copy x (snd (exec_source (program_of x rq c))) []))"
proof -
  let ?ext = "extract_dir pp rq" and ?es = "x_unpack x False (package_name rq) c"
  let ?d2 = "snd (makeDir x ?ext (snd (removeDir x ?ext d)))"
  let ?d4 = "?d2\<lparr> dirs_of := (dirs_of ?d2)(?ext \<mapsto> ?es) \<rparr>"
  let ?d5 = "?d4\<lparr> dirs_of := (dirs_of ?d4)(?ext \<mapsto> program_of x rq c) \<rparr>"
  let ?d6 = "snd (backupBinFiles x (pp_data pp) (pp_tmp pp) ?d5)"
  have ap: "?ext \<noteq> bin_of (pp_data pp)" "\<forall>i\<in>{1..5}. pp_data pp \<noteq> bak_of (pp_tmp pp) i"
    "pp_tmp pp \<noteq> bin_of (pp_data pp)" using assms(3) by (simp_all add: paths_apart_def)
  have exe: "so_exePath so = bin_of (pp_data pp)" using assms(2) by (simp add: plain_server_def)
  have d5: "dir_or_empty ?d5 (bin_of (pp_data pp)) = dir_or_empty d (bin_of (pp_data pp))"
    using ap(1) by (simp add: dir_or_empty_def makeDir_ok[OF assms(1)] removeDir_ok[OF assms(1)])
  note bk = backupBinFiles_dirs[OF assms(1) ap(2,3), where d = ?d5]
  have b: "backupfiles tc x (so_serverType so) (pp_backups pp) (pp_data pp) (pp_tmp pp) ?d5 = (0, ?d6)"
    using assms(2) by (simp add: backupfiles_def plain_server_def)
  have d6: "dir_or_empty ?d6 (so_exePath so) = []" using bk(2) by (simp add: exe dir_or_empty_def)
  have f: "files_of ?d4 = files_of d" "files_of ?d6 = files_of d"
    by (simp_all add: backup_files[OF assms(1)] makeDir_ok[OF assms(1)] removeDir_ok[OF assms(1)])
  have es: "?es = [] \<longleftrightarrow> program_of x rq c = []"
    by (simp add: program_of_def Let_def rename_program_def)
  have run: "patch_install tc x pp rq so iRet d =
      (if x_conf_throws x then None
       else if program_of x rq c = [] then Some (-6, ?d4)
       else map_option (\<lambda>r. (if fst (exec_source (program_of x rq c)) then iRet else -6,
              ?d6\<lparr> dirs_of := (dirs_of ?d6)(so_exePath so \<mapsto> r) \<rparr>))
              (x_copy x (snd (exec_source (program_of x rq c))) []))"
    using assms(2,4) b d6 es makeDir_ok(1)[OF assms(1)] removeDir_ok(1)[OF assms(1)]
    by (simp add: patch_install_def Let_def split_beta plain_server_def program_of_def)
  show ?thesis
    by (rule exI[of _ ?d4], rule exI[of _ ?d6]) (use f run bk(3) d5 exe in simp)
qed

text \<open>The first stage decides with which code the installation starts, or that it does not start.\<close>

lemma patch_stages_download:
  assumes "patch_stages tc r x pp rq t (d, so) = Some (out, d', so')"
  shows "\<exists>ret d1. patch_download r x t (tgz_dir pp rq) (tgz_file pp rq) (rq_md5 rq) (d, so) = Some (ret, d1, so') \<and>
    (if ret \<noteq> 0 \<and> rq_ostype rq = [] then out = Some (ret - 100) \<and> d' = d1
     else case patch_install tc x pp rq so' (if ret \<noteq> 0 then ret - 100 else 0) d1 of
            None \<Rightarrow> out = None \<and> d' = d1
          | Some (iRet, d2) \<Rightarrow> out = Some iRet \<and> d' = d2)"
proof -
  from assms obtain ret d1 so1 where
    dl: "patch_download r x t (tgz_dir pp rq) (tgz_file pp rq) (rq_md5 rq) (d, so) = Some (ret, d1, so1)"
    by (cases "patch_download r x t (tgz_dir pp rq) (tgz_file pp rq) (rq_md5 rq) (d, so)") (auto simp: patch_stages_def)
  show ?thesis
  proof (cases "ret \<noteq> 0 \<and> rq_ostype rq = []")
    case True
    with assms dl show ?thesis by (simp add: patch_stages_def)
  next
    case False
    with assms dl show ?thesis
      by (cases "patch_install tc x pp rq so1 (if ret \<noteq> 0 then ret - 100 else 0) d1")
        (auto simp: patch_stages_def Let_def simp del: not_None_eq)
  qed
qed

lemma patch_stages_frame:
  assumes "patch_stages tc r x pp rq t (d, so) = Some (out, d', so')"
  shows "patch_frame so' = patch_frame so"
  using patch_stages_download[OF assms] patch_download_frame by blast

lemma sfd_not_positive: "sfd_download r t so = Some (ret, content, so') \<Longrightarrow> ret \<le> 0"
  using sfd_codes[of r t so ret content so'] by auto

lemma patch_download_not_positive:
  assumes "patch_download r x t dir path md5 z = Some (ret, d', so')"
  shows "ret \<le> 0"
proof (cases "\<exists>a b c. sfd_download r t (snd z) = Some (a, b, c)")
  case True
  then obtain a b c where s: "sfd_download r t (snd z) = Some (a, b, c)" by blast
  from sfd_not_positive[OF s] s assms show ?thesis
    by (auto simp: patch_download_def Let_def split: prod.splits if_splits option.splits)
next
  case False
  with assms show ?thesis by (auto simp: patch_download_def Let_def split: prod.splits if_splits option.splits)
qed

lemma download_not_100: "patch_download r x t dir path md5 z = Some (ret, d', so') \<Longrightarrow> ret \<noteq> 0 \<Longrightarrow> ret - 100 \<noteq> 0"
  using patch_download_not_positive[of r x t dir path md5 z ret d' so'] by simp

lemma patch_succeeds_run:
  assumes "serves r c" and "x_md5 x c = rq_md5 rq" and "files_of d (tgz_file pp rq) = None" and "x_registry x \<noteq> None"
    and "disk_ok x" and "plain_server pp (ob s)" and "paths_apart pp rq" and "\<not> x_conf_throws x"
    and "fst (exec_source (program_of x rq c))" and "x_copy x (snd (exec_source (program_of x rq c))) [] = Some new"
  shows "\<exists>d' s'. patch_execute tc r x pp msg e rq (d, s) = Some (0, d', s') \<and> dirs_of d' (so_exePath (ob s)) = Some new"
proof -
  let ?d1 = "(snd (makeDir x (tgz_dir pp rq) d))\<lparr> files_of := (files_of (snd (makeDir x (tgz_dir pp rq) d)))(tgz_file pp rq \<mapsto> c) \<rparr>"
  obtain so1 where sfd: "sfd_download r (now e s) (ob s) = Some (0, Some c, so1)" using sfd_serves[OF assms(1)] by blast
  have "\<not> cached x (tgz_file pp rq) (rq_md5 rq) d" "cached x (tgz_file pp rq) (rq_md5 rq) ?d1" "\<not> pr_throws r"
    using assms(1,2,3) by (simp_all add: cached_def serves_def)
  then have dl: "patch_download r x (now e s) (tgz_dir pp rq) (tgz_file pp rq) (rq_md5 rq) (d, ob s) = Some (0, ?d1, so1)"
    using sfd makeDir_ok(1)[OF assms(5)] by (simp add: patch_download_def Let_def split_beta)
  have exe: "so_exePath so1 = so_exePath (ob s)" "plain_server pp so1"
    using patch_download_frame[OF dl] assms(6) by (simp_all add: patch_frame_def plain_server_def)
  have ne: "program_of x rq c \<noteq> []" using assms(9) by (auto simp: exec_source.simps[of "[]"])
  have f: "files_of ?d1 (tgz_file pp rq) = Some c" by simp
  from install_plain[OF assms(5) exe(2) assms(7) f, of tc 0] assms(8,9,10) ne
  obtain d6 where "patch_install tc x pp rq so1 0 ?d1 =
      Some (0, d6\<lparr> dirs_of := (dirs_of d6)(so_exePath so1 \<mapsto> new) \<rparr>)" by auto
  with dl have "patch_stages tc r x pp rq (now e s) (d, ob s) =
      Some (Some 0, d6\<lparr> dirs_of := (dirs_of d6)(so_exePath so1 \<mapsto> new) \<rparr>, so1)"
    by (simp add: patch_stages_def Let_def)
  then show ?thesis using assms(4) by (auto simp: patch_execute_def Let_def exe(1) updatePatchResult_def)
qed

section \<open>Properties\<close>

text \<open>
  Property C14 (patch_succeeds). When the patch server serves the requested package, one failure allowed
  before every answer, the disk works and the registry answers, the patch returns 0 and the directory
  of the program holds the copied program.
\<close>

theorem patch_succeeds:
  assumes "serves r c" and "x_md5 x c = rq_md5 rq" and "files_of d (tgz_file pp rq) = None" and "x_registry x \<noteq> None"
    and "disk_ok x" and "plain_server pp (ob s)" and "paths_apart pp rq" and "\<not> x_conf_throws x"
    and "fst (exec_source (program_of x rq c))" and "x_copy x (snd (exec_source (program_of x rq c))) [] = Some new"
  shows "\<exists>d' s'. patch_execute tc r x pp msg e rq (d, s) = Some (0, d', s') \<and> dirs_of d' (so_exePath (ob s)) = Some new"
  by (rule patch_succeeds_run[OF assms])

text \<open>
  Property C13 (patch_installs_request). When patching an ordinary server answers 0, the package on the
  disk has the requested digest, the directory of the program holds exactly a copy of the program part of
  the package, the previous content of that directory is the first backup, and the registry has been told.
\<close>

theorem patch_installs_request:
  assumes "patch_execute tc r x pp msg e rq (d, s) = Some (0, d', s')"
    and "disk_ok x" and "plain_server pp (ob s)" and "paths_apart pp rq"
  shows "\<exists>c. files_of d' (tgz_file pp rq) = Some c \<and> x_md5 x c = rq_md5 rq \<and> x_registry x \<noteq> None \<and>
    fst (exec_source (program_of x rq c)) \<and>
    dirs_of d' (so_exePath (ob s)) = x_copy x (snd (exec_source (program_of x rq c))) [] \<and>
    dirs_of d' (bak_of (pp_tmp pp) 1) = Some (dir_or_empty d (so_exePath (ob s)))"
proof -
  from assms(1) obtain so' where st: "patch_stages tc r x pp rq (now e s) (d, ob s) = Some (Some 0, d', so')"
    and reg: "x_registry x \<noteq> None"
    by (auto simp: patch_execute_def Let_def updatePatchResult_def split: option.splits if_splits)
  from patch_stages_download[OF st] obtain ret d1 where
    dl: "patch_download r x (now e s) (tgz_dir pp rq) (tgz_file pp rq) (rq_md5 rq) (d, ob s) = Some (ret, d1, so')"
    and rest: "if ret \<noteq> 0 \<and> rq_ostype rq = [] then Some 0 = Some (ret - 100) \<and> d' = d1
     else case patch_install tc x pp rq so' (if ret \<noteq> 0 then ret - 100 else 0) d1 of
            None \<Rightarrow> Some 0 = (None :: int option) \<and> d' = d1
          | Some (iRet, d2) \<Rightarrow> Some 0 = Some iRet \<and> d' = d2" by blast
  note fr = patch_download_frame[OF dl]
  have exe: "so_exePath so' = so_exePath (ob s)" "plain_server pp so'"
    using fr assms(3) by (simp_all add: patch_frame_def plain_server_def)
  have inst: "patch_install tc x pp rq so' (if ret \<noteq> 0 then ret - 100 else 0) d1 = Some (0, d')"
    using rest download_not_100[OF dl] by (auto split: if_splits option.splits)
  obtain c where c: "files_of d1 (tgz_file pp rq) = Some c"
    using inst by (cases "files_of d1 (tgz_file pp rq)") (simp_all add: patch_install_def Let_def)
  from install_plain[OF assms(2) exe(2) assms(4) c, of tc "if ret \<noteq> 0 then ret - 100 else 0"]
  obtain d4 d6 where d6: "files_of d6 = files_of d1" "dirs_of d6 (bak_of (pp_tmp pp) 1) = Some (dir_or_empty d1 (so_exePath so'))"
    and eq: "Some (0, d') = (if x_conf_throws x then None
       else if program_of x rq c = [] then Some (-6, d4)
       else map_option (\<lambda>r. (if fst (exec_source (program_of x rq c)) then if ret \<noteq> 0 then ret - 100 else 0 else -6,
              d6\<lparr> dirs_of := (dirs_of d6)(so_exePath so' \<mapsto> r) \<rparr>))
              (x_copy x (snd (exec_source (program_of x rq c))) []))"
    unfolding inst by blast
  from eq[symmetric] obtain rr where rr: "x_copy x (snd (exec_source (program_of x rq c))) [] = Some rr"
    "fst (exec_source (program_of x rq c))" "ret = 0" "d' = d6\<lparr> dirs_of := (dirs_of d6)(so_exePath so' \<mapsto> rr) \<rparr>"
    using download_not_100[OF dl] by (auto split: if_splits)
  have md5: "x_md5 x c = rq_md5 rq"
    using patch_download_checked[of r x "now e s" "tgz_dir pp rq" "tgz_file pp rq" "rq_md5 rq" d "ob s" d1 so'] dl rr(3) c
    by (simp add: cached_def)
  have nb: "so_exePath so' \<noteq> bak_of (pp_tmp pp) 1"
    using exe(2) bak_not_bin[of 1 "pp_tmp pp" "pp_data pp"] by (auto simp: plain_server_def)
  show ?thesis
    by (rule exI[of _ c]) (use c md5 reg rr d6 nb fr exe(1) in simp)
qed

text \<open>
  Fact (patch_ends_finished). However a patch request ends, the server is back in the state
  saved before it, the progress shows 100 percent of the requested version, the server counts as
  installed, and the success flag is set exactly for the answer 0.
\<close>

theorem patch_ends_finished:
  assumes "doPatchRequest tc r x pp msg e rq (d, s) = Some (iRet, d', s')"
  shows "state_of s' = so_lastState (ob s) \<and> iPercent (so_patchInfo (ob s')) = 100 \<and> so_patched (ob s') \<and>
    sVersion (so_patchInfo (ob s')) = rq_version rq \<and> (bSucc (so_patchInfo (ob s')) \<longleftrightarrow> iRet = 0)"
proof -
  from assms obtain s1 where ex: "patch_execute tc r x pp msg e rq (d, patch_can e rq s) = Some (iRet, d', s1)"
    and s': "s' = setState e (so_lastState (ob s)) True s1"
    by (auto simp: doPatchRequest_def Let_def)
  from ex obtain out so' where st: "patch_stages tc r x pp rq (now e (patch_can e rq s)) (d, ob (patch_can e rq s)) = Some (out, d', so')"
    and s1: "ob s1 = resetCoreInfo (now e (patch_can e rq s)) (setPatched True (setPatchResult (msg iRet) (iRet = 0) so'))"
    by (auto simp: patch_execute_def Let_def)
  from patch_stages_frame[OF st] have "sVersion (so_patchInfo so') = rq_version rq"
    by (simp add: patch_frame_def patch_can_def Let_def setPatchResult_def setPatchPercent_def setPatchVersion_def)
  then show ?thesis
    by (simp add: s' s1 resetCoreInfo_def setPatched_def setPatchResult_def)
qed

text \<open>
  Fact (bad_download_is_installed). When a downloaded package of a request with a system type has
  the wrong digest, the command answers -106 and marks the patch as failed, and has nevertheless replaced
  the program by the content of that package.
\<close>

theorem bad_download_is_installed:
  assumes "rq_ostype rq \<noteq> []" and "\<not> cached x (tgz_file pp rq) (rq_md5 rq) d" and "\<not> pr_throws r"
    and "sfd_download r (now e s) (ob s) = Some (0, Some c, so1)" and "x_md5 x c \<noteq> rq_md5 rq"
    and "disk_ok x" and "plain_server pp (ob s)" and "paths_apart pp rq" and "\<not> x_conf_throws x"
    and "fst (exec_source (program_of x rq c))" and "x_copy x (snd (exec_source (program_of x rq c))) [] = Some new"
  shows "\<exists>d' s'. patch_execute tc r x pp msg e rq (d, s) = Some (-106, d', s') \<and>
    dirs_of d' (so_exePath (ob s)) = Some new \<and> \<not> bSucc (so_patchInfo (ob s'))"
proof -
  let ?d1 = "(snd (makeDir x (tgz_dir pp rq) d))\<lparr> files_of := (files_of (snd (makeDir x (tgz_dir pp rq) d)))(tgz_file pp rq \<mapsto> c) \<rparr>"
  have nc: "\<not> cached x (tgz_file pp rq) (rq_md5 rq) ?d1" using assms(5) by (simp add: cached_def)
  have dl: "patch_download r x (now e s) (tgz_dir pp rq) (tgz_file pp rq) (rq_md5 rq) (d, ob s) = Some (-6, ?d1, so1)"
    using assms(2,3,4) nc makeDir_ok(1)[OF assms(6)] by (simp add: patch_download_def Let_def split_beta)
  have exe: "so_exePath so1 = so_exePath (ob s)" "plain_server pp so1"
    using patch_download_frame[OF dl] assms(7) by (simp_all add: patch_frame_def plain_server_def)
  have ne: "program_of x rq c \<noteq> []"
    using assms(10) by (auto simp: exec_source.simps[of "[]"])
  have f: "files_of ?d1 (tgz_file pp rq) = Some c" by simp
  from install_plain[OF assms(6) exe(2) assms(8) f, of tc "-106"] assms(9,10,11) ne
  obtain d6 where "patch_install tc x pp rq so1 (-106) ?d1 =
      Some (-106, d6\<lparr> dirs_of := (dirs_of d6)(so_exePath so1 \<mapsto> new) \<rparr>)" by auto
  with dl assms(1) have "patch_stages tc r x pp rq (now e s) (d, ob s) =
      Some (Some (-106), d6\<lparr> dirs_of := (dirs_of d6)(so_exePath so1 \<mapsto> new) \<rparr>, so1)"
    by (simp add: patch_stages_def Let_def)
  then show ?thesis
    by (simp add: patch_execute_def Let_def exe(1) resetCoreInfo_def setPatched_def setPatchResult_def)
qed

text \<open>
  Fact (backups_rotate). Before a new program is copied, on a working disk the program
  directory becomes the first backup and is empty afterwards, backups 1 to 3 move up by one, and the
  fifth is replaced by the fourth when there is one.
\<close>

theorem backups_rotate:
  assumes "disk_ok x" and "\<forall>i\<in>{1..5}. srcPath \<noteq> bak_of destPath i" and "destPath \<noteq> bin_of srcPath"
  shows "let d' = snd (backupBinFiles x srcPath destPath d)
    in dirs_of d' (bin_of srcPath) = Some [] \<and> dirs_of d' (bak_of destPath 1) = Some (dir_or_empty d (bin_of srcPath)) \<and>
       (\<forall>i\<in>{2, 3, 4}. dirs_of d' (bak_of destPath i) = dirs_of d (bak_of destPath (i - 1))) \<and>
       dirs_of d' (bak_of destPath 5) =
         (if dirs_of d (bak_of destPath 4) = None then dirs_of d (bak_of destPath 5) else dirs_of d (bak_of destPath 4))"
  using backupBinFiles_dirs[OF assms] by (simp add: Let_def)

text \<open>
  Fact (refused_request_blocks). A request whose application and server names run together to
  the same text as those of a queued request is refused after the server has been put into
  BatchPatching, and stays there: the queue holds no request that would bring it back.
\<close>

theorem refused_request_blocks:
  assumes "patch_key rq \<in> set (patchIng q)" and "\<not> in_transition (state_of s)" and "rq_md5 rq \<noteq> []"
    and "\<not> checkOsType enableOs"
  shows "\<exists>s'. patchPro e None enableOs osType rq (s, q) = (EM_TARS_REQ_ALREADY_ERR, s', q) \<and>
    state_of s' = BatchPatching \<and> so_lastState (ob s') = state_of s"
  using assms by (simp add: patchPro_def push_back_def Let_def setLastState_def setPatchPercent_def)

section \<open>The queue\<close>

datatype queue_event = Push patch_request bool | Pop

fun queue_step :: "queue_event \<Rightarrow> batch_patch \<Rightarrow> batch_patch" where
  "queue_step (Push rq ok) q = (case push_back rq ok q of Inl err \<Rightarrow> q | Inr q' \<Rightarrow> q')"
| "queue_step Pop q = snd (pop_front q)"

definition queue_inv :: "batch_patch \<Rightarrow> bool" where
  "queue_inv q \<longleftrightarrow> patchIng q = map patch_key (patchQueue q) \<and> distinct (patchIng q)"

lemma queue_step_inv: "queue_inv q \<Longrightarrow> queue_inv (queue_step ev q)"
proof (cases ev)
  case (Push rq ok)
  then show "queue_inv q \<Longrightarrow> ?thesis"
    by (auto simp: queue_inv_def push_back_def)
next
  case Pop
  then show "queue_inv q \<Longrightarrow> ?thesis"
    by (cases "patchQueue q") (auto simp: queue_inv_def pop_front_def)
qed

interpretation patch_queue: event_system queue_step queue_inv
  by unfold_locales (rule queue_step_inv)

text \<open>
  Fact (queue_has_no_duplicates). Whatever is pushed and popped, the queue never holds two
  requests of one server, and the set of servers marked as patching is that of the queued requests.
\<close>

theorem queue_has_no_duplicates:
  "distinct (map patch_key (patchQueue (fold queue_step evs \<lparr> patchQueue = [], patchIng = [] \<rparr>))) \<and>
   patchIng (fold queue_step evs \<lparr> patchQueue = [], patchIng = [] \<rparr>) =
     map patch_key (patchQueue (fold queue_step evs \<lparr> patchQueue = [], patchIng = [] \<rparr>))"
  using patch_queue.run_inv[of "\<lparr> patchQueue = [], patchIng = [] \<rparr>" evs] by (auto simp: queue_inv_def)

section \<open>Examples\<close>

text \<open>A patch server with a file of two chunks, whose first attempts fail; digests are the contents.\<close>

definition sample_remote :: patch_remote where
  "sample_remote = \<lparr> pr_throws = False, pr_list = (\<lambda>n. if n = 0 then None else Some (1, 1)), pr_size = 4, pr_open = True,
     pr_chunk = (\<lambda>n pos. if pos < 4 then Some (0, take 2 (drop (nat pos) ''prog'')) else Some (1, [])) \<rparr>"

definition sample_patch_env :: patch_env where
  "sample_patch_env = \<lparr> x_md5 = (\<lambda>c. c), x_mkdir = (\<lambda>_. True), x_remove = (\<lambda>_. True),
     x_unpack = (\<lambda>_ n c. [DirE n [FileE n c, FileE ''.hidden'' []]]), x_copy = (\<lambda>a b. Some (a @ b)),
     x_replace = (\<lambda>s _ _. s), x_ext = (\<lambda>s. []), x_registry = Some 0, x_conf_throws = False \<rparr>"

definition sample_request :: patch_request where
  "sample_request = \<lparr> rq_appname = ''App'', rq_servername = ''Svr'', rq_groupname = [], rq_version = ''7'',
     rq_md5 = ''prog'', rq_ostype = ''linux'' \<rparr>"

definition sample_paths :: patch_paths where
  "sample_paths = \<lparr> pp_download = ''/d'', pp_data = ''/data/App.Svr/'', pp_tmp = ''/tmp/App.Svr/'', pp_format = ''war'',
     pp_backups = [] \<rparr>"

definition sample_disk :: patch_disk where
  "sample_disk = \<lparr> files_of = Map.empty, dirs_of = [''/data/App.Svr/bin/'' \<mapsto> [FileE ''Svr'' ''old'']] \<rparr>"

definition patch_node :: node_state where
  "patch_node = sample_node\<lparr> ob := sample_object\<lparr> so_exePath := ''/data/App.Svr/bin/'' \<rparr> \<rparr>"

lemma sample_serves: "serves sample_remote ''prog''"
proof -
  have "\<exists>b. b \<noteq> [] \<and> answer sample_remote n (int k) = Some (0, b) \<and> take (length b) (drop k ''prog'') = b"
    if "k < 4" for n k
  proof -
    have "answer sample_remote n (int k) = Some (0, take 2 (drop k ''prog''))"
      using that by (simp add: answer_def sample_remote_def)
    moreover have "take 2 (drop k ''prog'') \<noteq> []" using that by simp
    moreover have "take (length (take 2 (drop k ''prog''))) (drop k ''prog'') = take 2 (drop k ''prog'')"
      using that by (cases "k \<le> 2") (auto simp: min_def)
    ultimately show ?thesis by (intro exI[of _ "take 2 (drop k ''prog'')"]) simp
  qed
  moreover have "\<exists>b. answer sample_remote n 4 = Some (1, b)" for n
    by (simp add: answer_def sample_remote_def)
  ultimately show ?thesis
    by (auto simp: serves_def list_remote_def) (auto simp: sample_remote_def le_less)
qed

lemma sample_patch_ok:
  "disk_ok sample_patch_env" "plain_server sample_paths (ob patch_node)" "paths_apart sample_paths sample_request"
proof -
  show "disk_ok sample_patch_env" by (simp add: disk_ok_def sample_patch_env_def)
  show "plain_server sample_paths (ob patch_node)"
    by (simp add: plain_server_def sample_paths_def patch_node_def sample_object_def bin_of_def)
  show "paths_apart sample_paths sample_request"
    by (simp add: paths_apart_def sample_paths_def sample_request_def bin_of_def bak_of_def extract_dir_def)
qed

lemma sample_program:
  "exec_source (program_of sample_patch_env sample_request ''prog'') = (True, [FileE ''Svr'' ''prog'', FileE ''.hidden'' []])"
  by code_simp

lemma sample_run_ok:
  "x_md5 sample_patch_env ''prog'' = rq_md5 sample_request" "files_of sample_disk (tgz_file sample_paths sample_request) = None"
  "x_registry sample_patch_env \<noteq> None" "\<not> x_conf_throws sample_patch_env"
  "fst (exec_source (program_of sample_patch_env sample_request ''prog''))"
  "x_copy sample_patch_env (snd (exec_source (program_of sample_patch_env sample_request ''prog''))) [] =
     Some [FileE ''Svr'' ''prog'', FileE ''.hidden'' []]"
  unfolding sample_program by (simp_all add: sample_patch_env_def sample_request_def sample_disk_def)

theorem patch_succeeds_witness:
  "\<exists>d' s'. patch_execute sample_tc sample_remote sample_patch_env sample_paths (\<lambda>_. []) (sample_world (Some 0) (\<lambda>_. True))
     sample_request (sample_disk, patch_node) = Some (0, d', s')"
  using patch_succeeds[OF sample_serves sample_run_ok(1,2,3) sample_patch_ok sample_run_ok(4,5,6)] by blast

theorem patch_installs_request_witness:
  "\<exists>d' s'. patch_execute sample_tc sample_remote sample_patch_env sample_paths (\<lambda>_. []) (sample_world (Some 0) (\<lambda>_. True))
     sample_request (sample_disk, patch_node) = Some (0, d', s') \<and>
     dirs_of d' ''/data/App.Svr/bin/'' = Some [FileE ''Svr'' ''prog'', FileE ''.hidden'' []]"
proof -
  obtain d' s' where run: "patch_execute sample_tc sample_remote sample_patch_env sample_paths (\<lambda>_. [])
      (sample_world (Some 0) (\<lambda>_. True)) sample_request (sample_disk, patch_node) = Some (0, d', s')"
    using patch_succeeds_run[OF sample_serves sample_run_ok(1,2,3) sample_patch_ok sample_run_ok(4,5,6)] by blast
  from patch_installs_request[OF run sample_patch_ok] obtain c where
    c: "x_md5 sample_patch_env c = rq_md5 sample_request"
    "dirs_of d' (so_exePath (ob patch_node)) = x_copy sample_patch_env (snd (exec_source (program_of sample_patch_env sample_request c))) []"
    by blast
  have "c = ''prog''" using c(1) by (simp add: sample_patch_env_def sample_request_def)
  with c(2) run sample_run_ok(6) show ?thesis by (simp add: patch_node_def sample_object_def)
qed

theorem patch_ends_finished_witness:
  "\<exists>r d' s'. doPatchRequest sample_tc sample_remote sample_patch_env sample_paths (\<lambda>_. []) (sample_world (Some 0) (\<lambda>_. True))
     sample_request (sample_disk, patch_node) = Some (r, d', s') \<and> state_of s' = Inactive"
proof -
  let ?e = "sample_world (Some 0) (\<lambda>_. True)"
  have p: "plain_server sample_paths (ob (patch_can ?e sample_request patch_node))"
    using sample_patch_ok(2) setState_ob[of ?e BatchPatching True patch_node]
    by (auto simp: plain_server_def patch_can_def Let_def setPatchResult_def setPatchPercent_def setPatchVersion_def)
  from patch_succeeds_run[OF sample_serves sample_run_ok(1,2,3) sample_patch_ok(1) p sample_patch_ok(3) sample_run_ok(4,5,6)]
  obtain d' s' where "doPatchRequest sample_tc sample_remote sample_patch_env sample_paths (\<lambda>_. []) ?e
      sample_request (sample_disk, patch_node) = Some (0, d', s')"
    by (fastforce simp: doPatchRequest_def Let_def)
  with patch_ends_finished[OF this] show ?thesis by (auto simp: patch_node_def sample_node_def sample_object_def)
qed

theorem bad_download_is_installed_witness:
  "\<exists>d' s'. patch_execute sample_tc sample_remote sample_patch_env sample_paths (\<lambda>_. []) (sample_world (Some 0) (\<lambda>_. True))
     (sample_request\<lparr> rq_md5 := ''other'' \<rparr>) (sample_disk, patch_node) = Some (-106, d', s')"
proof -
  let ?rq = "sample_request\<lparr> rq_md5 := ''other'' \<rparr>"
  obtain so1 where s: "sfd_download sample_remote (now (sample_world (Some 0) (\<lambda>_. True)) patch_node) (ob patch_node) = Some (0, Some ''prog'', so1)"
    using sfd_serves[OF sample_serves] by blast
  have pr: "program_of sample_patch_env ?rq ''prog'' = program_of sample_patch_env sample_request ''prog''"
    "tgz_file sample_paths ?rq = tgz_file sample_paths sample_request" "paths_apart sample_paths ?rq"
    using sample_patch_ok(3)
    by (simp_all add: sample_request_def program_of_def package_name_def tgz_file_def tgz_dir_def paths_apart_def extract_dir_def)
  show ?thesis
    using bad_download_is_installed[of ?rq sample_patch_env sample_paths sample_disk sample_remote
        "sample_world (Some 0) (\<lambda>_. True)" patch_node "''prog''" so1 "[FileE ''Svr'' ''prog'', FileE ''.hidden'' []]" sample_tc "\<lambda>_. []"]
      s pr sample_patch_ok sample_run_ok
    by (auto simp: cached_def sample_request_def sample_disk_def sample_patch_env_def sample_remote_def)
qed

theorem backups_rotate_witness:
  "dirs_of (snd (backupBinFiles sample_patch_env ''/data/App.Svr/'' ''/tmp/App.Svr/'' sample_disk)) (bak_of ''/tmp/App.Svr/'' 1) =
     Some [FileE ''Svr'' ''old'']"
  using backups_rotate[OF sample_patch_ok(1), of "''/data/App.Svr/''" "''/tmp/App.Svr/''" sample_disk]
  by (simp add: bak_of_def bin_of_def Let_def dir_or_empty_def sample_disk_def)

theorem refused_request_blocks_witness:
  "fst (patchPro (sample_world (Some 0) (\<lambda>_. True)) None [] [] (sample_request\<lparr> rq_appname := ''AppS'', rq_servername := ''vr'' \<rparr>)
     (patch_node, \<lparr> patchQueue = [sample_request], patchIng = [patch_key sample_request] \<rparr>)) = EM_TARS_REQ_ALREADY_ERR"
  using refused_request_blocks[of "sample_request\<lparr> rq_appname := ''AppS'', rq_servername := ''vr'' \<rparr>"
      "\<lparr> patchQueue = [sample_request], patchIng = [patch_key sample_request] \<rparr>" patch_node "[]"
      "sample_world (Some 0) (\<lambda>_. True)" "[]"]
  by (auto simp: patch_key_def sample_request_def patch_node_def sample_node_def sample_object_def in_transition_iff checkOsType_def)

end
