(* ===== verification/Admin_Nodes.thy ===== *)
theory Admin_Nodes
  imports Node_Patch
begin

text \<open>
  The node manager of the admin registry (\<open>AdminRegistryServer/NodeManager.cpp\<close>): nodes keep long
  connections open and report on them; a request to a node is pushed on the connection it reported on
  last and answered later (\<open>reportResult\<close>), or runs into a time out; a node without a connection is
  called through its proxy, or the request is forwarded to the other admin registries.
\<close>

section \<open>Connections\<close>

text \<open>
  Connections are numbered (\<open>getUId\<close>), \<open>CurrentPtr\<close> objects are handles. \<open>its\<close> holds the connections
  with an iterator into \<open>uids\<close>; erasing an iterator erases the element it points to.
\<close>

record uid_time =
  ut_time :: int
  uids :: "int list"
  its :: "int set"

record node_conns =
  mapNodeId :: "string \<rightharpoonup> uid_time"
  mapIdNode :: "int \<rightharpoonup> string list"
  mapIdCurrent :: "int \<rightharpoonup> nat"

definition createNodeCurrent :: "int \<Rightarrow> string \<Rightarrow> int \<Rightarrow> nat \<Rightarrow> 'a node_conns_scheme \<Rightarrow> 'a node_conns_scheme" where
  "createNodeCurrent t nodeName uid cur m =
     (let str =
        (case mapNodeId m nodeName of
           Some str \<Rightarrow>
             str\<lparr> ut_time := t, uids := uid # (if uid \<in> its str then remove1 uid (uids str) else uids str),
                  its := insert uid (its str) \<rparr>
         | None \<Rightarrow> \<lparr> ut_time = t, uids = [uid], its = {uid} \<rparr>)
      in m\<lparr> mapNodeId := (mapNodeId m)(nodeName \<mapsto> str),
            mapIdNode := (mapIdNode m)(uid \<mapsto> List.insert nodeName (case mapIdNode m uid of None \<Rightarrow> [] | Some ns \<Rightarrow> ns)),
            mapIdCurrent := (mapIdCurrent m)(uid \<mapsto> cur) \<rparr>)"

definition forget_node :: "string \<Rightarrow> int \<Rightarrow> (int \<rightharpoonup> string list) \<Rightarrow> (int \<rightharpoonup> string list)" where
  "forget_node nodeName uid im = (case im uid of None \<Rightarrow> im | Some ns \<Rightarrow> im(uid \<mapsto> removeAll nodeName ns))"

definition deleteNodeCurrent :: "string \<Rightarrow> 'a node_conns_scheme \<Rightarrow> 'a node_conns_scheme" where
  "deleteNodeCurrent nodeName m =
     (case mapNodeId m nodeName of
        None \<Rightarrow> m
      | Some str \<Rightarrow> m\<lparr> mapIdNode := fold (forget_node nodeName) (uids str) (mapIdNode m),
                       mapNodeId := (mapNodeId m)(nodeName := None) \<rparr>)"

text \<open>\<open>None\<close> is the exception of \<open>at\<close>, \<open>Some None\<close> the null pointer.\<close>

definition getNodeCurrent :: "string \<Rightarrow> 'a node_conns_scheme \<Rightarrow> nat option option" where
  "getNodeCurrent nodeName m =
     (case mapNodeId m nodeName of
        None \<Rightarrow> Some None
      | Some str \<Rightarrow> (case uids str of [] \<Rightarrow> Some None | uid # _ \<Rightarrow> map_option Some (mapIdCurrent m uid)))"

definition drop_uid :: "int \<Rightarrow> string \<Rightarrow> (string \<rightharpoonup> uid_time) \<Rightarrow> (string \<rightharpoonup> uid_time)" where
  "drop_uid uid nodeName nm =
     (case nm nodeName of
        None \<Rightarrow> nm
      | Some str \<Rightarrow>
          let str1 = (if uid \<in> its str then str\<lparr> uids := remove1 uid (uids str), its := its str - {uid} \<rparr> else str)
          in if uids str1 = [] then nm(nodeName := None) else nm(nodeName \<mapsto> str1))"

definition eraseNodeCurrent :: "int \<Rightarrow> 'a node_conns_scheme \<Rightarrow> 'a node_conns_scheme" where
  "eraseNodeCurrent uid m =
     (case mapIdNode m uid of
        None \<Rightarrow> m
      | Some ns \<Rightarrow> m\<lparr> mapNodeId := fold (drop_uid uid) ns (mapNodeId m),
                      mapIdCurrent := (mapIdCurrent m)(uid := None), mapIdNode := (mapIdNode m)(uid := None) \<rparr>)"

text \<open>\<open>reportNode\<close>, \<open>deleteNode\<close> and \<open>doClose\<close> of \<open>AdminRegistryImp\<close> as events.\<close>

datatype conn_event = ReportNode int string int nat | DeleteNode string | Closed int

fun conn_step :: "conn_event \<Rightarrow> 'a node_conns_scheme \<Rightarrow> 'a node_conns_scheme" where
  "conn_step (ReportNode t nodeName uid cur) m = createNodeCurrent t nodeName uid cur m"
| "conn_step (DeleteNode nodeName) m = deleteNodeCurrent nodeName m"
| "conn_step (Closed uid) m = eraseNodeCurrent uid m"

definition no_conns :: node_conns where
  "no_conns = \<lparr> mapNodeId = Map.empty, mapIdNode = Map.empty, mapIdCurrent = Map.empty \<rparr>"

subsection \<open>What the tables promise\<close>

text \<open>The abstract state: pairs of node and connection, the latest report first, and the handles.\<close>

fun abs_step :: "conn_event \<Rightarrow> (string \<times> int) list \<times> (int \<Rightarrow> nat) \<Rightarrow> (string \<times> int) list \<times> (int \<Rightarrow> nat)" where
  "abs_step (ReportNode t nodeName uid cur) (ps, h) = ((nodeName, uid) # filter (\<lambda>p. p \<noteq> (nodeName, uid)) ps, h(uid := cur))"
| "abs_step (DeleteNode nodeName) (ps, h) = (filter (\<lambda>p. fst p \<noteq> nodeName) ps, h)"
| "abs_step (Closed uid) (ps, h) = (filter (\<lambda>p. snd p \<noteq> uid) ps, h)"

definition latest :: "string \<Rightarrow> (string \<times> int) list \<times> (int \<Rightarrow> nat) \<Rightarrow> nat option" where
  "latest nodeName a = map_option (\<lambda>p. snd a (snd p)) (List.find (\<lambda>p. fst p = nodeName) (fst a))"

definition conns_of :: "'a node_conns_scheme \<Rightarrow> string \<Rightarrow> int list" where
  "conns_of m nodeName = (case mapNodeId m nodeName of None \<Rightarrow> [] | Some str \<Rightarrow> uids str)"

definition conns_rel :: "'a node_conns_scheme \<Rightarrow> (string \<times> int) list \<times> (int \<Rightarrow> nat) \<Rightarrow> bool" where
  "conns_rel m a \<longleftrightarrow>
     distinct (fst a) \<and>
     (\<forall>n. conns_of m n = map snd (filter (\<lambda>p. fst p = n) (fst a))) \<and>
     (\<forall>n str. mapNodeId m n = Some str \<longrightarrow> uids str \<noteq> [] \<and> its str = set (uids str)) \<and>
     (\<forall>u. mapIdNode m u = None \<longrightarrow> u \<notin> snd ` set (fst a)) \<and>
     (\<forall>u ns. mapIdNode m u = Some ns \<longrightarrow> set ns = {n. (n, u) \<in> set (fst a)} \<and> mapIdCurrent m u = Some (snd a u))"

lemma conns_of_simps [simp]:
  "conns_of (m\<lparr> mapIdNode := a \<rparr>) = conns_of m" "conns_of (m\<lparr> mapIdCurrent := b \<rparr>) = conns_of m"
  by (auto simp: conns_of_def fun_eq_iff)

lemma conns_of_upd:
  "mapNodeId m' = (mapNodeId m)(n := x) \<Longrightarrow> conns_of m' = (conns_of m)(n := (case x of None \<Rightarrow> [] | Some str \<Rightarrow> uids str))"
  by (auto simp: conns_of_def fun_eq_iff)

lemma remove1_filter: "distinct xs \<Longrightarrow> remove1 x xs = filter (\<lambda>y. y \<noteq> x) xs"
proof (induction xs)
  case (Cons a xs)
  then have "x \<notin> set xs \<Longrightarrow> filter (\<lambda>y. y \<noteq> x) xs = xs" by (auto simp: filter_id_conv)
  with Cons show ?case by auto
qed simp

lemma conns_relD:
  assumes "conns_rel m a"
  shows "distinct (fst a)" and "conns_of m n = map snd (filter (\<lambda>p. fst p = n) (fst a))"
    and "mapNodeId m n = Some str \<Longrightarrow> uids str \<noteq> []" and "mapNodeId m n = Some str \<Longrightarrow> its str = set (uids str)"
    and "mapIdNode m u = None \<Longrightarrow> (n, u) \<notin> set (fst a)"
    and "mapIdNode m u = Some ns \<Longrightarrow> n \<in> set ns \<longleftrightarrow> (n, u) \<in> set (fst a)"
    and "mapIdNode m u = Some ns \<Longrightarrow> mapIdCurrent m u = Some (snd a u)"
  using assms by (force simp: conns_rel_def)+

lemma distinct_conns: "conns_rel m a \<Longrightarrow> distinct (conns_of m n)"
proof -
  assume r: "conns_rel m a"
  have "distinct (filter (\<lambda>p. fst p = n) (fst a))" using conns_relD(1)[OF r] by simp
  moreover have "inj_on snd (set (filter (\<lambda>p. fst p = n) (fst a)))" by (auto simp: inj_on_def)
  ultimately show ?thesis using conns_relD(2)[OF r] by (simp add: distinct_map)
qed

lemma mem_conns: "conns_rel m a \<Longrightarrow> u \<in> set (conns_of m n) \<longleftrightarrow> (n, u) \<in> set (fst a)"
  by (force simp: conns_relD(2))

lemma mapped_conns: "conns_rel m a \<Longrightarrow> mapNodeId m n = Some str \<Longrightarrow> uids str = conns_of m n \<and> its str = set (conns_of m n)"
  by (auto simp: conns_of_def dest: conns_relD(4))

lemma unmapped_conns: "conns_rel m a \<Longrightarrow> mapNodeId m n = None \<longleftrightarrow> conns_of m n = []"
  by (auto simp: conns_of_def split: option.splits dest: conns_relD(3))

lemma conns_relI:
  assumes "distinct ps" and "\<And>n. conns_of m n = map snd (filter (\<lambda>p. fst p = n) ps)"
    and "\<And>n str. mapNodeId m n = Some str \<Longrightarrow> uids str \<noteq> [] \<and> its str = set (uids str)"
    and "\<And>u n. mapIdNode m u = None \<Longrightarrow> (n, u) \<notin> set ps"
    and "\<And>u ns. mapIdNode m u = Some ns \<Longrightarrow> set ns = {n. (n, u) \<in> set ps} \<and> mapIdCurrent m u = Some (h u)"
  shows "conns_rel m (ps, h)"
  using assms by (auto simp: conns_rel_def)

lemma report_rel:
  assumes "conns_rel m (ps, h)"
  shows "conns_rel (createNodeCurrent t n u c m) (abs_step (ReportNode t n u c) (ps, h))"
proof -
  note d = conns_relD[OF assms, simplified]
  let ?m' = "createNodeCurrent t n u c m"
  let ?ps' = "(n, u) # filter (\<lambda>p. p \<noteq> (n, u)) ps"
  have own: "\<exists>str. mapNodeId ?m' = (mapNodeId m)(n \<mapsto> str) \<and> uids str = u # filter (\<lambda>x. x \<noteq> u) (conns_of m n) \<and>
      its str = insert u (set (conns_of m n))"
  proof (cases "mapNodeId m n")
    case None
    then have "conns_of m n = []" by (simp add: conns_of_def)
    with None show ?thesis by (intro exI[of _ "\<lparr> ut_time = t, uids = [u], its = {u} \<rparr>"]) (simp add: createNodeCurrent_def Let_def)
  next
    case (Some str)
    have "u \<notin> set (conns_of m n) \<Longrightarrow> filter (\<lambda>x. x \<noteq> u) (conns_of m n) = conns_of m n"
      by (auto simp: filter_id_conv)
    then have "(if u \<in> its str then remove1 u (uids str) else uids str) = filter (\<lambda>x. x \<noteq> u) (conns_of m n)"
      using mapped_conns[OF assms Some] distinct_conns[OF assms, of n] by (auto simp: remove1_filter)
    with Some mapped_conns[OF assms Some] show ?thesis
      by (intro exI[of _ "str\<lparr> ut_time := t, uids := u # filter (\<lambda>x. x \<noteq> u) (conns_of m n), its := insert u (set (conns_of m n)) \<rparr>"])
        (simp add: createNodeCurrent_def Let_def)
  qed
  then obtain str where str: "mapNodeId ?m' = (mapNodeId m)(n \<mapsto> str)" "uids str = u # filter (\<lambda>x. x \<noteq> u) (conns_of m n)"
    "its str = insert u (set (conns_of m n))" by blast
  have conns: "conns_of ?m' = (conns_of m)(n := uids str)" using conns_of_upd[OF str(1)] by simp
  have idn: "mapIdNode ?m' = (mapIdNode m)(u \<mapsto> List.insert n (case mapIdNode m u of None \<Rightarrow> [] | Some ns \<Rightarrow> ns))"
    and idc: "mapIdCurrent ?m' = (mapIdCurrent m)(u \<mapsto> c)" by (simp_all add: createNodeCurrent_def Let_def)
  have "conns_rel ?m' (?ps', h(u := c))"
  proof (rule conns_relI)
    show "distinct ?ps'" using d(1) by auto
    show "conns_of ?m' k = map snd (filter (\<lambda>p. fst p = k) ?ps')" for k
    proof (cases "k = n")
      case True
      have "map snd (filter (\<lambda>p. p \<noteq> (n, u) \<and> fst p = n) ps) = filter (\<lambda>x. x \<noteq> u) (map snd (filter (\<lambda>p. fst p = n) ps))"
        by (induction ps) auto
      with True show ?thesis by (simp add: conns str(2) d(2) conj_commute)
    next
      case False
      then have "filter (\<lambda>p. p \<noteq> (n, u) \<and> fst p = k) ps = filter (\<lambda>p. fst p = k) ps" by (auto intro: filter_cong)
      with False show ?thesis by (simp add: conns d(2))
    qed
    show "uids s \<noteq> [] \<and> its s = set (uids s)" if "mapNodeId ?m' k = Some s" for k s
      using that d(3,4)[of k s] str(2,3) by (cases "k = n") (auto simp: str(1))
    show "(k, v) \<notin> set ?ps'" if "mapIdNode ?m' v = None" for k v
      using that d(5) by (auto simp: idn split: if_splits)
    show "set ns = {k. (k, v) \<in> set ?ps'} \<and> mapIdCurrent ?m' v = Some ((h(u := c)) v)" if "mapIdNode ?m' v = Some ns" for v ns
      using that d(5,6,7) by (auto simp: idn idc split: if_splits option.splits)
  qed
  then show ?thesis by simp
qed

lemma fold_forget:
  "fold (forget_node n) us im u =
     (if u \<in> set us then map_option (removeAll n) (im u) else im u)"
proof (induction us arbitrary: im)
  case (Cons x us)
  have "forget_node n x im u = (if u = x then map_option (removeAll n) (im u) else im u)"
    by (auto simp: forget_node_def split: option.split)
  with Cons show ?case by (auto simp: option.map_comp comp_def)
qed simp

lemma delete_rel:
  assumes "conns_rel m (ps, h)"
  shows "conns_rel (deleteNodeCurrent n m) (abs_step (DeleteNode n) (ps, h))"
proof (cases "mapNodeId m n")
  case None
  then have "conns_of m n = []" by (simp add: conns_of_def)
  then have "\<forall>p\<in>set ps. fst p \<noteq> n" using conns_relD(2)[OF assms, of n] by (auto simp: filter_empty_conv)
  then have "filter (\<lambda>p. fst p \<noteq> n) ps = ps" by (simp add: filter_id_conv)
  with None assms show ?thesis by (simp add: deleteNodeCurrent_def)
next
  case (Some str)
  note d = conns_relD[OF assms, simplified]
  let ?m' = "deleteNodeCurrent n m"
  let ?ps' = "filter (\<lambda>p. fst p \<noteq> n) ps"
  have nid: "mapNodeId ?m' = (mapNodeId m)(n := None)" and cur: "mapIdCurrent ?m' = mapIdCurrent m"
    and idn: "mapIdNode ?m' u = (if u \<in> set (conns_of m n) then map_option (removeAll n) (mapIdNode m u) else mapIdNode m u)" for u
    using Some mapped_conns[OF assms Some] by (simp_all add: deleteNodeCurrent_def fold_forget)
  have "conns_rel ?m' (?ps', h)"
  proof (rule conns_relI)
    show "distinct ?ps'" using d(1) by simp
    show "conns_of ?m' k = map snd (filter (\<lambda>p. fst p = k) ?ps')" for k
      by (auto simp: conns_of_upd[OF nid] d(2) intro!: arg_cong[where f = "map snd"] filter_cong)
    show "uids s \<noteq> [] \<and> its s = set (uids s)" if "mapNodeId ?m' k = Some s" for k s
      using that d(3,4) by (auto simp: nid split: if_splits)
    show "(k, v) \<notin> set ?ps'" if "mapIdNode ?m' v = None" for k v
      using that d(5) by (auto simp: idn split: if_splits)
    show "set ns = {k. (k, v) \<in> set ?ps'} \<and> mapIdCurrent ?m' v = Some (h v)" if v: "mapIdNode ?m' v = Some ns" for v ns
    proof -
      from v obtain ns0 where ns0: "mapIdNode m v = Some ns0" by (auto simp: idn split: if_splits)
      have "set ns = set ns0 - {n}"
      proof (cases "v \<in> set (conns_of m n)")
        case True
        with v ns0 show ?thesis by (auto simp: idn)
      next
        case False
        then have "n \<notin> set ns0" using d(6)[OF ns0] mem_conns[OF assms] by simp
        with False v ns0 show ?thesis by (auto simp: idn)
      qed
      with d(6,7)[OF ns0] show ?thesis by (auto simp: cur)
    qed
  qed
  then show ?thesis by simp
qed

definition strip_uid :: "int \<Rightarrow> uid_time option \<Rightarrow> uid_time option" where
  "strip_uid u x =
     (case x of None \<Rightarrow> None
      | Some str \<Rightarrow>
          let str1 = (if u \<in> its str then str\<lparr> uids := remove1 u (uids str), its := its str - {u} \<rparr> else str)
          in if uids str1 = [] then None else Some str1)"

lemma drop_uid_strip: "drop_uid u k nm = nm(k := strip_uid u (nm k))"
  by (auto simp: drop_uid_def strip_uid_def Let_def fun_eq_iff split: option.split)

lemma strip_uid_idem [simp]: "strip_uid u (strip_uid u x) = strip_uid u x"
  by (auto simp: strip_uid_def Let_def split: option.split)

lemma fold_drop_uid: "fold (drop_uid u) ks nm n = (if n \<in> set ks then strip_uid u (nm n) else nm n)"
  by (induction ks arbitrary: nm) (auto simp: drop_uid_strip)

lemma strip_uid_uids:
  assumes "its str = set (uids str)" and "distinct (uids str)"
  shows "strip_uid u (Some str) =
    (if filter (\<lambda>x. x \<noteq> u) (uids str) = [] then None
     else Some (str\<lparr> uids := filter (\<lambda>x. x \<noteq> u) (uids str), its := its str - {u} \<rparr>))"
proof -
  have "remove1 u (uids str) = filter (\<lambda>x. x \<noteq> u) (uids str)" using assms(2) by (rule remove1_filter)
  moreover have "u \<notin> its str \<Longrightarrow> filter (\<lambda>x. x \<noteq> u) (uids str) = uids str \<and> its str - {u} = its str"
    using assms(1) by (auto simp: filter_id_conv)
  ultimately show ?thesis by (auto simp: strip_uid_def Let_def)
qed

lemma close_rel:
  assumes "conns_rel m (ps, h)"
  shows "conns_rel (eraseNodeCurrent u m) (abs_step (Closed u) (ps, h))"
proof (cases "mapIdNode m u")
  case None
  then have "\<forall>p\<in>set ps. snd p \<noteq> u" using conns_relD(5)[OF assms None] by auto
  then have "filter (\<lambda>p. snd p \<noteq> u) ps = ps" by (simp add: filter_id_conv)
  with None assms show ?thesis by (simp add: eraseNodeCurrent_def)
next
  case (Some ns)
  note d = conns_relD[OF assms, simplified]
  let ?m' = "eraseNodeCurrent u m"
  let ?ps' = "filter (\<lambda>p. snd p \<noteq> u) ps"
  have idn: "mapIdNode ?m' = (mapIdNode m)(u := None)" and cur: "mapIdCurrent ?m' = (mapIdCurrent m)(u := None)"
    using Some by (simp_all add: eraseNodeCurrent_def)
  have strip: "strip_uid u (mapNodeId m n) = (case filter (\<lambda>x. x \<noteq> u) (conns_of m n) of [] \<Rightarrow> None
      | x # xs \<Rightarrow> Some ((the (mapNodeId m n))\<lparr> uids := x # xs, its := set (conns_of m n) - {u} \<rparr>))" for n
  proof (cases "mapNodeId m n")
    case None
    then show ?thesis by (simp add: strip_uid_def conns_of_def)
  next
    case (Some str)
    with mapped_conns[OF assms Some] distinct_conns[OF assms, of n] show ?thesis
      by (auto simp: strip_uid_uids split: list.split)
  qed
  have same: "n \<notin> set ns \<Longrightarrow> strip_uid u (mapNodeId m n) = mapNodeId m n" for n
  proof -
    assume "n \<notin> set ns"
    then have "u \<notin> set (conns_of m n)" using d(6)[OF Some] mem_conns[OF assms] by simp
    then show ?thesis
      using mapped_conns[OF assms, of n] d(3)[of n] by (cases "mapNodeId m n") (auto simp: strip_uid_def Let_def)
  qed
  have nid: "mapNodeId ?m' n = strip_uid u (mapNodeId m n)" for n
    using Some same[of n] by (simp add: eraseNodeCurrent_def fold_drop_uid)
  have conns: "conns_of ?m' n = filter (\<lambda>x. x \<noteq> u) (conns_of m n)" for n
    by (simp add: conns_of_def[of ?m'] nid strip split: list.split)
  have "conns_rel ?m' (?ps', h)"
  proof (rule conns_relI)
    show "distinct ?ps'" using d(1) by simp
    show "conns_of ?m' n = map snd (filter (\<lambda>p. fst p = n) ?ps')" for n
    proof -
      have "filter (\<lambda>x. x \<noteq> u) (map snd (filter (\<lambda>p. fst p = n) ps)) = map snd (filter (\<lambda>p. snd p \<noteq> u \<and> fst p = n) ps)"
        by (induction ps) auto
      then show ?thesis by (simp add: conns d(2) conj_commute)
    qed
    show "uids s \<noteq> [] \<and> its s = set (uids s)" if mapped: "mapNodeId ?m' n = Some s" for n s
    proof -
      obtain x xs where x: "filter (\<lambda>x. x \<noteq> u) (conns_of m n) = x # xs" "uids s = x # xs" "its s = set (conns_of m n) - {u}"
        using mapped by (cases "filter (\<lambda>x. x \<noteq> u) (conns_of m n)") (auto simp: nid strip)
      have "set (x # xs) = set (conns_of m n) - {u}" by (subst x(1)[symmetric]) auto
      with x show ?thesis by simp
    qed
    show "(n, v) \<notin> set ?ps'" if "mapIdNode ?m' v = None" for n v
      using that d(5) by (auto simp: idn split: if_splits)
    show "set ns = {k. (k, v) \<in> set ?ps'} \<and> mapIdCurrent ?m' v = Some (h v)" if "mapIdNode ?m' v = Some ns" for v ns
      using that d(6,7) by (auto simp: idn cur split: if_splits)
  qed
  then show ?thesis by simp
qed

interpretation conn_table: event_system "\<lambda>ev z. (conn_step ev (fst z), abs_step ev (snd z))" "\<lambda>z. conns_rel (fst z) (snd z)"
proof
  fix z :: "'a node_conns_scheme \<times> (string \<times> int) list \<times> (int \<Rightarrow> nat)" and ev
  assume "conns_rel (fst z) (snd z)"
  then show "conns_rel (fst (conn_step ev (fst z), abs_step ev (snd z))) (snd (conn_step ev (fst z), abs_step ev (snd z)))"
    by (cases ev; cases "snd z") (simp_all add: report_rel delete_rel close_rel del: abs_step.simps)
qed

lemma getNodeCurrent_latest:
  assumes "conns_rel m a"
  shows "getNodeCurrent n m = Some (latest n a)"
proof (cases "conns_of m n")
  case Nil
  then have "\<forall>p\<in>set (fst a). fst p \<noteq> n" using conns_relD(2)[OF assms, of n] by (auto simp: filter_empty_conv)
  then have "List.find (\<lambda>p. fst p = n) (fst a) = None" by (auto simp: find_None_iff)
  with Nil unmapped_conns[OF assms, of n] show ?thesis by (simp add: getNodeCurrent_def latest_def)
next
  case (Cons u us)
  then obtain str where str: "mapNodeId m n = Some str" using unmapped_conns[OF assms, of n] by auto
  then have us: "uids str = u # us" using mapped_conns[OF assms str] Cons by simp
  have "(n, u) \<in> set (fst a)" using mem_conns[OF assms, of u n] Cons by simp
  then obtain ns where "mapIdNode m u = Some ns" using conns_relD(5)[OF assms] by (cases "mapIdNode m u") auto
  then have cur: "mapIdCurrent m u = Some (snd a u)" by (rule conns_relD(7)[OF assms])
  have "map snd (filter (\<lambda>p. fst p = n) (fst a)) = u # us" using conns_relD(2)[OF assms, of n] Cons by simp
  moreover have "map snd (filter (\<lambda>p. fst p = n) ps) = u # us \<Longrightarrow> map_option snd (List.find (\<lambda>p. fst p = n) ps) = Some u"
    for ps :: "(string \<times> int) list"
    by (induction ps) auto
  ultimately have "map_option snd (List.find (\<lambda>p. fst p = n) (fst a)) = Some u" by simp
  then show ?thesis using str us cur by (auto simp: getNodeCurrent_def latest_def)
qed

lemma fold_pair: "fold (\<lambda>e z. (f e (fst z), g e (snd z))) es (x, y) = (fold f es x, fold g es y)"
  by (induction es arbitrary: x y) auto

section \<open>The connection a request takes\<close>

text \<open>
  Property C15 (latest_connection_is_used). After any sequence of reports, node removals and closed
  connections, the lookup of a node never raises, and finds the handle last reported on the open
  connection on which the node reported last, or nothing when no connection of it is open.
\<close>

theorem latest_connection_is_used:
  "getNodeCurrent n (fold conn_step evs no_conns) = Some (latest n (fold abs_step evs ([], h)))"
proof -
  have "conns_rel no_conns ([], h)" by (simp add: conns_rel_def conns_of_def no_conns_def)
  then have "conns_rel (fold conn_step evs no_conns) (fold abs_step evs ([], h))"
    using conn_table.run_inv[of "(no_conns, ([], h))" evs] by (simp add: fold_pair)
  then show ?thesis by (rule getNodeCurrent_latest)
qed









end
