(* ===== verification/Admin_Requests.thy ===== *)
theory Admin_Requests
  imports Admin_Nodes
begin

text \<open>
  Requests to nodes through the admin registry: \<open>NodeManager::requestNode\<close> with the push, callback and
  sync functions of each operation, the answers of nodes (\<open>reportResult\<close>, time outs, proxy callbacks), and
  the remote and inner entry points of \<open>AdminRegistryImp\<close>. A request either has a client that is
  answered later, or none and waits. Error codes are numbers of the protocol with 0 for success.
\<close>

section \<open>State\<close>

record state_desc =
  settingStateInReg :: string
  presentStateInReg :: string
  presentStateInNode :: string
  sd_processId :: int

record admin_patch = patch_request +
  pq_nodename :: string
  pq_user :: string
  pq_servertype :: string

datatype node_op = OpPing | OpShutdown | OpState string string state_desc | OpLoad string string
  | OpDestroy string string | OpStart string string | OpStop string string | OpNotify string string string
  | OpPatch admin_patch | OpPercent string string | OpDelCache string string string
  | OpLogData string string string string | OpLogFiles string string | OpNodeLoad string string int | OpDocker

datatype response = R_bool bool string | R_int int string | R_state int state_desc string
  | R_percent int patch_info | R_list int "string list" | R_error

text \<open>\<open>NullPointer\<close> is no exception of C++ but the end of the process; \<open>StdExn\<close> is \<open>std::out_of_range\<close>.\<close>

datatype node_exn = SyncCallTimeout string | NodeNotRegistry string | OtherTars string | StdExn | NullPointer

record admin_client =
  cl_response :: bool
  cl_forward :: bool

record adm_state = node_conns +
  prxCache :: "string \<rightharpoonup> nat option"
  pending :: "(int \<times> nat option \<times> node_op) list"
  clients :: "nat \<Rightarrow> admin_client"
  sent :: "(nat \<times> response) list"
  proxied :: "(nat \<times> node_op) list"
  forwarded :: "nat list"
  pushed :: "(nat \<times> int \<times> node_op) list"
  db_writes :: "(string \<times> string \<times> string \<times> string \<times> string) list"
  cleaned :: "(string \<times> string) list"
  self_msgs :: "string list"
  calls :: nat
  clock :: nat

text \<open>
  The environment: error codes, fresh request ids (\<open>TC_TimeoutQueue::generateId\<close>), what a waiting request
  gets within its time out, the node table, proxy calls, the other admin registries, the server table, and
  the decoding of buffers. Everything that can change is numbered by the calls made so far.
\<close>

datatype node_row = DbError string | NoRow | NoObj | NodeObj nat

record err_codes =
  code_timeout :: int
  code_not_registry :: int
  code_unknown :: int
  code_no_connection :: int
  code_load_desc :: int
  code_can_not :: int
  code_get_patch :: int
  code_prepare :: int
  code_parameter :: int

record server_row =
  sr_serverType :: string
  sr_settingState :: string
  sr_presentState :: string
  sr_profile :: string

record admin_env =
  ae_code :: err_codes
  ae_id :: "adm_state \<Rightarrow> int"
  ae_wait :: "nat \<Rightarrow> (int \<times> string) option"
  ae_row :: "nat \<Rightarrow> string \<Rightarrow> node_row"
  ae_send :: "nat \<Rightarrow> node_op \<Rightarrow> node_exn option"
  ae_call :: "nat \<Rightarrow> node_op \<Rightarrow> node_exn + int \<times> string"
  ae_endpoints :: "nat \<Rightarrow> nat"
  ae_server :: "nat \<Rightarrow> string \<Rightarrow> string \<Rightarrow> string \<Rightarrow> server_row option"
  ae_update :: "nat \<Rightarrow> int"
  ae_seconds :: "nat \<Rightarrow> nat"
  ae_state :: "string \<Rightarrow> (int \<times> string \<times> string) option"
  ae_percent :: "string \<Rightarrow> patch_info option"
  ae_list :: "string \<Rightarrow> string list option"
  ae_string :: "string \<Rightarrow> string option"
  ae_patchInfo :: "nat \<Rightarrow> string \<Rightarrow> (string \<times> string) option"
  ae_prepare :: "nat \<Rightarrow> string \<Rightarrow> string \<Rightarrow> string \<Rightarrow> node_exn + int \<times> string"
  ae_remoteLogIp :: string
  ae_affected :: "nat \<Rightarrow> int"
  ae_self :: "string \<times> string"

definition adm_tick :: "admin_env \<Rightarrow> adm_state \<Rightarrow> adm_state" where
  "adm_tick e m = m\<lparr> calls := Suc (calls m), clock := clock m + ae_seconds e (calls m) \<rparr>"

definition setResponse :: "bool \<Rightarrow> nat option \<Rightarrow> adm_state \<Rightarrow> adm_state" where
  "setResponse b cur m =
     (case cur of None \<Rightarrow> m
      | Some c \<Rightarrow> m\<lparr> clients := (clients m)(c := (clients m c)\<lparr> cl_response := b \<rparr>) \<rparr>)"

section \<open>Proxies\<close>

text \<open>
  \<open>DbProxy::getNodePrx\<close> rethrows the exception for a missing row by value, as its base class. The result is
  cached, also when it is the null proxy.
\<close>

definition getNodePrx :: "admin_env \<Rightarrow> string \<Rightarrow> adm_state \<Rightarrow> (node_exn + nat option) \<times> adm_state" where
  "getNodePrx e nodeName m =
     (case prxCache m nodeName of
        Some p \<Rightarrow> (Inr p, m)
      | None \<Rightarrow>
          let m1 = adm_tick e m
          in case ae_row e (calls m) nodeName of
               DbError w \<Rightarrow> (Inl (NodeNotRegistry (''get node record from db error:'' @ w)), m1)
             | NoRow \<Rightarrow> (Inl (OtherTars ''not registered  or heartbeart timeout,please check for it''), m1)
             | NoObj \<Rightarrow> (Inr None, m1\<lparr> prxCache := (prxCache m1)(nodeName \<mapsto> None) \<rparr>)
             | NodeObj p \<Rightarrow> (Inr (Some p), m1\<lparr> prxCache := (prxCache m1)(nodeName \<mapsto> Some p) \<rparr>))"

definition eraseNodePrx :: "string \<Rightarrow> adm_state \<Rightarrow> adm_state" where
  "eraseNodePrx nodeName m = m\<lparr> prxCache := (prxCache m)(nodeName := None) \<rparr>"

section \<open>Answers\<close>

definition no_patch_info :: patch_info where
  "no_patch_info = \<lparr> bPatching = False, iPercent = 0, iModifyTime = 0, sVersion = [], sResult = [], bSucc = False \<rparr>"

text \<open>
  The callbacks for a client. The status of ping and shutdown is a \<open>bool\<close>, which for shutdown becomes the
  \<open>int\<close> of the answer. \<open>None\<close> is the exception of a buffer that does not decode.
\<close>

fun callback_resp :: "admin_env \<Rightarrow> node_op \<Rightarrow> bool \<Rightarrow> int \<Rightarrow> string \<Rightarrow> response option" where
  "callback_resp e OpPing timeout ret buff = Some (R_bool (\<not> timeout) buff)"
| "callback_resp e OpShutdown timeout ret buff = Some (R_int (if timeout then 0 else 1) buff)"
| "callback_resp e (OpState a n desc) timeout ret buff =
     (if timeout then Some (R_state (code_timeout (ae_code e)) desc buff)
      else map_option (\<lambda>(pid, st, result). R_state ret (desc\<lparr> sd_processId := pid, presentStateInNode := st \<rparr>) result) (ae_state e buff))"
| "callback_resp e (OpPercent a n) timeout ret buff =
     (if timeout then Some (R_percent (code_timeout (ae_code e)) no_patch_info) else map_option (R_percent ret) (ae_percent e buff))"
| "callback_resp e (OpLogData a n f cmd) timeout ret buff =
     Some (if timeout then R_int (code_timeout (ae_code e)) [] else R_int ret buff)"
| "callback_resp e (OpLogFiles a n) timeout ret buff =
     (if timeout then Some (R_list (code_timeout (ae_code e)) []) else map_option (R_list ret) (ae_list e buff))"
| "callback_resp e (OpNodeLoad a n pid) timeout ret buff =
     (if timeout then Some (R_int (code_timeout (ae_code e)) []) else map_option (R_int ret) (ae_string e buff))"
| "callback_resp e OpDocker timeout ret buff =
     (if timeout then Some (R_list (code_timeout (ae_code e)) []) else map_option (R_list ret) (ae_list e buff))"
| "callback_resp e op timeout ret buff = Some (R_int (if timeout then code_timeout (ae_code e) else ret) buff)"

text \<open>
  The callbacks of \<open>AsyncNodePrxCallback\<close>: the answer of a proxy, or the code of an exception. There is
  none for destroying a server.
\<close>

datatype proxy_answer = Answered int string "string list" patch_info "int \<times> string" | ProxyExn int

fun proxy_resp :: "node_op \<Rightarrow> proxy_answer \<Rightarrow> response option" where
  "proxy_resp OpDocker (Answered ret s l p st) = Some (R_list ret l)"
| "proxy_resp OpDocker (ProxyExn ret) = Some (R_list ret [''docker login error, ret:'' @ show_int ret])"
| "proxy_resp (OpLogData a n f cmd) (ProxyExn ret) = Some (R_int ret (''get log data error, ret:'' @ show_int ret))"
| "proxy_resp (OpLogFiles a n) (Answered ret s l p st) = Some (R_list ret l)"
| "proxy_resp (OpLogFiles a n) (ProxyExn ret) = Some (R_list ret [])"
| "proxy_resp (OpPercent a n) (Answered ret s l p st) = Some (R_percent ret p)"
| "proxy_resp (OpPercent a n) (ProxyExn ret) = Some (R_percent ret no_patch_info)"
| "proxy_resp (OpState a n desc) (Answered ret s l p st) =
     Some (R_state ret (desc\<lparr> sd_processId := fst st, presentStateInNode := snd st \<rparr>) s)"
| "proxy_resp (OpState a n desc) (ProxyExn ret) = Some (R_state ret desc [])"
| "proxy_resp (OpDestroy a n) ans = None"
| "proxy_resp OpPing ans = None"
| "proxy_resp op (Answered ret s l p st) = Some (R_int ret s)"
| "proxy_resp op (ProxyExn ret) = Some (R_int ret [])"

definition respond :: "nat option \<Rightarrow> response option \<Rightarrow> adm_state \<Rightarrow> adm_state" where
  "respond cur r m =
     (case (cur, r) of (Some c, Some x) \<Rightarrow> m\<lparr> sent := (c, x) # sent m \<rparr> | _ \<Rightarrow> m)"

definition take_pending :: "int \<Rightarrow> adm_state \<Rightarrow> (nat option \<times> node_op) option \<times> adm_state" where
  "take_pending i m = (map_of (pending m) i, m\<lparr> pending := filter (\<lambda>p. fst p \<noteq> i) (pending m) \<rparr>)"

definition reportResult :: "admin_env \<Rightarrow> int \<Rightarrow> int \<Rightarrow> string \<Rightarrow> adm_state \<Rightarrow> adm_state" where
  "reportResult e requestId ret result m =
     (case take_pending requestId m of
        (None, m1) \<Rightarrow> m1
      | (Some (cur, op), m1) \<Rightarrow> respond cur (callback_resp e op False ret result) m1)"

text \<open>One request of the time-out queue that has waited long enough.\<close>

definition expire :: "admin_env \<Rightarrow> int \<Rightarrow> adm_state \<Rightarrow> adm_state" where
  "expire e requestId m =
     (case take_pending requestId m of
        (None, m1) \<Rightarrow> m1
      | (Some (cur, op), m1) \<Rightarrow> respond cur (callback_resp e op True 0 []) m1)"

definition proxy_returns :: "nat \<Rightarrow> proxy_answer \<Rightarrow> adm_state \<Rightarrow> adm_state" where
  "proxy_returns i ans m =
     (if i < length (proxied m)
      then respond (Some (fst (proxied m ! i))) (proxy_resp (snd (proxied m ! i)) ans)
             (m\<lparr> proxied := take i (proxied m) @ drop (Suc i) (proxied m) \<rparr>)
      else m)"

section \<open>Requests\<close>

text \<open>
  The sync functions: with a client the proxy is called asynchronously, except for a ping; without one
  the call waits. Answers that are encoded again are handed over only for the code 0.
\<close>

definition encoded :: "node_op \<Rightarrow> bool" where
  "encoded op = (case op of OpState _ _ _ \<Rightarrow> True | OpPercent _ _ \<Rightarrow> True | OpLogFiles _ _ \<Rightarrow> True | OpDocker \<Rightarrow> True | _ \<Rightarrow> False)"

definition sync_call :: "admin_env \<Rightarrow> string \<Rightarrow> nat option \<Rightarrow> node_op \<Rightarrow> adm_state \<Rightarrow> (node_exn + int \<times> string) \<times> adm_state" where
  "sync_call e out cur op m =
     (let m1 = adm_tick e m
      in if op = OpPing then
           (case ae_send e (calls m) op of
              Some x \<Rightarrow> (Inl x, m1)
            | None \<Rightarrow> (Inr (0, ''ping succ''), respond cur (Some (R_bool True ''ping succ'')) m1))
         else
           case cur of
             Some c \<Rightarrow>
               (case ae_send e (calls m) op of
                  Some x \<Rightarrow> (Inl x, m1)
                | None \<Rightarrow> (Inr (0, out), m1\<lparr> proxied := proxied m1 @ [(c, op)] \<rparr>))
           | None \<Rightarrow>
               (case ae_call e (calls m) op of
                  Inl x \<Rightarrow> (Inl x, m1)
                | Inr (ret, result) \<Rightarrow> (Inr (ret, if encoded op \<and> ret \<noteq> 0 then out else result), m1)))"

definition requestNode ::
  "admin_env \<Rightarrow> string \<Rightarrow> string \<Rightarrow> nat option \<Rightarrow> node_op \<Rightarrow> adm_state \<Rightarrow> (node_exn + int \<times> string) \<times> adm_state" where
  "requestNode e nodeName out cur op m =
     (case getNodeCurrent nodeName m of
        None \<Rightarrow> (Inl StdExn, m)
      | Some (Some conn) \<Rightarrow>
          let i = ae_id e m;
              m1 = (setResponse False cur m)\<lparr> pending := (i, cur, op) # pending m, pushed := pushed m @ [(conn, i, op)] \<rparr>
          in (case cur of
                Some c \<Rightarrow> (Inr (0, out), m1)
              | None \<Rightarrow>
                  (case ae_wait e (calls m1) of
                     Some (ret, result) \<Rightarrow> (Inr (ret, result), snd (take_pending i (adm_tick e m1)))
                   | None \<Rightarrow> (Inr (code_timeout (ae_code e), out), adm_tick e m1)))
      | Some None \<Rightarrow>
          (case getNodePrx e nodeName m of
             (Inl x, m1) \<Rightarrow> (Inl x, m1)
           | (Inr None, m1) \<Rightarrow>
               (case cur of
                  None \<Rightarrow> (Inl NullPointer, m1)
                | Some c \<Rightarrow>
                    if cl_forward (clients m1 c) then (Inr (code_no_connection (ae_code e), out), m1)
                    else
                      let m2 = adm_tick e (m1\<lparr> clients := (clients m1)(c := (clients m1 c)\<lparr> cl_forward := True \<rparr>) \<rparr>)
                      in if ae_endpoints e (calls m1) = 0 then (Inr (code_no_connection (ae_code e), out), m2)
                         else (Inr (code_no_connection (ae_code e), out), setResponse False cur (m2\<lparr> forwarded := c # forwarded m2 \<rparr>)))
           | (Inr (Some p), m1) \<Rightarrow> sync_call e out cur op (setResponse False cur m1)))"

section \<open>The operations of the node manager\<close>

definition nm_pingNode where "nm_pingNode e node out cur = requestNode e node out cur OpPing"
definition nm_shutdownNode where "nm_shutdownNode e node out cur = requestNode e node out cur OpShutdown"
definition nm_getServerState where "nm_getServerState e a n node desc out cur = requestNode e node out cur (OpState a n desc)"
definition nm_loadServer where "nm_loadServer e a n node out cur = requestNode e node out cur (OpLoad a n)"
definition nm_destroyServer where "nm_destroyServer e a n node out cur = requestNode e node out cur (OpDestroy a n)"
definition nm_startServer where "nm_startServer e a n node out cur = requestNode e node out cur (OpStart a n)"
definition nm_stopServer where "nm_stopServer e a n node out cur = requestNode e node out cur (OpStop a n)"
definition nm_notifyServer where "nm_notifyServer e a n node command out cur = requestNode e node out cur (OpNotify a n command)"
definition nm_patchPro where "nm_patchPro e req out cur = requestNode e (pq_nodename req) out cur (OpPatch req)"
definition nm_getPatchPercent where "nm_getPatchPercent e a n node out cur = requestNode e node out cur (OpPercent a n)"
definition nm_delCache where "nm_delCache e node c b k out cur = requestNode e node out cur (OpDelCache c b k)"
definition nm_getLogData where "nm_getLogData e a n node f cmd out cur = requestNode e node out cur (OpLogData a n f cmd)"
definition nm_getLogFileList where "nm_getLogFileList e a n node out cur = requestNode e node out cur (OpLogFiles a n)"
definition nm_getNodeLoad where "nm_getNodeLoad e a n node pid out cur = requestNode e node out cur (OpNodeLoad a n pid)"
definition nm_forceDockerLogin where "nm_forceDockerLogin e node out cur = requestNode e node out cur OpDocker"

lemmas nm_defs = nm_pingNode_def nm_shutdownNode_def nm_getServerState_def nm_loadServer_def nm_destroyServer_def
  nm_startServer_def nm_stopServer_def nm_notifyServer_def nm_patchPro_def nm_getPatchPercent_def nm_delCache_def
  nm_getLogData_def nm_getLogFileList_def nm_getNodeLoad_def nm_forceDockerLogin_def

section \<open>The entry points for clients\<close>

text \<open>
  What an entry point returns: the code and the text, or \<open>None\<close> when an exception leaves it. Of an error
  text only what the exception says is kept; the prefix with the names of function and server is left out.
\<close>

definition exn_code :: "admin_env \<Rightarrow> node_exn \<Rightarrow> int option" where
  "exn_code e x =
     (case x of SyncCallTimeout w \<Rightarrow> Some (code_timeout (ae_code e)) | NodeNotRegistry w \<Rightarrow> Some (code_not_registry (ae_code e))
      | OtherTars w \<Rightarrow> Some (code_unknown (ae_code e)) | _ \<Rightarrow> None)"

definition exn_what :: "node_exn \<Rightarrow> string" where
  "exn_what x = (case x of SyncCallTimeout w \<Rightarrow> w | NodeNotRegistry w \<Rightarrow> w | OtherTars w \<Rightarrow> w | _ \<Rightarrow> [])"

text \<open>The catch blocks; \<open>back\<close> tells whether they set the response flag again, \<open>txt\<close> what they make of the text.\<close>

definition catching ::
  "admin_env \<Rightarrow> bool \<Rightarrow> nat option \<Rightarrow> (node_exn \<Rightarrow> string) \<Rightarrow> (node_exn + int \<times> string) \<times> adm_state \<Rightarrow> (int \<times> string) option \<times> adm_state" where
  "catching e back cur txt z =
     (case z of
        (Inr r, m) \<Rightarrow> (Some r, m)
      | (Inl x, m) \<Rightarrow>
          (case exn_code e x of
             None \<Rightarrow> (None, m)
           | Some k \<Rightarrow> (Some (k, txt x), if back then setResponse True cur m else m)))"

definition only_other :: "string \<Rightarrow> node_exn \<Rightarrow> string" where
  "only_other result x = (case x of OtherTars w \<Rightarrow> w | _ \<Rightarrow> result)"

text \<open>The database calls of \<open>DbProxy\<close>; an update answers 0 or -1.\<close>

definition adm_updateServerState :: "admin_env \<Rightarrow> string \<Rightarrow> string \<Rightarrow> string \<Rightarrow> string \<Rightarrow> string \<Rightarrow> adm_state \<Rightarrow> int \<times> adm_state" where
  "adm_updateServerState e a n node field state m =
     (if field \<noteq> ''setting_state'' \<and> field \<noteq> ''present_state'' then (-1, m)
      else (ae_update e (calls m),
        (adm_tick e m)\<lparr> db_writes := (if ae_update e (calls m) = 0 then db_writes m @ [(field, a, n, node, state)] else db_writes m) \<rparr>))"

definition getServers :: "admin_env \<Rightarrow> string \<Rightarrow> string \<Rightarrow> string \<Rightarrow> adm_state \<Rightarrow> server_row option \<times> adm_state" where
  "getServers e a n node m = (ae_server e (calls m) a n node, adm_tick e m)"

definition is_dns :: "server_row option \<Rightarrow> bool" where
  "is_dns s = (case s of None \<Rightarrow> False | Some r \<Rightarrow> sr_serverType r = ''tars_dns'')"

text \<open>The common part of start, stop and destroy: the wanted state, then the database or the node.\<close>

definition controlled ::
  "admin_env \<Rightarrow> string \<Rightarrow> string \<Rightarrow> string \<Rightarrow> string \<Rightarrow> string \<Rightarrow> nat option \<Rightarrow> node_op \<Rightarrow> adm_state \<Rightarrow> (node_exn + int \<times> string) \<times> adm_state" where
  "controlled e a n node state result cur op m =
     (let (_, m1) = adm_updateServerState e a n node ''setting_state'' state m;
          (srv, m2) = getServers e a n node m1
      in if is_dns srv then
           let (iRet, m3) = adm_updateServerState e a n node ''present_state'' state m2 in (Inr (iRet, result), m3)
         else requestNode e node result cur op m2)"

definition startServer where
  "startServer e a n node result c m =
     catching e True (Some c) (only_other result) (controlled e a n node ''active'' result (Some c) (OpStart a n) m)"

definition stopServer where
  "stopServer e a n node result c m =
     catching e True (Some c) (only_other result) (controlled e a n node ''inactive'' result (Some c) (OpStop a n) m)"

definition destroyServer where
  "destroyServer e a n node result c m =
     catching e True (Some c) (only_other result) (controlled e a n node ''inactive'' result (Some c) (OpDestroy a n) m)"

definition notifyServer where
  "notifyServer e a n node command result c m =
     catching e True (Some c) (\<lambda>x. result) (nm_notifyServer e a n node command result (Some c) m)"

definition adm_getPatchPercent where
  "adm_getPatchPercent e a n node result c m =
     catching e True (Some c) exn_what (nm_getPatchPercent e a n node result (Some c) m)"

definition delCache where
  "delCache e node f b k result c m = catching e True (Some c) (\<lambda>x. result) (nm_delCache e node f b k result (Some c) m)"

definition pingNode where
  "pingNode e node result c m =
     (case nm_pingNode e node result (Some c) m of
        (Inr (ret, out), m1) \<Rightarrow> (Some (if ret \<noteq> 0 then 1 else 0 :: int, out), m1)
      | (Inl x, m1) \<Rightarrow> (map_option (\<lambda>_. (0, exn_what x)) (exn_code e x), m1))"

definition shutdownNode where
  "shutdownNode e node result c m =
     (case nm_shutdownNode e node result (Some c) m of
        (Inr r, m1) \<Rightarrow> (Some r, m1)
      | (Inl x, m1) \<Rightarrow> (map_option (\<lambda>_. (-1, exn_what x)) (exn_code e x), m1))"

definition loadServer where
  "loadServer e a n node result c m = catching e False (Some c) (\<lambda>x. result) (nm_loadServer e a n node result (Some c) m)"

definition getServerState where
  "getServerState e a n node result c m =
     (let (srv, m1) = getServers e a n node m
      in case srv of
           None \<Rightarrow> (Some (code_load_desc (ae_code e), ''no config''), m1)
         | Some r \<Rightarrow>
             if sr_serverType r = ''tars_dns'' then (Some (0, result), m1)
             else
               let desc = \<lparr> settingStateInReg = sr_settingState r, presentStateInReg = sr_presentState r, presentStateInNode = [], sd_processId = 0 \<rparr>
               in case nm_getServerState e a n node desc result (Some c) m1 of
                    (Inl StdExn, m2) \<Rightarrow> (Some (code_unknown (ae_code e), []), m2)
                  | z \<Rightarrow> catching e False (Some c) exn_what z)"

text \<open>The log functions pass a text of their own to the node manager and lose it.\<close>

definition log_node :: "admin_env \<Rightarrow> string \<Rightarrow> string" where
  "log_node e node = (if node = [] \<or> node = ''remote'' then ae_remoteLogIp e else node)"

definition getLogData where
  "getLogData e a n node f cmd fileData c m =
     (if log_node e node = [] then (Some (code_parameter (ae_code e), fileData), m)
      else case nm_getLogData e a n node f cmd [] (Some c) m of
             (Inr (ret, out), m1) \<Rightarrow> (Some (ret, fileData), m1)
           | (Inl StdExn, m1) \<Rightarrow> (Some (code_unknown (ae_code e), fileData), m1)
           | z \<Rightarrow> catching e False (Some c) (\<lambda>x. fileData) z)"

definition getLogFileList where
  "getLogFileList e a n node c m =
     (if log_node e node = [] then (Some (code_parameter (ae_code e), []), m)
      else case nm_getLogFileList e a n node [] (Some c) m of
             (Inr (ret, out), m1) \<Rightarrow> (Some (ret, []), m1)
           | z \<Rightarrow> catching e False (Some c) (\<lambda>x. []) z)"

definition getNodeLoad where
  "getNodeLoad e a n node pid fileData c m =
     (case nm_getNodeLoad e a n node pid ''succ'' (Some c) m of
        (Inr (ret, out), m1) \<Rightarrow> (Some (ret, fileData), m1)
      | z \<Rightarrow> catching e False (Some c) (\<lambda>x. fileData) z)"

definition forceDockerLogin where
  "forceDockerLogin e node c m =
     (case nm_forceDockerLogin e node [] (Some c) m of
        (Inr (ret, out), m1) \<Rightarrow> (Some (ret, []), m1)
      | (Inl x, m1) \<Rightarrow> (if x = NullPointer then None else Some (code_unknown (ae_code e), exn_what x), m1))"

text \<open>Patching: every other exception is answered as a node that is not registered.\<close>

definition patch_catching ::
  "admin_env \<Rightarrow> nat option \<Rightarrow> (node_exn + int \<times> string) \<times> adm_state \<Rightarrow> (node_exn + int \<times> string) \<times> adm_state" where
  "patch_catching e cur z =
     (case z of
        (Inr r, m) \<Rightarrow> (Inr r, m)
      | (Inl NullPointer, m) \<Rightarrow> (Inl NullPointer, m)
      | (Inl (SyncCallTimeout w), m) \<Rightarrow> (Inr (code_timeout (ae_code e), w), setResponse True cur m)
      | (Inl x, m) \<Rightarrow> (Inr (code_not_registry (ae_code e), exn_what x), setResponse True cur m))"

definition batchPatch where
  "batchPatch e req c m =
     (let (srv, m1) = getServers e (rq_appname req) (rq_servername req) (pq_nodename req) m;
          req1 = req\<lparr> pq_servertype := (case srv of None \<Rightarrow> [] | Some r \<Rightarrow> sr_serverType r) \<rparr>;
          name = (if rq_groupname req = [] then rq_servername req else rq_groupname req);
          m2 = adm_tick e m1
      in case ae_patchInfo e (calls m1) (rq_version req) of
           None \<Rightarrow> (Inr (code_get_patch (ae_code e), ''get patch tgz error:'' @ rq_version req), m2)
         | Some (patchFile, md5) \<Rightarrow>
             (case ae_prepare e (calls m2) (rq_appname req) name patchFile of
                Inl x \<Rightarrow> patch_catching e (Some c) (Inl x, adm_tick e m2)
              | Inr (ret, txt) \<Rightarrow>
                  if ret \<noteq> 0 then (Inr (code_prepare (ae_code e), ''tarspatch preparePatchFile error:'' @ txt), adm_tick e m2)
                  else patch_catching e (Some c) (nm_patchPro e (req1\<lparr> rq_md5 := md5 \<rparr>) txt (Some c) (adm_tick e m2))))"

text \<open>A restart stops and starts; the registry's own server ends itself or passes the request on.\<close>

definition restart_stop where
  "restart_stop e rst a n node result c m =
     (if (a, n) = ae_self e then
        (Inr (0, result), False, m\<lparr> self_msgs := self_msgs m @ [if rst then ''terminate'' else ''async_restartServer''] \<rparr>)
      else
        let (srv, m1) = getServers e a n node m
        in if is_dns srv then (Inr (0, result), True, m1)
           else let (r, m2) = nm_stopServer e a n node result (Some c) m1 in (r, False, m2))"

definition restart_start where
  "restart_start e dns a n node result c m =
     (let (_, m2) = adm_updateServerState e a n node ''setting_state'' ''active'' m
      in if dns then let (r, m3) = adm_updateServerState e a n node ''present_state'' ''active'' m2 in (Some (r, result), m3)
         else catching e False (Some c) exn_what (nm_startServer e a n node result (Some c) m2))"

definition restartServer where
  "restartServer e rst a n node result c m =
     (let (first, dns, m1) = restart_stop e rst a n node result c m
      in case (case first of Inr r \<Rightarrow> Some r | Inl x \<Rightarrow> map_option (\<lambda>_. (code_unknown (ae_code e), result)) (exn_code e x)) of
           None \<Rightarrow> (None, m1)
         | Some (iRet, result1) \<Rightarrow>
             if iRet \<noteq> 0 then (Some (iRet, result1), m1) else restart_start e dns a n node result1 c m1)"

section \<open>The inner entry points\<close>

text \<open>They have no client, wait for the node and are used by the tasks.\<close>

definition inner_catching ::
  "admin_env \<Rightarrow> (node_exn \<Rightarrow> string) \<Rightarrow> (node_exn + int \<times> string) \<times> adm_state \<Rightarrow> (node_exn + int \<times> string) \<times> adm_state" where
  "inner_catching e txt z =
     (case z of
        (Inl x, m) \<Rightarrow> (case exn_code e x of None \<Rightarrow> (Inl x, m) | Some k \<Rightarrow> (Inr (k, txt x), m))
      | (Inr r, m) \<Rightarrow> (Inr r, m))"

definition startServer_inner where
  "startServer_inner e a n node result m =
     inner_catching e exn_what (controlled e a n node ''active'' result None (OpStart a n) m)"

definition stopServer_inner where
  "stopServer_inner e a n node result m =
     (if a = ''tars'' \<and> n = ''tarsAdminRegistry'' then
        (Inr (code_can_not (ae_code e), ''can not stop '' @ a @ ''.'' @ n), m)
      else inner_catching e exn_what (controlled e a n node ''inactive'' result None (OpStop a n) m))"

definition notifyServer_inner where
  "notifyServer_inner e a n node command result m =
     inner_catching e (\<lambda>x. result) (nm_notifyServer e a n node command result None m)"

definition updateServerFlowStateOne where
  "updateServerFlowStateOne e a n node active m =
     (adm_tick e m)\<lparr> db_writes := db_writes m @ (if ae_update e (calls m) = 0 then [(''flow_state'', a, n, node, if active then ''active'' else ''inactive'')] else []) \<rparr>"

definition restartServer_inner where
  "restartServer_inner e a n node result m =
     (let (srv, m1) = getServers e a n node m;
          (first, m2) = (if is_dns srv then (Inr (0, result), m1) else nm_stopServer e a n node result None m1)
      in case first of
           Inl NullPointer \<Rightarrow> (Inl NullPointer, m2)
         | Inl x \<Rightarrow> (Inr (code_unknown (ae_code e), exn_what x), m2)
         | Inr (iRet, result1) \<Rightarrow>
             if iRet \<noteq> 0 then (Inr (iRet, result1), m2)
             else
               let (_, m3) = adm_updateServerState e a n node ''setting_state'' ''active'' m2;
                   m4 = updateServerFlowStateOne e a n node True m3
               in if is_dns srv then
                    let (r, m5) = adm_updateServerState e a n node ''present_state'' ''active'' m4 in (Inr (r, result1), m5)
                  else inner_catching e exn_what (nm_startServer e a n node result1 None m4))"

definition undeploy_inner where
  "undeploy_inner e a n node user log m =
     (case stopServer_inner e a n node log m of
        (Inl x, m1) \<Rightarrow> (Inl x, m1)
      | (Inr (_, log1), m1) \<Rightarrow>
          (Inr (ae_update e (calls m1), log1),
           (adm_tick e m1)\<lparr> db_writes := db_writes m1 @ (if ae_update e (calls m1) = 0 then [(''undeploy'', a, n, node, user)] else []) \<rparr>))"

definition deleteHistorys :: "admin_env \<Rightarrow> string \<Rightarrow> string \<Rightarrow> adm_state \<Rightarrow> adm_state" where
  "deleteHistorys e a n m = (adm_tick e m)\<lparr> cleaned := cleaned m @ [(a, n)] \<rparr>"

definition batchPatch_inner where
  "batchPatch_inner e req result m =
     (let (srv, m1) = getServers e (rq_appname req) (rq_servername req) (pq_nodename req) m;
          req1 = req\<lparr> pq_servertype := (case srv of None \<Rightarrow> [] | Some r \<Rightarrow> sr_serverType r) \<rparr>;
          name = (if rq_groupname req = [] then rq_servername req else rq_groupname req)
      in patch_catching e None
           (case nm_patchPro e req1 result None m1 of
              (Inr r, m2) \<Rightarrow> (Inr r, deleteHistorys e (rq_appname req) name m2)
            | z \<Rightarrow> z))"

definition updatePatchLog_inner where
  "updatePatchLog_inner e a n node patchId user patchType succ m =
     (adm_tick e m)\<lparr> db_writes := db_writes m @ [(''patch_log'', a, n, node, patchId @ (if succ then ''succ'' else ''fail''))] \<rparr>"

text \<open>An exception of the decoding is none of those caught here.\<close>

definition getPatchPercent_inner :: "admin_env \<Rightarrow> string \<Rightarrow> string \<Rightarrow> string \<Rightarrow> patch_info \<Rightarrow> adm_state \<Rightarrow> (node_exn + int \<times> patch_info) \<times> adm_state" where
  "getPatchPercent_inner e a n node pi m =
     (case nm_getPatchPercent e a n node [] None m of
        (Inr (iRet, result), m1) \<Rightarrow>
          (if iRet = 0 then (case ae_percent e result of None \<Rightarrow> Inl StdExn | Some pi' \<Rightarrow> Inr (iRet, pi'))
           else Inr (iRet, pi\<lparr> sResult := ''getPatchPercent '' @ node @ '' error, iRet:'' @ show_int iRet \<rparr>), m1)
      | (Inl x, m1) \<Rightarrow> (case exn_code e x of None \<Rightarrow> Inl x | Some k \<Rightarrow> Inr (k, pi), m1))"

record prepare_info =
  pi_application :: string
  pi_serverName :: string
  pi_patchId :: string
  pi_runType :: string
  pi_baseImage :: string
  pi_patchFile :: string
  pi_md5 :: string

definition pi_key :: "prepare_info \<Rightarrow> string" where
  "pi_key p = pi_application p @ ''.'' @ pi_serverName p @ ''.'' @ pi_patchId p @ ''.'' @ pi_runType p @ ''.'' @ pi_baseImage p"

definition prepareInfo_inner :: "admin_env \<Rightarrow> prepare_info \<Rightarrow> adm_state \<Rightarrow> (int \<times> prepare_info \<times> string) \<times> adm_state" where
  "prepareInfo_inner e p m =
     (case ae_patchInfo e (calls m) (pi_patchId p) of
        None \<Rightarrow> (code_get_patch (ae_code e), p, ''load patch info from database error, patchId:'' @ pi_patchId p)
      | Some (file, md5) \<Rightarrow> (0, p\<lparr> pi_patchFile := file, pi_md5 := md5 \<rparr>, []), adm_tick e m)"

definition preparePatch_inner :: "admin_env \<Rightarrow> prepare_info \<Rightarrow> adm_state \<Rightarrow> (int \<times> string) \<times> adm_state" where
  "preparePatch_inner e p m =
     (let m1 = adm_tick e m
      in case ae_prepare e (calls m) (pi_application p) (pi_serverName p) (pi_patchFile p) of
           Inl x \<Rightarrow> ((code_unknown (ae_code e), ''tarspatch preparePatchFile error:'' @ exn_what x), m1)
         | Inr (iRet, result) \<Rightarrow>
             if iRet \<noteq> 0 then ((code_prepare (ae_code e), ''tarspatch preparePatchFile error:'' @ result), m1)
             else ((0, result), deleteHistorys e (pi_application p) (pi_serverName p) m1))"

text \<open>The framework check: a server by its object, a node by a ping that waits.\<close>

definition adm_checkServer :: "admin_env \<Rightarrow> string \<Rightarrow> string \<Rightarrow> (nat \<Rightarrow> bool) \<Rightarrow> adm_state \<Rightarrow> (node_exn + int) \<times> adm_state" where
  "adm_checkServer e objName nodeName pings m =
     (if objName \<noteq> [] then (Inr (if pings (calls m) then 0 else -1), adm_tick e m)
      else case nm_pingNode e nodeName [] None m of
             (Inr (ret, out), m1) \<Rightarrow> (Inr ret, m1)
           | (Inl x, m1) \<Rightarrow> (Inl x, m1))"

section \<open>Requests of clients\<close>

datatype admin_request = Q_start string string string | Q_stop string string string | Q_destroy string string string
  | Q_restart bool string string string | Q_notify string string string string | Q_patch admin_patch
  | Q_percent string string string | Q_delCache string string string string | Q_ping string | Q_shutdown string
  | Q_state string string string | Q_load string string string

fun handle :: "admin_env \<Rightarrow> admin_request \<Rightarrow> nat \<Rightarrow> adm_state \<Rightarrow> (int \<times> string) option \<times> adm_state" where
  "handle e (Q_start a n node) c m = startServer e a n node [] c m"
| "handle e (Q_stop a n node) c m = stopServer e a n node [] c m"
| "handle e (Q_destroy a n node) c m = destroyServer e a n node [] c m"
| "handle e (Q_restart rst a n node) c m = restartServer e rst a n node [] c m"
| "handle e (Q_notify a n node cmd) c m = notifyServer e a n node cmd [] c m"
| "handle e (Q_patch req) c m =
     (case batchPatch e req c m of (Inr r, m1) \<Rightarrow> (Some r, m1) | (Inl x, m1) \<Rightarrow> (None, m1))"
| "handle e (Q_percent a n node) c m = adm_getPatchPercent e a n node [] c m"
| "handle e (Q_delCache node f b k) c m = delCache e node f b k [] c m"
| "handle e (Q_ping node) c m = pingNode e node [] c m"
| "handle e (Q_shutdown node) c m = shutdownNode e node [] c m"
| "handle e (Q_state a n node) c m = getServerState e a n node [] c m"
| "handle e (Q_load a n node) c m = loadServer e a n node [] c m"

text \<open>
  The framework: a new request object, the entry point, and its result, or an error when an exception
  leaves it, as the answer while the response flag is set. \<open>web\<close> tells whether another admin registry has forwarded the request.
\<close>

definition dispatch :: "admin_env \<Rightarrow> admin_request \<Rightarrow> nat \<Rightarrow> bool \<Rightarrow> adm_state \<Rightarrow> adm_state" where
  "dispatch e q c web m =
     (case handle e q c (m\<lparr> clients := (clients m)(c := \<lparr> cl_response = True, cl_forward = web \<rparr>) \<rparr>) of
        (r, m1) \<Rightarrow>
          if cl_response (clients m1 c) then
            m1\<lparr> sent := (c, case r of None \<Rightarrow> R_error | Some (ret, out) \<Rightarrow> R_int ret out) # sent m1 \<rparr>
          else m1)"

datatype adm_event = Conn conn_event | Request admin_request nat bool | Result int int string | Expire int | ProxyReturns nat proxy_answer

fun adm_step :: "admin_env \<Rightarrow> adm_event \<Rightarrow> adm_state \<Rightarrow> adm_state" where
  "adm_step e (Conn ev) m = conn_step ev m"
| "adm_step e (Request q c web) m = dispatch e q c web m"
| "adm_step e (Result i ret result) m = reportResult e i ret result m"
| "adm_step e (Expire i) m = expire e i m"
| "adm_step e (ProxyReturns i ans) m = proxy_returns i ans m"

subsection \<open>Counting answers\<close>

definition due :: "nat \<Rightarrow> adm_state \<Rightarrow> nat" where
  "due c m = length (filter (\<lambda>x. fst x = c) (sent m)) + length (filter (\<lambda>x. fst (snd x) = Some c) (pending m)) +
     length (filter (\<lambda>x. fst x = c) (proxied m)) + length (filter (\<lambda>x. x = c) (forwarded m))"

definition fresh_ids :: "admin_env \<Rightarrow> bool" where
  "fresh_ids e \<longleftrightarrow> (\<forall>m. ae_id e m \<notin> fst ` set (pending m))"

text \<open>The operations whose answer always reaches the client that asked.\<close>

fun answerable :: "node_op \<Rightarrow> bool" where
  "answerable (OpStart a n) = True"
| "answerable (OpStop a n) = True"
| "answerable (OpNotify a n cmd) = True"
| "answerable (OpPatch req) = True"
| "answerable (OpDelCache f b k) = True"
| "answerable op = False"

fun answered_request :: "admin_request \<Rightarrow> bool" where
  "answered_request (Q_start a n node) = True"
| "answered_request (Q_stop a n node) = True"
| "answered_request (Q_notify a n node cmd) = True"
| "answered_request (Q_patch req) = True"
| "answered_request (Q_delCache node f b k) = True"
| "answered_request q = False"

definition ids_ok :: "adm_state \<Rightarrow> bool" where
  "ids_ok m \<longleftrightarrow> distinct (map fst (pending m))"

definition only_answerable :: "nat \<Rightarrow> adm_state \<Rightarrow> bool" where
  "only_answerable c m \<longleftrightarrow> (\<forall>i op. (i, Some c, op) \<in> set (pending m) \<longrightarrow> answerable op) \<and> (\<forall>op. (c, op) \<in> set (proxied m) \<longrightarrow> answerable op)"

text \<open>What the steps other than sending leave alone.\<close>

definition same_books :: "adm_state \<Rightarrow> adm_state \<Rightarrow> bool" where
  "same_books m m' \<longleftrightarrow> sent m' = sent m \<and> pending m' = pending m \<and> proxied m' = proxied m \<and> forwarded m' = forwarded m"

lemma same_booksD:
  assumes "same_books m m'"
  shows "due c m' = due c m" and "ids_ok m' = ids_ok m" and "only_answerable c m' = only_answerable c m"
  using assms by (auto simp: same_books_def due_def ids_ok_def only_answerable_def)

lemma books_simps [simp]:
  "same_books m m" "same_books m (adm_tick e m)" "same_books m (setResponse b cur m)"
  by (auto simp: same_books_def adm_tick_def setResponse_def split: option.split)

lemma due_simps [simp]:
  "due c (adm_tick e m) = due c m" "due c (setResponse b cur m) = due c m" "due c (m\<lparr> clients := x \<rparr>) = due c m"
  "due c (m\<lparr> db_writes := w \<rparr>) = due c m" "due c (m\<lparr> prxCache := y \<rparr>) = due c m" "due c (m\<lparr> self_msgs := z \<rparr>) = due c m"
  by (auto simp: due_def adm_tick_def setResponse_def split: option.split)



lemma due_set_response: "due c m' = due c m \<Longrightarrow> due c (setResponse b cur m') = due c m"
  by simp

lemma due_respond:
  "due c (respond cur r m) = due c m + (if cur = Some c \<and> r \<noteq> None then 1 else 0)"
  by (auto simp: due_def respond_def split: option.split)

lemma respond_simps [simp]:
  "pending (respond cur r m) = pending m" "proxied (respond cur r m) = proxied m" "clients (respond cur r m) = clients m"
  by (auto simp: respond_def split: option.split)

lemma books_respond: "ids_ok (respond cur r m) = ids_ok m" "only_answerable c (respond cur r m) = only_answerable c m"
  by (simp_all add: ids_ok_def only_answerable_def)

lemma flags_simps [simp]:
  "clients (adm_tick e m) = clients m"
  "cl_response (clients (setResponse b cur m) c) = (if cur = Some c then b else cl_response (clients m c))"
  by (auto simp: adm_tick_def setResponse_def split: option.split)

lemma getNodePrx_books: "same_books m (snd (getNodePrx e node m)) \<and> clients (snd (getNodePrx e node m)) = clients m"
  by (auto simp: getNodePrx_def same_books_def Let_def adm_tick_def split: option.split node_row.split)

text \<open>
  The account of a step that sends a request: for its client one more answer is due unless the response
  flag is still set or the step raises; nothing changes for others.
\<close>

definition accounts :: "nat option \<Rightarrow> node_op \<Rightarrow> adm_state \<Rightarrow> ('x + 'y) \<times> adm_state \<Rightarrow> bool" where
  "accounts cur op m z \<longleftrightarrow>
     (ids_ok m \<longrightarrow> ids_ok (snd z)) \<and>
     (\<forall>c. cur \<noteq> Some c \<longrightarrow> due c (snd z) = due c m \<and> clients (snd z) c = clients m c \<and> only_answerable c (snd z) = only_answerable c m) \<and>
     (\<forall>c. cur = Some c \<longrightarrow> cl_response (clients m c) \<longrightarrow>
        (answerable op \<longrightarrow> only_answerable c (snd z) = only_answerable c m) \<and>
        due c (snd z) = due c m + (if isl (fst z) \<or> cl_response (clients (snd z) c) then 0 else 1))"

lemma sync_call_books:
  assumes "sync_call e out cur op m = (r, m')"
  shows "clients m' = clients m \<and> ids_ok m' = ids_ok m \<and>
    (cur \<noteq> Some c \<or> answerable op \<longrightarrow> only_answerable c m' = only_answerable c m) \<and>
    due c m' = due c m + (if cur = Some c \<and> \<not> isl r then 1 else 0)"
proof -
  let ?t = "adm_tick e m"
  have base: "clients ?t = clients m" "ids_ok ?t = ids_ok m" "only_answerable c ?t = only_answerable c m" "due c ?t = due c m"
    by (simp_all add: same_booksD)
  have add: "due c (?t\<lparr> proxied := proxied ?t @ [(k, op)] \<rparr>) = due c m + (if k = c then 1 else 0)" for k
    by (simp add: due_def adm_tick_def)
  consider (ping) "op = OpPing" | (async) k where "op \<noteq> OpPing" "cur = Some k" | (wait) "op \<noteq> OpPing" "cur = None"
    by (cases cur) auto
  then show ?thesis
  proof cases
    case ping
    with assms show ?thesis
      by (auto simp: sync_call_def Let_def base due_respond books_respond split: option.splits)
  next
    case async
    show ?thesis
    proof (cases "ae_send e (calls m) op")
      case None
      have "only_answerable c (?t\<lparr> proxied := proxied ?t @ [(k, op)] \<rparr>) = (only_answerable c m \<and> (k = c \<longrightarrow> answerable op))"
        by (auto simp: only_answerable_def adm_tick_def)
      moreover have "ids_ok (?t\<lparr> proxied := proxied ?t @ [(k, op)] \<rparr>) = ids_ok m" by (simp add: ids_ok_def adm_tick_def)
      ultimately show ?thesis using None async assms by (auto simp: sync_call_def Let_def base add)
    next
      case (Some x)
      with async assms show ?thesis by (auto simp: sync_call_def Let_def base)
    qed
  next
    case wait
    with assms show ?thesis by (auto simp: sync_call_def Let_def base split: sum.splits)
  qed
qed

lemma push_books:
  assumes "fresh_ids e" and "m1 = (setResponse b cur m)\<lparr> pending := (ae_id e m, cur, op) # pending m, pushed := p \<rparr>"
  shows "ids_ok m1 = ids_ok m" and "due c m1 = due c m + (if cur = Some c then 1 else 0)"
    and "only_answerable c m1 = (only_answerable c m \<and> (cur = Some c \<longrightarrow> answerable op))"
    and "clients m1 = clients (setResponse b cur m)"
proof -
  have f: "sent (setResponse b cur m) = sent m" "proxied (setResponse b cur m) = proxied m" "forwarded (setResponse b cur m) = forwarded m"
    by (auto simp: setResponse_def split: option.split)
  show "ids_ok m1 = ids_ok m" using assms by (simp add: ids_ok_def fresh_ids_def)
  show "due c m1 = due c m + (if cur = Some c then 1 else 0)" using assms(2) by (simp add: due_def f)
  show "only_answerable c m1 = (only_answerable c m \<and> (cur = Some c \<longrightarrow> answerable op))"
    using assms(2) by (auto simp: only_answerable_def f)
  show "clients m1 = clients (setResponse b cur m)" using assms(2) by simp
qed

lemma withdraw_books:
  assumes "fresh_ids e" and "pending m1 = (ae_id e m, None, op) # pending m"
  shows "ids_ok m \<Longrightarrow> ids_ok (snd (take_pending (ae_id e m) m1))"
    and "due c (snd (take_pending (ae_id e m) m1)) = due c m1"
    and "only_answerable c (snd (take_pending (ae_id e m) m1)) = only_answerable c m1"
proof -
  have "filter (\<lambda>p. fst p \<noteq> ae_id e m) (pending m) = pending m"
    using assms(1) by (force simp: fresh_ids_def filter_id_conv)
  then have p: "filter (\<lambda>p. fst p \<noteq> ae_id e m) (pending m1) = pending m" by (simp add: assms(2))
  have tp: "snd (take_pending (ae_id e m) m1) = m1\<lparr> pending := pending m \<rparr>"
    by (simp only: take_pending_def p snd_conv)
  show "ids_ok m \<Longrightarrow> ids_ok (snd (take_pending (ae_id e m) m1))" by (simp add: tp ids_ok_def)
  show "due c (snd (take_pending (ae_id e m) m1)) = due c m1" by (simp add: tp due_def assms(2))
  show "only_answerable c (snd (take_pending (ae_id e m) m1)) = only_answerable c m1"
    by (auto simp: tp only_answerable_def assms(2))
qed

lemma tick_pending [simp]: "pending (adm_tick e m) = pending m" "mapNodeId (adm_tick e m) = mapNodeId m"
  by (simp_all add: adm_tick_def)

lemma accounts_same: "same_books m m' \<Longrightarrow> clients m' = clients m \<Longrightarrow> isl r \<or> cur = None \<Longrightarrow> accounts cur op m (r, m')"
  by (auto simp: accounts_def same_booksD)

lemma accounts_mono:
  assumes "same_books m m1" and "\<And>c. cl_response (clients m1 c) = cl_response (clients m c)"
    and "\<And>c. cur \<noteq> Some c \<Longrightarrow> clients m1 c = clients m c" and "accounts cur op m1 z"
  shows "accounts cur op m z"
  using assms(2-4) unfolding accounts_def same_booksD[OF assms(1)] by simp

lemma requestNode_accounts:
  assumes "fresh_ids e"
  shows "accounts cur op m (requestNode e node out cur op m)"
proof (cases "getNodeCurrent node m")
  case None
  then show ?thesis by (simp add: requestNode_def accounts_def)
next
  case (Some conn)
  show ?thesis
  proof (cases conn)
    case (Some k)
    define m1 where "m1 = (setResponse False cur m)\<lparr> pending := (ae_id e m, cur, op) # pending m, pushed := pushed m @ [(k, ae_id e m, op)] \<rparr>"
    note pb = push_books[OF assms m1_def]
    have rq: "requestNode e node out cur op m =
      (case cur of Some c \<Rightarrow> (Inr (0, out), m1)
       | None \<Rightarrow> (case ae_wait e (calls m1) of
            Some (ret, result) \<Rightarrow> (Inr (ret, result), snd (take_pending (ae_id e m) (adm_tick e m1)))
          | None \<Rightarrow> (Inr (code_timeout (ae_code e), out), adm_tick e m1)))"
      unfolding m1_def using \<open>getNodeCurrent node m = Some conn\<close> Some by (simp add: requestNode_def Let_def)
    show ?thesis
    proof (cases cur)
      case cur: (Some c)
      then show ?thesis unfolding rq accounts_def by (auto simp: pb setResponse_def)
    next
      case None
      have "pending (adm_tick e m1) = (ae_id e m, None, op) # pending m" using None by (simp add: m1_def)
      note wb = withdraw_books[OF assms this]
      have t: "same_books m1 (adm_tick e m1)" by simp
      show ?thesis
      proof (cases "ae_wait e (calls m1)")
        case wait: None
        with None show ?thesis unfolding rq accounts_def by (auto simp: same_booksD[OF t] pb setResponse_def)
      next
        case wait: (Some x)
        have "clients (snd (take_pending (ae_id e m) (adm_tick e m1))) = clients m1" by (simp add: take_pending_def)
        with wait None show ?thesis
          unfolding rq accounts_def by (cases x) (auto simp: same_booksD[OF t] wb pb setResponse_def)
      qed
    qed
  next
    case no_conn: None
    obtain r m1 where p: "getNodePrx e node m = (r, m1)" by (cases "getNodePrx e node m")
    have sb: "same_books m m1" "clients m1 = clients m" using getNodePrx_books[of m e node] p by simp_all
    note rq = requestNode_def[of e node out cur op m, unfolded \<open>getNodeCurrent node m = Some conn\<close> no_conn p option.case prod.case]
    show ?thesis
    proof (cases r)
      case (Inl x)
      with sb show ?thesis unfolding rq by (auto intro: accounts_same)
    next
      case (Inr q)
      show ?thesis
      proof (cases q)
        case proxy: (Some k)
        obtain r2 m2 where s: "sync_call e out cur op (setResponse False cur m1) = (r2, m2)" by (cases "sync_call e out cur op (setResponse False cur m1)")
        have "requestNode e node out cur op m = (r2, m2)" unfolding rq using Inr proxy s by simp
        moreover have "same_books m (setResponse False cur m1)"
          using sb(1) by (auto simp: same_books_def setResponse_def split: option.split)
        ultimately show ?thesis
          using sync_call_books[OF s] sb(2) by (auto simp: accounts_def same_booksD setResponse_def split: option.splits)
      next
        case null: None
        show ?thesis
        proof (cases cur)
          case None
          with Inr null sb show ?thesis unfolding rq by (auto intro: accounts_same)
        next
          case cur: (Some c)
          define m2 where "m2 = adm_tick e (m1\<lparr> clients := (clients m1)(c := (clients m1 c)\<lparr> cl_forward := True \<rparr>) \<rparr>)"
          define m3 where "m3 = setResponse False cur (m2\<lparr> forwarded := c # forwarded m2 \<rparr>)"
          have rq2: "requestNode e node out cur op m = (Inr (code_no_connection (ae_code e), out),
              if cl_forward (clients m1 c) then m1 else if ae_endpoints e (calls m1) = 0 then m2 else m3)"
            unfolding rq m3_def m2_def using Inr null cur by (simp add: Let_def)
          have d2: "same_books m m2" using sb(1) by (simp add: same_books_def m2_def adm_tick_def)
          have c2: "clients m2 = (clients m)(c := (clients m c)\<lparr> cl_forward := True \<rparr>)" by (simp add: m2_def sb)
          have d3: "due k m3 = due k m + (if k = c then 1 else 0)" "ids_ok m3 = ids_ok m" "only_answerable k m3 = only_answerable k m" for k
            using d2 by (auto simp: m3_def due_def ids_ok_def only_answerable_def same_books_def setResponse_def cur)
          have c3: "cl_response (clients m3 c) = False" "k \<noteq> c \<Longrightarrow> clients m3 k = clients m k" for k
            by (simp_all add: m3_def setResponse_def cur c2)
          show ?thesis
            unfolding rq2 using cur sb d3 c3 c2
            by (auto simp: accounts_def same_booksD[OF sb(1)] same_booksD[OF d2])
        qed
      qed
    qed
  qed
qed









subsection \<open>Entry points\<close>

definition others :: "nat \<Rightarrow> adm_state \<Rightarrow> adm_state \<Rightarrow> bool" where
  "others c m m' \<longleftrightarrow> (ids_ok m \<longrightarrow> ids_ok m') \<and> (\<forall>k. k \<noteq> c \<longrightarrow> due k m' = due k m \<and> only_answerable k m' = only_answerable k m)"

definition keeps_flags :: "adm_state \<Rightarrow> adm_state \<Rightarrow> bool" where
  "keeps_flags m m' \<longleftrightarrow> same_books m m' \<and> clients m' = clients m"

lemma others_refl: "others c m m"
  by (simp add: others_def)

lemma others_trans: "others c m m1 \<Longrightarrow> others c m1 m2 \<Longrightarrow> others c m m2"
  by (simp add: others_def)

lemma others_books: "same_books m m' \<Longrightarrow> others c m m'"
  by (simp add: others_def same_booksD)

lemma books_trans: "same_books m m1 \<Longrightarrow> same_books m1 m2 \<Longrightarrow> same_books m m2"
  by (simp add: same_books_def)

lemma keeps_flags_trans: "keeps_flags m m1 \<Longrightarrow> keeps_flags m1 m2 \<Longrightarrow> keeps_flags m m2"
  by (simp add: keeps_flags_def same_books_def)

lemma db_keeps:
  "keeps_flags m (adm_tick e m)" "keeps_flags m (snd (getServers e a n node m))" "keeps_flags m (snd (adm_updateServerState e a n node f st m))"
  "keeps_flags m (m\<lparr> self_msgs := x \<rparr>)"
  by (auto simp: keeps_flags_def same_books_def getServers_def adm_updateServerState_def adm_tick_def)

lemma keeps_others: "keeps_flags m m' \<Longrightarrow> others c m m'"
  by (simp add: keeps_flags_def others_books)

lemma requestNode_others: "fresh_ids e \<Longrightarrow> others c m (snd (requestNode e node out (Some c) op m))"
  using requestNode_accounts[of e "Some c" op m node out] by (simp add: accounts_def others_def)

lemma catching_others: "others c m (snd z) \<Longrightarrow> others c m (snd (catching e b (Some c) txt z))"
  by (cases z) (auto simp: catching_def intro: others_trans[OF _ others_books] split: sum.split option.split)

lemma patch_catching_others: "others c m (snd z) \<Longrightarrow> others c m (snd (patch_catching e (Some c) z))"
  by (cases z) (auto simp: patch_catching_def intro: others_trans[OF _ others_books] split: sum.split node_exn.split)

lemma controlled_unfold:
  "\<exists>m2. keeps_flags m m2 \<and>
     (controlled e a n node st result cur op m = requestNode e node result cur op m2 \<or>
      (\<exists>r m3. controlled e a n node st result cur op m = (Inr (r, result), m3) \<and> keeps_flags m m3))"
proof -
  define m1 where "m1 = snd (adm_updateServerState e a n node ''setting_state'' st m)"
  define m2 where "m2 = snd (getServers e a n node m1)"
  have k: "keeps_flags m m2" unfolding m2_def m1_def by (rule keeps_flags_trans[OF db_keeps(3) db_keeps(2)])
  have eq: "controlled e a n node st result cur op m =
    (if is_dns (fst (getServers e a n node m1)) then
       (Inr (fst (adm_updateServerState e a n node ''present_state'' st m2), result), snd (adm_updateServerState e a n node ''present_state'' st m2))
     else requestNode e node result cur op m2)"
    by (simp add: controlled_def Let_def split_beta m1_def m2_def)
  show ?thesis
  proof (cases "is_dns (fst (getServers e a n node m1))")
    case True
    with eq k show ?thesis by (intro exI[of _ m2]) (auto intro: keeps_flags_trans[OF k db_keeps(3)])
  next
    case False
    with eq k show ?thesis by (intro exI[of _ m2]) simp
  qed
qed

lemma controlled_others: "fresh_ids e \<Longrightarrow> others c m (snd (controlled e a n node st result (Some c) op m))"
proof -
  assume f: "fresh_ids e"
  obtain m2 where m2: "keeps_flags m m2"
    "controlled e a n node st result (Some c) op m = requestNode e node result (Some c) op m2 \<or>
      (\<exists>r m3. controlled e a n node st result (Some c) op m = (Inr (r, result), m3) \<and> keeps_flags m m3)"
    using controlled_unfold[of m e a n node st result "Some c" op] by blast
  from m2(2) show ?thesis
  proof
    assume "controlled e a n node st result (Some c) op m = requestNode e node result (Some c) op m2"
    then show ?thesis using others_trans[OF keeps_others[OF m2(1)] requestNode_others[OF f]] by simp
  next
    assume "\<exists>r m3. controlled e a n node st result (Some c) op m = (Inr (r, result), m3) \<and> keeps_flags m m3"
    then show ?thesis by (auto intro: keeps_others)
  qed
qed

lemma batchPatch_unfold:
  "\<exists>m2. keeps_flags m m2 \<and>
     (\<exists>req' txt. batchPatch e req c m = patch_catching e (Some c) (nm_patchPro e req' txt (Some c) m2) \<or>
        (\<exists>r. batchPatch e req c m = patch_catching e (Some c) (r, m2) \<and> (\<forall>x. r = Inl x \<longrightarrow> (\<exists>i a n f. ae_prepare e i a n f = Inl x))))"
proof -
  define m1 where "m1 = snd (getServers e (rq_appname req) (rq_servername req) (pq_nodename req) m)"
  define m2 where "m2 = adm_tick e m1"
  have k1: "keeps_flags m m2" unfolding m2_def m1_def by (rule keeps_flags_trans[OF db_keeps(2) db_keeps(1)])
  have k2: "keeps_flags m (adm_tick e m2)" by (rule keeps_flags_trans[OF k1 db_keeps(1)])
  obtain srv where s: "getServers e (rq_appname req) (rq_servername req) (pq_nodename req) m = (srv, m1)"
    by (simp add: m1_def prod_eq_iff)
  note d = batchPatch_def[of e req c m, unfolded s Let_def prod.case m2_def[symmetric]]
  show ?thesis
  proof (cases "ae_patchInfo e (calls m1) (rq_version req)")
    case None
    have "batchPatch e req c m = patch_catching e (Some c) (Inr (code_get_patch (ae_code e), ''get patch tgz error:'' @ rq_version req), m2)"
      by (simp add: d None patch_catching_def)
    with k1 show ?thesis by blast
  next
    case (Some x)
    obtain fl md5 where x: "x = (fl, md5)" by (cases x)
    let ?p = "ae_prepare e (calls m2) (rq_appname req) (if rq_groupname req = [] then rq_servername req else rq_groupname req) fl"
    show ?thesis
    proof (cases ?p)
      case (Inl y)
      with Some x k2 show ?thesis by (intro exI[of _ "adm_tick e m2"] conjI exI[of _ req] exI[of _ "[]"] disjI2 exI[of _ "Inl y"]) (auto simp: d)
    next
      case (Inr y)
      obtain ret tx where y: "y = (ret, tx)" by (cases y)
      show ?thesis
      proof (cases "ret = 0")
        case True
        with Some x Inr y k2 show ?thesis by (intro exI[of _ "adm_tick e m2"]) (auto simp: d)
      next
        case False
        have "batchPatch e req c m = patch_catching e (Some c) (Inr (code_prepare (ae_code e), ''tarspatch preparePatchFile error:'' @ tx), adm_tick e m2)"
          by (simp add: d Some x Inr y False patch_catching_def)
        with k2 show ?thesis by blast
      qed
    qed
  qed
qed

lemma batchPatch_others: "fresh_ids e \<Longrightarrow> others c m (snd (batchPatch e req c m))"
proof -
  assume f: "fresh_ids e"
  obtain m2 where m2: "keeps_flags m m2"
    "\<exists>req' txt. batchPatch e req c m = patch_catching e (Some c) (nm_patchPro e req' txt (Some c) m2) \<or>
        (\<exists>r. batchPatch e req c m = patch_catching e (Some c) (r, m2))"
    using batchPatch_unfold[of m e req c] by blast
  have "others c m (snd (patch_catching e (Some c) (nm_patchPro e req' tx (Some c) m2)))" for req' tx
    by (rule patch_catching_others) (simp add: nm_patchPro_def others_trans[OF keeps_others[OF m2(1)] requestNode_others[OF f]])
  moreover have "others c m (snd (patch_catching e (Some c) (r, m2)))" for r
    by (rule patch_catching_others) (simp add: keeps_others[OF m2(1)])
  ultimately show ?thesis using m2(2) by auto
qed

lemma restart_others: "fresh_ids e \<Longrightarrow> others c m (snd (restartServer e rst a n node result c m))"
proof -
  assume f: "fresh_ids e"
  have tail: "others c m2 (snd (restart_start e dns a n node result1 c m2))" for m2 dns result1
    unfolding restart_start_def Let_def split_beta nm_startServer_def
    by (auto intro: others_trans[OF keeps_others[OF db_keeps(3)] keeps_others[OF db_keeps(3)]]
        others_trans[OF keeps_others[OF db_keeps(3)] catching_others[OF requestNode_others[OF f]]])
  have sg: "others c m (snd (getServers e a n node m))" by (rule keeps_others[OF db_keeps(2)])
  have m1: "others c m (snd (snd (restart_stop e rst a n node result c m)))"
    using sg others_trans[OF sg requestNode_others[OF f]] keeps_others[OF db_keeps(4)]
    by (auto simp: restart_stop_def Let_def split_beta nm_stopServer_def)
  obtain first dns m2 where z: "restart_stop e rst a n node result c m = (first, dns, m2)"
    by (cases "restart_stop e rst a n node result c m")
  let ?first = "case first of Inr r \<Rightarrow> Some r | Inl x \<Rightarrow> map_option (\<lambda>_. (code_unknown (ae_code e), result)) (exn_code e x)"
  show ?thesis
  proof (cases ?first)
    case None
    with m1 z show ?thesis by (simp add: restartServer_def)
  next
    case (Some r)
    with m1 z others_trans[OF _ tail, of m m2] show ?thesis by (cases r) (simp add: restartServer_def)
  qed
qed

lemma handle_others:
  assumes "fresh_ids e"
  shows "others c m (snd (handle e q c m))"
proof -
  note r = requestNode_others[OF assms]
  have patch: "others c m (snd (case batchPatch e req c m of (Inr r, m1) \<Rightarrow> (Some r, m1) | (Inl x, m1) \<Rightarrow> (None, m1)))" for req
    using batchPatch_others[OF assms, of c m req] by (auto split: prod.split sum.split)
  have ping: "snd (pingNode e node res c m) = snd (nm_pingNode e node res (Some c) m)" for node res
    by (auto simp: pingNode_def split: prod.split sum.split)
  have down: "snd (shutdownNode e node res c m) = snd (nm_shutdownNode e node res (Some c) m)" for node res
    by (auto simp: shutdownNode_def split: prod.split sum.split)
  have state: "others c m (snd (getServerState e a n node res c m))" for a n node res
  proof -
    obtain srv m1 where g: "getServers e a n node m = (srv, m1)" by (cases "getServers e a n node m")
    have k: "others c m m1" using keeps_others[OF db_keeps(2)[of m e a n node]] g by simp
    have "others c m (snd (nm_getServerState e a n node desc res (Some c) m1))" for desc
      unfolding nm_getServerState_def by (rule others_trans[OF k r])
    moreover have "others c m (snd (case z of (Inl StdExn, m2) \<Rightarrow> (Some (code_unknown (ae_code e), []), m2) | z \<Rightarrow> catching e False (Some c) exn_what z))"
      if "others c m (snd z)" for z
      using that catching_others[OF that, of e False exn_what] by (auto split: prod.split sum.split node_exn.split)
    ultimately show ?thesis using k by (auto simp: getServerState_def g Let_def split: option.split)
  qed
  show ?thesis
    using patch
    by (cases q) (auto simp: startServer_def stopServer_def destroyServer_def notifyServer_def adm_getPatchPercent_def delCache_def
      loadServer_def ping down nm_defs state restart_others[OF assms] intro!: catching_others controlled_others[OF assms] r)
qed







text \<open>Calls raise the exceptions of the framework, and no others.\<close>

definition tars_env :: "admin_env \<Rightarrow> bool" where
  "tars_env e \<longleftrightarrow> (\<forall>i op x. ae_send e i op = Some x \<longrightarrow> exn_code e x \<noteq> None)"

definition good :: "nat \<Rightarrow> adm_state \<Rightarrow> adm_state \<Rightarrow> bool" where
  "good c m m' \<longleftrightarrow> only_answerable c m' = only_answerable c m \<and>
     due c m' + (if cl_response (clients m' c) then 1 else 0) = due c m + 1"

lemma good_keeps: "keeps_flags m m2 \<Longrightarrow> good c m2 m' \<Longrightarrow> good c m m'"
  by (simp add: good_def keeps_flags_def same_booksD)

lemma good_same: "keeps_flags m m' \<Longrightarrow> cl_response (clients m c) \<Longrightarrow> good c m m'"
  by (simp add: good_def keeps_flags_def same_booksD)

lemma requestNode_exn:
  assumes "requestNode e node out (Some c) op m = (Inl x, m')" and "tars_env e"
  shows "exn_code e x \<noteq> None \<or> (x = StdExn \<and> m' = m)"
proof -
  have s: "sync_call e out (Some c) op m1 = (Inl x, m') \<Longrightarrow> exn_code e x \<noteq> None" for m1
    using assms(2) by (auto simp: sync_call_def tars_env_def Let_def split: if_splits option.splits)
  have p: "getNodePrx e node m = (Inl x, m') \<Longrightarrow> exn_code e x \<noteq> None"
    by (auto simp: getNodePrx_def exn_code_def Let_def split: option.splits node_row.splits)
  show ?thesis
    using assms(1) s p
    by (auto simp: requestNode_def Let_def split: option.splits prod.splits sum.splits if_splits)
qed

lemma request_good:
  assumes "fresh_ids e" and "tars_env e" and "answerable op" and "cl_response (clients m c)"
    and "requestNode e node out (Some c) op m = (r, m')"
  shows "isl r \<Longrightarrow> good c m (setResponse True (Some c) m')" and "\<not> isl r \<Longrightarrow> good c m m'"
    and "r = Inl x \<Longrightarrow> exn_code e x = None \<Longrightarrow> x = StdExn \<and> good c m m'"
proof -
  have a: "only_answerable c m' = only_answerable c m"
    "due c m' = due c m + (if isl r \<or> cl_response (clients m' c) then 0 else 1)"
    using requestNode_accounts[OF assms(1), of "Some c" op m node out] assms(3-5) by (simp_all add: accounts_def)
  show "isl r \<Longrightarrow> good c m (setResponse True (Some c) m')"
    using a by (simp add: good_def same_booksD[OF books_simps(3)])
  show "\<not> isl r \<Longrightarrow> good c m m'" using a by (simp add: good_def)
  assume "r = Inl x" and "exn_code e x = None"
  then have "x = StdExn" "m' = m" using requestNode_exn[of e node out c op m x m'] assms(2,5) by auto
  then show "x = StdExn \<and> good c m m'" using good_same[of m m c] assms(4) by (simp add: keeps_flags_def)
qed

lemma request_catching_good:
  assumes "fresh_ids e" and "tars_env e" and "answerable op" and "cl_response (clients m c)"
  shows "good c m (snd (catching e True (Some c) tx (requestNode e node out (Some c) op m)))"
proof -
  obtain r m' where z: "requestNode e node out (Some c) op m = (r, m')" by (cases "requestNode e node out (Some c) op m")
  note g = request_good[OF assms z]
  show ?thesis
  proof (cases r)
    case (Inl x)
    with g z show ?thesis by (cases "exn_code e x") (simp_all add: catching_def)
  next
    case (Inr y)
    with g z show ?thesis by (simp add: catching_def)
  qed
qed

lemma request_patch_good:
  assumes "fresh_ids e" and "tars_env e" and "answerable op" and "cl_response (clients m c)"
  shows "good c m (snd (patch_catching e (Some c) (requestNode e node out (Some c) op m)))"
proof -
  obtain r m' where z: "requestNode e node out (Some c) op m = (r, m')" by (cases "requestNode e node out (Some c) op m")
  note g = request_good[OF assms z]
  show ?thesis
  proof (cases r)
    case (Inl x)
    then have "x \<noteq> NullPointer" using g(3)[of x] by (auto simp: exn_code_def)
    with Inl g(1) z show ?thesis by (cases x) (simp_all add: patch_catching_def)
  next
    case (Inr y)
    with g z show ?thesis by (simp add: patch_catching_def)
  qed
qed

lemma keeps_response: "keeps_flags m m2 \<Longrightarrow> cl_response (clients m2 c) = cl_response (clients m c)"
  by (simp add: keeps_flags_def)

lemma controlled_good:
  assumes "fresh_ids e" and "tars_env e" and "answerable op" and "cl_response (clients m c)"
  shows "good c m (snd (catching e True (Some c) tx (controlled e a n node st result (Some c) op m)))"
proof -
  obtain m2 where m2: "keeps_flags m m2"
    "controlled e a n node st result (Some c) op m = requestNode e node result (Some c) op m2 \<or>
      (\<exists>r m3. controlled e a n node st result (Some c) op m = (Inr (r, result), m3) \<and> keeps_flags m m3)"
    using controlled_unfold[of m e a n node st result "Some c" op] by blast
  from m2(2) show ?thesis
  proof
    assume "controlled e a n node st result (Some c) op m = requestNode e node result (Some c) op m2"
    then show ?thesis
      using good_keeps[OF m2(1) request_catching_good[OF assms(1-3)]] assms(4) keeps_response[OF m2(1)] by simp
  next
    assume "\<exists>r m3. controlled e a n node st result (Some c) op m = (Inr (r, result), m3) \<and> keeps_flags m m3"
    then show ?thesis using assms(4) by (auto simp: catching_def intro: good_same)
  qed
qed

lemma batchPatch_good:
  assumes "fresh_ids e" and "tars_env e" and "cl_response (clients m c)"
  shows "good c m (snd (batchPatch e req c m))"
proof -
  obtain m2 where m2: "keeps_flags m m2"
    "\<exists>req' tx. batchPatch e req c m = patch_catching e (Some c) (nm_patchPro e req' tx (Some c) m2) \<or>
        (\<exists>r. batchPatch e req c m = patch_catching e (Some c) (r, m2))"
    using batchPatch_unfold[of m e req c] by blast
  have "good c m (snd (patch_catching e (Some c) (nm_patchPro e req' tx (Some c) m2)))" for req' tx
    unfolding nm_patchPro_def
    by (rule good_keeps[OF m2(1) request_patch_good[OF assms(1,2)]]) (simp_all add: keeps_response[OF m2(1)] assms(3))
  moreover have "good c m (snd (patch_catching e (Some c) (r, m2)))" for r
  proof -
    have "good c m2 (setResponse True (Some c) m2)"
      by (simp add: good_def same_booksD[OF books_simps(3)])
    then have "good c m (setResponse True (Some c) m2)" by (rule good_keeps[OF m2(1)])
    moreover have "good c m m2" using good_same[OF m2(1)] assms(3) .
    ultimately show ?thesis by (auto simp: patch_catching_def split: sum.split node_exn.split)
  qed
  ultimately show ?thesis using m2(2) by auto
qed

lemma handle_good:
  assumes "fresh_ids e" and "tars_env e" and "answered_request q" and "cl_response (clients m c)"
  shows "good c m (snd (handle e q c m))"
proof -
  have patch: "good c m (snd (case batchPatch e req c m of (Inr r, m1) \<Rightarrow> (Some r, m1) | (Inl x, m1) \<Rightarrow> (None, m1)))" for req
    using batchPatch_good[OF assms(1,2,4), of req] by (auto split: prod.split sum.split)
  show ?thesis
    using assms(3) patch
    by (cases q) (auto simp: startServer_def stopServer_def notifyServer_def delCache_def nm_defs
      intro!: controlled_good[OF assms(1,2) _ assms(4)] request_catching_good[OF assms(1,2) _ assms(4)])
qed

subsection \<open>Histories\<close>

lemma conn_step_keeps: "keeps_flags m (conn_step ev m)"
  by (cases ev) (auto simp: keeps_flags_def same_books_def createNodeCurrent_def deleteNodeCurrent_def eraseNodeCurrent_def Let_def
    split: option.split)

lemma callback_answers: "answerable op \<Longrightarrow> callback_resp e op b ret buff \<noteq> None"
  by (cases op) auto

lemma proxy_answers: "answerable op \<Longrightarrow> proxy_resp op ans \<noteq> None"
  by (cases op; cases ans) auto

lemma take_pending_due:
  assumes "ids_ok m" and "take_pending i m = (r, m1)"
  shows "ids_ok m1 \<and> (only_answerable c m \<longrightarrow> only_answerable c m1) \<and>
    due c m = due c m1 + (case r of Some (Some k, op) \<Rightarrow> if k = c then 1 else 0 | _ \<Rightarrow> 0) \<and>
    (\<forall>k op. r = Some (k, op) \<longrightarrow> (i, k, op) \<in> set (pending m))"
proof -
  have one: "distinct (map fst xs) \<Longrightarrow> length (filter (\<lambda>x. fst (snd x) = Some c) xs) =
      length (filter (\<lambda>x. fst (snd x) = Some c) (filter (\<lambda>p. fst p \<noteq> i) xs)) +
      (case map_of xs i of Some (Some k, op) \<Rightarrow> if k = c then 1 else 0 | _ \<Rightarrow> 0)" for xs :: "(int \<times> nat option \<times> node_op) list"
  proof (induction xs)
    case (Cons x xs)
    obtain j k op where x: "x = (j, k, op)" by (cases x)
    show ?case
    proof (cases "j = i")
      case True
      then have no: "i \<notin> fst ` set xs" using Cons.prems x by simp
      then have "filter (\<lambda>p. fst p \<noteq> i) xs = xs" by (force simp: filter_id_conv)
      moreover have "map_of xs i = None" using no by (simp add: map_of_eq_None_iff)
      ultimately show ?thesis using True x Cons by (cases k) auto
    next
      case False
      with x Cons show ?thesis by simp
    qed
  qed simp
  have r: "r = map_of (pending m) i" and m1: "m1 = m\<lparr> pending := filter (\<lambda>p. fst p \<noteq> i) (pending m) \<rparr>"
    using assms(2) by (auto simp: take_pending_def)
  have "ids_ok m1" using assms(1) by (simp add: m1 ids_ok_def distinct_map_filter)
  moreover have "only_answerable c m \<longrightarrow> only_answerable c m1" by (auto simp: m1 only_answerable_def)
  moreover have "due c m = due c m1 + (case r of Some (Some k, op) \<Rightarrow> if k = c then 1 else 0 | _ \<Rightarrow> 0)"
    using one[of "pending m"] assms(1) by (simp add: due_def m1 r ids_ok_def del: filter_filter)
  moreover have "\<forall>k op. r = Some (k, op) \<longrightarrow> (i, k, op) \<in> set (pending m)"
    by (auto simp: r dest: map_of_SomeD)
  ultimately show ?thesis by blast
qed

lemma queue_answer_due:
  assumes "ids_ok m" and "only_answerable c m" and "take_pending i m = (r, m1)"
    and "m' = (case r of None \<Rightarrow> m1 | Some (cur, op) \<Rightarrow> respond cur (callback_resp e op b ret buff) m1)"
  shows "ids_ok m' \<and> only_answerable c m' \<and> due c m' = due c m"
proof -
  note t = take_pending_due[OF assms(1,3), of c]
  have ok: "ids_ok m1" "only_answerable c m1" using t assms(2) by simp_all
  show ?thesis
  proof (cases r)
    case None
    with t ok assms(4) show ?thesis by simp
  next
    case (Some x)
    obtain cur op where x: "x = (cur, op)" by (cases x)
    have m': "m' = respond cur (callback_resp e op b ret buff) m1" using assms(4) Some x by simp
    have d: "due c m = due c m1 + (if cur = Some c then 1 else 0)" using t Some x by (simp split: option.splits)
    have mem: "(i, cur, op) \<in> set (pending m)" using t Some x by blast
    have "cur = Some c \<Longrightarrow> callback_resp e op b ret buff \<noteq> None"
    proof (rule callback_answers)
      assume "cur = Some c"
      with mem assms(2) show "answerable op" unfolding only_answerable_def by blast
    qed
    with d ok show ?thesis unfolding m' books_respond due_respond by auto
  qed
qed

lemma without_nth:
  assumes "i < length xs"
  shows "length (filter P xs) = length (filter P (take i xs @ drop (Suc i) xs)) + (if P (xs ! i) then 1 else 0)"
    and "set (take i xs @ drop (Suc i) xs) \<subseteq> set xs"
proof -
  have "filter P xs = filter P (take i xs @ xs ! i # drop (Suc i) xs)"
    using id_take_nth_drop[OF assms] by simp
  then show "length (filter P xs) = length (filter P (take i xs @ drop (Suc i) xs)) + (if P (xs ! i) then 1 else 0)"
    by simp
  show "set (take i xs @ drop (Suc i) xs) \<subseteq> set xs"
    by (auto dest: in_set_takeD in_set_dropD)
qed

lemma proxy_returns_due:
  assumes "ids_ok m" and "only_answerable c m"
  shows "ids_ok (proxy_returns i ans m) \<and> only_answerable c (proxy_returns i ans m) \<and> due c (proxy_returns i ans m) = due c m"
proof (cases "i < length (proxied m)")
  case True
  obtain k op where x: "proxied m ! i = (k, op)" by (cases "proxied m ! i")
  define rest where "rest = take i (proxied m) @ drop (Suc i) (proxied m)"
  define m1 where "m1 = m\<lparr> proxied := rest \<rparr>"
  have r: "proxy_returns i ans m = respond (Some k) (proxy_resp op ans) m1"
    using True x by (simp add: proxy_returns_def m1_def rest_def)
  have mem: "(k, op) \<in> set (proxied m)" using nth_mem[OF True] x by simp
  have len: "length (filter (\<lambda>x. fst x = c) (proxied m)) = length (filter (\<lambda>x. fst x = c) rest) + (if k = c then 1 else 0)"
    using without_nth(1)[OF True, of "\<lambda>x. fst x = c"] x by (simp only: rest_def fst_conv)
  have sub: "set rest \<subseteq> set (proxied m)" unfolding rest_def by (rule without_nth(2)[OF True])
  have "due c m = due c m1 + (if k = c then 1 else 0)" by (simp add: due_def m1_def len)
  moreover have "k = c \<Longrightarrow> proxy_resp op ans \<noteq> None"
    using assms(2) mem proxy_answers by (simp add: only_answerable_def)
  moreover have "only_answerable c m1"
    using assms(2) sub by (auto simp: only_answerable_def m1_def)
  moreover have "ids_ok m1" using assms(1) by (simp add: ids_ok_def m1_def)
  ultimately show ?thesis unfolding r books_respond due_respond using assms by auto
qed (use assms in \<open>simp add: proxy_returns_def\<close>)

fun requests_of :: "nat \<Rightarrow> adm_event \<Rightarrow> bool" where
  "requests_of c (Request q k web) = (k = c)"
| "requests_of c ev = False"

lemma dispatch_due:
  assumes "fresh_ids e" and "tars_env e" and "ids_ok m" and "only_answerable c m" and "k = c \<Longrightarrow> answered_request q"
  shows "ids_ok (dispatch e q k web m) \<and> only_answerable c (dispatch e q k web m) \<and>
    due c (dispatch e q k web m) = due c m + (if k = c then 1 else 0)"
proof -
  define m0 where "m0 = m\<lparr> clients := (clients m)(k := \<lparr> cl_response = True, cl_forward = web \<rparr>) \<rparr>"
  have b: "same_books m m0" by (simp add: m0_def same_books_def)
  have c0: "cl_response (clients m0 k)" by (simp add: m0_def)
  obtain r m1 where h: "handle e q k m0 = (r, m1)" by (cases "handle e q k m0")
  have o: "others k m0 m1" using handle_others[OF assms(1), of k m0 q] h by simp
  have g: "k = c \<Longrightarrow> good c m0 m1" using handle_good[OF assms(1,2), of q m0 c] assms(5) c0 h by simp
  define x where "x = (case r of None \<Rightarrow> R_error | Some (ret, out) \<Rightarrow> R_int ret out)"
  have d: "dispatch e q k web m = (if cl_response (clients m1 k) then m1\<lparr> sent := (k, x) # sent m1 \<rparr> else m1)"
    by (simp add: dispatch_def m0_def[symmetric] h x_def)
  have s: "due c (m1\<lparr> sent := (k, x) # sent m1 \<rparr>) = due c m1 + (if k = c then 1 else 0)"
    "ids_ok (m1\<lparr> sent := y \<rparr>) = ids_ok m1" "only_answerable c (m1\<lparr> sent := y \<rparr>) = only_answerable c m1" for y
    by (simp_all add: due_def ids_ok_def only_answerable_def)
  show ?thesis
  proof (cases "k = c")
    case True
    with g o assms(3,4) s show ?thesis unfolding d using same_booksD[OF b] by (auto simp: good_def others_def)
  next
    case False
    with o assms(3,4) s show ?thesis unfolding d using same_booksD[OF b] by (auto simp: others_def)
  qed
qed

lemma step_due:
  assumes "fresh_ids e" and "tars_env e" and "ids_ok m" and "only_answerable c m"
    and "\<And>q web. ev = Request q c web \<Longrightarrow> answered_request q"
  shows "ids_ok (adm_step e ev m) \<and> only_answerable c (adm_step e ev m) \<and>
    due c (adm_step e ev m) = due c m + (if requests_of c ev then 1 else 0)"
proof (cases ev)
  case (Conn x)
  have "same_books m (conn_step x m)" using conn_step_keeps[of m x] by (simp add: keeps_flags_def)
  from same_booksD[OF this] Conn assms(3,4) show ?thesis by simp
next
  case (Request q k web)
  with dispatch_due[OF assms(1-4), of k q web] assms(5) show ?thesis by auto
next
  case (Result i ret result)
  obtain r m1 where t: "take_pending i m = (r, m1)" by (cases "take_pending i m")
  then have "reportResult e i ret result m = (case r of None \<Rightarrow> m1 | Some (cur, op) \<Rightarrow> respond cur (callback_resp e op False ret result) m1)"
    by (simp add: reportResult_def)
  from queue_answer_due[OF assms(3,4) t this] Result show ?thesis by simp
next
  case (Expire i)
  obtain r m1 where t: "take_pending i m = (r, m1)" by (cases "take_pending i m")
  then have "expire e i m = (case r of None \<Rightarrow> m1 | Some (cur, op) \<Rightarrow> respond cur (callback_resp e op True 0 []) m1)"
    by (simp add: expire_def)
  from queue_answer_due[OF assms(3,4) t this] Expire show ?thesis by simp
next
  case (ProxyReturns i ans)
  with proxy_returns_due[OF assms(3,4)] show ?thesis by simp
qed







section \<open>Properties\<close>

definition idle :: adm_state where
  "idle = \<lparr> mapNodeId = Map.empty, mapIdNode = Map.empty, mapIdCurrent = Map.empty, prxCache = Map.empty, pending = [],
     clients = (\<lambda>_. \<lparr> cl_response = True, cl_forward = False \<rparr>), sent = [], proxied = [], forwarded = [], pushed = [],
     db_writes = [], cleaned = [], self_msgs = [], calls = 0, clock = 0 \<rparr>"

lemma run_due:
  assumes "fresh_ids e" and "tars_env e" and "\<forall>q web. Request q c web \<in> set evs \<longrightarrow> answered_request q"
    and "ids_ok m" and "only_answerable c m"
  shows "due c (fold (adm_step e) evs m) = due c m + length (filter (requests_of c) evs)"
  using assms(3-5)
proof (induction evs arbitrary: m)
  case (Cons ev evs)
  have "ids_ok (adm_step e ev m) \<and> only_answerable c (adm_step e ev m) \<and>
      due c (adm_step e ev m) = due c m + (if requests_of c ev then 1 else 0)"
    by (rule step_due[OF assms(1,2) Cons.prems(2,3)]) (use Cons.prems(1) in auto)
  moreover have "\<forall>q web. Request q c web \<in> set evs \<longrightarrow> answered_request q" using Cons.prems(1) by auto
  ultimately show ?case using Cons.IH[of "adm_step e ev m"] by simp
qed simp


lemma getNodeCurrent_cong:
  "mapNodeId m' = mapNodeId m \<Longrightarrow> mapIdCurrent m' = mapIdCurrent m \<Longrightarrow> getNodeCurrent node m' = getNodeCurrent node m"
  by (simp add: getNodeCurrent_def split: option.split list.split)

lemma tick_conns [simp]: "getNodeCurrent node (adm_tick e m) = getNodeCurrent node m" "prxCache (adm_tick e m) = prxCache m"
  by (rule getNodeCurrent_cong) (simp_all add: adm_tick_def)

lemma response_conns [simp]:
  "getNodeCurrent node (setResponse b cur m) = getNodeCurrent node m" "prxCache (setResponse b cur m) = prxCache m"
  "calls (setResponse b cur m) = calls m" "pushed (setResponse b cur m) = pushed m" "db_writes (setResponse b cur m) = db_writes m"
  by (auto intro!: getNodeCurrent_cong simp: setResponse_def split: option.split)

lemma writes_conns [simp]:
  "getNodeCurrent node (m\<lparr> db_writes := w \<rparr>) = getNodeCurrent node m"
  "getNodeCurrent node (m\<lparr> clients := cs \<rparr>) = getNodeCurrent node m"
  "getNodeCurrent node (m\<lparr> pending := pe, pushed := pu \<rparr>) = getNodeCurrent node m"
  "getNodeCurrent node (m\<lparr> pending := pe \<rparr>) = getNodeCurrent node m"
  by (auto intro!: getNodeCurrent_cong)

text \<open>
  Fact (failed_ping_is_not_answered). When the proxy call of a ping raises, the entry point returns
  false with the response flag off: the client is not answered and nothing is left that would answer it.
\<close>

theorem failed_ping_is_not_answered:
  assumes "getNodeCurrent node m = Some None" and "prxCache m node = Some (Some p)" and "ae_send e (calls m) OpPing = Some (OtherTars w)"
  shows "due c (dispatch e (Q_ping node) c web m) = due c m"
proof -
  let ?m0 = "m\<lparr> clients := (clients m)(c := \<lparr> cl_response = True, cl_forward = web \<rparr>) \<rparr>"
  have "requestNode e node [] (Some c) OpPing ?m0 = (Inl (OtherTars w), adm_tick e (setResponse False (Some c) ?m0))"
    using assms by (simp add: requestNode_def getNodePrx_def sync_call_def)
  then show ?thesis
    by (simp add: dispatch_def pingNode_def nm_pingNode_def exn_code_def)
qed

text \<open>
  Fact (restart_answers_twice). Restarting a server of a connected node pushes the stop and, without
  waiting for it, the start, and both answers go to the client that asked once.
\<close>

theorem restart_answers_twice:
  assumes "getNodeCurrent node m = Some (Some k)" and "(a, n) \<noteq> ae_self e" and "\<not> is_dns (ae_server e (calls m) a n node)"
  shows "let m' = dispatch e (Q_restart rst a n node) c web m
    in map (snd \<circ> snd) (pushed m') = map (snd \<circ> snd) (pushed m) @ [OpStop a n, OpStart a n] \<and> due c m' = due c m + 2"
proof -
  let ?m0 = "m\<lparr> clients := (clients m)(c := \<lparr> cl_response = True, cl_forward = web \<rparr>) \<rparr>"
  let ?push = "\<lambda>op m. (setResponse False (Some c) m)\<lparr> pending := (ae_id e m, Some c, op) # pending m, pushed := pushed m @ [(k, ae_id e m, op)] \<rparr>"
  have rq: "getNodeCurrent node m1 = Some (Some k) \<Longrightarrow> requestNode e node out (Some c) op m1 = (Inr (0, out), ?push op m1)" for m1 out op
    by (simp add: requestNode_def Let_def)
  define m1 where "m1 = ?push (OpStop a n) (adm_tick e ?m0)"
  define m2 where "m2 = snd (adm_updateServerState e a n node ''setting_state'' ''active'' m1)"
  have c1: "getNodeCurrent node m1 = Some (Some k)" using assms(1) by (simp add: m1_def)
  have c2: "getNodeCurrent node m2 = Some (Some k)" using c1 by (simp add: m2_def adm_updateServerState_def)
  have stop: "restart_stop e rst a n node [] c ?m0 = (Inr (0, []), False, m1)"
    using assms by (simp add: restart_stop_def getServers_def nm_stopServer_def rq m1_def Let_def)
  have start: "restart_start e False a n node [] c m1 = (Some (0, []), ?push (OpStart a n) m2)"
    by (simp add: restart_start_def nm_startServer_def Let_def split_beta rq[OF c2] catching_def m2_def[symmetric])
  have h: "dispatch e (Q_restart rst a n node) c web m = ?push (OpStart a n) m2"
    by (simp add: dispatch_def restartServer_def stop start)
  have p2: "pushed m2 = pushed m @ [(k, ae_id e (adm_tick e ?m0), OpStop a n)]" "due c m2 = due c m1"
    by (simp_all add: m2_def m1_def adm_updateServerState_def adm_tick_def due_def)
  have "due c m1 = due c m + 1" by (simp add: m1_def due_def adm_tick_def setResponse_def)
  then show ?thesis unfolding h Let_def using p2 by (simp add: due_def setResponse_def)
qed

text \<open>
  Fact (shutdown_answer_inverted). The request to shut a node down through its connection is answered
  with 1, whatever the node reports, and with 0, the code of success, when it is not answered in time.
\<close>

theorem shutdown_answer_inverted:
  assumes "map_of (pending m) i = Some (Some c, OpShutdown)"
  shows "sent (reportResult e i ret result m) = (c, R_int 1 result) # sent m \<and> sent (expire e i m) = (c, R_int 0 []) # sent m"
  using assms by (simp add: reportResult_def expire_def take_pending_def respond_def)





text \<open>
  Fact (inner_request_ends_process). When a node is registered without an object and has no open
  connection, every inner entry point that has to reach it dereferences the null client and ends the
  admin registry, before any answer.
\<close>

theorem inner_request_ends_process:
  assumes "getNodeCurrent node m = Some None" and "prxCache m node = None" and "\<forall>i. ae_row e i node = NoObj"
    and "\<forall>i. \<not> is_dns (ae_server e i a n node)" and "(a, n) \<noteq> (''tars'', ''tarsAdminRegistry'')" and "pq_nodename req = node"
  shows "fst (startServer_inner e a n node res m) = Inl NullPointer \<and> fst (stopServer_inner e a n node res m) = Inl NullPointer \<and>
    fst (restartServer_inner e a n node res m) = Inl NullPointer \<and> fst (notifyServer_inner e a n node cmd res m) = Inl NullPointer \<and>
    fst (batchPatch_inner e req res m) = Inl NullPointer \<and> fst (getPatchPercent_inner e a n node pi m) = Inl NullPointer"
proof -
  have rq: "\<exists>m2. requestNode e node out None op m1 = (Inl NullPointer, m2)"
    if "getNodeCurrent node m1 = Some None" "prxCache m1 node = None" for m1 out op
    using that assms(3) by (simp add: requestNode_def getNodePrx_def Let_def)
  have ctl: "\<exists>m2. controlled e a n node st res None op m = (Inl NullPointer, m2)" for st op
    using assms(1,2,4) by (auto simp: controlled_def getServers_def adm_updateServerState_def Let_def intro: rq)
  have dir: "fst (requestNode e node out None op m) = Inl NullPointer" "fst (requestNode e node out None op (adm_tick e m)) = Inl NullPointer" for out op
    using rq[of m out op] rq[of "adm_tick e m" out op] assms(1,2) by auto
  note nd = nm_defs inner_catching_def exn_code_def
  have start: "fst (startServer_inner e a n node res m) = Inl NullPointer" and stop: "fst (stopServer_inner e a n node res m) = Inl NullPointer"
    using ctl[of "''active''" "OpStart a n"] ctl[of "''inactive''" "OpStop a n"] assms(5)
    by (auto simp: startServer_inner_def stopServer_inner_def nd)
  have restart: "fst (restartServer_inner e a n node res m) = Inl NullPointer"
    using dir(2)[of res "OpStop a n"] assms(4)
    by (cases "requestNode e node res None (OpStop a n) (adm_tick e m)") (simp add: restartServer_inner_def getServers_def nd Let_def)
  have notify: "fst (notifyServer_inner e a n node cmd res m) = Inl NullPointer"
    using dir(1)[of res "OpNotify a n cmd"]
    by (cases "requestNode e node res None (OpNotify a n cmd) m") (simp add: notifyServer_inner_def nd)
  have percent: "fst (getPatchPercent_inner e a n node pi m) = Inl NullPointer"
    using dir(1)[of "[]" "OpPercent a n"]
    by (cases "requestNode e node [] None (OpPercent a n) m") (simp add: getPatchPercent_inner_def nd)
  have patch: "fst (batchPatch_inner e req res m) = Inl NullPointer"
  proof -
    define srv where "srv = ae_server e (calls m) (rq_appname req) (rq_servername req) node"
    define op where "op = OpPatch (req\<lparr> pq_servertype := (case srv of None \<Rightarrow> [] | Some r \<Rightarrow> sr_serverType r) \<rparr>)"
    obtain m2 where "requestNode e node res None op (adm_tick e m) = (Inl NullPointer, m2)"
      using rq[of "adm_tick e m" res op] assms(1,2) by auto
    then show ?thesis
      using assms(6) by (simp add: batchPatch_inner_def getServers_def nm_patchPro_def patch_catching_def Let_def op_def srv_def)
  qed
  from start stop restart notify patch percent show ?thesis by simp
qed

definition wait_code :: "admin_env \<Rightarrow> nat \<Rightarrow> int" where
  "wait_code e i = (case ae_wait e i of None \<Rightarrow> code_timeout (ae_code e) | Some (ret, result) \<Rightarrow> ret)"

lemma request_waits:
  assumes "getNodeCurrent node m = Some (Some k)"
  shows "\<exists>out' m'. requestNode e node out None op m = (Inr (wait_code e (calls m), out'), m') \<and>
    getNodeCurrent node m' = Some (Some k) \<and> calls m' = Suc (calls m) \<and> pushed m' = pushed m @ [(k, ae_id e m, op)] \<and> db_writes m' = db_writes m"
proof -
  define m1 where "m1 = m\<lparr> pending := (ae_id e m, None, op) # pending m, pushed := pushed m @ [(k, ae_id e m, op)] \<rparr>"
  have c1: "getNodeCurrent node m1 = Some (Some k)" "calls m1 = calls m" using assms by (simp_all add: m1_def)
  have t: "snd (take_pending i (adm_tick e m1)) = (adm_tick e m1)\<lparr> pending := filter (\<lambda>p. fst p \<noteq> i) (pending m1) \<rparr>" for i
    by (simp add: take_pending_def)
  have rq: "requestNode e node out None op m =
      (case ae_wait e (calls m) of
         Some (ret, result) \<Rightarrow> (Inr (ret, result), snd (take_pending (ae_id e m) (adm_tick e m1)))
       | None \<Rightarrow> (Inr (code_timeout (ae_code e), out), adm_tick e m1))"
    unfolding m1_def using assms by (simp add: requestNode_def Let_def setResponse_def)
  show ?thesis
  proof (cases "ae_wait e (calls m)")
    case None
    with rq c1 show ?thesis by (simp add: wait_code_def) (simp add: m1_def adm_tick_def)
  next
    case (Some x)
    with rq c1 show ?thesis by (cases x) (simp add: wait_code_def t, simp add: m1_def adm_tick_def)
  qed
qed

text \<open>
  Fact (restart_stops_then_starts). An inner restart of a server that is no DNS entry, on a node
  that stays connected, sends the stop and waits; if the node does not answer 0 it returns that code (or
  the time-out code), writes nothing and does not start. Otherwise it writes the wanted state, sends the
  start and returns the code of the start.
\<close>

theorem restart_stops_then_starts:
  assumes "getNodeCurrent node m = Some (Some k)" and "\<not> is_dns (ae_server e (calls m) a n node)"
    and "stop = wait_code e (calls m + 1)"
  shows "\<exists>out m'. restartServer_inner e a n node res m = (Inr (if stop \<noteq> 0 then stop else wait_code e (calls m + 4), out), m') \<and>
    map (snd \<circ> snd) (pushed m') = map (snd \<circ> snd) (pushed m) @ OpStop a n # (if stop = 0 then [OpStart a n] else []) \<and>
    (stop \<noteq> 0 \<longrightarrow> db_writes m' = db_writes m)"
proof -
  let ?m1 = "adm_tick e m"
  have c1: "getNodeCurrent node ?m1 = Some (Some k)" "calls ?m1 = calls m + 1" "pushed ?m1 = pushed m" "db_writes ?m1 = db_writes m"
    using assms(1) by simp (simp_all add: adm_tick_def)
  obtain out2 m2 where m2: "requestNode e node res None (OpStop a n) ?m1 = (Inr (stop, out2), m2)" "getNodeCurrent node m2 = Some (Some k)"
    "calls m2 = calls m + 2" "pushed m2 = pushed m @ [(k, ae_id e ?m1, OpStop a n)]" "db_writes m2 = db_writes m"
    using request_waits[OF c1(1), of e res "OpStop a n"] c1(2-4) assms(3) by auto
  define m4 where "m4 = updateServerFlowStateOne e a n node True (snd (adm_updateServerState e a n node ''setting_state'' ''active'' m2))"
  have c4: "getNodeCurrent node m4 = Some (Some k)" "calls m4 = calls m + 4" "pushed m4 = pushed m2"
    using m2(2,3) by (simp_all add: m4_def updateServerFlowStateOne_def adm_updateServerState_def) (simp_all add: adm_tick_def)
  have d: "restartServer_inner e a n node res m =
    (if stop \<noteq> 0 then (Inr (stop, out2), m2) else inner_catching e exn_what (requestNode e node out2 None (OpStart a n) m4))"
    using assms(2) m2(1) by (simp add: restartServer_inner_def getServers_def nm_stopServer_def nm_startServer_def Let_def split_beta m4_def)
  show ?thesis
  proof (cases "stop = 0")
    case True
    obtain out5 m5 where "requestNode e node out2 None (OpStart a n) m4 = (Inr (wait_code e (calls m + 4), out5), m5)"
      "pushed m5 = pushed m4 @ [(k, ae_id e m4, OpStart a n)]"
      using request_waits[OF c4(1), of e out2 "OpStart a n"] c4(2) by auto
    with True d c4(3) m2(4) show ?thesis by (simp add: inner_catching_def)
  next
    case False
    with d m2 show ?thesis by simp
  qed
qed

text \<open>
  Fact (unregistered_node_is_unknown). Starting a server on a node that is not in the node table is
  answered with the code for unknown errors, not with the one for unregistered nodes that the entry
  point has a catch block for.
\<close>

theorem unregistered_node_is_unknown:
  assumes "getNodeCurrent node m = Some None" and "prxCache m node = None" and "\<forall>i. ae_row e i node = NoRow"
    and "\<forall>i. \<not> is_dns (ae_server e i a n node)"
  shows "\<exists>w. sent (dispatch e (Q_start a n node) c web m) = (c, R_int (code_unknown (ae_code e)) w) # sent m"
proof -
  let ?m0 = "m\<lparr> clients := (clients m)(c := \<lparr> cl_response = True, cl_forward = web \<rparr>) \<rparr>"
  define m2 where "m2 = adm_tick e (snd (adm_updateServerState e a n node ''setting_state'' ''active'' ?m0))"
  have c2: "getNodeCurrent node m2 = Some None" "prxCache m2 node = None" "sent m2 = sent m" "clients m2 = clients ?m0"
    using assms(1,2) by (simp_all add: m2_def adm_updateServerState_def) (simp_all add: adm_tick_def)
  have "controlled e a n node ''active'' [] (Some c) (OpStart a n) ?m0 = requestNode e node [] (Some c) (OpStart a n) m2"
    using assms(4) by (simp add: controlled_def getServers_def Let_def split_beta m2_def)
  moreover have "requestNode e node [] (Some c) (OpStart a n) m2 = (Inl (OtherTars ''not registered  or heartbeart timeout,please check for it''), adm_tick e m2)"
    using c2(1,2) assms(3) by (simp add: requestNode_def getNodePrx_def Let_def)
  ultimately show ?thesis
    using c2(3,4) by (simp add: dispatch_def startServer_def catching_def exn_code_def only_other_def setResponse_def) (simp add: adm_tick_def)
qed

section \<open>Witnesses\<close>

definition sample_codes :: err_codes where
  "sample_codes = \<lparr> code_timeout = 11, code_not_registry = 12, code_unknown = 13, code_no_connection = 14, code_load_desc = 15,
     code_can_not = 16, code_get_patch = 17, code_prepare = 18, code_parameter = 19 \<rparr>"

definition sample_adm :: "node_row \<Rightarrow> node_exn option \<Rightarrow> admin_env" where
  "sample_adm row snd_exn = \<lparr> ae_code = sample_codes, ae_id = (\<lambda>m. 1 + sum_list (map (\<lambda>p. \<bar>fst p\<bar>) (pending m))),
     ae_wait = (\<lambda>_. Some (0, ''ok'')), ae_row = (\<lambda>_ _. row), ae_send = (\<lambda>_ _. snd_exn), ae_call = (\<lambda>_ _. Inr (0, ''ok'')),
     ae_endpoints = (\<lambda>_. 0), ae_server = (\<lambda>_ _ _ _. None), ae_update = (\<lambda>_. 0), ae_seconds = (\<lambda>_. 1),
     ae_state = (\<lambda>_. None), ae_percent = (\<lambda>_. None), ae_list = (\<lambda>_. None), ae_string = (\<lambda>_. None),
     ae_patchInfo = (\<lambda>_ _. None), ae_prepare = (\<lambda>_ _ _ _. Inr (0, [])), ae_remoteLogIp = [], ae_affected = (\<lambda>_. 1), ae_self = (''tars'', ''tarsAdminRegistry'') \<rparr>"

lemma sample_fresh: "fresh_ids (sample_adm row x)"
proof -
  have "p \<in> set xs \<Longrightarrow> \<bar>fst p\<bar> \<le> sum_list (map (\<lambda>p. \<bar>fst p\<bar>) xs)" for p and xs :: "(int \<times> nat option \<times> node_op) list"
  proof (induction xs)
    case (Cons y xs)
    moreover have "0 \<le> sum_list (map (\<lambda>p. \<bar>fst p\<bar>) xs)" by (induction xs) auto
    ultimately show ?case by fastforce
  qed simp
  then show ?thesis by (force simp: fresh_ids_def sample_adm_def)
qed

lemma sample_tars: "tars_env (sample_adm row None)"
  by (simp add: tars_env_def sample_adm_def)

definition connected :: adm_state where
  "connected = conn_step (ReportNode 0 ''n1'' 7 0) idle"

lemma connected_node: "getNodeCurrent ''n1'' connected = Some (Some 0)"
  by (simp add: connected_def createNodeCurrent_def getNodeCurrent_def idle_def)

lemma idle_node: "getNodeCurrent node idle = Some None" "prxCache idle = Map.empty" "calls idle = 0"
  by (simp_all add: getNodeCurrent_def idle_def)


theorem failed_ping_is_not_answered_witness:
  "due 3 (dispatch (sample_adm NoRow (Some (OtherTars ''down''))) (Q_ping ''n1'') 3 False (idle\<lparr> prxCache := [''n1'' \<mapsto> Some 5] \<rparr>)) =
   due 3 (idle\<lparr> prxCache := [''n1'' \<mapsto> Some 5] \<rparr>)"
  by (rule failed_ping_is_not_answered[of "''n1''" _ 5 _ "''down''"]) (simp_all add: getNodeCurrent_def idle_def sample_adm_def)

theorem restart_answers_twice_witness:
  "let m' = dispatch (sample_adm NoRow None) (Q_restart False ''A'' ''B'' ''n1'') 3 False connected
   in map (snd \<circ> snd) (pushed m') = [OpStop ''A'' ''B'', OpStart ''A'' ''B''] \<and> due 3 m' = 2"
proof -
  have "pushed connected = []" "due 3 connected = 0"
    by (simp_all add: connected_def createNodeCurrent_def idle_def due_def)
  then show ?thesis
    using restart_answers_twice[OF connected_node, of "''A''" "''B''" "sample_adm NoRow None" False 3 False]
    by (simp add: sample_adm_def is_dns_def Let_def)
qed

theorem shutdown_answer_inverted_witness:
  "let m = idle\<lparr> pending := [(1, Some 3, OpShutdown)] \<rparr>; e = sample_adm NoRow None
   in sent (reportResult e 1 (-1) ''failed'' m) = [(3, R_int 1 ''failed'')] \<and> sent (expire e 1 m) = [(3, R_int 0 [])]"
  using shutdown_answer_inverted[of "idle\<lparr> pending := [(1, Some 3, OpShutdown)] \<rparr>" 1 3 "sample_adm NoRow None" "-1" "''failed''"]
  by (simp add: idle_def)

theorem inner_request_ends_process_witness:
  "fst (startServer_inner (sample_adm NoObj None) ''A'' ''B'' ''n1'' [] idle) = Inl NullPointer \<and>
   fst (restartServer_inner (sample_adm NoObj None) ''A'' ''B'' ''n1'' [] idle) = Inl NullPointer"
  using inner_request_ends_process[of "''n1''" idle "sample_adm NoObj None" "''A''" "''B''"
      "\<lparr> rq_appname = ''A'', rq_servername = ''B'', rq_groupname = [], rq_version = [], rq_md5 = [], rq_ostype = [],
         pq_nodename = ''n1'', pq_user = [], pq_servertype = [] \<rparr>" "[]"]
  by (simp add: idle_node) (simp add: sample_adm_def is_dns_def)

theorem restart_stops_then_starts_witness:
  "\<exists>out m'. restartServer_inner (sample_adm NoRow None) ''A'' ''B'' ''n1'' [] connected = (Inr (0, out), m') \<and>
    map (snd \<circ> snd) (pushed m') = [OpStop ''A'' ''B'', OpStart ''A'' ''B'']"
proof -
  have "\<not> is_dns (ae_server (sample_adm NoRow None) (calls connected) ''A'' ''B'' ''n1'')" "pushed connected = []"
    by (simp_all add: sample_adm_def is_dns_def connected_def createNodeCurrent_def idle_def)
  moreover have "wait_code (sample_adm NoRow None) i = 0" for i by (simp add: wait_code_def sample_adm_def)
  ultimately show ?thesis
    using restart_stops_then_starts[OF connected_node, of "sample_adm NoRow None" "''A''" "''B''" 0 "[]"] by simp
qed

theorem unregistered_node_is_unknown_witness:
  "\<exists>w. sent (dispatch (sample_adm NoRow None) (Q_start ''A'' ''B'' ''n1'') 3 False idle) = [(3, R_int 13 w)]"
  using unregistered_node_is_unknown[of "''n1''" idle "sample_adm NoRow None" "''A''" "''B''" 3 False]
  by (simp add: idle_node) (simp add: sample_adm_def is_dns_def sample_codes_def idle_def)



end
