(* ===== verification/Admin_Task.thy ===== *)
theory Admin_Task
  imports Admin_Requests
begin

text \<open>
  Tasks of the admin registry (\<open>AdminRegistryServer/ExecuteTask.cpp\<close>): a list of commands on servers that
  runs serially, in parallel, or in batches without losing traffic. A run works on the state of
  \<open>Admin_Requests\<close> and on the task's list of item states; \<open>None\<close> is the end of the process in a call.
\<close>

section \<open>Data\<close>

datatype item_status = EM_I_NOT_START | EM_I_PREPARE | EM_I_RUNNING | EM_I_PAUSE_FLOW | EM_I_SUCCESS | EM_I_FAILED | EM_I_CANCEL

datatype task_status = EM_T_NOT_START | EM_T_PREPARE | EM_T_RUNNING | EM_T_SUCCESS | EM_T_FAILED | EM_T_CANCEL | EM_T_PARIAL

record task_item_req =
  ti_itemNo :: string
  ti_application :: string
  ti_serverName :: string
  ti_nodeName :: string
  ti_command :: string
  ti_userName :: string
  ti_parameters :: "string \<rightharpoonup> string"

record task_item_rsp =
  rs_status :: item_status
  rs_start :: "nat option"
  rs_end :: "nat option"
  rs_percent :: int
  rs_log :: string

record task_req =
  tq_taskNo :: string
  tq_items :: "task_item_req list"
  tq_serial :: bool
  tq_isElegant :: bool
  tq_eachNum :: int

record task_list =
  tl_req :: task_req
  tl_items :: "task_item_rsp list"
  tl_status :: task_status
  tl_log :: string
  tl_createTime :: nat
  tl_timeout :: nat
  tl_finished :: bool

type_synonym task_state = "adm_state \<times> task_list"

definition new_item :: task_item_rsp where
  "new_item = \<lparr> rs_status = EM_I_NOT_START, rs_start = None, rs_end = None, rs_percent = 0, rs_log = [] \<rparr>"

definition new_task_list :: "task_req \<Rightarrow> nat \<Rightarrow> nat \<Rightarrow> task_list" where
  "new_task_list req t tn =
     \<lparr> tl_req = req, tl_items = map (\<lambda>_. new_item) (tq_items req), tl_status = EM_T_NOT_START, tl_log = [],
       tl_createTime = tn, tl_timeout = t, tl_finished = False \<rparr>"

definition isTimeout :: "nat \<Rightarrow> task_list \<Rightarrow> bool" where
  "isTimeout tn tk \<longleftrightarrow> tl_createTime tk + tl_timeout tk < tn"

text \<open>Only items that have not started are cancelled; the task is cancelled when there was one.\<close>

definition cancelTask :: "task_list \<Rightarrow> task_list" where
  "cancelTask tk =
     (let is = map (\<lambda>r. if rs_status r = EM_I_NOT_START then r\<lparr> rs_status := EM_I_CANCEL \<rparr> else r) (tl_items tk);
          n = length (filter (\<lambda>r. rs_status r = EM_I_NOT_START) (tl_items tk))
      in tk\<lparr> tl_items := is, tl_status := (if n > 0 then EM_T_CANCEL else tl_status tk) \<rparr>)"

definition upd_item :: "nat \<Rightarrow> (task_item_rsp \<Rightarrow> task_item_rsp) \<Rightarrow> task_list \<Rightarrow> task_list" where
  "upd_item i f tk = tk\<lparr> tl_items := (tl_items tk)[i := f (tl_items tk ! i)] \<rparr>"

definition setTaskItemInfo :: "admin_env \<Rightarrow> string \<Rightarrow> string \<Rightarrow> adm_state \<Rightarrow> adm_state" where
  "setTaskItemInfo e itemNo field m = (adm_tick e m)\<lparr> db_writes := db_writes m @ [(''task_item'', itemNo, field, [], [])] \<rparr>"

definition setRspInfo :: "admin_env \<Rightarrow> nat \<Rightarrow> bool \<Rightarrow> item_status \<Rightarrow> task_state \<Rightarrow> task_state" where
  "setRspInfo e i start status z =
     (let (m, tk) = z
      in (setTaskItemInfo e (ti_itemNo (tq_items (tl_req tk) ! i)) (if start then ''start_time'' else ''end_time'') m,
          upd_item i (\<lambda>r. (if start then r\<lparr> rs_start := Some (clock m) \<rparr> else r\<lparr> rs_end := Some (clock m) \<rparr>)\<lparr> rs_status := status \<rparr>) tk))"

definition setRspPercent :: "nat \<Rightarrow> int \<Rightarrow> task_state \<Rightarrow> task_state" where
  "setRspPercent i percent z = (fst z, upd_item i (\<lambda>r. r\<lparr> rs_percent := percent \<rparr>) (snd z))"

definition setRspLog :: "admin_env \<Rightarrow> nat \<Rightarrow> string \<Rightarrow> task_state \<Rightarrow> task_state" where
  "setRspLog e i log z =
     (let (m, tk) = z
      in (setTaskItemInfo e (ti_itemNo (tq_items (tl_req tk) ! i)) ''log'' m, upd_item i (\<lambda>r. r\<lparr> rs_log := log \<rparr>) tk))"

section \<open>Preparing files\<close>

definition param :: "string \<Rightarrow> (string \<rightharpoonup> string) \<Rightarrow> string" where
  "param name ps = (case ps name of None \<Rightarrow> [] | Some v \<Rightarrow> v)"

definition prepare_of :: "task_item_req \<Rightarrow> prepare_info" where
  "prepare_of rq =
     \<lparr> pi_application = ti_application rq,
       pi_serverName = (if param ''group_name'' (ti_parameters rq) = [] then ti_serverName rq else param ''group_name'' (ti_parameters rq)),
       pi_patchId = param ''patch_id'' (ti_parameters rq), pi_runType = [], pi_baseImage = [], pi_patchFile = [], pi_md5 = [] \<rparr>"

text \<open>The first loop: \<open>Inl\<close> is the code of an item that cannot be prepared.\<close>

fun prepare_items :: "admin_env \<Rightarrow> nat \<Rightarrow> task_item_req list \<Rightarrow> (string, prepare_info) omap \<Rightarrow> task_state \<Rightarrow>
    (int + (string, prepare_info) omap) \<times> task_state" where
  "prepare_items e i [] pis z = (Inr pis, z)"
| "prepare_items e i (rq # rqs) pis z =
     (if str_contains (ti_command rq) ''patch'' then
        let z1 = setRspInfo e i True EM_I_PREPARE z;
            ((ret, pi, result), m2) = prepareInfo_inner e (prepare_of rq) (fst z1);
            z2 = (m2, snd z1)
        in if ret \<noteq> 0 then (Inl ret, setRspLog e i result z2)
           else prepare_items e (Suc i) rqs (om_put (pi_key pi) pi pis)
             (m2, (snd z1)\<lparr> tl_req := (tl_req (snd z1))\<lparr> tq_items := (tq_items (tl_req (snd z1)))
                [i := (tq_items (tl_req (snd z1)) ! i)\<lparr> ti_parameters := (ti_parameters rq)(''md5'' \<mapsto> pi_md5 pi) \<rparr>] \<rparr> \<rparr>)
      else prepare_items e (Suc i) rqs pis z)"

fun prepare_files :: "admin_env \<Rightarrow> prepare_info list \<Rightarrow> task_state \<Rightarrow> int \<times> task_state" where
  "prepare_files e [] z = (0, z)"
| "prepare_files e (pi # ps) z =
     (let ((ret, result), m1) = preparePatch_inner e pi (fst z)
      in if ret \<noteq> 0 then (ret, m1, (snd z)\<lparr> tl_log := result \<rparr>) else prepare_files e ps (m1, snd z))"

definition prepareFile :: "admin_env \<Rightarrow> task_state \<Rightarrow> int \<times> task_state" where
  "prepareFile e z =
     (case prepare_items e 0 (tq_items (tl_req (snd z))) [] z of
        (Inl ret, z1) \<Rightarrow> (ret, z1)
      | (Inr pis, z1) \<Rightarrow> prepare_files e (map snd pis) z1)"

section \<open>Single commands\<close>

definition command_result :: "(node_exn + int \<times> string) \<times> adm_state \<Rightarrow> (item_status \<times> string \<times> adm_state) option" where
  "command_result z =
     (case z of
        (Inl NullPointer, m) \<Rightarrow> None
      | (Inl x, m) \<Rightarrow> Some (EM_I_FAILED, exn_what x, m)
      | (Inr (ret, log), m) \<Rightarrow> Some (if ret = 0 then EM_I_SUCCESS else EM_I_FAILED, log, m))"

definition task_start where
  "task_start e rq log m = command_result (startServer_inner e (ti_application rq) (ti_serverName rq) (ti_nodeName rq) log m)"

definition task_restart where
  "task_restart e rq log m = command_result (restartServer_inner e (ti_application rq) (ti_serverName rq) (ti_nodeName rq) log m)"

definition task_stop where
  "task_stop e rq log m = command_result (stopServer_inner e (ti_application rq) (ti_serverName rq) (ti_nodeName rq) log m)"

definition task_undeploy where
  "task_undeploy e rq log m =
     command_result (undeploy_inner e (ti_application rq) (ti_serverName rq) (ti_nodeName rq) (ti_userName rq) log m)"

definition task_graceRestart where
  "task_graceRestart e rq log m =
     (case getServers e (ti_application rq) (ti_serverName rq) (ti_nodeName rq) m of
        (None, m1) \<Rightarrow> Some (EM_I_FAILED, ''no servers'', m1)
      | (Some r, m1) \<Rightarrow>
          command_result (notifyServer_inner e (ti_application rq) (ti_serverName rq) (ti_nodeName rq) ''tars.gracerestart'' log m1))"

section \<open>Patching\<close>

definition patch_req_of :: "task_item_req \<Rightarrow> admin_patch" where
  "patch_req_of rq =
     \<lparr> rq_appname = ti_application rq, rq_servername = ti_serverName rq, rq_groupname = param ''group_name'' (ti_parameters rq),
       rq_version = param ''patch_id'' (ti_parameters rq), rq_md5 = param ''md5'' (ti_parameters rq), rq_ostype = [],
       pq_nodename = ti_nodeName rq, pq_user = ti_userName rq, pq_servertype = [] \<rparr>"

definition patch_log :: "admin_env \<Rightarrow> task_item_req \<Rightarrow> bool \<Rightarrow> adm_state \<Rightarrow> adm_state" where
  "patch_log e rq succ m =
     updatePatchLog_inner e (ti_application rq) (ti_serverName rq) (ti_nodeName rq) (param ''patch_id'' (ti_parameters rq))
       (ti_userName rq) (param ''patch_type'' (ti_parameters rq)) succ m"

text \<open>
  One round of the waiting loop: \<open>Inl\<close> ends it with a status. An exception of the call leaves the code
  of the call before, which is always 0 here, and the empty progress. The pause is one second.
\<close>

definition patch_poll :: "admin_env \<Rightarrow> nat \<Rightarrow> task_item_req \<Rightarrow> string \<Rightarrow> task_state \<Rightarrow>
    ((item_status \<times> string \<times> task_state) + (string \<times> task_state)) option" where
  "patch_poll e i rq log z =
     (case getPatchPercent_inner e (ti_application rq) (ti_serverName rq) (ti_nodeName rq) no_patch_info (fst z) of
        (Inl NullPointer, m1) \<Rightarrow> None
      | (Inl x, m1) \<Rightarrow>
          Some (Inr (exn_what x, (m1\<lparr> clock := Suc (clock m1) \<rparr>, snd (setRspPercent i 0 z))))
      | (Inr (ret, pi), m1) \<Rightarrow>
          let tk1 = snd (setRspPercent i (iPercent pi) z)
          in if ret \<noteq> 0 then Some (Inl (EM_I_FAILED, sResult pi, (patch_log e rq False m1, tk1)))
             else if iPercent pi = 100 \<and> bSucc pi then Some (Inl (EM_I_SUCCESS, log, (patch_log e rq True m1, tk1)))
             else Some (Inr (log, (m1\<lparr> clock := Suc (clock m1) \<rparr>, tk1))))"


lemma requestNode_clock: "requestNode e node out cur op m = (r, m') \<Longrightarrow> clock m \<le> clock m'"
proof -
  assume rq: "requestNode e node out cur op m = (r, m')"
  have tk: "clock m \<le> clock (adm_tick e m)" for m by (simp add: adm_tick_def)
  have sr: "clock (setResponse b c m) = clock m" for b c m by (simp add: setResponse_def split: option.split)
  have rs: "clock (respond c x m) = clock m" for c x m by (simp add: respond_def split: option.split)
  have tp: "clock (snd (take_pending i m)) = clock m" for i m by (simp add: take_pending_def)
  have px: "getNodePrx e node m = (x, m1) \<Longrightarrow> clock m \<le> clock m1" for x m1
    using tk[of m] by (auto simp: getNodePrx_def Let_def split: option.splits node_row.splits)
  have sc: "sync_call e out cur op m1 = (x, m2) \<Longrightarrow> clock m1 \<le> clock m2" for m1 x m2
    using tk[of m1] by (auto simp: sync_call_def Let_def rs split: if_splits option.splits sum.splits)
  show ?thesis
  proof (cases "getNodeCurrent node m")
    case None
    with rq show ?thesis by (simp add: requestNode_def)
  next
    case (Some conn)
    show ?thesis
    proof (cases conn)
      case (Some k)
      with rq \<open>getNodeCurrent node m = Some conn\<close> show ?thesis
        by (auto simp: requestNode_def Let_def sr tp adm_tick_def split: option.splits)
    next
      case None
      obtain x m1 where g: "getNodePrx e node m = (x, m1)" by (cases "getNodePrx e node m")
      note le = px[OF g]
      show ?thesis
      proof (cases x)
        case (Inl y)
        with rq None \<open>getNodeCurrent node m = Some conn\<close> g le show ?thesis by (simp add: requestNode_def)
      next
        case (Inr q)
        show ?thesis
        proof (cases q)
          case (Some p)
          with rq None \<open>getNodeCurrent node m = Some conn\<close> g Inr
          have "sync_call e out cur op (setResponse False cur m1) = (r, m')" by (simp add: requestNode_def)
          from sc[OF this] le show ?thesis by (simp add: sr)
        next
          case no: None
          with rq None \<open>getNodeCurrent node m = Some conn\<close> g Inr le show ?thesis
            by (auto simp: requestNode_def Let_def sr adm_tick_def split: option.splits if_splits)
        qed
      qed
    qed
  qed
qed

lemma patch_poll_clock: "patch_poll e i rq log z = Some (Inr (log', z')) \<Longrightarrow> clock (fst z) < clock (fst z')"
proof -
  assume pp: "patch_poll e i rq log z = Some (Inr (log', z'))"
  obtain r m1 where g: "getPatchPercent_inner e (ti_application rq) (ti_serverName rq) (ti_nodeName rq) no_patch_info (fst z) = (r, m1)"
    by (cases "getPatchPercent_inner e (ti_application rq) (ti_serverName rq) (ti_nodeName rq) no_patch_info (fst z)")
  then have "clock (fst z) \<le> clock m1"
    using requestNode_clock[of e "ti_nodeName rq" "[]" None "OpPercent (ti_application rq) (ti_serverName rq)" "fst z"]
    by (cases "requestNode e (ti_nodeName rq) [] None (OpPercent (ti_application rq) (ti_serverName rq)) (fst z)")
      (auto simp: getPatchPercent_inner_def nm_getPatchPercent_def split: sum.splits option.splits)
  with pp g show ?thesis
    by (auto simp: patch_poll_def Let_def split: sum.splits node_exn.splits if_splits)
qed

text \<open>The loop ends because every round takes at least the second it sleeps.\<close>

function patch_wait :: "admin_env \<Rightarrow> nat \<Rightarrow> task_item_req \<Rightarrow> nat \<Rightarrow> string \<Rightarrow> task_state \<Rightarrow> (item_status \<times> string \<times> task_state) option" where
  "patch_wait e i rq deadline log z =
     (if clock (fst z) < deadline then
        (case patch_poll e i rq log z of
           None \<Rightarrow> None
         | Some (Inl r) \<Rightarrow> Some r
         | Some (Inr (log', z')) \<Rightarrow> patch_wait e i rq deadline log' z')
      else Some (EM_I_FAILED, log, z))"
  by pat_completeness auto
termination
  by (relation "measure (\<lambda>(e, i, rq, deadline, log, z). deadline - clock (fst z))") (auto dest!: patch_poll_clock)

declare patch_wait.simps [simp del]

definition task_patch :: "admin_env \<Rightarrow> nat \<Rightarrow> nat \<Rightarrow> task_item_req \<Rightarrow> string \<Rightarrow> task_state \<Rightarrow> (item_status \<times> string \<times> task_state) option" where
  "task_patch e patchTimeout i rq log z =
     (case batchPatch_inner e (patch_req_of rq) log (fst z) of
        (Inl NullPointer, m1) \<Rightarrow> None
      | (Inl x, m1) \<Rightarrow> Some (EM_I_FAILED, exn_what x, (m1, snd z))
      | (Inr (ret, log1), m1) \<Rightarrow>
          if ret \<noteq> 0 then
            Some (EM_I_FAILED, ''tarsAdminRegistry batchPatch error, ret:'' @ show_int ret @ '', info:'' @ log1, (m1, snd z))
          else patch_wait e i rq (clock m1 + patchTimeout) log1 (m1, snd z))"

section \<open>Running items\<close>

definition on_world :: "(adm_state \<Rightarrow> (item_status \<times> string \<times> adm_state) option) \<Rightarrow> task_state \<Rightarrow> (item_status \<times> string \<times> task_state) option" where
  "on_world f z = map_option (\<lambda>(st, log, m). (st, log, (m, snd z))) (f (fst z))"

text \<open>After a patch that succeeded the server is restarted, unless it is a backup.\<close>

definition patch_then where
  "patch_then e patchTimeout i rq next z =
     Option.bind (task_patch e patchTimeout i rq [] z) (\<lambda>(st, log, z1).
       if st = EM_I_SUCCESS \<and> param ''bak_flag'' (ti_parameters rq) \<noteq> ''1'' then on_world (next e rq log) z1 else Some (st, log, z1))"

definition run_command :: "admin_env \<Rightarrow> nat \<Rightarrow> nat \<Rightarrow> task_item_req \<Rightarrow> task_state \<Rightarrow> (item_status \<times> string \<times> task_state) option" where
  "run_command e patchTimeout i rq z =
     (if ti_command rq = ''stop'' then on_world (task_stop e rq []) z
      else if ti_command rq = ''start'' then on_world (task_start e rq []) z
      else if ti_command rq = ''restart'' then on_world (task_restart e rq []) z
      else if ti_command rq = ''patch_tars'' then patch_then e patchTimeout i rq task_restart z
      else if ti_command rq = ''grace_patch_tars'' then patch_then e patchTimeout i rq task_graceRestart z
      else if ti_command rq = ''undeploy_tars'' then on_world (task_undeploy e rq []) z
      else Some (EM_I_FAILED, ''command not support!'', z))"

definition executeSingleTask :: "admin_env \<Rightarrow> nat \<Rightarrow> nat \<Rightarrow> task_item_req \<Rightarrow> task_state \<Rightarrow> (item_status \<times> task_state) option" where
  "executeSingleTask e patchTimeout i rq z =
     map_option (\<lambda>(st, log, z1). (st, setRspLog e i log z1)) (run_command e patchTimeout i rq z)"

definition finish :: "task_state \<Rightarrow> task_state" where
  "finish z = (fst z, (snd z)\<lparr> tl_finished := True \<rparr>)"

definition when_cancelled :: "bool \<Rightarrow> task_state \<Rightarrow> task_state" where
  "when_cancelled b z = (if b then (fst z, cancelTask (snd z)) else z)"

text \<open>
  \<open>cs i\<close> tells whether the task is cancelled from outside before item (or batch) \<open>i\<close>; a later request finds
  the item no longer in \<open>NOT_START\<close>.
\<close>

fun serial_loop :: "admin_env \<Rightarrow> nat \<Rightarrow> (nat \<Rightarrow> bool) \<Rightarrow> nat \<Rightarrow> task_item_req list \<Rightarrow> item_status \<Rightarrow> task_state \<Rightarrow> task_state option" where
  "serial_loop e pt cs i [] st z = Some z"
| "serial_loop e pt cs i (rq # rqs) st z =
     (let z1 = setRspInfo e i True EM_I_RUNNING (when_cancelled (cs i) z)
      in case (if st = EM_I_SUCCESS then executeSingleTask e pt i rq z1 else Some (EM_I_CANCEL, z1)) of
           None \<Rightarrow> None
         | Some (st', z2) \<Rightarrow> serial_loop e pt cs (Suc i) rqs st' (setRspInfo e i False st' z2))"

definition serial_doTask where
  "serial_doTask e pt cs z = map_option finish (serial_loop e pt cs 0 (tq_items (tl_req (snd z))) EM_I_SUCCESS z)"

text \<open>One item of a parallel task or of a batch.\<close>

definition parallel_doTask :: "admin_env \<Rightarrow> nat \<Rightarrow> nat \<times> task_item_req \<Rightarrow> task_state \<Rightarrow> task_state option" where
  "parallel_doTask e pt p z =
     (case executeSingleTask e pt (fst p) (snd p) (setRspInfo e (fst p) True EM_I_RUNNING z) of
        None \<Rightarrow> None
      | Some (st, z1) \<Rightarrow> Some (setRspInfo e (fst p) False st z1))"



text \<open>
  The workers take the items of a parallel task in some order; \<open>pick\<close> is a permutation of the queue.
\<close>

definition numbered :: "'a list \<Rightarrow> (nat \<times> 'a) list" where
  "numbered xs = zip [0..<length xs] xs"

definition parallel_onExecute where
  "parallel_onExecute e pt pick z = fold_opt (parallel_doTask e pt) (pick (numbered (tq_items (tl_req (snd z))))) z"

text \<open>
  Batches without losing traffic. A batch size of 0 reads the first item of an empty batch (\<open>None\<close>); a
  negative one becomes a huge unsigned number, so that all items are one batch.
\<close>

definition batch_size :: "task_req \<Rightarrow> nat" where
  "batch_size req = nat (tq_eachNum req mod 2 ^ 64)"

definition pause_item :: "(nat \<times> task_item_req) \<Rightarrow> task_list \<Rightarrow> task_list" where
  "pause_item p tk = upd_item (fst p) (\<lambda>r. r\<lparr> rs_status := EM_I_PAUSE_FLOW \<rparr>) tk"

text \<open>\<open>DbProxy::updateServerFlowState\<close> answers the number of rows it changed; then the traffic runs out.\<close>

definition adm_updateServerFlowState :: "admin_env \<Rightarrow> string \<Rightarrow> string \<Rightarrow> string list \<Rightarrow> bool \<Rightarrow> adm_state \<Rightarrow> int \<times> adm_state" where
  "adm_updateServerFlowState e a n nodeList active m =
     (if nodeList = [] then (-1, m)
      else (ae_affected e (calls m),
        (adm_tick e m)\<lparr> db_writes := db_writes m @ map (\<lambda>node. (''flow_state'', a, n, node, if active then ''active'' else ''inactive'')) nodeList \<rparr>))"

definition close_flow :: "admin_env \<Rightarrow> nat \<Rightarrow> (nat \<times> task_item_req) list \<Rightarrow> task_state \<Rightarrow> task_state" where
  "close_flow e waitSecond ps z =
     (let rq = snd (hd ps);
          (n, m1) = adm_updateServerFlowState e (ti_application rq) (ti_serverName rq) (map (\<lambda>p. ti_nodeName (snd p)) ps) False (fst z)
      in (if n > 0 then m1\<lparr> clock := clock m1 + waitSecond \<rparr> else m1, snd z))"

function elegant_loop :: "admin_env \<Rightarrow> nat \<Rightarrow> nat \<Rightarrow> ((nat \<times> task_item_req) list \<Rightarrow> (nat \<times> task_item_req) list) \<Rightarrow> (nat \<Rightarrow> bool) \<Rightarrow>
    nat \<Rightarrow> nat \<Rightarrow> (nat \<times> task_item_req) list \<Rightarrow> task_state \<Rightarrow> task_state option" where
  "elegant_loop e pt waitSecond pick cs b each ps z =
     (if ps = [] then Some z
      else
        let z1 = when_cancelled (cs b) z
        in if tl_status (snd z1) = EM_T_CANCEL then Some z1
           else if each = 0 then None
           else
             let batch = take each ps;
                 z2 = close_flow e waitSecond batch (fst z1, fold pause_item batch (snd z1))
             in case fold_opt (parallel_doTask e pt) (pick batch) z2 of
                  None \<Rightarrow> None
                | Some z3 \<Rightarrow> elegant_loop e pt waitSecond pick cs (Suc b) each (drop each ps) z3)"
  by pat_completeness auto
termination
  by (relation "measure (\<lambda>(e, pt, w, pick, cs, b, each, ps, z). length ps)") auto

declare elegant_loop.simps [simp del]

definition elegant_doTask where
  "elegant_doTask e pt waitSecond pick cs z =
     map_option finish
       (if tq_serial (tl_req (snd z)) then Some z
        else elegant_loop e pt waitSecond pick cs 0 (batch_size (tl_req (snd z))) (numbered (tq_items (tl_req (snd z)))) z)"

text \<open>The whole run of a task: a failed preparation fails all items and does not finish the task.\<close>

fun fail_items :: "admin_env \<Rightarrow> nat \<Rightarrow> nat \<Rightarrow> task_state \<Rightarrow> task_state" where
  "fail_items e i 0 z = z"
| "fail_items e i (Suc n) z =
     (let z1 = (if rs_log (tl_items (snd z) ! i) = [] then setRspLog e i (tl_log (snd z)) z else z)
      in fail_items e (Suc i) n (setRspInfo e i False EM_I_FAILED z1))"

definition task_execute where
  "task_execute e pt waitSecond pick cs z =
     (let (ret, z1) = prepareFile e z
      in if ret \<noteq> 0 then Some (fail_items e 0 (length (tq_items (tl_req (snd z1)))) z1)
         else if tq_isElegant (tl_req (snd z1)) then elegant_doTask e pt waitSecond pick cs z1
         else if tq_serial (tl_req (snd z1)) then serial_doTask e pt cs z1
         else parallel_onExecute e pt pick z1)"

section \<open>The table of tasks\<close>

definition checkTaskRspStatus :: "task_list \<Rightarrow> task_list" where
  "checkTaskRspStatus tk =
     (let ss = map rs_status (tl_items tk);
          all = (\<lambda>P. length (filter P ss) = length ss)
      in tk\<lparr> tl_status :=
           (if all (\<lambda>s. s = EM_I_NOT_START) then EM_T_NOT_START
            else if all (\<lambda>s. s = EM_I_PREPARE) then EM_T_PREPARE
            else if all (\<lambda>s. s = EM_I_RUNNING \<or> s = EM_I_PAUSE_FLOW) then EM_T_RUNNING
            else if all (\<lambda>s. s = EM_I_SUCCESS) then EM_T_SUCCESS
            else if all (\<lambda>s. s = EM_I_FAILED) then EM_T_FAILED
            else if all (\<lambda>s. s = EM_I_CANCEL) then EM_T_CANCEL
            else EM_T_PARIAL) \<rparr>)"

record exec_task =
  et_task :: "(string, task_list) omap"
  et_elegant :: "(string, string) omap"

definition et_getTaskRsp :: "string \<Rightarrow> exec_task \<Rightarrow> task_list option" where
  "et_getTaskRsp taskNo x = map_option checkTaskRspStatus (om_find (et_task x) taskNo)"

definition et_cancelTask :: "string \<Rightarrow> exec_task \<Rightarrow> int \<times> exec_task" where
  "et_cancelTask taskNo x =
     (case om_find (et_task x) taskNo of
        None \<Rightarrow> (-1, x)
      | Some tk \<Rightarrow> (0, x\<lparr> et_task := om_put taskNo (cancelTask tk) (et_task x) \<rparr>))"

text \<open>
  A new task replaces one of the same number. A running elegant task for the same first server is
  cancelled; the looked up number is that of the new task itself when the numbers are the same.
\<close>

definition et_addTaskReq :: "nat \<Rightarrow> task_req \<Rightarrow> exec_task \<Rightarrow> int \<times> exec_task" where
  "et_addTaskReq tn req x =
     (case tq_items req of
        [] \<Rightarrow> (-1, x)
      | rq # _ \<Rightarrow>
          let serverId = ti_application rq @ ''.'' @ ti_serverName rq;
              task1 = om_put (tq_taskNo req) (new_task_list req (if tq_isElegant req then 600 else 300) tn) (et_task x);
              (running, elegant1) =
                (case om_find (et_elegant x) serverId of
                   None \<Rightarrow> ([], et_elegant x)
                 | Some no \<Rightarrow>
                     (case om_find task1 no of
                        Some tk \<Rightarrow> if \<not> tl_finished tk then (no, et_elegant x) else ([], om_erase serverId (et_elegant x))
                      | None \<Rightarrow> ([], om_erase serverId (et_elegant x))));
              elegant2 = (if tq_isElegant req then om_put serverId (tq_taskNo req) elegant1 else elegant1);
              x1 = \<lparr> et_task = task1, et_elegant = elegant2 \<rparr>
          in (0, if running \<noteq> [] then snd (et_cancelTask running x1) else x1))"

text \<open>A round of the cleaning thread.\<close>

definition et_sweep :: "nat \<Rightarrow> exec_task \<Rightarrow> exec_task" where
  "et_sweep tn x = x\<lparr> et_task := filter (\<lambda>p. \<not> isTimeout tn (snd p)) (et_task x) \<rparr>"

definition elegant_wait :: "nat \<Rightarrow> nat" where
  "elegant_wait configured = (if configured < 2 \<or> configured > 180 then 75 else configured)"

section \<open>What running an item changes\<close>

definition statuses :: "task_state \<Rightarrow> item_status list" where
  "statuses z = map rs_status (tl_items (snd z))"

lemma statuses_upd_item:
  assumes "\<And>r. rs_status (g r) = rs_status r"
  shows "statuses (m', upd_item i g tk) = statuses (m, tk)"
  by (cases "i < length (tl_items tk)")
    (simp_all add: statuses_def upd_item_def map_update assms list_update_same_conv list_update_beyond)

lemma statuses_setRspInfo [simp]: "statuses (setRspInfo e i b st z) = (statuses z)[i := st]"
  by (cases z) (simp add: setRspInfo_def statuses_def upd_item_def map_update)

lemma upd_item_simps [simp]: "tl_req (upd_item i g tk) = tl_req tk" "tl_status (upd_item i g tk) = tl_status tk"
  by (simp_all add: upd_item_def)

text \<open>What every step of an item leaves alone.\<close>

definition same_task :: "task_state \<Rightarrow> task_state \<Rightarrow> bool" where
  "same_task z z' \<longleftrightarrow> statuses z' = statuses z \<and> tl_req (snd z') = tl_req (snd z) \<and> tl_status (snd z') = tl_status (snd z)"

lemma same_task_refl [simp]: "same_task z z" by (simp add: same_task_def)

lemma same_task_trans: "same_task z z1 \<Longrightarrow> same_task z1 z2 \<Longrightarrow> same_task z z2" by (simp add: same_task_def)

lemma same_task_world [simp]: "same_task z (m, snd z)" by (simp add: same_task_def statuses_def)

lemma same_task_log [simp]: "same_task z (setRspLog e i log z)"
  by (cases z) (simp add: setRspLog_def same_task_def statuses_upd_item)

lemma same_task_percent [simp]: "same_task z (m, snd (setRspPercent i p z))"
  by (cases z) (simp add: setRspPercent_def same_task_def statuses_upd_item[of _ m i _ "fst z"])

lemma setRspInfo_frame [simp]: "tl_req (snd (setRspInfo e i b st z)) = tl_req (snd z)" "tl_status (snd (setRspInfo e i b st z)) = tl_status (snd z)"
  by (cases z; simp add: setRspInfo_def)+

lemma command_result_status: "command_result x = Some (st, log, m) \<Longrightarrow> st = EM_I_SUCCESS \<or> st = EM_I_FAILED"
  by (auto simp: command_result_def split: prod.splits sum.splits node_exn.splits if_splits)

lemma task_status_two:
  "task_start e rq l m = Some (st, log, m') \<Longrightarrow> st = EM_I_SUCCESS \<or> st = EM_I_FAILED"
  "task_stop e rq l m = Some (st, log, m') \<Longrightarrow> st = EM_I_SUCCESS \<or> st = EM_I_FAILED"
  "task_restart e rq l m = Some (st, log, m') \<Longrightarrow> st = EM_I_SUCCESS \<or> st = EM_I_FAILED"
  "task_undeploy e rq l m = Some (st, log, m') \<Longrightarrow> st = EM_I_SUCCESS \<or> st = EM_I_FAILED"
  "task_graceRestart e rq l m = Some (st, log, m') \<Longrightarrow> st = EM_I_SUCCESS \<or> st = EM_I_FAILED"
  by (auto simp: task_start_def task_stop_def task_restart_def task_undeploy_def task_graceRestart_def
      dest: command_result_status split: prod.splits option.splits)

lemma patch_poll_same:
  "patch_poll e i rq log z = Some (Inl (st, l, z')) \<Longrightarrow> same_task z z' \<and> (st = EM_I_SUCCESS \<or> st = EM_I_FAILED)"
  "patch_poll e i rq log z = Some (Inr (l', z')) \<Longrightarrow> same_task z z'"
  by (auto simp: patch_poll_def Let_def split: prod.splits sum.splits node_exn.splits if_splits)

lemma patch_wait_same:
  "patch_wait e i rq dl log z = Some (st, l, z') \<Longrightarrow> same_task z z' \<and> (st = EM_I_SUCCESS \<or> st = EM_I_FAILED)"
proof (induction e i rq dl log z rule: patch_wait.induct)
  case (1 e i rq dl log z)
  show ?case
  proof (cases "clock (fst z) < dl")
    case False
    with 1(2) show ?thesis by (simp add: patch_wait.simps)
  next
    case True
    show ?thesis
    proof (cases "patch_poll e i rq log z")
      case None
      with True 1(2) show ?thesis by (simp add: patch_wait.simps)
    next
      case (Some x)
      show ?thesis
      proof (cases x)
        case (Inl y)
        with True Some 1(2) show ?thesis by (cases y) (auto simp: patch_wait.simps dest: patch_poll_same)
      next
        case (Inr y)
        obtain l1 z1 where y: "y = (l1, z1)" by (cases y)
        from 1(2) True Some Inr y have "patch_wait e i rq dl l1 z1 = Some (st, l, z')" by (simp add: patch_wait.simps[of e i rq dl log z])
        from 1(1)[OF True Some Inr y[symmetric] this] patch_poll_same(2)[of e i rq log z l1 z1] Some Inr y
        show ?thesis by (blast intro: same_task_trans)
      qed
    qed
  qed
qed

lemma task_patch_same:
  "task_patch e pt i rq log z = Some (st, l, z') \<Longrightarrow> same_task z z' \<and> (st = EM_I_SUCCESS \<or> st = EM_I_FAILED)"
proof -
  assume a: "task_patch e pt i rq log z = Some (st, l, z')"
  obtain r m1 where b: "batchPatch_inner e (patch_req_of rq) log (fst z) = (r, m1)"
    by (cases "batchPatch_inner e (patch_req_of rq) log (fst z)")
  show ?thesis
  proof (cases r)
    case (Inl x)
    with a b show ?thesis by (cases x) (auto simp: task_patch_def)
  next
    case (Inr y)
    obtain ret log1 where y: "y = (ret, log1)" by (cases y)
    show ?thesis
    proof (cases "ret = 0")
      case False
      with a b Inr y show ?thesis by (auto simp: task_patch_def)
    next
      case True
      with a b Inr y have "patch_wait e i rq (clock m1 + pt) log1 (m1, snd z) = Some (st, l, z')" by (simp add: task_patch_def)
      from patch_wait_same[OF this] show ?thesis by (auto intro: same_task_trans[OF same_task_world])
    qed
  qed
qed

lemma on_world_same:
  assumes "on_world f z = Some (st, l, z')" and "\<And>st l m'. f (fst z) = Some (st, l, m') \<Longrightarrow> st = EM_I_SUCCESS \<or> st = EM_I_FAILED"
  shows "same_task z z' \<and> (st = EM_I_SUCCESS \<or> st = EM_I_FAILED)"
  using assms by (auto simp: on_world_def)

lemma patch_then_same:
  assumes "patch_then e pt i rq nx z = Some (st, l, z')"
    and "\<And>l m st l' m'. nx e rq l m = Some (st, l', m') \<Longrightarrow> st = EM_I_SUCCESS \<or> st = EM_I_FAILED"
  shows "same_task z z' \<and> (st = EM_I_SUCCESS \<or> st = EM_I_FAILED)"
proof (cases "task_patch e pt i rq [] z")
  case None
  with assms(1) show ?thesis by (simp add: patch_then_def)
next
  case (Some x)
  obtain st1 l1 z1 where x: "x = (st1, l1, z1)" by (cases x)
  note tp = task_patch_same[OF Some[unfolded x]]
  show ?thesis
  proof (cases "st1 = EM_I_SUCCESS \<and> param ''bak_flag'' (ti_parameters rq) \<noteq> ''1''")
    case True
    with assms(1) Some x have "on_world (nx e rq l1) z1 = Some (st, l, z')" by (simp add: patch_then_def)
    from on_world_same[OF this] assms(2) tp show ?thesis by (blast intro: same_task_trans)
  next
    case False
    with assms(1) Some x tp show ?thesis by (auto simp: patch_then_def)
  qed
qed

lemma run_command_same:
  "run_command e pt i rq z = Some (st, l, z') \<Longrightarrow> same_task z z' \<and> (st = EM_I_SUCCESS \<or> st = EM_I_FAILED)"
  unfolding run_command_def
  by (simp only: split: if_splits; (elim on_world_same patch_then_same)?; (drule task_status_two)?; simp)

lemma executeSingleTask_same:
  assumes "executeSingleTask e pt i rq z = Some (st, z')"
  shows "same_task z z'" and "st = EM_I_SUCCESS \<or> st = EM_I_FAILED"
proof -
  obtain l z1 where "run_command e pt i rq z = Some (st, l, z1)" and z': "z' = setRspLog e i l z1"
    using assms by (auto simp: executeSingleTask_def)
  from run_command_same[OF this(1)] z' show "same_task z z'" "st = EM_I_SUCCESS \<or> st = EM_I_FAILED"
    by (blast intro: same_task_trans same_task_log)+
qed

section \<open>Serial tasks\<close>

lemma statuses_when_cancelled:
  "statuses (when_cancelled b z) = (if b then map (\<lambda>s. if s = EM_I_NOT_START then EM_I_CANCEL else s) (statuses z) else statuses z)"
  by (cases z) (simp add: when_cancelled_def statuses_def cancelTask_def Let_def)

lemma when_cancelled_req [simp]: "tl_req (snd (when_cancelled b z)) = tl_req (snd z)"
  by (cases z) (simp add: when_cancelled_def cancelTask_def Let_def)

lemma started_unaffected: "EM_I_NOT_START \<notin> set ss \<Longrightarrow> map (\<lambda>s. if s = EM_I_NOT_START then EM_I_CANCEL else s) ss = ss"
  by (induction ss) auto

definition serial_statuses :: "nat \<Rightarrow> nat \<Rightarrow> item_status list" where
  "serial_statuses n k = take n (replicate k EM_I_SUCCESS @ EM_I_FAILED # replicate n EM_I_CANCEL)"

lemma serial_statuses_Suc [simp]: "serial_statuses (Suc n) (Suc k) = EM_I_SUCCESS # serial_statuses n k"
proof -
  have r: "take m (EM_I_CANCEL # replicate (Suc n) EM_I_CANCEL) = take m (EM_I_CANCEL # replicate n EM_I_CANCEL)" if "m \<le> n" for m
    using that by (simp add: replicate_Suc[symmetric] min_def del: replicate_Suc)
  show ?thesis
  proof (cases "n - k")
    case 0
    then show ?thesis by (simp add: serial_statuses_def)
  next
    case (Suc m)
    with r[of m] show ?thesis by (simp add: serial_statuses_def replicate_Suc[symmetric] del: replicate_Suc)
  qed
qed

lemma serial_statuses_0 [simp]: "serial_statuses (Suc n) 0 = EM_I_FAILED # replicate n EM_I_CANCEL"
  by (simp add: serial_statuses_def replicate_Suc[symmetric] del: replicate_Suc)

lemma serial_statuses_length [simp]: "length (serial_statuses n k) = n"
  by (simp add: serial_statuses_def)

lemma serial_step:
  assumes "length (statuses z) = i + Suc n" and "EM_I_NOT_START \<notin> set (take i (statuses z))"
    and "same_task (setRspInfo e i b1 s1 (when_cancelled b z)) z2"
  shows "length (statuses (setRspInfo e i b2 s2 z2)) = Suc i + n"
    and "take (Suc i) (statuses (setRspInfo e i b2 s2 z2)) = take i (statuses z) @ [s2]"
  using assms by (auto simp: same_task_def statuses_when_cancelled take_Suc_conv_app_nth take_map started_unaffected)



lemma serial_loop_cancels:
  assumes "serial_loop e pt cs i rqs st z = Some z'" and "st \<noteq> EM_I_SUCCESS"
    and "length (statuses z) = i + length rqs" and "EM_I_NOT_START \<notin> set (take i (statuses z))"
  shows "statuses z' = take i (statuses z) @ replicate (length rqs) EM_I_CANCEL"
  using assms
proof (induction rqs arbitrary: i st z)
  case Nil
  then show ?case by simp
next
  case (Cons rq rqs)
  let ?z1 = "setRspInfo e i True EM_I_RUNNING (when_cancelled (cs i) z)"
  let ?z2 = "setRspInfo e i False EM_I_CANCEL ?z1"
  have l: "length (statuses z) = i + Suc (length rqs)" using Cons.prems by simp
  note step = serial_step[OF l Cons.prems(4), of e True EM_I_RUNNING "cs i" ?z1 False EM_I_CANCEL, OF same_task_refl]
  have "serial_loop e pt cs (Suc i) rqs EM_I_CANCEL ?z2 = Some z'" using Cons.prems by (simp add: Let_def)
  from Cons.IH[OF this _ step(1)] step(2) Cons.prems(4) show ?case by simp
qed

lemma serial_loop_statuses:
  assumes "serial_loop e pt cs i rqs EM_I_SUCCESS z = Some z'"
    and "length (statuses z) = i + length rqs" and "EM_I_NOT_START \<notin> set (take i (statuses z))"
  shows "\<exists>k \<le> length rqs. statuses z' = take i (statuses z) @ serial_statuses (length rqs) k"
  using assms
proof (induction rqs arbitrary: i z)
  case Nil
  then show ?case by (simp add: serial_statuses_def)
next
  case (Cons rq rqs)
  let ?z1 = "setRspInfo e i True EM_I_RUNNING (when_cancelled (cs i) z)"
  have l: "length (statuses z) = i + Suc (length rqs)" using Cons.prems by simp
  obtain st z2 where ex: "executeSingleTask e pt i rq ?z1 = Some (st, z2)"
    and rest: "serial_loop e pt cs (Suc i) rqs st (setRspInfo e i False st z2) = Some z'"
    using Cons.prems(1) by (auto simp: Let_def split: option.splits)
  note step = serial_step[OF l Cons.prems(3) executeSingleTask_same(1)[OF ex], of False st]
  show ?case
  proof (cases "st = EM_I_SUCCESS")
    case True
    with step(2) Cons.prems(3) have ns: "EM_I_NOT_START \<notin> set (take (Suc i) (statuses (setRspInfo e i False st z2)))" by simp
    from Cons.IH[OF rest[unfolded True] step(1)[unfolded True] ns[unfolded True]] obtain k where
      "k \<le> length rqs" "statuses z' = take (Suc i) (statuses (setRspInfo e i False st z2)) @ serial_statuses (length rqs) k"
      using True by auto
    with step(2) True show ?thesis by (intro exI[of _ "Suc k"]) simp
  next
    case False
    with executeSingleTask_same(2)[OF ex] have st: "st = EM_I_FAILED" by simp
    with step(2) Cons.prems(3) have "EM_I_NOT_START \<notin> set (take (Suc i) (statuses (setRspInfo e i False st z2)))" by simp
    from serial_loop_cancels[OF rest False step(1) this] step(2) st show ?thesis by (intro exI[of _ 0]) simp
  qed
qed



lemma all_of_set: "length (filter P xs) = length xs \<longleftrightarrow> (\<forall>x \<in> set xs. P x)"
  by (metis filter_True length_filter_less nat_neq_iff)

lemma reported_status:
  assumes "map rs_status (tl_items tk) = ss"
  shows "tl_status (checkTaskRspStatus tk) =
    (if \<forall>s \<in> set ss. s = EM_I_NOT_START then EM_T_NOT_START
     else if \<forall>s \<in> set ss. s = EM_I_PREPARE then EM_T_PREPARE
     else if \<forall>s \<in> set ss. s = EM_I_RUNNING \<or> s = EM_I_PAUSE_FLOW then EM_T_RUNNING
     else if \<forall>s \<in> set ss. s = EM_I_SUCCESS then EM_T_SUCCESS
     else if \<forall>s \<in> set ss. s = EM_I_FAILED then EM_T_FAILED
     else if \<forall>s \<in> set ss. s = EM_I_CANCEL then EM_T_CANCEL else EM_T_PARIAL)"
  unfolding checkTaskRspStatus_def Let_def assms all_of_set by simp

lemma set_serial_statuses:
  assumes "k \<le> n"
  shows "set (serial_statuses n k) = (if 0 < k then {EM_I_SUCCESS} else {}) \<union> (if k < n then {EM_I_FAILED} else {}) \<union> (if Suc k < n then {EM_I_CANCEL} else {})"
proof (cases "n - k")
  case 0
  with assms show ?thesis by (simp add: serial_statuses_def)
next
  case (Suc m)
  then have n: "n = k + Suc m" by simp
  have "take m (replicate (k + Suc m) EM_I_CANCEL) = replicate m EM_I_CANCEL" by (subst take_replicate) simp
  then have "serial_statuses n k = replicate k EM_I_SUCCESS @ EM_I_FAILED # replicate m EM_I_CANCEL"
    unfolding serial_statuses_def n by simp
  with n show ?thesis by auto
qed

lemma serial_reported:
  assumes "k \<le> n" and "0 < n" and "map rs_status (tl_items tk) = serial_statuses n k"
  shows "tl_status (checkTaskRspStatus tk) = (if k = n then EM_T_SUCCESS else if n = 1 then EM_T_FAILED else EM_T_PARIAL)"
proof -
  consider "k = n" | "k = 0" "n = 1" | "k < n" "n > 1" using assms(1,2) by linarith
  then show ?thesis
    by cases (use assms(1,2) in \<open>simp_all add: reported_status[OF assms(3)] set_serial_statuses\<close>)
qed

text \<open>
  Property C17 (serial_outcome). A serial task that ends leaves its items as a run of successes, then, when
  there are items left, one failure and cancelled items; it is finished. No cancellation from outside
  (\<open>cs\<close>) changes that: the code only looks at the result of the item before. The status it reports is
  SUCCESS exactly when all items succeeded, FAILED when it has one item that failed, and else partial.
\<close>

theorem serial_outcome:
  assumes "serial_doTask e pt cs z = Some z'" and "length (tl_items (snd z)) = length (tq_items (tl_req (snd z)))"
    and "n = length (tq_items (tl_req (snd z)))" and "0 < n"
  shows "\<exists>k \<le> n. map rs_status (tl_items (snd z')) = take n (replicate k EM_I_SUCCESS @ EM_I_FAILED # replicate n EM_I_CANCEL) \<and>
      tl_finished (snd z') \<and>
      tl_status (checkTaskRspStatus (snd z')) = (if k = n then EM_T_SUCCESS else if n = 1 then EM_T_FAILED else EM_T_PARIAL)"
proof -
  obtain z1 where l: "serial_loop e pt cs 0 (tq_items (tl_req (snd z))) EM_I_SUCCESS z = Some z1" and z': "z' = finish z1"
    using assms(1) by (auto simp: serial_doTask_def)
  have "length (statuses z) = 0 + length (tq_items (tl_req (snd z)))" using assms(2) by (simp add: statuses_def)
  from serial_loop_statuses[OF l this] obtain k where k: "k \<le> n" "statuses z1 = serial_statuses n k"
    using assms(3) by auto
  have st: "map rs_status (tl_items (snd z')) = serial_statuses n k" using k z' by (simp add: finish_def statuses_def)
  from serial_reported[OF k(1) assms(4) st]
  have "tl_status (checkTaskRspStatus (snd z')) = (if k = n then EM_T_SUCCESS else if n = 1 then EM_T_FAILED else EM_T_PARIAL)" .
  with k(1) st z' show ?thesis by (intro exI[of _ k]) (simp add: serial_statuses_def finish_def)
qed

section \<open>Batches\<close>

lemma parallel_doTask_step:
  assumes "parallel_doTask e pt p z = Some z'"
  shows "tl_req (snd z') = tl_req (snd z) \<and> tl_status (snd z') = tl_status (snd z) \<and>
    (\<exists>st \<in> {EM_I_SUCCESS, EM_I_FAILED}. statuses z' = (statuses z)[fst p := st])"
proof -
  obtain st z1 where ex: "executeSingleTask e pt (fst p) (snd p) (setRspInfo e (fst p) True EM_I_RUNNING z) = Some (st, z1)"
    and z': "z' = setRspInfo e (fst p) False st z1"
    using assms by (auto simp: parallel_doTask_def split: option.splits)
  from executeSingleTask_same[OF ex] z' show ?thesis by (auto simp: same_task_def)
qed

definition ran :: "item_status list \<Rightarrow> nat set \<Rightarrow> item_status list \<Rightarrow> bool" where
  "ran ss I ss' \<longleftrightarrow> length ss' = length ss \<and>
     (\<forall>j < length ss. j \<in> I \<longrightarrow> ss' ! j \<in> {EM_I_SUCCESS, EM_I_FAILED}) \<and> (\<forall>j < length ss. j \<notin> I \<longrightarrow> ss' ! j = ss ! j)"

lemma ran_insert: "ran (ss[i := st]) I ss' \<Longrightarrow> st \<in> {EM_I_SUCCESS, EM_I_FAILED} \<Longrightarrow> ran ss (insert i I) ss'"
proof -
  assume r: "ran (ss[i := st]) I ss'" and st: "st \<in> {EM_I_SUCCESS, EM_I_FAILED}"
  have "ss' ! j = (if j = i then st else ss ! j)" if "j < length ss" "j \<notin> I" for j
    using r that by (auto simp: ran_def)
  with r st show "ran ss (insert i I) ss'" unfolding ran_def by (metis insert_iff length_list_update)
qed

lemma parallel_items:
  "fold_opt (parallel_doTask e pt) ps z = Some z' \<Longrightarrow>
   tl_req (snd z') = tl_req (snd z) \<and> tl_status (snd z') = tl_status (snd z) \<and> ran (statuses z) (fst ` set ps) (statuses z')"
proof (induction ps arbitrary: z)
  case Nil
  then show ?case by (simp add: ran_def)
next
  case (Cons p ps)
  then obtain z1 where p: "parallel_doTask e pt p z = Some z1" and r: "fold_opt (parallel_doTask e pt) ps z1 = Some z'"
    by (cases "parallel_doTask e pt p z") auto
  from parallel_doTask_step[OF p] obtain st where st: "st \<in> {EM_I_SUCCESS, EM_I_FAILED}" "statuses z1 = (statuses z)[fst p := st]"
    and f: "tl_req (snd z1) = tl_req (snd z)" "tl_status (snd z1) = tl_status (snd z)" by auto
  have "ran (statuses z) (fst ` set (p # ps)) (statuses z')"
    using Cons.IH[OF r] st ran_insert[of "statuses z" "fst p" st] by simp
  with Cons.IH[OF r] f show ?case by simp
qed



lemma close_flow_snd [simp]: "snd (close_flow e w ps z) = snd z"
  by (simp add: close_flow_def split_beta Let_def)

lemma close_flow_statuses [simp]: "statuses (close_flow e w ps z) = statuses z"
  by (simp add: statuses_def)

lemma pause_items:
  "tl_req (fold pause_item ps tk) = tl_req tk" "tl_status (fold pause_item ps tk) = tl_status tk"
  "length (statuses (m, fold pause_item ps tk)) = length (statuses (m, tk))"
  "j \<notin> fst ` set ps \<Longrightarrow> j < length (statuses (m, tk)) \<Longrightarrow> statuses (m, fold pause_item ps tk) ! j = statuses (m, tk) ! j"
proof -
  have one: "statuses (m, pause_item p tk) = (statuses (m, tk))[fst p := EM_I_PAUSE_FLOW]" for p tk
    by (simp add: statuses_def pause_item_def upd_item_def map_update)
  have f: "tl_req (pause_item p tk) = tl_req tk" "tl_status (pause_item p tk) = tl_status tk" for p tk by (simp_all add: pause_item_def)
  show "tl_req (fold pause_item ps tk) = tl_req tk" "tl_status (fold pause_item ps tk) = tl_status tk"
    by (induction ps arbitrary: tk) (simp_all add: f)
  show "length (statuses (m, fold pause_item ps tk)) = length (statuses (m, tk))"
    by (induction ps arbitrary: tk) (simp_all add: one)
  show "j \<notin> fst ` set ps \<Longrightarrow> j < length (statuses (m, tk)) \<Longrightarrow> statuses (m, fold pause_item ps tk) ! j = statuses (m, tk) ! j"
    by (induction ps arbitrary: tk) (simp_all add: one)
qed

lemma batch_ran:
  assumes "set (pick batch) = set batch" and "fold_opt (parallel_doTask e pt) (pick batch) (close_flow e w batch (m, fold pause_item batch tk)) = Some z'"
  shows "ran (statuses (m, tk)) (fst ` set batch) (statuses z')" and "tl_req (snd z') = tl_req tk" and "tl_status (snd z') = tl_status tk"
proof -
  note p = parallel_items[OF assms(2)]
  show "tl_req (snd z') = tl_req tk" "tl_status (snd z') = tl_status tk" using p by (simp_all add: pause_items)
  show "ran (statuses (m, tk)) (fst ` set batch) (statuses z')"
    using p assms(1) by (auto simp: ran_def pause_items)
qed

lemma numbered_batch: "fst ` set (take n (drop i (numbered xs))) = {i..<min (i + n) (length xs)}"
proof -
  have "map fst (take n (drop i (numbered xs))) = take n (drop i [0..<length xs])"
    by (simp add: numbered_def take_map[symmetric] drop_map[symmetric])
  then have "fst ` set (take n (drop i (numbered xs))) = set (take n (drop i [0..<length xs]))"
    by (metis list.set_map)
  also have "\<dots> = {i..<min (i + n) (length xs)}" by (cases "i \<le> length xs") (auto simp: take_upt min_def)
  finally show ?thesis .
qed

text \<open>The state of a run of batches before item \<open>i\<close>; \<open>pnd\<close> is the status of the items still to come.\<close>

definition batches_at :: "nat \<Rightarrow> nat \<Rightarrow> item_status \<Rightarrow> task_state \<Rightarrow> bool" where
  "batches_at n i pnd z \<longleftrightarrow> length (statuses z) = n \<and> (\<forall>j < n. j < i \<longrightarrow> statuses z ! j \<in> {EM_I_SUCCESS, EM_I_FAILED}) \<and>
     (\<forall>j < n. i \<le> j \<longrightarrow> statuses z ! j = pnd)"

lemma batches_next:
  assumes b: "batches_at n i pnd z" and r: "ran (statuses z) {i..<min (i + each) n} (statuses z')"
  shows "batches_at n (i + each) pnd z'"
proof -
  have l: "length (statuses z') = n" using b r by (simp add: batches_at_def ran_def)
  have "statuses z' ! j \<in> {EM_I_SUCCESS, EM_I_FAILED}" if "j < n" "j < i + each" for j
    using b r that by (cases "j < i") (simp_all add: batches_at_def ran_def)
  moreover have "statuses z' ! j = pnd" if "j < n" "i + each \<le> j" for j
    using b r that by (simp add: batches_at_def ran_def)
  ultimately show ?thesis using l by (simp add: batches_at_def)
qed

lemma cancel_pending:
  assumes "batches_at n i EM_I_NOT_START z" and "i < n"
  shows "batches_at n i EM_I_CANCEL (when_cancelled True z)" and "tl_status (snd (when_cancelled True z)) = EM_T_CANCEL"
proof -
  show "batches_at n i EM_I_CANCEL (when_cancelled True z)"
    using assms(1) by (auto simp: batches_at_def statuses_when_cancelled)
  have "i < length (tl_items (snd z))" "rs_status (tl_items (snd z) ! i) = EM_I_NOT_START"
    using assms by (auto simp: batches_at_def statuses_def)
  then have "filter (\<lambda>r. rs_status r = EM_I_NOT_START) (tl_items (snd z)) \<noteq> []"
    by (metis (mono_tags, lifting) filter_empty_conv nth_mem)
  then show "tl_status (snd (when_cancelled True z)) = EM_T_CANCEL"
    by (simp add: when_cancelled_def cancelTask_def Let_def)
qed

lemma cancel_prepared:
  assumes "batches_at n i EM_I_PREPARE z" and "i \<le> n"
  shows "snd (when_cancelled b z) = snd z"
proof -
  have "rs_status r \<noteq> EM_I_NOT_START" if "r \<in> set (tl_items (snd z))" for r
  proof -
    from that obtain j where j: "j < length (tl_items (snd z))" "r = tl_items (snd z) ! j" by (metis in_set_conv_nth)
    with assms(1) have "statuses z ! j \<in> {EM_I_SUCCESS, EM_I_FAILED, EM_I_PREPARE}"
      by (cases "j < i") (auto simp: batches_at_def statuses_def)
    with j show ?thesis by (auto simp: statuses_def)
  qed
  then have "filter (\<lambda>r. rs_status r = EM_I_NOT_START) (tl_items (snd z)) = []"
    "map (\<lambda>r. if rs_status r = EM_I_NOT_START then r\<lparr> rs_status := EM_I_CANCEL \<rparr> else r) (tl_items (snd z)) = tl_items (snd z)"
    by (auto simp: filter_empty_conv intro: map_idI)
  then show ?thesis by (simp add: when_cancelled_def cancelTask_def Let_def)
qed

lemma elegant_run:
  assumes "elegant_loop e pt w pick cs b each (drop i (numbered rqs)) z = Some z'" and "i \<le> length rqs" and "0 < each"
    and "\<And>xs. set (pick xs) = set xs" and "n = length rqs" and "pnd = EM_I_NOT_START \<or> pnd = EM_I_PREPARE"
    and "batches_at n i pnd z" and "tl_status (snd z) \<noteq> EM_T_CANCEL"
  shows "\<exists>k \<le> n. i \<le> k \<and> batches_at n k EM_I_CANCEL z' \<and>
    (k < n \<longrightarrow> (\<exists>b' \<ge> b. (cs b' \<and> pnd = EM_I_NOT_START) \<and> k = i + (b' - b) * each)) \<and> (\<forall>b' \<ge> b. i + (b' - b) * each < k \<longrightarrow> \<not> (cs b' \<and> pnd = EM_I_NOT_START))"
  using assms(1,2,7,8)
proof (induction "n - i" arbitrary: b i z rule: less_induct)
  case less
  show ?case
  proof (cases "i < n")
    case False
    with less.prems(2) assms(5) have "i = n" by simp
    moreover have "z' = z" using less.prems(1) \<open>i = n\<close> assms(5) by (simp add: numbered_def elegant_loop.simps)
    ultimately show ?thesis using less.prems(3) by (intro exI[of _ n]) (auto simp: batches_at_def)
  next
    case True
    have ne: "drop i (numbered rqs) \<noteq> []" using True assms(5) by (simp add: numbered_def)
    show ?thesis
    proof (cases "cs b \<and> pnd = EM_I_NOT_START")
      case c: True
      with less.prems(3) have p: "batches_at n i EM_I_NOT_START z" by simp
      with c cancel_pending[OF p True] less.prems(1) ne have "z' = when_cancelled True z"
        by (simp add: elegant_loop.simps[of e pt w pick cs b each "drop i (numbered rqs)" z] Let_def)
      with cancel_pending(1)[OF p True] True c show ?thesis by (intro exI[of _ i]) auto
    next
      case c: False
      define batch where "batch = take each (drop i (numbered rqs))"
      have w: "when_cancelled (cs b) z = z"
      proof (cases "pnd = EM_I_PREPARE")
        case pr: True
        have "fst (when_cancelled (cs b) z) = fst z" by (simp add: when_cancelled_def)
        moreover have "snd (when_cancelled (cs b) z) = snd z"
          by (rule cancel_prepared[of n i]) (use pr less.prems(3) True in simp_all)
        ultimately show ?thesis by (simp add: prod_eq_iff)
      qed (use c assms(6) in \<open>auto simp: when_cancelled_def\<close>)
      from less.prems(1,4) ne assms(3) obtain z3 where f: "fold_opt (parallel_doTask e pt) (pick batch) (close_flow e w batch (fst z, fold pause_item batch (snd z))) = Some z3"
        and r: "elegant_loop e pt w pick cs (Suc b) each (drop (i + each) (numbered rqs)) z3 = Some z'"
        by (auto simp: elegant_loop.simps[of e pt w pick cs b each "drop i (numbered rqs)" z] Let_def w batch_def[symmetric] add.commute split: option.splits)
      note br = batch_ran[where pick = pick and batch = batch, OF assms(4) f]
      have nx: "batches_at n (i + each) pnd z3"
        using batches_next[OF less.prems(3)] br(1) assms(5) by (simp add: batch_def numbered_batch)
      define i' where "i' = min (i + each) n"
      have nx': "batches_at n i' pnd z3" using nx by (auto simp: batches_at_def i'_def)
      have r': "elegant_loop e pt w pick cs (Suc b) each (drop i' (numbered rqs)) z3 = Some z'"
      proof -
        have "length (numbered rqs) = n" using assms(5) by (simp add: numbered_def)
        then have "drop i' (numbered rqs) = drop (i + each) (numbered rqs)" by (cases "i + each \<le> n") (simp_all add: i'_def)
        with r show ?thesis by simp
      qed
      have "n - i' < n - i" "i' \<le> length rqs" using True assms(3,5) by (auto simp: i'_def)
      from less.hyps[OF this(1) r' this(2) nx'] br(3) less.prems(4) obtain k where
        k: "k \<le> n" "i' \<le> k" "batches_at n k EM_I_CANCEL z'" "k < n \<longrightarrow> (\<exists>b' \<ge> Suc b. (cs b' \<and> pnd = EM_I_NOT_START) \<and> k = i' + (b' - Suc b) * each)"
          "\<forall>b' \<ge> Suc b. i' + (b' - Suc b) * each < k \<longrightarrow> \<not> (cs b' \<and> pnd = EM_I_NOT_START)" by auto
      have step: "i + (b' - b) * each = i + each + (b' - Suc b) * each" if "b' \<ge> Suc b" for b'
        using that by (metis Suc_diff_Suc Suc_le_lessD add.assoc mult_Suc)
      have lt: "i' = i + each" if "i + each < n" using that by (simp add: i'_def)
      show ?thesis
      proof (rule exI[of _ k], intro conjI impI allI)
        show "k \<le> n" "batches_at n k EM_I_CANCEL z'" using k by auto
        show "i \<le> k" using k(2) True by (auto simp: i'_def min_def split: if_splits)
        show "\<exists>b' \<ge> b. (cs b' \<and> pnd = EM_I_NOT_START) \<and> k = i + (b' - b) * each" if "k < n"
        proof -
          from that k(4) obtain b' where "b' \<ge> Suc b" "cs b' \<and> pnd = EM_I_NOT_START" "k = i' + (b' - Suc b) * each" by blast
          moreover have "i' = i + each" using that k(2) by (auto simp: i'_def)
          ultimately show ?thesis using step[of b'] by (intro exI[of _ b']) simp
        qed
        show "\<not> (cs b' \<and> pnd = EM_I_NOT_START)" if "b \<le> b'" "i + (b' - b) * each < k" for b'
        proof (cases "b' = b")
          case False
          with that(1) have "b' \<ge> Suc b" by simp
          moreover have "i' + (b' - Suc b) * each < k"
            using step[OF \<open>b' \<ge> Suc b\<close>] that(2) by (simp add: i'_def)
          ultimately show ?thesis using k(5) by blast
        qed (use c in simp)
      qed
    qed
  qed
qed







lemma elegant_statuses:
  assumes "elegant_doTask e pt w pick cs z = Some z'" and "\<not> tq_serial (tl_req (snd z))" and "n = length (tq_items (tl_req (snd z)))"
    and "map rs_status (tl_items (snd z)) = replicate n pnd" and "tl_status (snd z) \<noteq> EM_T_CANCEL"
    and "0 < batch_size (tl_req (snd z))" and "\<And>xs. set (pick xs) = set xs" and "pnd = EM_I_NOT_START \<or> pnd = EM_I_PREPARE"
  shows "\<exists>k \<le> n. batches_at n k EM_I_CANCEL z' \<and> tl_finished (snd z') \<and>
    (k < n \<longrightarrow> (\<exists>b. (cs b \<and> pnd = EM_I_NOT_START) \<and> k = b * batch_size (tl_req (snd z)))) \<and>
    (\<forall>b. b * batch_size (tl_req (snd z)) < k \<longrightarrow> \<not> (cs b \<and> pnd = EM_I_NOT_START))"
proof -
  obtain z1 where l: "elegant_loop e pt w pick cs 0 (batch_size (tl_req (snd z))) (drop 0 (numbered (tq_items (tl_req (snd z))))) z = Some z1"
    and z': "z' = finish z1"
    using assms(1,2) by (auto simp: elegant_doTask_def)
  have b: "batches_at n 0 pnd z" using assms(4) by (simp add: batches_at_def statuses_def)
  obtain k where "k \<le> n" "batches_at n k EM_I_CANCEL z1"
    "k < n \<longrightarrow> (\<exists>b \<ge> 0. (cs b \<and> pnd = EM_I_NOT_START) \<and> k = 0 + (b - 0) * batch_size (tl_req (snd z)))"
    "\<forall>b \<ge> 0. 0 + (b - 0) * batch_size (tl_req (snd z)) < k \<longrightarrow> \<not> (cs b \<and> pnd = EM_I_NOT_START)"
    using elegant_run[where pick = pick, OF l le0 assms(6,7,3,8) b assms(5)] by blast
  then show ?thesis using z' by (intro exI[of _ k]) (auto simp: finish_def batches_at_def statuses_def)
qed


text \<open>
  Fact (prepared_items_run_on). When the preparation of patches has marked the items, cancelling the task
  changes nothing: every item is still run, because only items that have not started are cancelled.
\<close>

theorem prepared_items_run_on:
  assumes "elegant_doTask e pt w pick cs z = Some z'" and "\<not> tq_serial (tl_req (snd z))" and "n = length (tq_items (tl_req (snd z)))"
    and "map rs_status (tl_items (snd z)) = replicate n EM_I_PREPARE" and "tl_status (snd z) \<noteq> EM_T_CANCEL"
    and "0 < batch_size (tl_req (snd z))" and "\<And>xs. set (pick xs) = set xs"
  shows "length (tl_items (snd z')) = n \<and> (\<forall>j < n. rs_status (tl_items (snd z') ! j) \<in> {EM_I_SUCCESS, EM_I_FAILED})"
proof -
  obtain k where k: "k \<le> n" "batches_at n k EM_I_CANCEL z'" "k < n \<longrightarrow> False"
    using elegant_statuses[where pick = pick and pnd = EM_I_PREPARE, OF assms] by auto
  then have "k = n" by simp
  with k(2) show ?thesis by (auto simp: batches_at_def statuses_def)
qed

text \<open>
  Fact (empty_batch_crashes). A task without loss of traffic whose batch size is 0 ends the process as
  soon as it runs: it reads the first item of a batch that has none.
\<close>

theorem empty_batch_crashes:
  assumes "\<not> tq_serial (tl_req (snd z))" and "tq_items (tl_req (snd z)) \<noteq> []" and "tq_eachNum (tl_req (snd z)) = 0"
    and "\<not> cs 0" and "tl_status (snd z) \<noteq> EM_T_CANCEL"
  shows "elegant_doTask e pt w pick cs z = None"
proof -
  have "numbered (tq_items (tl_req (snd z))) \<noteq> []" using assms(2) by (simp add: numbered_def)
  then show ?thesis
    using assms by (simp add: elegant_doTask_def batch_size_def elegant_loop.simps when_cancelled_def)
qed

lemma fail_items_statuses:
  "i + n = length (statuses z) \<Longrightarrow> statuses (fail_items e i n z) = take i (statuses z) @ replicate n EM_I_FAILED"
proof (induction n arbitrary: i z)
  case 0
  then show ?case by simp
next
  case (Suc n)
  define z1 where "z1 = (if rs_log (tl_items (snd z) ! i) = [] then setRspLog e i (tl_log (snd z)) z else z)"
  have s: "statuses z1 = statuses z" using same_task_log[of z e i] by (simp add: z1_def same_task_def)
  have "statuses (fail_items e i (Suc n) z) = statuses (fail_items e (Suc i) n (setRspInfo e i False EM_I_FAILED z1))"
    by (simp add: z1_def)
  also have "\<dots> = take (Suc i) ((statuses z)[i := EM_I_FAILED]) @ replicate n EM_I_FAILED"
    using Suc by (simp add: s)
  also have "\<dots> = take i (statuses z) @ replicate (Suc n) EM_I_FAILED"
    using Suc.prems by (simp add: take_Suc_conv_app_nth)
  finally show ?case .
qed

lemma finished_frames [simp]:
  "tl_finished (snd (setRspInfo e i b st z)) = tl_finished (snd z)" "tl_finished (snd (setRspLog e i l z)) = tl_finished (snd z)"
  "length (tl_items (snd (setRspInfo e i b st z))) = length (tl_items (snd z))" "length (tl_items (snd (setRspLog e i l z))) = length (tl_items (snd z))"
  "tl_req (snd (setRspLog e i l z)) = tl_req (snd z)"
  by (cases z; simp add: setRspInfo_def setRspLog_def upd_item_def)+

lemma fail_items_finished: "tl_finished (snd (fail_items e i n z)) = tl_finished (snd z)"
  by (induction n arbitrary: i z) (simp_all add: Let_def)

lemma prepare_items_frame:
  "prepare_items e i rqs pis z = (x, z') \<Longrightarrow>
   tl_finished (snd z') = tl_finished (snd z) \<and> length (tl_items (snd z')) = length (tl_items (snd z)) \<and>
   length (tq_items (tl_req (snd z'))) = length (tq_items (tl_req (snd z)))"
proof (induction rqs arbitrary: i pis z)
  case Nil
  then show ?case by simp
next
  case (Cons rq rqs)
  show ?case
  proof (cases "str_contains (ti_command rq) ''patch''")
    case False
    with Cons show ?thesis by simp
  next
    case True
    obtain ret pi result m2 where p: "prepareInfo_inner e (prepare_of rq) (fst (setRspInfo e i True EM_I_PREPARE z)) = ((ret, pi, result), m2)"
      by (cases "prepareInfo_inner e (prepare_of rq) (fst (setRspInfo e i True EM_I_PREPARE z))") auto
    show ?thesis
    proof (cases "ret = 0")
      case False
      with Cons.prems True p show ?thesis by (auto simp: Let_def)
    next
      case ok: True
      note h = Cons.prems[simplified prepare_items.simps Let_def True p ok]
      from h show ?thesis using Cons.IH[of "Suc i" "om_put (pi_key pi) pi pis"] by (fastforce simp: True p ok)
    qed
  qed
qed

lemma prepare_files_frame:
  "prepare_files e ps z = (ret, z') \<Longrightarrow>
   tl_finished (snd z') = tl_finished (snd z) \<and> length (tl_items (snd z')) = length (tl_items (snd z)) \<and> tl_req (snd z') = tl_req (snd z)"
proof (induction ps arbitrary: z)
  case Nil
  then show ?case by simp
next
  case (Cons pi ps)
  obtain r m1 where "preparePatch_inner e pi (fst z) = (r, m1)" by (cases "preparePatch_inner e pi (fst z)")
  with Cons show ?case by (cases r) (fastforce split: if_splits)
qed

lemma prepareFile_frame:
  "prepareFile e z = (ret, z') \<Longrightarrow>
   tl_finished (snd z') = tl_finished (snd z) \<and> length (tl_items (snd z')) = length (tl_items (snd z)) \<and>
   length (tq_items (tl_req (snd z'))) = length (tq_items (tl_req (snd z)))"
  by (auto simp: prepareFile_def split: prod.splits sum.splits dest!: prepare_items_frame prepare_files_frame)

text \<open>
  Fact (failed_preparation_stays_open). When the preparation of a task fails, every item is set to
  failed, but the task is never finished.
\<close>

theorem failed_preparation_stays_open:
  assumes "prepareFile e z = (ret, z1)" and "ret \<noteq> 0" and "\<not> tl_finished (snd z)"
    and "length (tl_items (snd z)) = length (tq_items (tl_req (snd z)))"
  shows "\<exists>z'. task_execute e pt w pick cs z = Some z' \<and> (\<forall>r \<in> set (tl_items (snd z')). rs_status r = EM_I_FAILED) \<and>
    \<not> tl_finished (snd z')"
proof -
  define n where "n = length (tq_items (tl_req (snd z1)))"
  have "0 + n = length (statuses z1)" using prepareFile_frame[OF assms(1)] assms(4) by (simp add: n_def statuses_def)
  from fail_items_statuses[OF this, of e] have "set (statuses (fail_items e 0 n z1)) \<subseteq> {EM_I_FAILED}" by auto
  then have "\<forall>r \<in> set (tl_items (snd (fail_items e 0 n z1))). rs_status r = EM_I_FAILED" by (auto simp: statuses_def)
  moreover have "\<not> tl_finished (snd (fail_items e 0 n z1))" using prepareFile_frame[OF assms(1)] assms(3) by (simp add: fail_items_finished)
  ultimately show ?thesis using assms(1,2) by (simp add: task_execute_def n_def)
qed

text \<open>
  Fact (resubmitted_elegant_cancels_itself). A task without loss of traffic that is submitted again, under
  its number, while it is recorded as the running one of its server, is accepted and is cancelled
  at once: the task looked up to be cancelled is the new one.
\<close>

theorem resubmitted_elegant_cancels_itself:
  assumes "tq_items req = rq # rqs" and "tq_taskNo req \<noteq> []"
    and "om_find (et_elegant x) (ti_application rq @ ''.'' @ ti_serverName rq) = Some (tq_taskNo req)"
  shows "\<exists>x' tk. et_addTaskReq tn req x = (0, x') \<and> om_find (et_task x') (tq_taskNo req) = Some tk \<and>
    tl_status tk = EM_T_CANCEL \<and> (\<forall>r \<in> set (tl_items tk). rs_status r = EM_I_CANCEL)"
proof -
  let ?new = "new_task_list req (if tq_isElegant req then 600 else 300) tn"
  have c: "tl_status (cancelTask ?new) = EM_T_CANCEL" "\<forall>r \<in> set (tl_items (cancelTask ?new)). rs_status r = EM_I_CANCEL"
    by (auto simp: cancelTask_def new_task_list_def new_item_def assms(1) Let_def)
  have "tl_finished ?new = False" by (simp add: new_task_list_def)
  then show ?thesis
    using assms c by (simp add: et_addTaskReq_def Let_def et_cancelTask_def om_find_put)
qed

section \<open>Witnesses\<close>

definition sample_item :: "string \<Rightarrow> task_item_req" where
  "sample_item no = \<lparr> ti_itemNo = no, ti_application = ''A'', ti_serverName = ''B'', ti_nodeName = ''n1'', ti_command = ''move'',
     ti_userName = [], ti_parameters = Map.empty \<rparr>"

definition sample_req :: "bool \<Rightarrow> int \<Rightarrow> task_req" where
  "sample_req serial each = \<lparr> tq_taskNo = ''t'', tq_items = [sample_item ''i1'', sample_item ''i2''], tq_serial = serial,
     tq_isElegant = \<not> serial, tq_eachNum = each \<rparr>"

definition sample_task :: "bool \<Rightarrow> int \<Rightarrow> task_state" where
  "sample_task serial each = (idle, new_task_list (sample_req serial each) 300 0)"

lemma sample_task_simps [simp]:
  "tl_req (snd (sample_task s n)) = sample_req s n" "tq_items (sample_req s n) = [sample_item ''i1'', sample_item ''i2'']"
  "tq_serial (sample_req s n) = s" "tq_eachNum (sample_req s n) = n" "tl_status (snd (sample_task s n)) = EM_T_NOT_START"
  "map rs_status (tl_items (snd (sample_task s n))) = [EM_I_NOT_START, EM_I_NOT_START]" "tl_finished (snd (sample_task s n)) = False"
  "length (tl_items (snd (sample_task s n))) = 2"
  by (simp_all add: sample_task_def sample_req_def new_task_list_def new_item_def)

lemma sample_item_fails: "executeSingleTask e pt i (sample_item no) z = Some (EM_I_FAILED, setRspLog e i ''command not support!'' z)"
  by (simp add: executeSingleTask_def run_command_def sample_item_def)

lemma sample_parallel: "\<exists>z'. parallel_doTask e pt (i, sample_item no) z = Some z'"
  by (simp add: parallel_doTask_def sample_item_fails)

lemma items_total: "(\<forall>p \<in> set ps. \<forall>z. \<exists>z'. parallel_doTask e pt p z = Some z') \<Longrightarrow> \<exists>z'. fold_opt (parallel_doTask e pt) ps z = Some z'"
proof (induction ps arbitrary: z)
  case (Cons p ps)
  from Cons.prems have "\<exists>z1. parallel_doTask e pt p z = Some z1" by (meson list.set_intros(1))
  then obtain z1 where "parallel_doTask e pt p z = Some z1" by blast
  with Cons show ?case by simp
qed simp

lemma elegant_total:
  "(\<forall>p \<in> set ps. \<forall>z. \<exists>z'. parallel_doTask e pt p z = Some z') \<Longrightarrow> (\<And>xs. set (pick xs) = set xs) \<Longrightarrow> 0 < each \<Longrightarrow>
   \<exists>z'. elegant_loop e pt w pick cs b each ps z = Some z'"
proof (induction "length ps" arbitrary: ps b z rule: less_induct)
  case less
  let ?z1 = "when_cancelled (cs b) z"
  let ?z2 = "close_flow e w (take each ps) (fst ?z1, fold pause_item (take each ps) (snd ?z1))"
  show ?case
  proof (cases "ps = []")
    case False
    have "\<forall>p \<in> set (pick (take each ps)). \<forall>z. \<exists>z'. parallel_doTask e pt p z = Some z'"
      using less.prems(1,2) by (metis in_set_takeD)
    from items_total[OF this, of ?z2] obtain z3 where "fold_opt (parallel_doTask e pt) (pick (take each ps)) ?z2 = Some z3" by blast
    moreover have "\<exists>z'. elegant_loop e pt w pick cs (Suc b) each (drop each ps) z3 = Some z'"
      by (rule less.hyps) (use False less.prems in \<open>auto dest: in_set_dropD\<close>)
    ultimately show ?thesis using less.prems(3) by (simp add: elegant_loop.simps[of e pt w pick cs b each ps z] Let_def)
  qed (simp add: elegant_loop.simps)
qed

lemma sample_runs:
  assumes "0 < batch_size (sample_req False each)"
  shows "\<exists>z'. elegant_doTask e pt w rev cs (m, (snd (sample_task False each))\<lparr> tl_items := is \<rparr>) = Some z'"
proof -
  let ?ps = "numbered [sample_item ''i1'', sample_item ''i2'']" and ?z = "(m, (snd (sample_task False each))\<lparr> tl_items := is \<rparr>)"
  have ps: "?ps = [(0, sample_item ''i1''), (1, sample_item ''i2'')]" by (simp add: numbered_def)
  have "\<forall>p \<in> set ?ps. \<forall>z. \<exists>z'. parallel_doTask e pt p z = Some z'" unfolding ps using sample_parallel by (metis list.set_cases set_ConsD empty_iff list.set(1))
  from elegant_total[OF this _ assms, of rev w cs 0 ?z] obtain z' where
    "elegant_loop e pt w rev cs 0 (batch_size (sample_req False each)) ?ps ?z = Some z'" by auto
  then have "elegant_doTask e pt w rev cs ?z = Some (finish z')" by (simp add: elegant_doTask_def)
  then show ?thesis by blast
qed

theorem serial_outcome_witness:
  "\<exists>z'. serial_doTask (sample_adm NoRow None) 60 (\<lambda>_. True) (sample_task True 1) = Some z' \<and> tl_finished (snd z') \<and>
     hd (map rs_status (tl_items (snd z'))) \<noteq> EM_I_CANCEL"
proof -
  obtain z' where z': "serial_doTask (sample_adm NoRow None) 60 (\<lambda>_. True) (sample_task True 1) = Some z'"
    by (simp add: serial_doTask_def sample_item_fails Let_def)
  from serial_outcome[OF z', of 2] obtain k where k: "tl_finished (snd z')"
    "map rs_status (tl_items (snd z')) = take 2 (replicate k EM_I_SUCCESS @ EM_I_FAILED # replicate 2 EM_I_CANCEL)" by (simp del: take_append) blast
  then have "hd (map rs_status (tl_items (snd z'))) \<noteq> EM_I_CANCEL" by (cases k) simp_all
  with z' k(1) show ?thesis by blast
qed


theorem prepared_items_run_on_witness:
  "\<exists>z'. elegant_doTask (sample_adm NoRow None) 60 75 rev (\<lambda>_. True)
      (idle, (snd (sample_task False 1))\<lparr> tl_items := replicate 2 (new_item\<lparr> rs_status := EM_I_PREPARE \<rparr>) \<rparr>) = Some z' \<and>
    (\<forall>j < 2. rs_status (tl_items (snd z') ! j) \<noteq> EM_I_CANCEL)"
proof -
  let ?z = "(idle, (snd (sample_task False 1))\<lparr> tl_items := replicate 2 (new_item\<lparr> rs_status := EM_I_PREPARE \<rparr>) \<rparr>)"
  obtain z' where z': "elegant_doTask (sample_adm NoRow None) 60 75 rev (\<lambda>_. True) ?z = Some z'"
    using sample_runs[of 1 "sample_adm NoRow None" 60 75 "\<lambda>_. True" idle] by (simp add: batch_size_def) blast
  from prepared_items_run_on[OF z', of 2] have "\<forall>j < 2. rs_status (tl_items (snd z') ! j) \<in> {EM_I_SUCCESS, EM_I_FAILED}"
    by (auto simp: batch_size_def numeral_2_eq_2)
  then have "\<forall>j < 2. rs_status (tl_items (snd z') ! j) \<noteq> EM_I_CANCEL" by auto
  with z' show ?thesis by blast
qed

theorem empty_batch_crashes_witness:
  "elegant_doTask (sample_adm NoRow None) 60 75 rev (\<lambda>_. False) (sample_task False 0) = None"
  by (rule empty_batch_crashes) simp_all

definition sample_patches :: task_state where
  "sample_patches = (idle, (snd (sample_task False 1))\<lparr> tl_req := (sample_req False 1)\<lparr> tq_items :=
     [(sample_item ''i1'')\<lparr> ti_command := ''patch_tars'' \<rparr>, (sample_item ''i2'')\<lparr> ti_command := ''patch_tars'' \<rparr>] \<rparr> \<rparr>)"

theorem failed_preparation_stays_open_witness:
  "\<exists>z'. task_execute (sample_adm NoRow None) 60 75 rev (\<lambda>_. False) sample_patches = Some z' \<and>
    (\<forall>r \<in> set (tl_items (snd z')). rs_status r = EM_I_FAILED) \<and> \<not> tl_finished (snd z')"
proof -
  have "fst (prepareFile (sample_adm NoRow None) sample_patches) = 17"
    by (simp add: prepareFile_def sample_patches_def prepareInfo_inner_def sample_item_def prepare_of_def Let_def split_beta
      sample_adm_def sample_codes_def)
  then obtain z1 where "prepareFile (sample_adm NoRow None) sample_patches = (17, z1)" by (metis prod.collapse)
  from failed_preparation_stays_open[OF this] show ?thesis by (simp add: sample_patches_def)
qed

theorem resubmitted_elegant_cancels_itself_witness:
  "\<exists>x' tk. et_addTaskReq 5 (sample_req False 1) \<lparr> et_task = [], et_elegant = [(''A.B'', ''t'')] \<rparr> = (0, x') \<and>
     om_find (et_task x') ''t'' = Some tk \<and> tl_status tk = EM_T_CANCEL \<and> (\<forall>r \<in> set (tl_items tk). rs_status r = EM_I_CANCEL)"
  using resubmitted_elegant_cancels_itself[of "sample_req False 1" "sample_item ''i1''" "[sample_item ''i2'']"
      "\<lparr> et_task = [], et_elegant = [(''A.B'', ''t'')] \<rparr>" 5]
  by (simp add: sample_req_def sample_item_def)







end
