(* ===== verification/Config_Server.thy ===== *)
theory Config_Server
  imports Tars_Map
begin

text \<open>
  The configuration server, \<open>ConfigServer/ConfigImp.cpp\<close>: files of settings per application, per
  server and per server on a host, with references to other files and variants for sets, merged for
  the server that asks, under a limit of requests per server and file. The database is a pair of tables
  and a list of faults: each query takes the next entry of the list, where \<open>None\<close> (and the end of
  the list) answers it. String comparison in the database is equality. What the queries of one call see is one state of
  the tables. \<open>TC_Config::parseString\<close> and the separation of strings belong to the utility library and are parameters.
\<close>

section \<open>Tables, queries and faults\<close>

datatype cf_level = LevelApp | LevelAllServer | LevelIpServer

record cf_row =
  cf_id :: int
  cf_server_name :: string
  cf_filename :: string
  cf_host :: string
  cf_lev :: cf_level
  cf_set :: "string \<times> string \<times> string"
  cf_config :: string

record cf_db =
  cf_files :: "cf_row list"
  cf_refs :: "(int \<times> int) list"

datatype cf_fault = MysqlException string | UnknownException

type_synonym cf_faults = "cf_fault option list"

fun cf_query :: "'r list \<Rightarrow> cf_faults \<Rightarrow> (cf_fault + 'r list) \<times> cf_faults" where
  "cf_query rs [] = (Inr rs, [])"
| "cf_query rs (None # fs) = (Inr rs, fs)"
| "cf_query rs (Some e # fs) = (Inl e, fs)"

abbreviation no_set :: "string \<times> string \<times> string" where
  "no_set \<equiv> ('''', '''', '''')"

definition cf_one :: "cf_row list \<Rightarrow> string \<times> int" where
  "cf_one rs = (case rs of [r] \<Rightarrow> (cf_config r, cf_id r) | _ \<Rightarrow> ('''', 0))"

text \<open>The handlers of the \<open>catch\<close> clauses that report through the out parameter.\<close>

fun cf_caught :: "cf_fault \<Rightarrow> string \<Rightarrow> int \<times> string" where
  "cf_caught (MysqlException w) config = (- 1, w)"
| "cf_caught UnknownException config = (- 1, config)"

record config_info =
  ci_appname :: string
  ci_servername :: string
  ci_filename :: string
  ci_bAppOnly :: bool
  ci_host :: string
  ci_setdivision :: string

definition app_server :: "string \<Rightarrow> string \<Rightarrow> string" where
  "app_server app server = app @ ''.'' @ server"

text \<open>\<open>loadconf\<close>: the limit of requests and the minutes they are counted over.\<close>

definition loadconf_limits :: "tc_common \<Rightarrow> (string \<Rightarrow> string \<Rightarrow> string) \<Rightarrow> int \<times> int" where
  "loadconf_limits tc conf =
     (let l = tc_strto_int tc (conf ''/tars/limit<limitinterval>'' ''10'');
          i = tc_strto_int tc (conf ''/tars/limit<interval>'' ''1'')
      in (if l \<le> 0 then 10 else l, if i \<le> 0 then 1 else i))"

section \<open>Merging\<close>

definition config_sep :: string where
  "config_sep = [CHR 0x0D, CHR 0x0A, CHR 0x0D, CHR 0x0A]"

definition mergeConfig :: "string \<Rightarrow> string \<Rightarrow> string" where
  "mergeConfig low high =
     (if low = '''' then high else if high = '''' then low else low @ config_sep @ high)"

text \<open>The same rule as \<open>loadConfigByHost\<close> writes it in place.\<close>

definition append_config :: "string \<Rightarrow> string \<Rightarrow> string" where
  "append_config config x =
     (if x \<noteq> '''' then (if config = '''' then config @ x else config @ config_sep @ x) else config)"

definition getSetInfo :: "tc_common \<Rightarrow> string \<Rightarrow> (string \<times> string \<times> string) option" where
  "getSetInfo tc d = (case tc_sepstr tc d ''.'' False of [a, b, c] \<Rightarrow> Some (a, b, c) | _ \<Rightarrow> None)"

section \<open>References\<close>

definition getReferenceIds :: "cf_db \<Rightarrow> int \<Rightarrow> cf_faults \<Rightarrow> (int \<times> int list) \<times> cf_faults" where
  "getReferenceIds db i fs =
     (case cf_query (map snd (filter (\<lambda>r. fst r = i) (cf_refs db))) fs of
        (Inl e, fs) \<Rightarrow> ((- 1, []), fs)
      | (Inr ids, fs) \<Rightarrow> ((0, ids), fs))"

definition loadConfigByPK :: "cf_db \<Rightarrow> int \<Rightarrow> string \<Rightarrow> cf_faults \<Rightarrow> (int \<times> string) \<times> cf_faults" where
  "loadConfigByPK db i sConfig fs =
     (case cf_query (filter (\<lambda>r. cf_id r = i) (cf_files db)) fs of
        (Inl e, fs) \<Rightarrow> (cf_caught e sConfig, fs)
      | (Inr rs, fs) \<Rightarrow> ((0, case rs of [r] \<Rightarrow> cf_config r | _ \<Rightarrow> sConfig), fs))"

definition loadRefConfigByPK ::
  "tc_common \<Rightarrow> cf_db \<Rightarrow> int \<Rightarrow> string \<Rightarrow> string \<Rightarrow> cf_faults \<Rightarrow> (int \<times> string) \<times> cf_faults" where
  "loadRefConfigByPK tc db i setdivision sConfig fs =
     (case cf_query (filter (\<lambda>r. cf_id r = i) (cf_files db)) fs of
        (Inl e, fs) \<Rightarrow> (cf_caught e sConfig, fs)
      | (Inr rs, fs) \<Rightarrow>
          (case rs of
             [r] \<Rightarrow>
               (case getSetInfo tc setdivision of
                  None \<Rightarrow> ((0, mergeConfig (cf_config r) ''''), fs)
                | Some s \<Rightarrow>
                    (case cf_query (filter (\<lambda>q. cf_server_name q = cf_server_name r \<and>
                             cf_filename q = cf_filename r \<and> cf_lev q = LevelApp \<and> cf_set q = s)
                             (cf_files db)) fs of
                       (Inl e, fs) \<Rightarrow> (cf_caught e sConfig, fs)
                     | (Inr ss, fs) \<Rightarrow> ((0, mergeConfig (cf_config r) (fst (cf_one ss))), fs)))
           | _ \<Rightarrow> ((0, sConfig), fs)))"

text \<open>The two loops over the references; the first argument is \<open>iRet\<close> before the loop.\<close>

fun add_references :: "cf_db \<Rightarrow> int list \<Rightarrow> int \<times> string \<Rightarrow> cf_faults \<Rightarrow> (int \<times> string) \<times> cf_faults" where
  "add_references db [] (iRet, config) fs = ((iRet, config), fs)"
| "add_references db (i # ids) (iRet, config) fs =
     (let ((r, refConfig), fs) = loadConfigByPK db i '''' fs
      in add_references db ids (r, if r = 0 then append_config config refConfig else config) fs)"

fun merge_references ::
  "tc_common \<Rightarrow> cf_db \<Rightarrow> string \<Rightarrow> int list \<Rightarrow> int \<times> string \<Rightarrow> cf_faults \<Rightarrow> (int \<times> string) \<times> cf_faults" where
  "merge_references tc db d [] (iRet, sTemp) fs = ((iRet, sTemp), fs)"
| "merge_references tc db d (i # ids) (iRet, sTemp) fs =
     (let ((r, refConfig), fs) = loadRefConfigByPK tc db i d '''' fs
      in merge_references tc db d ids
           (r, if r = 0 \<and> refConfig \<noteq> '''' then mergeConfig sTemp refConfig else sTemp) fs)"

section \<open>Loading for a server on a host\<close>

definition all_server_rows :: "cf_db \<Rightarrow> string \<Rightarrow> string \<Rightarrow> string \<times> string \<times> string \<Rightarrow> cf_row list" where
  "all_server_rows db sname fname s = filter (\<lambda>r. cf_server_name r = sname \<and> cf_filename r = fname \<and>
     cf_lev r = LevelAllServer \<and> cf_set r = s) (cf_files db)"

definition ip_server_rows ::
  "cf_db \<Rightarrow> string \<Rightarrow> string \<Rightarrow> string \<Rightarrow> string \<times> string \<times> string \<Rightarrow> cf_row list" where
  "ip_server_rows db sname fname host s = filter (\<lambda>r. cf_server_name r = sname \<and> cf_filename r = fname \<and>
     cf_host r = host \<and> cf_lev r = LevelIpServer \<and> cf_set r = s) (cf_files db)"

definition loadConfigByHost ::
  "cf_db \<Rightarrow> string \<Rightarrow> string \<Rightarrow> string \<Rightarrow> cf_faults \<Rightarrow> (int \<times> string) \<times> cf_faults" where
  "loadConfigByHost db appServerName fileName host fs =
     (case cf_query (all_server_rows db appServerName fileName no_set) fs of
        (Inl e, fs) \<Rightarrow> (cf_caught e '''', fs)
      | (Inr rs, fs) \<Rightarrow>
          (let (sAll, iAll) = cf_one rs;
               ((iRet, ids), fs) = getReferenceIds db iAll fs;
               ((iRet, config), fs) =
                 (if iRet = 0 then add_references db ids (iRet, '''') fs else ((iRet, ''''), fs));
               config = append_config config sAll
           in (case cf_query (ip_server_rows db appServerName fileName host no_set) fs of
                 (Inl e, fs) \<Rightarrow> (cf_caught e config, fs)
               | (Inr rs, fs) \<Rightarrow>
                   (let (sIp, iIp) = cf_one rs;
                        ((iRet, ids), fs) = getReferenceIds db iIp fs;
                        ((iRet, config), fs) =
                          (if iRet = 0 then add_references db ids (iRet, config) fs
                           else ((iRet, config), fs))
                    in ((iRet, append_config config sIp), fs)))))"

text \<open>The overload that takes a \<open>ConfigInfo\<close>.\<close>

definition loadConfigByHost_info ::
  "tc_common \<Rightarrow> cf_db \<Rightarrow> config_info \<Rightarrow> string \<Rightarrow> cf_faults \<Rightarrow> (int \<times> string) \<times> cf_faults" where
  "loadConfigByHost_info tc db info hostName fs =
     (let sHost = (if ci_host info = '''' then hostName else ci_host info);
          sname = app_server (ci_appname info) (ci_servername info);
          d = ci_setdivision info
      in (case (if d \<noteq> '''' then getSetInfo tc d else Some no_set) of
            None \<Rightarrow> ((- 1, ''''), fs)
          | Some s \<Rightarrow>
              (case cf_query (all_server_rows db sname (ci_filename info) s) fs of
                 (Inl e, fs) \<Rightarrow> (cf_caught e '''', fs)
               | (Inr rs, fs) \<Rightarrow>
                   (let (sAll, iAll) = cf_one rs;
                        ((iRet, ids), fs) = getReferenceIds db iAll fs;
                        ((iRet, sTemp), fs) =
                          (if iRet = 0 then merge_references tc db d ids (iRet, '''') fs
                           else ((iRet, ''''), fs));
                        config = mergeConfig sTemp sAll
                    in (case cf_query (ip_server_rows db sname (ci_filename info) sHost s) fs of
                          (Inl e, fs) \<Rightarrow> (cf_caught e config, fs)
                        | (Inr rs, fs) \<Rightarrow>
                            (let (sIp, iIp) = cf_one rs;
                                 ((iRet, ids), fs) = getReferenceIds db iIp fs;
                                 ((iRet, sTemp), fs) =
                                   (if iRet = 0 then merge_references tc db d ids (iRet, '''') fs
                                    else ((iRet, ''''), fs))
                             in ((iRet, mergeConfig config (mergeConfig sTemp sIp)), fs)))))))"

section \<open>Loading for an application\<close>

definition app_rows :: "cf_db \<Rightarrow> string \<Rightarrow> string \<Rightarrow> string \<times> string \<times> string \<Rightarrow> cf_row list" where
  "app_rows db app fname s = filter (\<lambda>r. cf_server_name r = app \<and> cf_filename r = fname \<and>
     cf_lev r = LevelApp \<and> cf_set r = s) (cf_files db)"

definition loadAppConfig ::
  "cf_db \<Rightarrow> string \<Rightarrow> string \<Rightarrow> cf_faults \<Rightarrow> (int \<times> string) \<times> cf_faults" where
  "loadAppConfig db app fname fs =
     (case cf_query (app_rows db app fname no_set) fs of
        (Inl e, fs) \<Rightarrow> (cf_caught e '''', fs)
      | (Inr rs, fs) \<Rightarrow> ((0, fst (cf_one rs)), fs))"

definition loadAppConfigByInfo ::
  "tc_common \<Rightarrow> cf_db \<Rightarrow> config_info \<Rightarrow> cf_faults \<Rightarrow> (int \<times> string) \<times> cf_faults" where
  "loadAppConfigByInfo tc db info fs =
     (case cf_query (app_rows db (ci_appname info) (ci_filename info) no_set) fs of
        (Inl e, fs) \<Rightarrow> (cf_caught e '''', fs)
      | (Inr rs, fs) \<Rightarrow>
          (let sApp = fst (cf_one rs)
           in if ci_setdivision info = '''' then ((0, mergeConfig sApp ''''), fs)
              else (case getSetInfo tc (ci_setdivision info) of
                      None \<Rightarrow> ((- 1, ''''), fs)
                    | Some s \<Rightarrow>
                        (case cf_query (app_rows db (ci_appname info) (ci_filename info) s) fs of
                           (Inl e, fs) \<Rightarrow> (cf_caught e '''', fs)
                         | (Inr rs, fs) \<Rightarrow> ((0, mergeConfig sApp (fst (cf_one rs))), fs)))))"

section \<open>The limit of requests\<close>

record server_key =
  sk_application :: string
  sk_serverName :: string
  sk_nodeName :: string
  sk_filename :: string

type_synonym load_limits = "server_key \<Rightarrow> (int \<times> int) option"

definition IsLimited ::
  "int \<Rightarrow> int \<Rightarrow> int \<Rightarrow> server_key \<Rightarrow> load_limits \<Rightarrow> bool \<times> load_limits" where
  "IsLimited limitInterval interval tnow k m =
     (case m k of
        Some (t, n) \<Rightarrow>
          if tnow - t \<le> 60 * interval
          then (if n \<le> limitInterval then (False, m(k \<mapsto> (t, n + 1))) else (True, m))
          else (False, m(k := None))
      | None \<Rightarrow> (False, m(k \<mapsto> (tnow, 1))))"

section \<open>The operations of the servant\<close>

text \<open>The server's state and environment during one call.\<close>

record config_env =
  ce_tc :: tc_common
  ce_parse :: "string \<Rightarrow> string option"
  ce_host_name :: string
  ce_tnow :: int
  ce_limit_interval :: int
  ce_interval :: int

definition check_limit ::
  "config_env \<Rightarrow> string \<Rightarrow> string \<Rightarrow> string \<Rightarrow> load_limits \<Rightarrow> bool \<times> load_limits" where
  "check_limit e app server fname m = IsLimited (ce_limit_interval e) (ce_interval e) (ce_tnow e)
     \<lparr>sk_application = app, sk_serverName = server, sk_nodeName = ce_host_name e, sk_filename = fname\<rparr> m"

definition loadConfig ::
  "config_env \<Rightarrow> cf_db \<Rightarrow> string \<Rightarrow> string \<Rightarrow> string \<Rightarrow> string \<Rightarrow> load_limits \<Rightarrow> cf_faults \<Rightarrow>
     (int \<times> string) \<times> load_limits" where
  "loadConfig e db app server fname config m fs =
     (let (limited, m) = check_limit e app server fname m
      in if limited then ((429, config), m)
         else if server \<noteq> ''''
         then (fst (loadConfigByHost db (app_server app server) fname (ce_host_name e) fs), m)
         else (fst (loadAppConfig db app fname fs), m))"

definition loadConfigByInfo ::
  "config_env \<Rightarrow> cf_db \<Rightarrow> config_info \<Rightarrow> string \<Rightarrow> load_limits \<Rightarrow> cf_faults \<Rightarrow>
     (int \<times> string) \<times> load_limits" where
  "loadConfigByInfo e db info config m fs =
     (let (limited, m) = check_limit e (ci_appname info) (ci_servername info) (ci_filename info) m
      in if limited then ((429, config), m)
         else if ci_bAppOnly info \<or> ci_servername info = ''''
         then (fst (loadAppConfigByInfo (ce_tc e) db info fs), m)
         else (fst (loadConfigByHost_info (ce_tc e) db info (ce_host_name e) fs), m))"

definition check_parsed :: "config_env \<Rightarrow> int \<times> string \<Rightarrow> int \<times> string" where
  "check_parsed e r =
     (if fst r \<noteq> 0 then (- 1, snd r)
      else (case ce_parse e (snd r) of None \<Rightarrow> (0, snd r) | Some w \<Rightarrow> (- 1, w)))"

definition checkConfig ::
  "config_env \<Rightarrow> cf_db \<Rightarrow> string \<Rightarrow> string \<Rightarrow> string \<Rightarrow> cf_faults \<Rightarrow> int \<times> string" where
  "checkConfig e db appServerName fname host fs =
     check_parsed e (fst (loadConfigByHost db appServerName fname host fs))"

definition checkConfigByInfo ::
  "config_env \<Rightarrow> cf_db \<Rightarrow> config_info \<Rightarrow> cf_faults \<Rightarrow> int \<times> string" where
  "checkConfigByInfo e db info fs =
     check_parsed e (fst (loadConfigByHost_info (ce_tc e) db info (ce_host_name e) fs))"

definition list_files :: "cf_row list \<Rightarrow> string list \<Rightarrow> cf_faults \<Rightarrow> int \<times> string list" where
  "list_files rs vf fs =
     (case fst (cf_query rs fs) of Inl x \<Rightarrow> (- 1, vf) | Inr rs \<Rightarrow> (0, vf @ map cf_filename rs))"

definition ListConfig ::
  "config_env \<Rightarrow> cf_db \<Rightarrow> string \<Rightarrow> string \<Rightarrow> string list \<Rightarrow> cf_faults \<Rightarrow> int \<times> string list" where
  "ListConfig e db app server vf fs =
     list_files (filter (\<lambda>r. cf_server_name r = app_server app server \<and> cf_host r = ce_host_name e \<and>
       cf_lev r = LevelIpServer \<and> cf_set r = no_set) (cf_files db)) vf fs"

definition ListConfigByInfo ::
  "config_env \<Rightarrow> cf_db \<Rightarrow> config_info \<Rightarrow> string list \<Rightarrow> cf_faults \<Rightarrow> int \<times> string list" where
  "ListConfigByInfo e db info vf fs =
     (let sHost = (if ci_host info = '''' then ce_host_name e else ci_host info);
          d = ci_setdivision info
      in (case (if d \<noteq> '''' then getSetInfo (ce_tc e) d else Some no_set) of
            None \<Rightarrow> (- 1, vf)
          | Some s \<Rightarrow>
              list_files (filter (\<lambda>r. cf_server_name r = app_server (ci_appname info) (ci_servername info) \<and>
                cf_host r = sHost \<and> cf_lev r = LevelIpServer \<and> cf_set r = s) (cf_files db)) vf fs))"

text \<open>\<open>select distinct filename\<close>: each name once, here in the order of the first row that has it.\<close>

definition distinct_names :: "cf_row list \<Rightarrow> string list" where
  "distinct_names rs = rev (remdups (rev (map cf_filename rs)))"

definition ListAllConfigByInfo ::
  "config_env \<Rightarrow> cf_db \<Rightarrow> config_info \<Rightarrow> string list \<Rightarrow> load_limits \<Rightarrow> cf_faults \<Rightarrow>
     (int \<times> string list) \<times> load_limits" where
  "ListAllConfigByInfo e db info vf m fs =
     (let (limited, m) = check_limit e (ci_appname info) (ci_servername info) '''' m;
          answer = (\<lambda>rs. case fst (cf_query (distinct_names rs) fs) of
                           Inl x \<Rightarrow> (- 1, vf) | Inr ns \<Rightarrow> (0, vf @ ns));
          d = ci_setdivision info
      in (if limited then (429, vf)
          else if ci_bAppOnly info
          then answer (filter (\<lambda>r. cf_server_name r = ci_appname info \<and> cf_lev r = LevelApp) (cf_files db))
          else (case (if d \<noteq> '''' then getSetInfo (ce_tc e) d else Some no_set) of
                  None \<Rightarrow> (- 1, vf)
                | Some s \<Rightarrow>
                    answer (filter (\<lambda>r. cf_server_name r = app_server (ci_appname info) (ci_servername info) \<and>
                      (ci_host info \<noteq> '''' \<longrightarrow> cf_host r = ci_host info \<and> cf_lev r = LevelIpServer) \<and>
                      cf_set r = s) (cf_files db))), m))"

section \<open>Merging is a monoid\<close>

lemma merge_Nil [simp]: "mergeConfig '''' x = x" "mergeConfig x '''' = x"
  by (simp_all add: mergeConfig_def)

lemma merge_empty_iff [simp]: "mergeConfig x y = '''' \<longleftrightarrow> x = '''' \<and> y = ''''"
  by (simp add: mergeConfig_def)

lemma merge_assoc: "mergeConfig (mergeConfig x y) z = mergeConfig x (mergeConfig y z)"
  by (simp add: mergeConfig_def)

lemma append_is_merge: "append_config c x = mergeConfig c x"
  by (simp add: append_config_def mergeConfig_def)

abbreviation merge_all :: "string list \<Rightarrow> string" where
  "merge_all xs \<equiv> foldr mergeConfig xs ''''"

lemma merge_all_from: "foldr mergeConfig xs z = mergeConfig (merge_all xs) z"
  by (induction xs) (simp_all add: merge_assoc)

section \<open>The two overloads\<close>

lemma ref_without_set:
  assumes "getSetInfo tc d = None"
  shows "loadRefConfigByPK tc db i d s fs = loadConfigByPK db i s fs"
  unfolding loadRefConfigByPK_def loadConfigByPK_def using assms
  by (auto split: sum.splits prod.splits list.splits)

lemma merge_references_from:
  "merge_references tc db d ids (r, mergeConfig c s) fs =
     (let ((r', t), fs') = merge_references tc db d ids (r, s) fs in ((r', mergeConfig c t), fs'))"
proof (induction ids arbitrary: r s fs)
  case (Cons i ids)
  obtain r1 c1 fs1 where step: "loadRefConfigByPK tc db i d '''' fs = ((r1, c1), fs1)"
    by (metis surj_pair)
  show ?case
    using Cons[of r1 s fs1] Cons[of r1 "mergeConfig s c1" fs1] step by (auto simp: merge_assoc)
qed simp

lemma add_is_merge_references:
  assumes "getSetInfo tc d = None"
  shows "add_references db ids (r, c) fs = merge_references tc db d ids (r, c) fs"
proof (induction ids arbitrary: r c fs)
  case (Cons i ids)
  obtain r1 c1 fs1 where step: "loadConfigByPK db i '''' fs = ((r1, c1), fs1)"
    by (metis surj_pair)
  then have "loadRefConfigByPK tc db i d '''' fs = ((r1, c1), fs1)"
    by (simp add: ref_without_set[OF assms])
  with step Cons[of r1 _ fs1] show ?case by (simp add: append_is_merge)
qed simp

lemma add_references_from:
  assumes "getSetInfo tc d = None"
  shows "add_references db ids (r, c) fs =
     (let ((r', t), fs') = merge_references tc db d ids (r, '''') fs in ((r', mergeConfig c t), fs'))"
  using merge_references_from[of tc db d ids r c "''''" fs]
  by (simp add: add_is_merge_references[OF assms])

text \<open>
  Property C23 (overloads_agree). The two overloads of \<open>loadConfigByHost\<close> are different code: one
  appends to the answer in place, the other merges into a temporary and merges the parts. For a
  request without a set they give the same code and the same text, whatever the tables hold and
  whatever queries fail. The hypothesis on the library is that splitting an empty text gives no parts.
\<close>

theorem overloads_agree:
  assumes "tc_sepstr tc '''' ''.'' False = []" and "ci_setdivision info = ''''"
  shows "loadConfigByHost_info tc db info hostName fs =
     loadConfigByHost db (app_server (ci_appname info) (ci_servername info)) (ci_filename info)
       (if ci_host info = '''' then hostName else ci_host info) fs"
proof -
  have none: "getSetInfo tc '''' = None"
    using assms(1) by (simp add: getSetInfo_def)
  show ?thesis
    unfolding loadConfigByHost_info_def loadConfigByHost_def assms(2) Let_def
    by (auto simp: add_references_from[OF none] append_is_merge merge_assoc
        split: sum.splits prod.splits)
qed



definition sample_cf_db :: cf_db where
  "sample_cf_db = \<lparr>cf_files =
     [\<lparr>cf_id = 1, cf_server_name = ''A.S'', cf_filename = ''f'', cf_host = '''', cf_lev = LevelAllServer,
       cf_set = no_set, cf_config = ''all''\<rparr>,
      \<lparr>cf_id = 2, cf_server_name = ''A.S'', cf_filename = ''f'', cf_host = ''h'', cf_lev = LevelIpServer,
       cf_set = no_set, cf_config = ''ip''\<rparr>,
      \<lparr>cf_id = 3, cf_server_name = ''A'', cf_filename = ''g'', cf_host = '''', cf_lev = LevelApp,
       cf_set = no_set, cf_config = ''app''\<rparr>],
     cf_refs = [(1, 3)]\<rparr>"

definition sample_cf_tc :: tc_common where
  "sample_cf_tc = \<lparr>tc_lower = id, tc_trim = id, tc_strto_int = (\<lambda>s. 0), tc_strto_uint = (\<lambda>s. 0),
     tc_sepstr = (\<lambda>s d e. if s = '''' then [] else [s]), tc_sepstr_int = (\<lambda>s d e. []),
     tc_isdigit = (\<lambda>s. False)\<rparr>"

definition sample_cf_info :: config_info where
  "sample_cf_info = \<lparr>ci_appname = ''A'', ci_servername = ''S'', ci_filename = ''f'', ci_bAppOnly = False,
     ci_host = '''', ci_setdivision = ''''\<rparr>"

theorem overloads_agree_witness:
  "loadConfigByHost_info sample_cf_tc sample_cf_db sample_cf_info ''h'' [] =
     loadConfigByHost sample_cf_db ''A.S'' ''f'' ''h'' []"
  using overloads_agree[of sample_cf_tc sample_cf_info sample_cf_db "''h''" "[]"]
  by (simp add: sample_cf_tc_def sample_cf_info_def app_server_def)

section \<open>What is served\<close>

text \<open>The text of a referenced file for a set, and the references of a file in the order of the table.\<close>

definition ref_text :: "tc_common \<Rightarrow> cf_db \<Rightarrow> string \<Rightarrow> int \<Rightarrow> string" where
  "ref_text tc db d i =
     (case filter (\<lambda>r. cf_id r = i) (cf_files db) of
        [r] \<Rightarrow> mergeConfig (cf_config r)
          (case getSetInfo tc d of None \<Rightarrow> '''' | Some s \<Rightarrow> fst (cf_one (app_rows db (cf_server_name r) (cf_filename r) s)))
      | _ \<Rightarrow> '''')"

definition ref_ids :: "cf_db \<Rightarrow> int \<Rightarrow> int list" where
  "ref_ids db i = map snd (filter (\<lambda>r. fst r = i) (cf_refs db))"

lemma query_answered [simp]: "cf_query rs [] = (Inr rs, [])"
  by simp

lemma ref_text_read: "loadRefConfigByPK tc db i d '''' [] = ((0, ref_text tc db d i), [])"
  unfolding loadRefConfigByPK_def ref_text_def app_rows_def
  by (auto split: list.splits option.splits)

lemma merge_references_read:
  "merge_references tc db d ids (0, s) [] =
     ((0, mergeConfig s (merge_all (map (ref_text tc db d) ids))), [])"
  by (induction ids arbitrary: s) (auto simp: ref_text_read merge_assoc)

lemma getReferenceIds_read: "getReferenceIds db i [] = ((0, ref_ids db i), [])"
  by (simp add: getReferenceIds_def ref_ids_def)

text \<open>
  Property C24 (served_file_is_the_merge). When the database answers, a server receives with code 0 the
  merge, in this order, of the files its server-level file refers to, that file, the files its
  host-level file refers to, and that file; each reference comes with its variant for the set of the
  request, empty parts leave no separator, and a level with no row or with several rows counts as empty.
\<close>

theorem served_file_is_the_merge:
  assumes "s = (if ci_setdivision info = '''' then no_set else the (getSetInfo tc (ci_setdivision info)))"
    and "ci_setdivision info \<noteq> '''' \<Longrightarrow> getSetInfo tc (ci_setdivision info) \<noteq> None"
    and "sname = app_server (ci_appname info) (ci_servername info)"
    and "host = (if ci_host info = '''' then hostName else ci_host info)"
    and "all = cf_one (all_server_rows db sname (ci_filename info) s)"
    and "ip = cf_one (ip_server_rows db sname (ci_filename info) host s)"
  shows "loadConfigByHost_info tc db info hostName [] =
     ((0, merge_all (map (ref_text tc db (ci_setdivision info)) (ref_ids db (snd all)) @ [fst all] @
            map (ref_text tc db (ci_setdivision info)) (ref_ids db (snd ip)) @ [fst ip])), [])"
proof -
  have "(if ci_setdivision info \<noteq> '''' then getSetInfo tc (ci_setdivision info) else Some no_set) = Some s"
    using assms(1,2) by auto
  then show ?thesis
    unfolding loadConfigByHost_info_def Let_def assms(3-6)
    by (simp add: getReferenceIds_read merge_references_read merge_assoc split_beta
        merge_all_from[where z = "mergeConfig x y" for x y] merge_all_from[where z = "fst x" for x])
qed

theorem served_file_is_the_merge_witness:
  "snd (fst (loadConfigByHost_info sample_cf_tc sample_cf_db sample_cf_info ''h'' [])) =
     ''app'' @ config_sep @ ''all'' @ config_sep @ ''ip''"
  by (subst served_file_is_the_merge[OF refl _ refl refl refl refl])
     (simp_all add: sample_cf_info_def sample_cf_db_def all_server_rows_def ip_server_rows_def app_server_def
        cf_one_def ref_ids_def ref_text_def getSetInfo_def sample_cf_tc_def mergeConfig_def)

section \<open>Failures that are not answered\<close>

lemma add_references_failed:
  assumes "length ws = length ids" and "ids \<noteq> [] \<or> r = - 1"
  shows "add_references db ids (r, c) (map (\<lambda>w. Some (MysqlException w)) ws @ fs) = ((- 1, c), fs)"
  using assms
proof (induction ids arbitrary: r ws)
  case (Cons i ids)
  then obtain w ws' where "ws = w # ws'" "length ws' = length ids" by (cases ws) auto
  with Cons.IH[of ws' "- 1"] show ?case by (simp add: loadConfigByPK_def)
qed simp

text \<open>
  Fact (failed_references_are_hidden). When every reference of the server-level file fails to
  load, the code of the failure is overwritten by the next query: the server receives code 0 and a
  text from which the referenced files are missing.
\<close>

theorem failed_references_are_hidden:
  assumes "all = cf_one (all_server_rows db sname fname no_set)"
    and "ip = cf_one (ip_server_rows db sname fname host no_set)"
    and "length ws = length (ref_ids db (snd all))" and "ref_ids db (snd ip) = []"
  shows "loadConfigByHost db sname fname host ([None, None] @ map (\<lambda>w. Some (MysqlException w)) ws) =
     ((0, mergeConfig (fst all) (fst ip)), [])"
proof (cases "ref_ids db (snd all) = []")
  case True
  with assms(3,4) show ?thesis
    unfolding loadConfigByHost_def Let_def
    by (simp add: assms(1,2) getReferenceIds_def ref_ids_def append_is_merge split_beta)
next
  case False
  have "add_references db (ref_ids db (snd all)) (0, '''') (map (\<lambda>w. Some (MysqlException w)) ws) =
      ((- 1, ''''), [])"
    using add_references_failed[where fs = "[]" and ws = ws and ids = "ref_ids db (snd all)" and r = 0 and c = "''''"]
      assms(3) False by simp
  with assms(4) show ?thesis
    unfolding loadConfigByHost_def Let_def
    by (simp add: assms(1,2) getReferenceIds_def ref_ids_def append_is_merge split_beta)
qed

theorem failed_references_are_hidden_witness:
  "fst (loadConfigByHost sample_cf_db ''A.S'' ''f'' ''h'' [None, None, Some (MysqlException ''gone'')]) =
     (0, ''all'' @ config_sep @ ''ip'')"
  using failed_references_are_hidden[OF refl refl, where db = sample_cf_db and sname = "''A.S''" and
      fname = "''f''" and host = "''h''" and ws = "[''gone'']"]
  by (simp add: sample_cf_db_def all_server_rows_def ip_server_rows_def cf_one_def ref_ids_def mergeConfig_def)

text \<open>
  Fact (failed_host_reference_fails). The same failure of the last reference of the host-level file
  does reach the caller, with the text of everything else.
\<close>

theorem failed_host_reference_fails:
  assumes "all = cf_one (all_server_rows db sname fname no_set)"
    and "ip = cf_one (ip_server_rows db sname fname host no_set)"
    and "ref_ids db (snd all) = []" and "ref_ids db (snd ip) = [i]"
  shows "loadConfigByHost db sname fname host [None, None, None, None, Some (MysqlException w)] =
     ((- 1, mergeConfig (fst all) (fst ip)), [])"
  unfolding loadConfigByHost_def Let_def using assms(3,4)
  by (simp add: assms(1,2) getReferenceIds_def ref_ids_def append_is_merge split_beta loadConfigByPK_def)

theorem failed_host_reference_fails_witness:
  "fst (loadConfigByHost (sample_cf_db\<lparr>cf_refs := [(2, 3)]\<rparr>) ''A.S'' ''f'' ''h''
     [None, None, None, None, Some (MysqlException ''gone'')]) = (- 1, ''all'' @ config_sep @ ''ip'')"
  using failed_host_reference_fails[OF refl refl, where db = "sample_cf_db\<lparr>cf_refs := [(2, 3)]\<rparr>" and
      sname = "''A.S''" and fname = "''f''" and host = "''h''" and w = "''gone''" and i = 3]
  by (simp add: sample_cf_db_def all_server_rows_def ip_server_rows_def cf_one_def ref_ids_def mergeConfig_def)



section \<open>The limit\<close>

text \<open>The answers of \<open>IsLimited\<close> to calls for one key at the given times.\<close>

fun limit_run :: "int \<Rightarrow> int \<Rightarrow> server_key \<Rightarrow> int list \<Rightarrow> load_limits \<Rightarrow> bool list" where
  "limit_run L i k [] m = []"
| "limit_run L i k (t # ts) m = (let (b, m) = IsLimited L i t k m in b # limit_run L i k ts m)"

lemma limit_run_window:
  assumes "m k = Some (t0, n)" and "\<forall>t \<in> set ts. t - t0 \<le> 60 * i" and "n \<le> L + 1"
  shows "limit_run L i k ts m = map (\<lambda>j. L < n + int j) [0..<length ts]"
  using assms
proof (induction ts arbitrary: m n)
  case (Cons t ts)
  have shift: "map (\<lambda>j. L < n + int j) [0..<length (t # ts)] =
      (L < n) # map (\<lambda>j. L < n + 1 + int j) [0..<length ts]"
    by (simp add: upt_conv_Cons del: upt_Suc)
       (simp add: map_Suc_upt[symmetric] o_def add_ac del: upt_Suc)
  show ?case
  proof (cases "n \<le> L")
    case True
    with Cons.IH[of "m(k \<mapsto> (t0, n + 1))" "n + 1"] Cons.prems shift show ?thesis
      by (simp add: IsLimited_def fun_upd_def del: upt_Suc)
  next
    case False
    then have all: "map (\<lambda>j. L < n + int j) [0..<length ts] = map (\<lambda>j. L < n + 1 + int j) [0..<length ts]"
      by simp
    from False Cons.IH[of m n] Cons.prems shift all show ?thesis
      by (simp add: IsLimited_def del: upt_Suc)
  qed
qed simp

lemma window_from_start:
  assumes "m k = None" and "\<forall>t \<in> set ts. t - t0 \<le> 60 * i" and "0 < L"
  shows "limit_run L i k (t0 # ts) m = map (\<lambda>j. L + 1 \<le> int j) [0..<length (t0 # ts)]"
proof -
  have "limit_run L i k (t0 # ts) m = False # map (\<lambda>j. L < 1 + int j) [0..<length ts]"
    using assms limit_run_window[of "m(k \<mapsto> (t0, 1))" k t0 1 ts i L] by (simp add: IsLimited_def)
  also have "\<dots> = map (\<lambda>j. L + 1 \<le> int j) [0..<length (t0 # ts)]"
    using assms(3) by (simp add: upt_conv_Cons del: upt_Suc)
       (simp add: map_Suc_upt[symmetric] o_def del: upt_Suc, auto)
  finally show ?thesis .
qed

text \<open>
  Fact (window_serves_one_more). Of the calls for one key in the minutes after its first, exactly
  the first \<open>limitInterval\<close> plus one are served, and every later one is answered with 429: the limit
  closes, but one call later than it says.
\<close>

theorem window_serves_one_more:
  assumes "m k = None" and "\<forall>t \<in> set ts. t - t0 \<le> 60 * i" and "0 < L"
  shows "limit_run L i k (t0 # ts) m = map (\<lambda>j. L + 1 \<le> int j) [0..<length (t0 # ts)]"
  using assms by (rule window_from_start)


theorem window_serves_one_more_witness:
  "limit_run 2 1 \<lparr>sk_application = ''A'', sk_serverName = ''S'', sk_nodeName = ''h'', sk_filename = ''f''\<rparr>
     [100, 100, 110, 110, 160] (\<lambda>k. None) = [False, False, False, True, True]"
  by (subst window_serves_one_more) (simp_all add: upt_rec)

text \<open>
  Fact (stale_call_is_free). The first call after the minutes have passed is served and only
  forgets the key: it is not counted, and the window starts with the call after it.
\<close>

theorem stale_call_is_free:
  assumes "m k = Some (t0, n)" and "60 * i < t - t0" and "\<forall>u \<in> set ts. u - t1 \<le> 60 * i" and "0 < L"
  shows "limit_run L i k (t # t1 # ts) m = False # map (\<lambda>j. L + 1 \<le> int j) [0..<length (t1 # ts)]"
proof -
  have "limit_run L i k (t1 # ts) (m(k := None)) = map (\<lambda>j. L + 1 \<le> int j) [0..<length (t1 # ts)]"
    by (rule window_from_start) (use assms in auto)
  then show ?thesis
    using assms(1,2) by (simp add: IsLimited_def fun_upd_def del: upt_Suc limit_run.simps(2)[of L i k t1])
qed

theorem stale_call_is_free_witness:
  "limit_run 1 1 \<lparr>sk_application = ''A'', sk_serverName = ''S'', sk_nodeName = ''h'', sk_filename = ''f''\<rparr>
     [200, 200, 200, 200] (\<lambda>k. Some (100, 2)) = [False, False, False, True]"
  using stale_call_is_free[where m = "\<lambda>k. Some (100, 2)" and t = 200 and ts = "[200, 200]" and i = 1 and L = 1
      and k = "\<lparr>sk_application = ''A'', sk_serverName = ''S'', sk_nodeName = ''h'', sk_filename = ''f''\<rparr>"
      and t0 = 100 and n = 2 and ?t1.0 = 200]
  by (simp add: upt_rec del: limit_run.simps)





end
