(* ===== verification/Patch_Server.thy ===== *)
theory Patch_Server
  imports Node_Patch
begin

text \<open>
  The patch server: \<open>PatchServer/PatchCache.cpp\<close> keeps packages in blocks of memory that are shared by
  the threads that serve them, \<open>PatchImp.cpp\<close> lists, serves, accepts and prepares packages. A block
  is known by its address, a number; \<open>pc_heap\<close> gives the block at an address. The lock of
  the cache is held during all of \<open>load\<close> and \<open>release\<close>, so each is one step; copying a
  part of a block happens between the two, outside of the lock. What the file system answers to a call
  is an argument of it.
\<close>

section \<open>The cache\<close>

datatype file_load = EM_NLOAD | EM_LOADING | EM_RELOAD | EM_LOADED

record mem_state =
  ms_FileName :: string
  ms_FileSize :: nat
  ms_FileInode :: nat
  ms_FileTime :: int
  ms_MemBuf :: "string option"
  ms_MemSize :: nat
  ms_MemCount :: nat
  ms_MemTime :: int
  ms_MemLoad :: file_load

definition new_mem :: mem_state where
  "new_mem = \<lparr>ms_FileName = '''', ms_FileSize = 0, ms_FileInode = 0, ms_FileTime = 0, ms_MemBuf = None,
     ms_MemSize = 0, ms_MemCount = 0, ms_MemTime = 0, ms_MemLoad = EM_NLOAD\<rparr>"

record patch_cache =
  pc_heap :: "nat \<Rightarrow> mem_state"
  pc_next :: nat
  pc_vecMems :: "nat list"
  pc_mapFiles :: "string \<Rightarrow> nat option"
  pc_MemMax :: nat
  pc_MemMin :: nat
  pc_MemNum :: nat

text \<open>
  A file as one call finds it: size, inode and time from \<open>lstat\<close>, whether \<open>fopen\<close> and \<open>fseek\<close>
  succeed, the bytes that can be read and whether the stream is at its end when there is none.
\<close>

record file_view =
  fv_stat :: "(nat \<times> nat \<times> int) option"
  fv_open :: bool
  fv_seek :: bool
  fv_bytes :: string
  fv_eof :: bool

record load_env =
  le_time :: int
  le_expire :: int
  le_malloc :: "string option"
  le_view :: file_view

definition setMemOption :: "nat \<Rightarrow> nat \<Rightarrow> nat \<Rightarrow> patch_cache \<Rightarrow> patch_cache" where
  "setMemOption mx mn n c =
     c\<lparr>pc_MemMax := (if mx > 100 * 1024 * 1024 then 100 * 1024 * 1024 else mx),
       pc_MemMin := (if mn < 1 * 1024 * 1024 then 1 * 1024 * 1024 else mn), pc_MemNum := n\<rparr>"

abbreviation set_mem :: "nat \<Rightarrow> mem_state \<Rightarrow> patch_cache \<Rightarrow> patch_cache" where
  "set_mem p m c \<equiv> c\<lparr>pc_heap := (pc_heap c)(p := m)\<rparr>"

definition mem_is_free :: "load_env \<Rightarrow> mem_state \<Rightarrow> bool" where
  "mem_is_free e m \<longleftrightarrow> (ms_MemLoad m = EM_NLOAD \<or> ms_MemLoad m = EM_LOADED) \<and> ms_MemCount m = 0 \<and>
     ms_MemTime m + le_expire e \<le> le_time e"

text \<open>\<open>std::map::insert\<close> keeps an entry that is there.\<close>

definition map_insert :: "string \<Rightarrow> nat \<Rightarrow> (string \<Rightarrow> nat option) \<Rightarrow> string \<Rightarrow> nat option" where
  "map_insert k v m = (if m k = None then m(k \<mapsto> v) else m)"

definition getMem :: "load_env \<Rightarrow> string \<Rightarrow> patch_cache \<Rightarrow> nat option \<times> patch_cache" where
  "getMem e sFile c =
     (let (cur, c) =
        (case find (\<lambda>p. mem_is_free e (pc_heap c p)) (pc_vecMems c) of
           Some p \<Rightarrow> (Some p, c\<lparr>pc_mapFiles := (pc_mapFiles c)(ms_FileName (pc_heap c p) := None)\<rparr>)
         | None \<Rightarrow>
             if length (pc_vecMems c) < pc_MemNum c
             then (Some (pc_next c), c\<lparr>pc_heap := (pc_heap c)(pc_next c := new_mem\<lparr>ms_MemBuf := le_malloc e\<rparr>),
                     pc_next := pc_next c + 1, pc_vecMems := pc_vecMems c @ [pc_next c],
                     pc_mapFiles := map_insert sFile (pc_next c) (pc_mapFiles c)\<rparr>)
             else (None, c))
      in case cur of
           None \<Rightarrow> (None, c)
         | Some p \<Rightarrow>
             (let c = set_mem p ((pc_heap c p)\<lparr>ms_MemCount := 0, ms_MemSize := pc_MemMax c,
                        ms_MemLoad := EM_LOADING\<rparr>) c
              in if ms_MemBuf (pc_heap c p) = None
                 then (None, c\<lparr>pc_vecMems := remove1 p (pc_vecMems c)\<rparr>)
                 else (Some p, c)))"

text \<open>The code and the block after reading.\<close>

definition loadFile :: "file_view \<Rightarrow> string option \<Rightarrow> nat \<Rightarrow> int \<times> string option" where
  "loadFile v buf sizeLen =
     (case buf of
        None \<Rightarrow> (- 4, None)
      | Some b \<Rightarrow>
          if \<not> fv_open v then (- 1, Some b)
          else if \<not> fv_seek v then (- 2, Some b)
          else (let r = take sizeLen (fv_bytes v)
                in if r \<noteq> [] then (0, Some (r @ drop (length r) b))
                   else if fv_eof v then (1, Some b) else (- 3, Some b)))"

definition fill_block :: "load_env \<Rightarrow> nat \<Rightarrow> patch_cache \<Rightarrow> int \<times> patch_cache" where
  "fill_block e p c =
     (let m = pc_heap c p; (ret, buf) = loadFile (le_view e) (ms_MemBuf m) (ms_FileSize m);
          m = m\<lparr>ms_MemBuf := buf\<rparr>
      in if ret = 0
         then (0, set_mem p (m\<lparr>ms_MemCount := ms_MemCount m + 1, ms_MemTime := le_time e,
                 ms_MemLoad := EM_LOADED\<rparr>) c)
         else (- 1, set_mem p (m\<lparr>ms_MemTime := 0, ms_MemLoad := EM_NLOAD\<rparr>) c))"

text \<open>The code and, with code 0, the address and the size of what was loaded.\<close>

definition load :: "load_env \<Rightarrow> string \<Rightarrow> patch_cache \<Rightarrow> (int \<times> nat \<times> nat) \<times> patch_cache" where
  "load e sFile c =
     (case fv_stat (le_view e) of
        None \<Rightarrow> ((- 1, 0, 0), c)
      | Some (sz, inode, mtime) \<Rightarrow>
          if sz > pc_MemMax c \<or> sz < pc_MemMin c then ((- 1, 0, 0), c)
          else (case pc_mapFiles c sFile of
            Some p \<Rightarrow>
              (let m = pc_heap c p
               in if ms_MemLoad m = EM_LOADING \<or> ms_MemLoad m = EM_RELOAD
                  then ((- 1, 0, 0), c\<lparr>pc_mapFiles := (pc_mapFiles c)(sFile := None)\<rparr>)
                  else if ms_FileSize m = sz \<and> ms_FileTime m = mtime \<and> ms_FileInode m = inode
                  then ((0, p, ms_FileSize m), set_mem p (m\<lparr>ms_MemTime := le_time e, ms_MemCount := ms_MemCount m + 1\<rparr>) c)
                  else (let (ret, c) = fill_block e p (set_mem p (m\<lparr>ms_FileSize := sz, ms_FileInode := inode,
                              ms_FileTime := mtime, ms_MemLoad := EM_RELOAD\<rparr>) c)
                        in ((ret, p, sz), c)))
          | None \<Rightarrow>
              (case getMem e sFile c of
                 (None, c) \<Rightarrow> ((- 1, 0, 0), c)
               | (Some p, c) \<Rightarrow>
                   (let c = set_mem p ((pc_heap c p)\<lparr>ms_FileName := sFile, ms_FileSize := sz,
                              ms_FileInode := inode, ms_FileTime := mtime\<rparr>) c;
                        c = c\<lparr>pc_mapFiles := map_insert sFile p (pc_mapFiles c)\<rparr>;
                        (ret, c) = fill_block e p c
                    in ((ret, p, sz), c)))))"

definition release :: "string \<Rightarrow> patch_cache \<Rightarrow> int \<times> patch_cache" where
  "release sFile c =
     (case pc_mapFiles c sFile of
        None \<Rightarrow> (- 1, c)
      | Some p \<Rightarrow>
          (let m = pc_heap c p; n = ms_MemCount m
           in (0, set_mem p (m\<lparr>ms_MemCount := (if n = 0 then 2 ^ 64 - 1 else n - 1)\<rparr>) c)))"

section \<open>Serving a package\<close>

definition mem_bytes :: "patch_cache \<Rightarrow> nat \<Rightarrow> string" where
  "mem_bytes c p = (case ms_MemBuf (pc_heap c p) of None \<Rightarrow> [] | Some b \<Rightarrow> b)"

text \<open>What a thread copies from a loaded block: the code and the part.\<close>

definition copy_part :: "patch_cache \<Rightarrow> nat \<Rightarrow> nat \<Rightarrow> nat \<Rightarrow> nat \<Rightarrow> int \<times> string" where
  "copy_part c psize p n pos =
     (if pos \<ge> n then (1, [])
      else (0, take (if n - pos \<ge> psize then psize else n - pos) (drop pos (mem_bytes c p))))"

definition downloadFromMem ::
  "nat \<Rightarrow> load_env \<Rightarrow> string \<Rightarrow> nat \<Rightarrow> patch_cache \<Rightarrow> (int \<times> string) \<times> patch_cache" where
  "downloadFromMem psize e sFile pos c =
     (let ((ret, p, n), c) = load e sFile c
      in if ret \<noteq> 0 then ((- 1, []), c)
         else (copy_part c psize p n pos, snd (release sFile c)))"

text \<open>A position from \<open>2 ^ 63\<close> on is negative for \<open>fseek\<close>.\<close>

definition downloadFromFile :: "nat \<Rightarrow> file_view \<Rightarrow> nat \<Rightarrow> int \<times> string" where
  "downloadFromFile psize v pos =
     (if \<not> fv_open v then (- 1, [])
      else if \<not> fv_seek v \<or> pos \<ge> 2 ^ 63 then (- 2, [])
      else (let r = take psize (drop pos (fv_bytes v))
            in if r \<noteq> [] then (0, r)
               else if fv_eof v then (1, replicate psize (CHR 0x00))
               else (- 3, replicate psize (CHR 0x00))))"

text \<open>The environment of one call: that of the cache and, later, the file read without it.\<close>

record download_env =
  de_load :: load_env
  de_view :: file_view

definition downloadPath ::
  "nat \<Rightarrow> download_env \<Rightarrow> string \<Rightarrow> int \<Rightarrow> patch_cache \<Rightarrow> (int \<times> string) \<times> patch_cache" where
  "downloadPath psize e path pos c =
     (let p = nat (pos mod 2 ^ 64); ((ret, vb), c) = downloadFromMem psize (de_load e) path p c
      in if ret < 0 then (downloadFromFile psize (de_view e) p, c) else ((ret, vb), c))"

record patch_imp =
  pi_directory :: string
  pi_uploadDirectory :: string
  pi_size :: nat
  pi_simplify :: "string \<Rightarrow> string"

definition download ::
  "patch_imp \<Rightarrow> download_env \<Rightarrow> string \<Rightarrow> int \<Rightarrow> patch_cache \<Rightarrow> (int \<times> string) \<times> patch_cache" where
  "download s e sFile pos c =
     downloadPath (pi_size s) e (pi_simplify s (pi_directory s @ ''/'' @ sFile)) pos c"

section \<open>Listing\<close>

record file_info =
  fi_path :: string
  fi_size :: int
  fi_canExec :: bool
  fi_md5 :: string

text \<open>What the file functions of the utility library answer for a path.\<close>

record file_sys =
  fx_is_dir :: "string \<Rightarrow> bool"
  fx_is_reg :: "string \<Rightarrow> bool"
  fx_size :: "string \<Rightarrow> int"
  fx_exec :: "string \<Rightarrow> bool"
  fx_md5 :: "string \<Rightarrow> string"
  fx_name :: "string \<Rightarrow> string"
  fx_list :: "string \<Rightarrow> string list"

definition info_of :: "file_sys \<Rightarrow> string \<Rightarrow> string \<Rightarrow> file_info" where
  "info_of fx name path = \<lparr>fi_path = name, fi_size = fx_size fx path, fi_canExec = fx_exec fx path, fi_md5 = fx_md5 fx path\<rparr>"

definition list_dir :: "file_sys \<Rightarrow> string \<Rightarrow> string list \<Rightarrow> file_info list" where
  "list_dir fx d fs = map (\<lambda>f. info_of fx (drop (length d) f) f) (filter (fx_is_reg fx) fs)"

definition listFiles :: "file_sys \<Rightarrow> string \<Rightarrow> file_info list \<Rightarrow> int \<times> file_info list" where
  "listFiles fx path vf =
     (if str_contains path ''..'' then (- 1, vf)
      else if \<not> fx_is_dir fx path then (1, vf @ [info_of fx (fx_name fx path) path])
      else (0, vf @ list_dir fx path (fx_list fx path)))"

definition listFileInfo :: "patch_imp \<Rightarrow> file_sys \<Rightarrow> string \<Rightarrow> file_info list \<Rightarrow> int \<times> file_info list" where
  "listFileInfo s fx path vf = listFiles fx (pi_simplify s (pi_directory s @ ''/'' @ path)) vf"

section \<open>Accepting and preparing packages\<close>

type_synonym file_store = "string \<Rightarrow> string option"

text \<open>
  \<open>um_open\<close> says whether a file can be opened for writing, \<open>um_copy\<close> is \<open>TC_File::copyFile\<close>
  (\<open>None\<close> for an exception, which ends the call), \<open>um_remove\<close> is \<open>removeFile\<close>.
\<close>

record upload_env =
  um_mkdir :: "string \<Rightarrow> bool"
  um_open :: "string \<Rightarrow> bool"
  um_md5 :: "string \<Rightarrow> string"
  um_copy :: "string \<Rightarrow> string \<Rightarrow> file_store \<Rightarrow> file_store option"
  um_remove :: "string \<Rightarrow> file_store \<Rightarrow> int \<times> file_store"

record file_content =
  fc_name :: string
  fc_md5 :: string
  fc_firstChunk :: bool
  fc_lastChunk :: bool
  fc_content :: string

definition upload_dir :: "patch_imp \<Rightarrow> string \<Rightarrow> string \<Rightarrow> string" where
  "upload_dir s app server = pi_uploadDirectory s @ ''/'' @ app @ ''/'' @ server"

definition upload :: "patch_imp \<Rightarrow> upload_env \<Rightarrow> string \<Rightarrow> string \<Rightarrow> file_content \<Rightarrow> file_store \<Rightarrow> int \<times> file_store" where
  "upload s u app server x d =
     (let f = upload_dir s app server @ ''/'' @ fc_name x
      in if \<not> um_mkdir u (upload_dir s app server) then (- 1, d)
         else if (case d f of None \<Rightarrow> False | Some c \<Rightarrow> um_md5 u c = fc_md5 x) then (1, d)
         else if \<not> um_open u f then (- 2, d)
         else (let old = (if fc_firstChunk x then [] else case d f of None \<Rightarrow> [] | Some c \<Rightarrow> c);
                   new = old @ fc_content x; d = d(f \<mapsto> new)
               in if fc_lastChunk x \<and> um_md5 u new \<noteq> fc_md5 x then (- 3, d) else (0, d)))"

definition patch_dst_dir :: "patch_imp \<Rightarrow> string \<Rightarrow> string \<Rightarrow> string" where
  "patch_dst_dir s app server = pi_directory s @ ''/'' @ ''TARSBatchPatching'' @ ''/'' @ app @ ''/'' @ server"

text \<open>\<open>None\<close> is an exception of \<open>copyFile\<close>; the result text comes with the code.\<close>

definition preparePatchFile ::
  "patch_imp \<Rightarrow> upload_env \<Rightarrow> string \<Rightarrow> string \<Rightarrow> string \<Rightarrow> string \<Rightarrow> file_store \<Rightarrow> (int \<times> string \<times> file_store) option" where
  "preparePatchFile s u app server patchFile result d =
     (let upfile = upload_dir s app server @ ''/'' @ patchFile;
          dstDir = patch_dst_dir s app server;
          dstfile = dstDir @ ''/'' @ app @ ''.'' @ server @ ''.tgz''
      in if \<not> um_mkdir u dstDir then Some (- 2, ''mkdir dir: '' @ dstDir @ '' error!'', d)
         else if d upfile = None then Some (- 1, upfile @ '' not exists!'', d)
         else map_option (\<lambda>d. (0, result, d)) (um_copy u upfile dstfile d))"

definition deletePatchFile :: "patch_imp \<Rightarrow> upload_env \<Rightarrow> string \<Rightarrow> string \<Rightarrow> string \<Rightarrow> file_store \<Rightarrow> int \<times> file_store" where
  "deletePatchFile s u app server patchFile d = um_remove u (upload_dir s app server @ ''/'' @ patchFile) d"

section \<open>Threads that hold a block\<close>

text \<open>
  The history of the cache: threads that start a part (\<open>load\<close>) and end it (\<open>release\<close>), in any
  order. \<open>cr_held\<close> lists the parts under way: thread, file, address and size.
\<close>

record cache_run =
  cr_cache :: patch_cache
  cr_held :: "(nat \<times> string \<times> nat \<times> nat) list"

datatype cache_event = StartPart nat string load_env | EndPart nat

fun cache_step :: "cache_event \<Rightarrow> cache_run \<Rightarrow> cache_run" where
  "cache_step (StartPart t f e) s =
     (let ((ret, p, n), c) = load e f (cr_cache s)
      in s\<lparr>cr_cache := c, cr_held := (if ret = 0 then (t, f, p, n) # cr_held s else cr_held s)\<rparr>)"
| "cache_step (EndPart t) s =
     (case find (\<lambda>h. fst h = t) (cr_held s) of
        None \<Rightarrow> s
      | Some h \<Rightarrow> s\<lparr>cr_cache := snd (release (fst (snd h)) (cr_cache s)), cr_held := remove1 h (cr_held s)\<rparr>)"

text \<open>
  The blocks are those of distinct addresses; each is the one its file has in the map, is filled or to
  be filled, and counts the parts that hold it. An entry of the map without a block is left by a failed
  \<open>malloc\<close>. The set \<open>L\<close> holds the addresses that may be in the course of loading.
\<close>

definition held_at :: "nat \<Rightarrow> (nat \<times> string \<times> nat \<times> nat) list \<Rightarrow> nat" where
  "held_at p hs = length (filter (\<lambda>h. fst (snd (snd h)) = p) hs)"

definition blocks_ok :: "nat set \<Rightarrow> patch_cache \<Rightarrow> (nat \<times> string \<times> nat \<times> nat) list \<Rightarrow> bool" where
  "blocks_ok L c hs \<longleftrightarrow> distinct (pc_vecMems c) \<and>
     (\<forall>p \<in> set (pc_vecMems c). p < pc_next c \<and> pc_mapFiles c (ms_FileName (pc_heap c p)) = Some p \<and>
        ms_MemBuf (pc_heap c p) \<noteq> None \<and> ms_MemCount (pc_heap c p) = held_at p hs \<and>
        (p \<in> L \<or> ms_MemLoad (pc_heap c p) \<in> {EM_NLOAD, EM_LOADED}))"

definition map_ok :: "patch_cache \<Rightarrow> bool" where
  "map_ok c \<longleftrightarrow> (\<forall>f p. pc_mapFiles c f = Some p \<longrightarrow> p < pc_next c \<and>
     (if p \<in> set (pc_vecMems c) then ms_FileName (pc_heap c p) = f else ms_MemLoad (pc_heap c p) = EM_LOADING))"

definition held_ok :: "patch_cache \<Rightarrow> (nat \<times> string \<times> nat \<times> nat) list \<Rightarrow> bool" where
  "held_ok c hs \<longleftrightarrow> (\<forall>(t, f, p, n) \<in> set hs. pc_mapFiles c f = Some p \<and> p \<in> set (pc_vecMems c))"

definition cache_inv :: "cache_run \<Rightarrow> bool" where
  "cache_inv s \<longleftrightarrow> blocks_ok {} (cr_cache s) (cr_held s) \<and> map_ok (cr_cache s) \<and> held_ok (cr_cache s) (cr_held s)"

lemma held_at_Nil [simp]: "held_at p [] = 0"
  by (simp add: held_at_def)

lemma held_at_Cons [simp]: "held_at p (h # hs) = (if fst (snd (snd h)) = p then 1 else 0) + held_at p hs"
  by (simp add: held_at_def)

lemma held_at_remove1: "h \<in> set hs \<Longrightarrow>
    held_at p hs = held_at p (remove1 h hs) + (if fst (snd (snd h)) = p then 1 else 0)"
  by (induction hs) auto

lemma held_at_pos: "(t, f, p, n) \<in> set hs \<Longrightarrow> 0 < held_at p hs"
  by (force simp: held_at_def filter_empty_conv)

lemma loadFile_buf: "loadFile v buf k = (r, b) \<Longrightarrow> (b = None) = (buf = None)"
  by (auto simp: loadFile_def Let_def split: option.splits if_splits)

lemma fill_block_ok:
  assumes "blocks_ok {p} c hs" and "map_ok c" and "held_ok c hs" and "fill_block e p c = (ret, c')"
    and "p \<in> set (pc_vecMems c)" and "pc_mapFiles c f = Some p"
  shows "cache_inv \<lparr>cr_cache = c', cr_held = (if ret = 0 then (t, f, p, n) # hs else hs)\<rparr>"
proof -
  obtain r b where lf: "loadFile (le_view e) (ms_MemBuf (pc_heap c p)) (ms_FileSize (pc_heap c p)) = (r, b)"
    by (metis surj_pair)
  have b: "b \<noteq> None" using loadFile_buf[OF lf] assms(1,5) by (auto simp: blocks_ok_def)
  show ?thesis
  proof (cases "r = 0")
    case True
    then have "ret = 0" and c': "c' = set_mem p ((pc_heap c p)\<lparr>ms_MemBuf := b,
        ms_MemCount := ms_MemCount (pc_heap c p) + 1, ms_MemTime := le_time e, ms_MemLoad := EM_LOADED\<rparr>) c"
      using assms(4) lf by (auto simp: fill_block_def Let_def)
    then show ?thesis
      using assms(1,2,3,5,6) b by (auto simp: cache_inv_def blocks_ok_def map_ok_def held_ok_def)
  next
    case False
    then have "ret = - 1" and c': "c' = set_mem p ((pc_heap c p)\<lparr>ms_MemBuf := b, ms_MemTime := 0,
        ms_MemLoad := EM_NLOAD\<rparr>) c"
      using assms(4) lf by (auto simp: fill_block_def Let_def)
    then show ?thesis
      using assms(1,2,3,5,6) b by (auto simp: cache_inv_def blocks_ok_def map_ok_def held_ok_def)
  qed
qed


lemma find_SomeD: "find P xs = Some x \<Longrightarrow> P x \<and> x \<in> set xs"
  by (auto simp: find_Some_iff)

lemma getMem_ok:
  assumes "blocks_ok {} c hs" and "map_ok c" and "held_ok c hs" and "pc_mapFiles c f = None"
    and "getMem e f c = (cur, c')"
  shows "case cur of
      None \<Rightarrow> blocks_ok {} c' hs \<and> map_ok c' \<and> held_ok c' hs
    | Some p \<Rightarrow> p \<in> set (pc_vecMems c') \<and> held_at p hs = 0 \<and>
        (let c2 = set_mem p ((pc_heap c' p)\<lparr>ms_FileName := f, ms_FileSize := sz, ms_FileInode := ino, ms_FileTime := mt\<rparr>) c';
             c2 = c2\<lparr>pc_mapFiles := map_insert f p (pc_mapFiles c2)\<rparr>
         in blocks_ok {p} c2 hs \<and> map_ok c2 \<and> held_ok c2 hs \<and> pc_mapFiles c2 f = Some p)"
proof (cases "find (\<lambda>p. mem_is_free e (pc_heap c p)) (pc_vecMems c)")
  case (Some p)
  from find_SomeD[OF Some] have p: "mem_is_free e (pc_heap c p)" "p \<in> set (pc_vecMems c)" by auto
  then have h0: "held_at p hs = 0" using assms(1) by (simp add: blocks_ok_def mem_is_free_def)
  then have nh: "\<forall>(t, g, q, n) \<in> set hs. q \<noteq> p" using held_at_pos by fastforce
  have res: "cur = Some p" "c' = set_mem p ((pc_heap c p)\<lparr>ms_MemCount := 0, ms_MemSize := pc_MemMax c, ms_MemLoad := EM_LOADING\<rparr>)
      (c\<lparr>pc_mapFiles := (pc_mapFiles c)(ms_FileName (pc_heap c p) := None)\<rparr>)"
    using assms(1,5) Some p(2) by (auto simp: getMem_def Let_def blocks_ok_def)
  have nf: "ms_FileName (pc_heap c p) \<noteq> f" using assms(1,4) p(2) by (auto simp: blocks_ok_def)
  have mp: "pc_mapFiles c (ms_FileName (pc_heap c p)) = Some p" using assms(1) p(2) by (simp add: blocks_ok_def)
  have key: "pc_mapFiles c g = Some q \<and> q \<in> set (pc_vecMems c) \<and> g \<noteq> ms_FileName (pc_heap c p) \<and> g \<noteq> f"
    if "(t, g, q, n) \<in> set hs" for t g q n
  proof -
    have "pc_mapFiles c g = Some q" "q \<in> set (pc_vecMems c)" "q \<noteq> p"
      using assms(3) nh that by (auto simp: held_ok_def)
    with mp assms(4) show ?thesis by auto
  qed
  have "blocks_ok {p} (c'\<lparr>pc_heap := (pc_heap c')(p := (pc_heap c' p)\<lparr>ms_FileName := f, ms_FileSize := sz, ms_FileInode := ino, ms_FileTime := mt\<rparr>),
     pc_mapFiles := map_insert f p (pc_mapFiles c')\<rparr>) hs"
    using assms(1,4) p(2) h0 nf unfolding res
    by (auto simp: blocks_ok_def map_insert_def) (metis option.inject)
  moreover have "map_ok (c'\<lparr>pc_heap := (pc_heap c')(p := (pc_heap c' p)\<lparr>ms_FileName := f, ms_FileSize := sz, ms_FileInode := ino, ms_FileTime := mt\<rparr>),
     pc_mapFiles := map_insert f p (pc_mapFiles c')\<rparr>)"
    using assms(1,2,4) p(2) nf unfolding res by (auto simp: blocks_ok_def map_ok_def map_insert_def)
  moreover have "held_ok (c'\<lparr>pc_heap := (pc_heap c')(p := (pc_heap c' p)\<lparr>ms_FileName := f, ms_FileSize := sz, ms_FileInode := ino, ms_FileTime := mt\<rparr>),
     pc_mapFiles := map_insert f p (pc_mapFiles c')\<rparr>) hs"
    unfolding res held_ok_def using assms(4) by (auto simp: map_insert_def dest: key)
  ultimately show ?thesis
    using p(2) h0 assms(4) nf unfolding res by (simp add: Let_def map_insert_def)
next
  case None
  show ?thesis
  proof (cases "length (pc_vecMems c) < pc_MemNum c")
    case False
    then show ?thesis using None assms by (auto simp: getMem_def Let_def)
  next
    case True
    have new: "pc_next c \<notin> set (pc_vecMems c)" using assms(1) by (auto simp: blocks_ok_def)
    then have nh: "\<forall>(t, g, q, n) \<in> set hs. q \<noteq> pc_next c" using assms(3) by (auto simp: held_ok_def)
    then have h0: "held_at (pc_next c) hs = 0" by (auto simp: held_at_def filter_empty_conv)
    have nm: "pc_mapFiles c g \<noteq> Some (pc_next c)" for g using assms(2) by (auto simp: map_ok_def)
    have key: "pc_mapFiles c g = Some q \<and> q \<in> set (pc_vecMems c) \<and> g \<noteq> f \<and> q \<noteq> pc_next c"
      if "(t, g, q, n) \<in> set hs" for t g q n
      using assms(3,4) nh that by (auto simp: held_ok_def)
    have mk: "q < pc_next c \<and> (if q \<in> set (pc_vecMems c) then ms_FileName (pc_heap c q) = g else ms_MemLoad (pc_heap c q) = EM_LOADING)"
      if "pc_mapFiles c g = Some q" for g q
      using assms(2) that by (simp add: map_ok_def)
    have vk: "p < pc_next c \<and> pc_mapFiles c (ms_FileName (pc_heap c p)) = Some p \<and> ms_MemBuf (pc_heap c p) \<noteq> None \<and>
        ms_MemCount (pc_heap c p) = held_at p hs \<and> ms_MemLoad (pc_heap c p) \<in> {EM_NLOAD, EM_LOADED}"
      if "p \<in> set (pc_vecMems c)" for p
      using assms(1) that by (simp add: blocks_ok_def)
    have fn: "ms_FileName (pc_heap c p) \<noteq> f" if "p \<in> set (pc_vecMems c)" for p
      using vk[OF that] assms(4) by auto
    define m where "m = new_mem\<lparr>ms_MemBuf := le_malloc e, ms_MemSize := pc_MemMax c, ms_MemLoad := EM_LOADING\<rparr>"
    define c1 where "c1 = c\<lparr>pc_heap := (pc_heap c)(pc_next c := m), pc_next := pc_next c + 1,
        pc_vecMems := pc_vecMems c @ [pc_next c], pc_mapFiles := (pc_mapFiles c)(f \<mapsto> pc_next c)\<rparr>"
    show ?thesis
    proof (cases "le_malloc e = None")
      case no: True
      then have res: "cur = None" "c' = c1\<lparr>pc_vecMems := pc_vecMems c\<rparr>"
        using None True assms(4,5) new
        by (auto simp: getMem_def Let_def c1_def m_def new_mem_def map_insert_def remove1_append)
      have "blocks_ok {} c' hs"
        using assms(1) new fn by (auto simp: res(2) c1_def blocks_ok_def)
      moreover have "map_ok c'"
        using new nm mk by (auto simp: res(2) c1_def map_ok_def m_def split: if_split_asm) (metis less_SucI)+
      moreover have "held_ok c' hs" by (auto simp: res(2) c1_def held_ok_def dest: key)
      ultimately show ?thesis using res(1) by simp
    next
      case False
      then have res: "cur = Some (pc_next c)" "c' = c1"
        using None True assms(4,5)
        by (auto simp: getMem_def Let_def c1_def m_def new_mem_def map_insert_def)
      define c2 where "c2 = c1\<lparr>pc_heap := (pc_heap c1)(pc_next c := m\<lparr>ms_FileName := f, ms_FileSize := sz, ms_FileInode := ino, ms_FileTime := mt\<rparr>)\<rparr>"
      have "blocks_ok {pc_next c} c2 hs"
        using assms(1) new fn h0 False by (auto simp: c2_def c1_def m_def new_mem_def blocks_ok_def)
      moreover have "map_ok c2"
        using new nm mk by (auto simp: c2_def c1_def map_ok_def split: if_split_asm) (metis less_SucI)+
      moreover have "held_ok c2 hs" by (auto simp: c2_def c1_def held_ok_def dest: key)
      moreover have "set_mem (pc_next c) ((pc_heap c' (pc_next c))\<lparr>ms_FileName := f, ms_FileSize := sz, ms_FileInode := ino, ms_FileTime := mt\<rparr>) c' = c2"
        by (simp add: res(2) c2_def c1_def)
      moreover have "c2\<lparr>pc_mapFiles := map_insert f (pc_next c) (pc_mapFiles c2)\<rparr> = c2"
        by (rule patch_cache.equality) (simp_all add: c2_def c1_def map_insert_def)
      moreover have "pc_next c \<in> set (pc_vecMems c')" "pc_mapFiles c2 f = Some (pc_next c)"
        by (simp_all add: res(2) c2_def c1_def)
      ultimately show ?thesis
        using res(1) h0 by (simp only: Let_def option.case)
    qed
  qed
qed


lemma load_ok:
  assumes "cache_inv \<lparr>cr_cache = c, cr_held = hs\<rparr>" and "load e f c = ((ret, p, n), c')"
  shows "cache_inv \<lparr>cr_cache = c', cr_held = (if ret = 0 then (t, f, p, n) # hs else hs)\<rparr>"
proof (cases "fv_stat (le_view e)")
  case None
  with assms show ?thesis by (auto simp: load_def)
next
  case (Some st)
  obtain sz ino mt where st: "fv_stat (le_view e) = Some (sz, ino, mt)" using Some by (cases st) auto
  have b: "blocks_ok {} c hs" "map_ok c" "held_ok c hs" using assms(1) by (simp_all add: cache_inv_def)
  show ?thesis
  proof (cases "sz > pc_MemMax c \<or> sz < pc_MemMin c")
    case True
    with assms st show ?thesis by (auto simp: load_def)
  next
    case fits: False
    show ?thesis
    proof (cases "pc_mapFiles c f")
      case None
      obtain cur c1 where g: "getMem e f c = (cur, c1)" by (metis surj_pair)
      show ?thesis
      proof (cases cur)
        case no: None
        with assms(2) st fits None g have "ret = - 1" "c' = c1" by (auto simp: load_def)
        with getMem_ok[OF b None g] no show ?thesis by (simp add: cache_inv_def)
      next
        case (Some q)
        define c2 where "c2 = (let c2 = set_mem q ((pc_heap c1 q)\<lparr>ms_FileName := f, ms_FileSize := sz, ms_FileInode := ino, ms_FileTime := mt\<rparr>) c1
             in c2\<lparr>pc_mapFiles := map_insert f q (pc_mapFiles c2)\<rparr>)"
        have q: "q \<in> set (pc_vecMems c1)" "blocks_ok {q} c2 hs" "map_ok c2" "held_ok c2 hs" "pc_mapFiles c2 f = Some q"
          using getMem_ok[OF b None g, where sz = sz and ino = ino and mt = mt] Some by (simp_all add: c2_def Let_def)
        have v: "pc_vecMems c2 = pc_vecMems c1" by (simp add: c2_def Let_def)
        obtain r c3 where fl: "fill_block e q c2 = (r, c3)" by (metis surj_pair)
        have "ret = r" "c' = c3" "p = q"
          using assms(2) st fits None g Some fl by (auto simp: load_def c2_def Let_def)
        with fill_block_ok[OF q(2-4) fl _ q(5), of t n] q(1) v show ?thesis by (simp split: if_split_asm)
      qed
    next
      case (Some q)
      let ?m = "pc_heap c q"
      consider (loading) "ms_MemLoad ?m = EM_LOADING \<or> ms_MemLoad ?m = EM_RELOAD"
        | (same) "ms_MemLoad ?m \<notin> {EM_LOADING, EM_RELOAD}" "ms_FileSize ?m = sz \<and> ms_FileTime ?m = mt \<and> ms_FileInode ?m = ino"
        | (changed) "ms_MemLoad ?m \<notin> {EM_LOADING, EM_RELOAD}" "\<not> (ms_FileSize ?m = sz \<and> ms_FileTime ?m = mt \<and> ms_FileInode ?m = ino)"
        by blast
      then show ?thesis
      proof cases
        case loading
        with assms(2) st fits Some have "ret = - 1" "c' = c\<lparr>pc_mapFiles := (pc_mapFiles c)(f := None)\<rparr>" by (auto simp: load_def)
        moreover have q: "q \<notin> set (pc_vecMems c)" using loading b(1) by (auto simp: blocks_ok_def)
        moreover have fn: "ms_FileName (pc_heap c p) \<noteq> f" if "p \<in> set (pc_vecMems c)" for p
          using b(1) that q Some by (auto simp: blocks_ok_def)
        have "blocks_ok {} (c\<lparr>pc_mapFiles := (pc_mapFiles c)(f := None)\<rparr>) hs"
          using b(1) fn by (simp add: blocks_ok_def)
        moreover have "map_ok (c\<lparr>pc_mapFiles := (pc_mapFiles c)(f := None)\<rparr>)"
          using b(2) by (simp add: map_ok_def)
        moreover have "held_ok (c\<lparr>pc_mapFiles := (pc_mapFiles c)(f := None)\<rparr>) hs"
          using b(3) q Some by (fastforce simp: held_ok_def)
        ultimately show ?thesis by (simp add: cache_inv_def)
      next
        case same
        then have "q \<in> set (pc_vecMems c)" using b(2) Some by (auto simp: map_ok_def split: if_splits)
        moreover have "ret = 0" "p = q" "c' = set_mem q (?m\<lparr>ms_MemTime := le_time e, ms_MemCount := ms_MemCount ?m + 1\<rparr>) c"
          using same assms(2) st fits Some by (auto simp: load_def Let_def)
        ultimately show ?thesis using b Some
          by (auto simp: cache_inv_def blocks_ok_def map_ok_def held_ok_def)
      next
        case changed
        define c2 where "c2 = set_mem q (?m\<lparr>ms_FileSize := sz, ms_FileInode := ino, ms_FileTime := mt, ms_MemLoad := EM_RELOAD\<rparr>) c"
        have qv: "q \<in> set (pc_vecMems c)" using b(2) Some changed by (auto simp: map_ok_def split: if_splits)
        have c2: "blocks_ok {q} c2 hs" "map_ok c2" "held_ok c2 hs" "q \<in> set (pc_vecMems c2)" "pc_mapFiles c2 f = Some q"
          using b Some qv by (auto simp: c2_def blocks_ok_def map_ok_def held_ok_def)
        obtain r c3 where fl: "fill_block e q c2 = (r, c3)" by (metis surj_pair)
        have "ret = r" "c' = c3" "p = q"
          using assms(2) st fits Some changed fl by (auto simp: load_def c2_def Let_def)
        with fill_block_ok[OF c2(1-3) fl c2(4,5), of t n] show ?thesis by (simp split: if_split_asm)
      qed
    qed
  qed
qed

lemma release_ok:
  assumes "cache_inv \<lparr>cr_cache = c, cr_held = hs\<rparr>" and "h \<in> set hs"
  shows "cache_inv \<lparr>cr_cache = snd (release (fst (snd h)) c), cr_held = remove1 h hs\<rparr>"
proof -
  obtain t f p n where h: "h = (t, f, p, n)" by (metis surj_pair)
  have b: "blocks_ok {} c hs" "map_ok c" "held_ok c hs" using assms(1) by (simp_all add: cache_inv_def)
  have p: "pc_mapFiles c f = Some p" "p \<in> set (pc_vecMems c)" using b(3) assms(2) h by (auto simp: held_ok_def)
  have cnt: "ms_MemCount (pc_heap c p) \<noteq> 0" using b(1) p(2) held_at_pos[of t f p n hs] assms(2) h by (auto simp: blocks_ok_def)
  have "held_ok c (remove1 h hs)" using b(3) by (auto simp: held_ok_def dest: notin_set_remove1[THEN contrapos_nn] set_remove1_subset[THEN subsetD])
  moreover have "release f c = (0, set_mem p ((pc_heap c p)\<lparr>ms_MemCount := ms_MemCount (pc_heap c p) - 1\<rparr>) c)"
    using p(1) cnt by (simp add: release_def Let_def)
  ultimately show ?thesis
    using b p cnt held_at_remove1[OF assms(2)] h
    by (auto simp: cache_inv_def blocks_ok_def map_ok_def held_ok_def)
qed

lemma cache_step_inv:
  assumes "cache_inv s" shows "cache_inv (cache_step ev s)"
proof (cases ev)
  case (StartPart t f e)
  obtain ret p n c' where l: "load e f (cr_cache s) = ((ret, p, n), c')" by (metis surj_pair)
  have "cache_inv \<lparr>cr_cache = cr_cache s, cr_held = cr_held s\<rparr>" using assms by (simp add: cache_inv_def)
  from load_ok[OF this l, of t] show ?thesis
    using StartPart l by (simp add: cache_inv_def)
next
  case (EndPart t)
  show ?thesis
  proof (cases "find (\<lambda>h. fst h = t) (cr_held s)")
    case None
    with EndPart assms show ?thesis by simp
  next
    case (Some h)
    then have "h \<in> set (cr_held s)" by (auto dest: find_SomeD)
    moreover have "cache_inv \<lparr>cr_cache = cr_cache s, cr_held = cr_held s\<rparr>" using assms by (simp add: cache_inv_def)
    ultimately have "cache_inv \<lparr>cr_cache = snd (release (fst (snd h)) (cr_cache s)), cr_held = remove1 h (cr_held s)\<rparr>"
      by (intro release_ok)
    then show ?thesis using EndPart Some by (simp add: cache_inv_def)
  qed
qed











interpretation cache_events: event_system cache_step cache_inv
  by unfold_locales (rule cache_step_inv)

definition empty_cache :: "nat \<Rightarrow> nat \<Rightarrow> nat \<Rightarrow> cache_run" where
  "empty_cache mx mn n = \<lparr>cr_cache = setMemOption mx mn n \<lparr>pc_heap = (\<lambda>p. new_mem), pc_next = 0, pc_vecMems = [],
     pc_mapFiles = (\<lambda>f. None), pc_MemMax = 0, pc_MemMin = 0, pc_MemNum = 0\<rparr>, cr_held = []\<rparr>"

lemma empty_cache_inv: "cache_inv (empty_cache mx mn n)"
  by (simp add: cache_inv_def empty_cache_def setMemOption_def blocks_ok_def map_ok_def held_ok_def)

section \<open>A block in use stays with its file\<close>

lemma fill_block_heap: "fill_block e p c = (ret, c') \<Longrightarrow> q \<noteq> p \<Longrightarrow> pc_heap c' q = pc_heap c q"
  by (auto simp: fill_block_def Let_def split: prod.splits if_splits)

lemma load_heap_other:
  assumes "blocks_ok {} c hs" and "map_ok c" and "load e g c = (r, c')"
    and "q \<in> set (pc_vecMems c)" and "0 < held_at q hs" and "ms_FileName (pc_heap c q) \<noteq> g"
  shows "pc_heap c' q = pc_heap c q"
proof (cases "pc_mapFiles c g")
  case (Some p)
  then have "p \<noteq> q" using assms(2,4,6) by (auto simp: map_ok_def)
  with assms(3) Some show ?thesis
    by (auto simp: load_def Let_def fill_block_heap split: option.splits prod.splits if_splits)
next
  case None
  obtain cur c1 where g: "getMem e g c = (cur, c1)" by (metis surj_pair)
  have n: "pc_next c \<noteq> q" and cq: "ms_MemCount (pc_heap c q) \<noteq> 0" using assms(1,4,5) by (auto simp: blocks_ok_def)
  have h: "pc_heap c1 q = pc_heap c q \<and> (\<forall>p. cur = Some p \<longrightarrow> p \<noteq> q)"
  proof (cases "find (\<lambda>p. mem_is_free e (pc_heap c p)) (pc_vecMems c)")
    case (Some p)
    then have "p \<noteq> q" using find_SomeD[OF Some] cq by (auto simp: mem_is_free_def)
    with g Some show ?thesis by (auto simp: getMem_def Let_def split: if_splits)
  next
    case None2: None
    with g n show ?thesis by (auto simp: getMem_def Let_def split: if_splits)
  qed
  show ?thesis
  proof (cases cur)
    case no: None
    with assms(3) None g h show ?thesis by (auto simp: load_def split: option.splits prod.splits if_splits)
  next
    case (Some p)
    with h have "p \<noteq> q" by simp
    with assms(3) None g Some h show ?thesis
      by (auto simp: load_def Let_def fill_block_heap split: option.splits prod.splits if_splits)
  qed
qed

text \<open>
  Property C25 (held_block_is_kept). After every history of parts that start and end, a block that a thread
  is copying from belongs to the file the thread asked for, and a part of any other file that starts
  meanwhile, also one that needs memory, leaves the block as it is.
\<close>

theorem held_block_is_kept:
  assumes "s = fold cache_step es (empty_cache mx mn num)" and "(t, f, p, n) \<in> set (cr_held s)" and "g \<noteq> f"
  shows "ms_FileName (pc_heap (cr_cache s) p) = f \<and>
     pc_heap (cr_cache (cache_step (StartPart t' g e) s)) p = pc_heap (cr_cache s) p"
proof -
  have inv: "blocks_ok {} (cr_cache s) (cr_held s)" "map_ok (cr_cache s)" "held_ok (cr_cache s) (cr_held s)"
    using cache_events.run_inv[OF empty_cache_inv] assms(1) by (simp_all add: cache_inv_def)
  have p: "p \<in> set (pc_vecMems (cr_cache s))" "ms_FileName (pc_heap (cr_cache s) p) = f"
    using inv(2,3) assms(2) by (auto simp: held_ok_def map_ok_def split: if_split_asm)
  obtain r c' where l: "load e g (cr_cache s) = (r, c')" by (metis surj_pair)
  have "pc_heap c' p = pc_heap (cr_cache s) p"
    using load_heap_other[OF inv(1,2) l p(1) held_at_pos[OF assms(2)]] p(2) assms(3) by simp
  with p(2) l show ?thesis by (simp add: split_beta)
qed

section \<open>What is served\<close>

text \<open>
  Views of unchanged files: \<open>C f st\<close> is the content of a file with the size, inode and time \<open>st\<close>, and
  every call finds some such content and can read it. Blocks then hold the content of their own
  size, inode and time.
\<close>

type_synonym contents = "string \<Rightarrow> nat \<times> nat \<times> int \<Rightarrow> string"

definition honest :: "contents \<Rightarrow> string \<Rightarrow> file_view \<Rightarrow> bool" where
  "honest C f v \<longleftrightarrow> fv_open v \<and> fv_seek v \<and> fv_eof v \<and>
     (\<exists>st. fv_stat v = Some st \<and> fv_bytes v = C f st \<and> length (C f st) = fst st)"

fun honest_event :: "contents \<Rightarrow> cache_event \<Rightarrow> bool" where
  "honest_event C (StartPart t f e) = honest C f (le_view e)"
| "honest_event C (EndPart t) = True"

definition filled :: "contents \<Rightarrow> patch_cache \<Rightarrow> nat \<Rightarrow> bool" where
  "filled C c p \<longleftrightarrow> (let m = pc_heap c p; x = C (ms_FileName m) (ms_FileSize m, ms_FileInode m, ms_FileTime m)
     in length x = ms_FileSize m \<and> take (ms_FileSize m) (mem_bytes c p) = x)"

definition contents_ok :: "contents \<Rightarrow> patch_cache \<Rightarrow> bool" where
  "contents_ok C c \<longleftrightarrow> 0 < pc_MemMin c \<and> (\<forall>p \<in> set (pc_vecMems c). filled C c p)"

lemma filled_other: "pc_heap c' q = pc_heap c q \<Longrightarrow> filled C c' q = filled C c q"
  by (simp add: filled_def mem_bytes_def Let_def)

lemma fill_block_filled:
  assumes "fill_block e p c = (ret, c')" and "fv_bytes (le_view e) = C f st" and "length (C f st) = fst st"
    and "fv_open (le_view e)" "fv_seek (le_view e)" and "0 < fst st" and "ms_MemBuf (pc_heap c p) \<noteq> None"
    and "ms_FileName (pc_heap c p) = f" "(ms_FileSize (pc_heap c p), ms_FileInode (pc_heap c p), ms_FileTime (pc_heap c p)) = st"
  shows "ret = 0 \<and> filled C c' p \<and> pc_vecMems c' = pc_vecMems c \<and> pc_mapFiles c' = pc_mapFiles c \<and> pc_MemMin c' = pc_MemMin c
     \<and> ms_FileName (pc_heap c' p) = f \<and>
     (ms_FileSize (pc_heap c' p), ms_FileInode (pc_heap c' p), ms_FileTime (pc_heap c' p)) = st"
proof -
  obtain b where b: "ms_MemBuf (pc_heap c p) = Some b" using assms(7) by blast
  have sz: "ms_FileSize (pc_heap c p) = fst st" using assms(9) by auto
  have "C f st \<noteq> []" using assms(3,6) by auto
  then have "loadFile (le_view e) (Some b) (fst st) = (0, Some (C f st @ drop (fst st) b))"
    using assms(2-5) by (simp add: loadFile_def)
  then have "ret = 0 \<and> c' = set_mem p ((pc_heap c p)\<lparr>ms_MemBuf := Some (C f st @ drop (fst st) b),
      ms_MemCount := ms_MemCount (pc_heap c p) + 1, ms_MemTime := le_time e, ms_MemLoad := EM_LOADED\<rparr>) c"
    using assms(1) b sz by (auto simp: fill_block_def Let_def)
  then show ?thesis using assms(3,8,9) by (auto simp: filled_def mem_bytes_def Let_def)
qed

lemma getMem_kept:
  assumes "getMem e f c = (cur, c1)" and "blocks_ok {} c hs"
  shows "pc_MemMin c1 = pc_MemMin c"
    and "q \<in> set (pc_vecMems c1) \<Longrightarrow> cur \<noteq> Some q \<Longrightarrow> q \<in> set (pc_vecMems c) \<and> pc_heap c1 q = pc_heap c q"
    and "cur = Some q \<Longrightarrow> ms_MemBuf (pc_heap c1 q) \<noteq> None"
proof -
  have new: "pc_next c \<notin> set (pc_vecMems c)" using assms(2) by (auto simp: blocks_ok_def)
  have "pc_MemMin c1 = pc_MemMin c \<and>
     (q \<in> set (pc_vecMems c1) \<longrightarrow> cur \<noteq> Some q \<longrightarrow> q \<in> set (pc_vecMems c) \<and> pc_heap c1 q = pc_heap c q) \<and>
     (cur = Some q \<longrightarrow> ms_MemBuf (pc_heap c1 q) \<noteq> None)"
  proof (cases "find (\<lambda>p. mem_is_free e (pc_heap c p)) (pc_vecMems c)")
    case (Some p)
    then have "p \<in> set (pc_vecMems c)" by (auto dest: find_SomeD)
    then have "ms_MemBuf (pc_heap c p) \<noteq> None" using assms(2) by (simp add: blocks_ok_def)
    with assms(1) Some show ?thesis by (auto simp: getMem_def Let_def)
  next
    case None
    with assms(1) new show ?thesis
      by (auto simp: getMem_def Let_def new_mem_def remove1_append split: if_splits)
  qed
  then show "pc_MemMin c1 = pc_MemMin c"
    and "q \<in> set (pc_vecMems c1) \<Longrightarrow> cur \<noteq> Some q \<Longrightarrow> q \<in> set (pc_vecMems c) \<and> pc_heap c1 q = pc_heap c q"
    and "cur = Some q \<Longrightarrow> ms_MemBuf (pc_heap c1 q) \<noteq> None"
    by blast+
qed

lemma load_filled:
  assumes "cache_inv \<lparr>cr_cache = c, cr_held = hs\<rparr>" and "contents_ok C c" and "honest C f (le_view e)"
    and "load e f c = ((ret, p, n), c')"
  shows "contents_ok C c' \<and> (ret = 0 \<longrightarrow> fv_stat (le_view e) = Some (n, ms_FileInode (pc_heap c' p), ms_FileTime (pc_heap c' p))
     \<and> take n (mem_bytes c' p) = fv_bytes (le_view e))"
proof -
  obtain sz ino mt where st: "fv_stat (le_view e) = Some (sz, ino, mt)" and v: "fv_open (le_view e)" "fv_seek (le_view e)"
      "fv_bytes (le_view e) = C f (sz, ino, mt)" "length (C f (sz, ino, mt)) = fst (sz, ino, mt)"
    using assms(3) by (auto simp: honest_def)
  have b: "blocks_ok {} c hs" "map_ok c" using assms(1) by (simp_all add: cache_inv_def)
  have done': "contents_ok C c' \<and> (ret = 0 \<longrightarrow> fv_stat (le_view e) = Some (n, ms_FileInode (pc_heap c' p), ms_FileTime (pc_heap c' p))
     \<and> take n (mem_bytes c' p) = fv_bytes (le_view e))"
    if fl: "fill_block e q c2 = (r, c3)" and eqs: "ret = r" "c' = c3" "p = q" "n = sz" "0 < sz"
      and c2: "ms_MemBuf (pc_heap c2 q) \<noteq> None" "ms_FileName (pc_heap c2 q) = f"
        "(ms_FileSize (pc_heap c2 q), ms_FileInode (pc_heap c2 q), ms_FileTime (pc_heap c2 q)) = (sz, ino, mt)"
        "pc_MemMin c2 = pc_MemMin c" "\<forall>p \<in> set (pc_vecMems c2). p \<noteq> q \<longrightarrow> filled C c2 p"
    for q c2 r c3
  proof -
    have f: "r = 0 \<and> filled C c3 q \<and> pc_vecMems c3 = pc_vecMems c2 \<and> pc_mapFiles c3 = pc_mapFiles c2 \<and> pc_MemMin c3 = pc_MemMin c2
       \<and> ms_FileName (pc_heap c3 q) = f \<and>
       (ms_FileSize (pc_heap c3 q), ms_FileInode (pc_heap c3 q), ms_FileTime (pc_heap c3 q)) = (sz, ino, mt)"
      using fill_block_filled[where C = C and f = f and st = "(sz, ino, mt)", OF fl v(3,4,1,2) _ c2(1-3)] eqs(5) by simp
    moreover have "filled C c3 p" if "p \<in> set (pc_vecMems c2)" for p
      using f that c2(5) filled_other[OF fill_block_heap[OF fl], of p C] by (cases "p = q") auto
    ultimately show ?thesis
      using eqs st v(3) assms(2) c2(4) by (auto simp: contents_ok_def filled_def Let_def)
  qed
  show ?thesis
  proof (cases "sz > pc_MemMax c \<or> sz < pc_MemMin c")
    case True
    with assms(2,4) st show ?thesis by (auto simp: load_def)
  next
    case fits: False
    then have pos: "0 < sz" using assms(2) by (auto simp: contents_ok_def)
    show ?thesis
    proof (cases "pc_mapFiles c f")
      case None
      obtain cur c1 where g: "getMem e f c = (cur, c1)" by (metis surj_pair)
      have others: "\<forall>p \<in> set (pc_vecMems c1). cur \<noteq> Some p \<longrightarrow> filled C c1 p" and mm: "pc_MemMin c1 = pc_MemMin c"
        and buf: "\<forall>p. cur = Some p \<longrightarrow> ms_MemBuf (pc_heap c1 p) \<noteq> None"
        using getMem_kept[OF g b(1)] assms(2) filled_other unfolding contents_ok_def by metis+
      show ?thesis
      proof (cases cur)
        case no: None
        with assms(4) st fits None g have "ret = - 1" "c' = c1" by (auto simp: load_def)
        then show ?thesis using others mm no assms(2) by (simp add: contents_ok_def)
      next
        case (Some q)
        define c2 where "c2 = (let c2 = set_mem q ((pc_heap c1 q)\<lparr>ms_FileName := f, ms_FileSize := sz, ms_FileInode := ino, ms_FileTime := mt\<rparr>) c1
             in c2\<lparr>pc_mapFiles := map_insert f q (pc_mapFiles c2)\<rparr>)"
        obtain r c3 where fl: "fill_block e q c2 = (r, c3)" by (metis surj_pair)
        have "ret = r" "c' = c3" "p = q" "n = sz"
          using assms(4) st fits None g Some fl by (auto simp: load_def c2_def Let_def)
        moreover have "\<forall>p \<in> set (pc_vecMems c2). p \<noteq> q \<longrightarrow> filled C c2 p"
          using others Some by (auto simp: c2_def Let_def filled_def mem_bytes_def)
        ultimately show ?thesis
          using buf mm Some pos by (intro done'[OF fl]) (auto simp: c2_def Let_def)
      qed
    next
      case (Some q)
      let ?m = "pc_heap c q"
      consider (loading) "ms_MemLoad ?m = EM_LOADING \<or> ms_MemLoad ?m = EM_RELOAD"
        | (same) "ms_MemLoad ?m \<notin> {EM_LOADING, EM_RELOAD}" "ms_FileSize ?m = sz \<and> ms_FileTime ?m = mt \<and> ms_FileInode ?m = ino"
        | (changed) "ms_MemLoad ?m \<notin> {EM_LOADING, EM_RELOAD}" "\<not> (ms_FileSize ?m = sz \<and> ms_FileTime ?m = mt \<and> ms_FileInode ?m = ino)"
        by blast
      then show ?thesis
      proof cases
        case loading
        with assms(2,4) st fits Some show ?thesis by (auto simp: load_def contents_ok_def filled_def mem_bytes_def)
      next
        case same
        then have q: "q \<in> set (pc_vecMems c)" "ms_FileName ?m = f" using b(2) Some by (auto simp: map_ok_def split: if_split_asm)
        then have "take sz (mem_bytes c q) = C f (sz, ino, mt)"
          using assms(2) same(2) by (auto simp: contents_ok_def filled_def Let_def)
        moreover have "ret = 0" "p = q" "n = sz" "c' = set_mem q (?m\<lparr>ms_MemTime := le_time e, ms_MemCount := ms_MemCount ?m + 1\<rparr>) c"
          using same assms(4) st fits Some by (auto simp: load_def Let_def)
        ultimately show ?thesis using assms(2) st v(3) same(2)
          by (auto simp: contents_ok_def filled_def mem_bytes_def Let_def)
      next
        case changed
        define c2 where "c2 = set_mem q (?m\<lparr>ms_FileSize := sz, ms_FileInode := ino, ms_FileTime := mt, ms_MemLoad := EM_RELOAD\<rparr>) c"
        have q: "q \<in> set (pc_vecMems c)" "ms_FileName ?m = f" using b(2) Some changed by (auto simp: map_ok_def split: if_split_asm)
        obtain r c3 where fl: "fill_block e q c2 = (r, c3)" by (metis surj_pair)
        have "ret = r" "c' = c3" "p = q" "n = sz"
          using assms(4) st fits Some changed fl by (auto simp: load_def c2_def Let_def)
        moreover have "ms_MemBuf ?m \<noteq> None" using b(1) q(1) by (simp add: blocks_ok_def)
        moreover have "\<forall>p \<in> set (pc_vecMems c2). p \<noteq> q \<longrightarrow> filled C c2 p"
          using assms(2) by (auto simp: c2_def contents_ok_def filled_def mem_bytes_def)
        ultimately show ?thesis
          using pos q(2) by (intro done'[OF fl]) (auto simp: c2_def)
      qed
    qed
  qed
qed


lemma run_contents:
  assumes "\<forall>ev \<in> set es. honest_event C ev" and "cache_inv s" and "contents_ok C (cr_cache s)"
  shows "contents_ok C (cr_cache (fold cache_step es s))"
  using assms
proof (induction es arbitrary: s)
  case (Cons ev es)
  have "contents_ok C (cr_cache (cache_step ev s))"
  proof (cases ev)
    case (StartPart t f e)
    obtain r p n c' where l: "load e f (cr_cache s) = ((r, p, n), c')" by (metis surj_pair)
    have "cache_inv \<lparr>cr_cache = cr_cache s, cr_held = cr_held s\<rparr>" using Cons.prems(2) by (simp add: cache_inv_def)
    from load_filled[OF this Cons.prems(3) _ l] show ?thesis using Cons.prems(1) StartPart l by simp
  next
    case (EndPart t)
    with Cons.prems(3) show ?thesis
      by (auto simp: release_def Let_def contents_ok_def filled_def mem_bytes_def split: option.splits)
  qed
  moreover have "cache_inv (cache_step ev s)" using Cons.prems(2) by (rule cache_step_inv)
  ultimately show ?case using Cons by simp
qed simp

text \<open>The caches that a server can have when all files it was asked for could be read.\<close>

definition good_cache :: "contents \<Rightarrow> patch_cache \<Rightarrow> bool" where
  "good_cache C c \<longleftrightarrow> (\<exists>es mx mn num. (\<forall>ev \<in> set es. honest_event C ev) \<and>
     c = cr_cache (fold cache_step es (empty_cache mx mn num)))"

lemma good_cacheD:
  assumes "good_cache C c"
  shows "contents_ok C c" and "\<exists>hs. cache_inv \<lparr>cr_cache = c, cr_held = hs\<rparr>"
proof -
  obtain es mx mn num where es: "\<forall>ev \<in> set es. honest_event C ev"
    "c = cr_cache (fold cache_step es (empty_cache mx mn num))" using assms by (auto simp: good_cache_def)
  have "contents_ok C (cr_cache (empty_cache mx mn num))"
    by (simp add: contents_ok_def empty_cache_def setMemOption_def)
  with run_contents[OF es(1) empty_cache_inv] show "contents_ok C c" using es(2) by simp
  have "cache_inv (fold cache_step es (empty_cache mx mn num))" by (rule cache_events.run_inv[OF empty_cache_inv])
  then show "\<exists>hs. cache_inv \<lparr>cr_cache = c, cr_held = hs\<rparr>" using es(2) by (auto simp: cache_inv_def)
qed

definition next_part :: "nat \<Rightarrow> nat \<Rightarrow> string \<Rightarrow> int \<times> string" where
  "next_part psize pos x = (if pos < length x then (0, take psize (drop pos x)) else (1, []))"

lemma copy_part_next:
  assumes "take n (mem_bytes c p) = x" and "n = length x"
  shows "copy_part c k p n pos = next_part k pos x"
proof (cases "pos < n")
  case True
  have "take (min k (n - pos)) (drop pos (mem_bytes c p)) = take k (take (n - pos) (drop pos (mem_bytes c p)))"
    by (simp add: min.commute)
  also have "take (n - pos) (drop pos (mem_bytes c p)) = drop pos x"
    using assms(1) by (auto simp: drop_take)
  finally show ?thesis using True assms(2) by (auto simp: copy_part_def next_part_def min_def)
next
  case False
  with assms(2) show ?thesis by (simp add: copy_part_def next_part_def)
qed

text \<open>
  Fact (part_of_the_file). A server whose files can be read answers a request for a part with code 0
  and the bytes of the file from that position on, at most the configured number of them, and with code 1
  from the end on, whether the part comes from the cache or from the file, and whatever
  the cache has been used for before.
\<close>

theorem part_of_the_file:
  assumes "good_cache C c" and "honest C path (le_view (de_load e))" and "de_view e = le_view (de_load e)"
    and "0 < k" and "pos < 2 ^ 31"
  shows "fst (fst (downloadPath k e path (int pos) c)) = (if pos < length (fv_bytes (de_view e)) then 0 else 1) \<and>
     (pos < length (fv_bytes (de_view e)) \<longrightarrow>
        snd (fst (downloadPath k e path (int pos) c)) = take k (drop pos (fv_bytes (de_view e))))"
proof -
  define x where "x = fv_bytes (de_view e)"
  obtain hs where inv: "cache_inv \<lparr>cr_cache = c, cr_held = hs\<rparr>" using good_cacheD(2)[OF assms(1)] by blast
  obtain r p n c' where l: "load (de_load e) path c = ((r, p, n), c')" by (metis surj_pair)
  have lf: "r = 0 \<longrightarrow> take n (mem_bytes c' p) = x \<and> n = length x"
    using load_filled[OF inv good_cacheD(1)[OF assms(1)] assms(2) l] assms(2,3) by (auto simp: x_def honest_def)
  have pos: "nat (int pos mod 18446744073709551616) = pos" "pos < 2 ^ 63" using assms(5) by auto
  have "fst (fst (downloadPath k e path (int pos) c)) = fst (next_part k pos x) \<and>
     (pos < length x \<longrightarrow> snd (fst (downloadPath k e path (int pos) c)) = take k (drop pos x))"
  proof (cases "r = 0")
    case True
    then have copy: "copy_part c' k p n pos = next_part k pos x"
      using copy_part_next[of n c' p x k pos] lf by blast
    with True have "downloadFromMem k (de_load e) path pos c = (next_part k pos x, snd (release path c'))"
      using copy l by (simp add: downloadFromMem_def)
    then show ?thesis using pos by (simp add: downloadPath_def next_part_def)
  next
    case False
    then have "fst (downloadFromMem k (de_load e) path pos c) = (- 1, [])"
      using l by (simp add: downloadFromMem_def)
    moreover have "downloadFromFile k (de_view e) pos =
        (if pos < length x then (0, take k (drop pos x)) else (1, replicate k (CHR 0x00)))"
      using assms(2,3,4) pos(2) by (auto simp: downloadFromFile_def honest_def x_def)
    ultimately show ?thesis using pos by (auto simp: downloadPath_def next_part_def split_beta)
  qed
  then show ?thesis unfolding x_def next_part_def by (simp split: if_split_asm)
qed




section \<open>The node downloads from this server\<close>

text \<open>
  The server as a node sees it for one file: the \<open>n\<close>-th call of \<open>download\<close> finds the environment \<open>E n\<close> and
  the cache \<open>K n\<close>, which other nodes use too; the listing answers one file.
\<close>

definition as_remote ::
  "patch_imp \<Rightarrow> file_sys \<Rightarrow> string \<Rightarrow> (nat \<Rightarrow> download_env) \<Rightarrow> (nat \<Rightarrow> patch_cache) \<Rightarrow> patch_remote" where
  "as_remote s fx f E K = \<lparr>pr_throws = False,
     pr_list = (\<lambda>n. case listFileInfo s fx f [] of (r, vf) \<Rightarrow> Some (r, length vf)),
     pr_size = (case listFileInfo s fx f [] of (r, vf) \<Rightarrow> if vf = [] then 0 else fi_size (hd vf)),
     pr_open = True, pr_chunk = (\<lambda>n pos. Some (fst (download s (E n) f pos (K n))))\<rparr>"

lemma server_serves:
  assumes "pi_simplify s (pi_directory s @ ''/'' @ f) = path" and "\<not> str_contains path ''..''" and "\<not> fx_is_dir fx path"
    and "\<And>n. good_cache C (K n)" and "\<And>n. honest C path (le_view (de_load (E n)))"
    and "\<And>n. de_view (E n) = le_view (de_load (E n))" and "\<And>n. fv_bytes (de_view (E n)) = x"
    and "0 < pi_size s" and "length x < 2 ^ 31"
  shows "serves (as_remote s fx f E K) x"
proof -
  have ans: "\<exists>b. answer (as_remote s fx f E K) n (int k) = Some (fst (next_part (pi_size s) k x), b) \<and>
      (k < length x \<longrightarrow> b = take (pi_size s) (drop k x))" if "k \<le> length x" for n k
  proof -
    have "k < 2 ^ 31" using that assms(9) by simp
    from part_of_the_file[OF assms(4,5,6,8) this] show ?thesis
      by (auto simp: next_part_def answer_def as_remote_def download_def assms(1)[simplified] assms(7) prod_eq_iff)
  qed
  have li: "list_remote (as_remote s fx f E K) = (1, 1)"
    using assms(1-3) by (simp add: list_remote_def as_remote_def listFileInfo_def listFiles_def)
  show ?thesis
    unfolding serves_def
  proof (intro conjI allI impI)
    show "\<exists>m>0. list_remote (as_remote s fx f E K) = (1, m)" using li by auto
    fix n k
    assume "k \<le> length x"
    from ans[OF this, of n] assms(8)
    show "if k < length x then \<exists>b. b \<noteq> [] \<and> answer (as_remote s fx f E K) n (int k) = Some (0, b) \<and> take (length b) (drop k x) = b
        else \<exists>b. answer (as_remote s fx f E K) n (int k) = Some (1, b)"
      by (auto simp: next_part_def min_def)
  qed (simp_all add: as_remote_def)
qed


section \<open>A failed load is served\<close>

text \<open>
  Fact (failed_load_is_served). When reading a file into the cache fails once, the block keeps what was
  in it, but the size, inode and time of the new file are already noted: the next request for the file
  is answered with code 0 from that block, with the bytes of another package.
\<close>

theorem failed_load_is_served:
  assumes "pc_mapFiles c f = None" and "getMem e f c = (Some p, c1)" and "ms_MemBuf (pc_heap c1 p) = Some old"
    and "fv_stat (le_view e) = Some (sz, ino, mt)" and "pc_MemMin c \<le> sz" and "sz \<le> pc_MemMax c"
    and "\<not> fv_open (le_view e)" and "fv_stat (le_view e') = Some (sz, ino, mt)" and "pos < sz"
  shows "fst (fst (load e f c)) = - 1 \<and>
     fst (downloadFromMem k e' f pos (snd (load e f c))) = (0, take (min k (sz - pos)) (drop pos old))"
proof -
  let ?m = "(pc_heap c1 p)\<lparr>ms_FileName := f, ms_FileSize := sz, ms_FileInode := ino, ms_FileTime := mt,
      ms_MemBuf := Some old, ms_MemTime := 0, ms_MemLoad := EM_NLOAD\<rparr>"
  have fr: "pc_MemMax c1 = pc_MemMax c" "pc_MemMin c1 = pc_MemMin c" "pc_mapFiles c1 f \<in> {None, Some p}"
    using assms(1,2) by (auto simp: getMem_def Let_def map_insert_def split: option.splits if_splits)
  have l: "load e f c = ((- 1, p, sz), (c1\<lparr>pc_mapFiles := map_insert f p (pc_mapFiles c1)\<rparr>)\<lparr>pc_heap := (pc_heap c1)(p := ?m)\<rparr>)"
    using assms(1-7) by (simp add: load_def Let_def fill_block_def loadFile_def)
  have m: "map_insert f p (pc_mapFiles c1) f = Some p" using fr(3) by (auto simp: map_insert_def)
  define c2 where "c2 = snd (load e f c)"
  have c2: "pc_MemMax c2 = pc_MemMax c" "pc_MemMin c2 = pc_MemMin c" "pc_mapFiles c2 f = Some p" "pc_heap c2 p = ?m"
    using l fr m by (simp_all add: c2_def)
  have "load e' f c2 = ((0, p, sz), set_mem p (?m\<lparr>ms_MemTime := le_time e', ms_MemCount := ms_MemCount ?m + 1\<rparr>) c2)"
    using assms(5,6,8) c2 by (simp add: load_def)
  then have "fst (downloadFromMem k e' f pos c2) = (0, take (min k (sz - pos)) (drop pos old))"
    using assms(9) by (auto simp: downloadFromMem_def copy_part_def mem_bytes_def min_def)
  then show ?thesis using l by (simp add: c2_def)
qed


section \<open>Uploading\<close>

text \<open>The pieces of one package, the first and the last one marked, all with the digest of the whole.\<close>

definition piece :: "string \<Rightarrow> string \<Rightarrow> bool \<Rightarrow> bool \<Rightarrow> string \<Rightarrow> file_content" where
  "piece name md5 a b x = \<lparr>fc_name = name, fc_md5 = md5, fc_firstChunk = a, fc_lastChunk = b, fc_content = x\<rparr>"

fun upload_all :: "patch_imp \<Rightarrow> upload_env \<Rightarrow> string \<Rightarrow> string \<Rightarrow> file_content list \<Rightarrow> file_store \<Rightarrow> int list \<times> file_store" where
  "upload_all s u app server [] d = ([], d)"
| "upload_all s u app server (x # xs) d =
     (let (r, d) = upload s u app server x d; (rs, d) = upload_all s u app server xs d in (r # rs, d))"

definition pieces_of :: "string \<Rightarrow> string \<Rightarrow> string list \<Rightarrow> string \<Rightarrow> file_content list" where
  "pieces_of name md5 xs y =
     (case xs of [] \<Rightarrow> [piece name md5 True True y]
      | x # xs \<Rightarrow> piece name md5 True False x # map (piece name md5 False False) xs @ [piece name md5 False True y])"

lemma upload_rest:
  assumes "um_mkdir u (upload_dir s app server)" and "um_open u (upload_dir s app server @ ''/'' @ name)"
    and "d (upload_dir s app server @ ''/'' @ name) = Some z"
    and "\<And>k. k \<le> length xs \<Longrightarrow> um_md5 u (z @ concat (take k xs)) \<noteq> md5" and "um_md5 u (z @ concat xs @ y) = md5"
  shows "upload_all s u app server (map (piece name md5 False False) xs @ [piece name md5 False True y]) d =
     (replicate (length xs + 1) 0, d(upload_dir s app server @ ''/'' @ name \<mapsto> z @ concat xs @ y))"
  using assms(3-5)
proof (induction xs arbitrary: z d)
  case Nil
  then show ?case using assms(1,2) Nil.prems(2)[of 0] by (simp add: upload_def Let_def piece_def fun_upd_def)
next
  case (Cons x xs)
  have n0: "um_md5 u z \<noteq> md5" using Cons.prems(2)[of 0] by simp
  let ?f = "upload_dir s app server @ ''/'' @ name"
  have "um_md5 u ((z @ x) @ concat (take k xs)) \<noteq> md5" if "k \<le> length xs" for k
    using Cons.prems(2)[of "Suc k"] that by simp
  then have ih: "upload_all s u app server (map (piece name md5 False False) xs @ [piece name md5 False True y]) (d(?f \<mapsto> z @ x)) =
      (replicate (length xs + 1) 0, (d(?f \<mapsto> z @ x))(?f \<mapsto> (z @ x) @ concat xs @ y))"
    using Cons.prems(3) by (intro Cons.IH) auto
  have "upload s u app server (piece name md5 False False x) d = (0, d(?f \<mapsto> z @ x))"
    using assms(1,2) Cons.prems(1) n0 by (simp add: upload_def Let_def piece_def)
  with ih show ?case by (simp add: fun_eq_iff)
qed

text \<open>
  Property C27 (upload_prepare_roundtrip). A package uploaded in pieces, when no proper beginning of it and
  no older file of the name has its digest, is accepted piece by piece; preparing it afterwards puts
  exactly its bytes at the place from which the nodes download. The hypothesis on \<open>copyFile\<close> is that it copies.
\<close>

theorem upload_prepare_roundtrip:
  assumes "um_mkdir u (upload_dir s app server)" and "um_mkdir u (patch_dst_dir s app server)"
    and "um_open u (upload_dir s app server @ ''/'' @ name)"
    and "\<And>a b d' x. d' a = Some x \<Longrightarrow> um_copy u a b d' = Some (d'(b \<mapsto> x))"
    and "\<And>z. d (upload_dir s app server @ ''/'' @ name) = Some z \<Longrightarrow> um_md5 u z \<noteq> um_md5 u (concat xs @ y)"
    and "\<And>k. k \<le> length xs \<Longrightarrow> um_md5 u (concat (take k xs)) \<noteq> um_md5 u (concat xs @ y)"
  shows "\<exists>d1 d2. upload_all s u app server (pieces_of name (um_md5 u (concat xs @ y)) xs y) d = (replicate (length xs + 1) 0, d1) \<and>
     preparePatchFile s u app server name res d1 = Some (0, res, d2) \<and>
     d2 (patch_dst_dir s app server @ ''/'' @ app @ ''.'' @ server @ ''.tgz'') = Some (concat xs @ y)"
proof -
  let ?f = "upload_dir s app server @ ''/'' @ name" and ?m = "um_md5 u (concat xs @ y)"
  have old: "\<not> (case d ?f of None \<Rightarrow> False | Some c \<Rightarrow> um_md5 u c = ?m)"
    using assms(5) by (auto split: option.splits)
  have up: "upload_all s u app server (pieces_of name ?m xs y) d = (replicate (length xs + 1) 0, d(?f \<mapsto> concat xs @ y))"
  proof (cases xs)
    case Nil
    have "upload s u app server (piece name ?m True True y) d = (0, d(?f \<mapsto> y))"
      using assms(1,3) old Nil by (auto simp: upload_def Let_def piece_def split: option.splits)
    with Nil show ?thesis by (simp add: pieces_of_def)
  next
    case (Cons x xs')
    have first: "upload s u app server (piece name ?m True False x) d = (0, d(?f \<mapsto> x))"
      using assms(1,3) old by (auto simp: upload_def Let_def piece_def split: option.splits)
    have "um_md5 u (x @ concat (take k xs')) \<noteq> ?m" if "k \<le> length xs'" for k
      using assms(6)[of "Suc k"] that Cons by simp
    then have "upload_all s u app server (map (piece name ?m False False) xs' @ [piece name ?m False True y]) (d(?f \<mapsto> x)) =
        (replicate (length xs' + 1) 0, (d(?f \<mapsto> x))(?f \<mapsto> x @ concat xs' @ y))"
      using Cons by (intro upload_rest[OF assms(1,3)]) auto
    with first Cons show ?thesis by (simp add: pieces_of_def)
  qed
  have "um_copy u ?f b (d(?f \<mapsto> concat xs @ y)) = Some ((d(?f \<mapsto> concat xs @ y))(b \<mapsto> concat xs @ y))" for b
    by (rule assms(4)) simp
  with up assms(2) show ?thesis by (simp add: preparePatchFile_def Let_def)
qed

text \<open>
  Fact (bad_upload_stays). A package whose digest is wrong after the last piece is answered with -3, but
  the file stays in the directory, and preparing it for the nodes succeeds.
\<close>

theorem bad_upload_stays:
  assumes "fst (upload s u app server x d) = - 3" and "um_mkdir u (patch_dst_dir s app server)"
    and "\<And>a b d' y. d' a = Some y \<Longrightarrow> um_copy u a b d' = Some (d'(b \<mapsto> y))"
  shows "\<exists>bad d2. um_md5 u bad \<noteq> fc_md5 x \<and>
     preparePatchFile s u app server (fc_name x) res (snd (upload s u app server x d)) = Some (0, res, d2) \<and>
     d2 (patch_dst_dir s app server @ ''/'' @ app @ ''.'' @ server @ ''.tgz'') = Some bad"
proof -
  let ?f = "upload_dir s app server @ ''/'' @ fc_name x"
  obtain new where new: "snd (upload s u app server x d) = d(?f \<mapsto> new)" "um_md5 u new \<noteq> fc_md5 x"
    using assms(1) by (auto simp: upload_def Let_def split: if_splits)
  have "um_copy u ?f b (d(?f \<mapsto> new)) = Some ((d(?f \<mapsto> new))(b \<mapsto> new))" for b by (rule assms(3)) simp
  with new assms(2) show ?thesis by (auto simp: preparePatchFile_def Let_def)
qed






section \<open>Witnesses\<close>

definition sample_imp :: patch_imp where
  "sample_imp = \<lparr>pi_directory = ''/d'', pi_uploadDirectory = ''/u'', pi_size = 2, pi_simplify = id\<rparr>"

definition sample_view :: file_view where
  "sample_view = \<lparr>fv_stat = Some (3, 1, 1), fv_open = True, fv_seek = True, fv_bytes = ''abc'', fv_eof = True\<rparr>"

definition sample_load :: load_env where
  "sample_load = \<lparr>le_time = 0, le_expire = 30, le_malloc = Some ''......'', le_view = sample_view\<rparr>"

definition sample_download :: download_env where
  "sample_download = \<lparr>de_load = sample_load, de_view = sample_view\<rparr>"

definition sample_fx :: file_sys where
  "sample_fx = \<lparr>fx_is_dir = (\<lambda>p. False), fx_is_reg = (\<lambda>p. True), fx_size = (\<lambda>p. 3), fx_exec = (\<lambda>p. False),
     fx_md5 = id, fx_name = id, fx_list = (\<lambda>p. [])\<rparr>"

definition sample_um :: upload_env where
  "sample_um = \<lparr>um_mkdir = (\<lambda>p. True), um_open = (\<lambda>p. True), um_md5 = id,
     um_copy = (\<lambda>a b d. map_option (\<lambda>x. d(b \<mapsto> x)) (d a)), um_remove = (\<lambda>p d. (0, d(p := None)))\<rparr>"

abbreviation sample_contents :: contents where
  "sample_contents \<equiv> (\<lambda>f st. ''abc'')"

lemma sample_honest: "honest sample_contents f sample_view"
  by (simp add: honest_def sample_view_def)

lemma sample_good: "good_cache sample_contents (cr_cache (empty_cache 10 0 2))"
  unfolding good_cache_def by (intro exI[of _ "[]"] exI[of _ 10] exI[of _ 0] exI[of _ 2]) simp

text \<open>A small cache in which a thread copies from a block of two bytes.\<close>

definition small_cache :: "nat \<Rightarrow> cache_run" where
  "small_cache k = \<lparr>cr_cache = \<lparr>pc_heap = (\<lambda>p. new_mem), pc_next = 0, pc_vecMems = [], pc_mapFiles = (\<lambda>f. None),
     pc_MemMax = 10, pc_MemMin = 1, pc_MemNum = k\<rparr>, cr_held = []\<rparr>"

definition big_view :: file_view where
  "big_view = sample_view\<lparr>fv_stat := Some (2097152, 1, 1)\<rparr>"

theorem held_block_is_kept_witness:
  "ms_FileName (pc_heap (cr_cache (cache_step (StartPart 1 ''f'' (sample_load\<lparr>le_view := big_view\<rparr>)) (empty_cache 3000000 0 2))) 0) = ''f''"
proof -
  have "(1, ''f'', 0, 2097152) \<in> set (cr_held (cache_step (StartPart 1 ''f'' (sample_load\<lparr>le_view := big_view\<rparr>)) (empty_cache 3000000 0 2)))"
    by (simp add: load_def getMem_def empty_cache_def setMemOption_def big_view_def sample_view_def sample_load_def
        Let_def new_mem_def map_insert_def fill_block_def loadFile_def)
  then show ?thesis
    using held_block_is_kept[where es = "[StartPart 1 ''f'' (sample_load\<lparr>le_view := big_view\<rparr>)]" and mx = 3000000 and mn = 0
        and num = 2 and t = 1 and f = "''f''" and p = 0 and n = 2097152 and g = "''g''"]
    by simp
qed

theorem part_of_the_file_witness:
  "snd (fst (downloadPath 2 sample_download ''/d/f'' 0 (cr_cache (empty_cache 10 0 2)))) = ''ab''"
  using part_of_the_file[OF sample_good, where path = "''/d/f''" and e = sample_download and k = 2 and pos = 0] sample_honest
  by (simp add: sample_download_def sample_load_def sample_view_def)


definition two_files :: patch_cache where
  "two_files = snd (release ''g'' (snd (load sample_load ''g'' (cr_cache (small_cache 1)))))"

theorem failed_load_is_served_witness:
  "fst (downloadFromMem 2 (sample_load\<lparr>le_time := 100\<rparr>) ''f'' 0
     (snd (load (sample_load\<lparr>le_time := 100, le_view := sample_view\<lparr>fv_open := False, fv_bytes := ''xyz''\<rparr>\<rparr>) ''f'' two_files))) = (0, ''ab'')"
proof -
  let ?e = "sample_load\<lparr>le_time := 100, le_view := sample_view\<lparr>fv_open := False, fv_bytes := ''xyz''\<rparr>\<rparr>"
  have "fst (getMem ?e ''f'' two_files) = Some 0" by code_simp
  then have g: "getMem ?e ''f'' two_files = (Some 0, snd (getMem ?e ''f'' two_files))" by (simp add: prod_eq_iff)
  have b: "ms_MemBuf (pc_heap (snd (getMem ?e ''f'' two_files)) 0) = Some ''abc...''" by code_simp
  have c: "pc_mapFiles two_files ''f'' = None" "pc_MemMin two_files = 1" "pc_MemMax two_files = 10" by code_simp+
  show ?thesis
    using failed_load_is_served[OF c(1) g b, where sz = 3 and ino = 1 and mt = 1 and pos = 0 and k = 2 and
        e' = "sample_load\<lparr>le_time := 100\<rparr>"] c(2,3)
    by (simp add: sample_load_def sample_view_def)
qed

theorem upload_prepare_roundtrip_witness:
  "\<exists>d1 d2. upload_all sample_imp sample_um ''A'' ''S'' (pieces_of ''p.tgz'' ''abc'' [''ab''] ''c'') (\<lambda>f. None) = ([0, 0], d1) \<and>
     preparePatchFile sample_imp sample_um ''A'' ''S'' ''p.tgz'' '''' d1 = Some (0, '''', d2) \<and>
     d2 ''/d/TARSBatchPatching/A/S/A.S.tgz'' = Some ''abc''"
proof -
  have pre: "id (concat (take k [''ab''])) \<noteq> id (concat [''ab''] @ ''c'')" if "k \<le> length [''ab'']" for k
    using that by (auto simp: le_Suc_eq)
  have "\<exists>d1 d2. upload_all sample_imp sample_um ''A'' ''S'' (pieces_of ''p.tgz'' (um_md5 sample_um (concat [''ab''] @ ''c'')) [''ab''] ''c'') (\<lambda>f. None) =
       (replicate (length [''ab''] + 1) 0, d1) \<and>
     preparePatchFile sample_imp sample_um ''A'' ''S'' ''p.tgz'' '''' d1 = Some (0, '''', d2) \<and>
     d2 (patch_dst_dir sample_imp ''A'' ''S'' @ ''/'' @ ''A'' @ ''.'' @ ''S'' @ ''.tgz'') = Some (concat [''ab''] @ ''c'')"
    by (rule upload_prepare_roundtrip) (use pre in \<open>simp_all add: sample_um_def\<close>)
  then show ?thesis by (simp add: sample_um_def sample_imp_def patch_dst_dir_def)
qed

theorem bad_upload_stays_witness:
  "\<exists>bad d2. bad \<noteq> ''other'' \<and>
     preparePatchFile sample_imp sample_um ''A'' ''S'' ''p.tgz'' ''''
       (snd (upload sample_imp sample_um ''A'' ''S'' (piece ''p.tgz'' ''other'' True True ''abc'') (\<lambda>f. None))) = Some (0, '''', d2) \<and>
     d2 ''/d/TARSBatchPatching/A/S/A.S.tgz'' = Some bad"
  using bad_upload_stays[where u = sample_um and s = sample_imp and app = "''A''" and server = "''S''" and
      x = "piece ''p.tgz'' ''other'' True True ''abc''" and d = "\<lambda>f. None" and res = "''''"]
  by (simp add: sample_um_def sample_imp_def patch_dst_dir_def upload_def piece_def)





end
