(* ===== verification/Stat_Count.thy ===== *)
theory Stat_Count
  imports Tars_Map "HOL-Library.Signed_Division" "HOL-Library.Multiset"
begin

text \<open>
  The counting of calls (\<open>StatServer/StatImp.cpp\<close>, \<open>StatHashMap.h\<close>, \<open>StatServer.cpp\<close> and \<open>ReapSSDThread.cpp\<close>):
  reports are added up in one of two groups of hash maps; the groups change roles at intervals, and the
  one that rests is taken to the databases, each record to one of them, by turns or by weights.
\<close>

section \<open>Records\<close>

text \<open>The fields of \<open>StatMicMsgHead\<close> and \<open>StatMicMsgBody\<close> (\<open>StatF.tars\<close>) that the server reads.\<close>

record stat_head =
  masterName :: string
  slaveName :: string
  interfaceName :: string
  masterIp :: string
  slaveIp :: string
  slavePort :: int
  returnValue :: int
  tarsVersion :: string

record stat_body =
  bd_count :: int
  timeoutCount :: int
  execCount :: int
  intervalCount :: "(int, int) omap"
  totalRspTime :: int
  maxRspTime :: int
  minRspTime :: int

definition no_body :: stat_body where
  "no_body = \<lparr> bd_count = 0, timeoutCount = 0, execCount = 0, intervalCount = [], totalRspTime = 0, maxRspTime = 0, minRspTime = 0 \<rparr>"

text \<open>A hash map of the shared memory, in the order its iterator has; the latest record first.\<close>

type_synonym stat_map = "(stat_head \<times> stat_body) list"

definition st_put :: "'k \<Rightarrow> 'v \<Rightarrow> ('k \<times> 'v) list \<Rightarrow> ('k \<times> 'v) list" where
  "st_put h b m = (h, b) # filter (\<lambda>p. fst p \<noteq> h) m"

text \<open>
  What the library gives: the hash of a string, the code of reading and of writing a record of a map (0 when
  it did), the blocks a map uses of all blocks, local time in minutes (\<open>tm2str\<close>), and numbers in strings.
\<close>

record stat_env =
  se_hash :: "string \<Rightarrow> nat"
  se_get :: "stat_map \<Rightarrow> stat_head \<Rightarrow> int"
  se_set :: "stat_map \<Rightarrow> stat_head \<Rightarrow> stat_body \<Rightarrow> int"
  se_used :: "stat_map \<Rightarrow> nat"
  se_all :: nat
  se_minute :: "int \<Rightarrow> string"
  se_tc :: tc_common

section \<open>Adding a record\<close>

definition add_interval :: "int \<times> int \<Rightarrow> (int, int) omap \<Rightarrow> (int, int) omap option" where
  "add_interval p m = map_option (\<lambda>v. om_put (fst p) v m) (ck32 (om_get 0 m (fst p) + snd p))"

text \<open>\<open>None\<close> is an overflow. The minimum is that of the values other than 0.\<close>

definition add_body :: "stat_body \<Rightarrow> stat_body \<Rightarrow> stat_body option" where
  "add_body body st =
     Option.bind (ck32 (bd_count st + bd_count body)) (\<lambda>c.
     Option.bind (ck32 (execCount st + execCount body)) (\<lambda>ec.
     Option.bind (ck32 (timeoutCount st + timeoutCount body)) (\<lambda>tc.
     Option.bind (fold_opt add_interval (intervalCount body) (intervalCount st)) (\<lambda>ic.
     map_option (\<lambda>tot.
       \<lparr> bd_count = c, timeoutCount = tc, execCount = ec, intervalCount = ic, totalRspTime = tot,
         maxRspTime = (if maxRspTime st < maxRspTime body then maxRspTime body else maxRspTime st),
         minRspTime = (if minRspTime st = 0 \<or> (minRspTime body < minRspTime st \<and> minRspTime body \<noteq> 0) then minRspTime body
           else minRspTime st) \<rparr>)
       (ck64 (totalRspTime st + totalRspTime body))))))"

definition stat_add :: "stat_env \<Rightarrow> stat_head \<Rightarrow> stat_body \<Rightarrow> stat_map \<Rightarrow> (int \<times> stat_map) option" where
  "stat_add e head body m =
     (if se_get e m head < 0 then Some (-1, m)
      else map_option (\<lambda>st. (se_set e m head st, if se_set e m head st = 0 then st_put head st m else m))
        (add_body body (case map_of m head of None \<Rightarrow> no_body | Some st \<Rightarrow> st)))"

section \<open>The server\<close>

text \<open>
  \<open>sa_select\<close> is the group in use, \<open>sa_buffer g\<close> the times at which each thread wrote to group \<open>g\<close>, \<open>sa_maps g\<close> its
  maps. The interval is in minutes.
\<close>

record stat_app =
  sa_select :: nat
  sa_buffer :: "nat \<Rightarrow> int list"
  sa_maps :: "nat \<Rightarrow> stat_map list"
  sa_lastDump :: int
  sa_interval :: int
  sa_vip :: "string \<rightharpoonup> string"

text \<open>The start of the interval, its date and its flag; the full hour is written as minute 60 of the hour before.\<close>

definition getTimeInfo :: "(int \<Rightarrow> string) \<Rightarrow> int \<Rightarrow> int \<Rightarrow> int \<times> string \<times> string" where
  "getTimeInfo minute interval tnow =
     (let t = (tnow div (interval * 60)) * interval * 60;
          t1 = (if t mod 3600 = 0 then t - 60 else t);
          sTime = minute t1;
          sHour = str_substr sTime 8 2;
          sMinute = str_substr sTime 10 2
      in (t, str_substr sTime 0 8, sHour @ (if sMinute = ''59'' then ''60'' else sMinute)))"

definition getSelectBufferFromFlag :: "stat_env \<Rightarrow> int \<Rightarrow> int \<Rightarrow> string \<Rightarrow> int" where
  "getSelectBufferFromFlag e interval tnow sFlag =
     (let flag = (if sFlag \<noteq> [] then sFlag else snd (snd (getTimeInfo (se_minute e) interval tnow)))
      in (tc_strto_int (se_tc e) (str_substr flag 2 2) div interval) mod 2)"

definition getSelectBuffer :: "int \<Rightarrow> nat \<Rightarrow> int \<Rightarrow> stat_app \<Rightarrow> bool" where
  "getSelectBuffer tnow iIndex iInterval app \<longleftrightarrow> (\<forall>t \<in> set (sa_buffer app iIndex). \<not> (tnow - t < iInterval))"

text \<open>The groups change when more than an interval has passed since the start of that of the last change.\<close>

definition dump2file :: "stat_env \<Rightarrow> int \<Rightarrow> stat_app \<Rightarrow> stat_app" where
  "dump2file e tnow app =
     (let app1 = (if sa_lastDump app = 0 then app\<lparr> sa_lastDump := fst (getTimeInfo (se_minute e) (sa_interval app) tnow) \<rparr> else app)
      in if tnow - sa_lastDump app1 > sa_interval app * 60 then
           app1\<lparr> sa_lastDump := fst (getTimeInfo (se_minute e) (sa_interval app) tnow), sa_select := 1 - sa_select app \<rparr>
         else app1)"

text \<open>
  A thread stamps the group that was in use, then the groups may change. \<open>None\<close> is a stamp past the end of
  the vector, the remainder by no maps, or an overflow. The load of the map is compared in floating point, which is
  exact for maps below \<open>2^23\<close> blocks.
\<close>

definition map_key :: "stat_env \<Rightarrow> stat_head \<Rightarrow> nat \<Rightarrow> nat" where
  "map_key e head n =
     se_hash e (slaveName head @ masterName head @ interfaceName head @ masterIp head @ slaveIp head) mod n"

definition addHashMap :: "stat_env \<Rightarrow> int \<Rightarrow> nat \<Rightarrow> stat_head \<Rightarrow> stat_body \<Rightarrow> stat_app \<Rightarrow> (int \<times> stat_app) option" where
  "addHashMap e tnow iIndex head body app =
     (let g = sa_select app
      in if length (sa_buffer app g) \<le> iIndex then None
         else
           let app1 = dump2file e tnow (app\<lparr> sa_buffer := (sa_buffer app)(g := (sa_buffer app g)[iIndex := tnow]) \<rparr>);
               ms = sa_maps app1 (sa_select app1);
               k = map_key e head (length ms)
           in if ms = [] then None
              else if se_used e (ms ! k) * 10 > se_all e * 9 then Some (-1, app1)
              else map_option (\<lambda>(ret, m). (ret, app1\<lparr> sa_maps := (sa_maps app1)(sa_select app1 := ms[k := m]) \<rparr>))
                (stat_add e head body (ms ! k)))"

text \<open>
  A report of a client or of a server; \<open>clk\<close> is the time with so many messages to go, and the result lists what the log shows.
\<close>

definition report_head :: "bool \<Rightarrow> string \<Rightarrow> (string \<rightharpoonup> string) \<Rightarrow> stat_head \<Rightarrow> stat_head" where
  "report_head bFromClient host vip head =
     (let h1 = (if bFromClient then head\<lparr> masterIp := host \<rparr> else head\<lparr> slaveIp := host \<rparr>);
          h2 = (case str_find CHR ''@'' (masterName h1) of
                  None \<Rightarrow> h1
                | Some pos \<Rightarrow> h1\<lparr> masterName := take pos (masterName h1), tarsVersion := drop (Suc pos) (masterName h1) \<rparr>)
      in case vip (slaveName h2) of None \<Rightarrow> h2 | Some ip \<Rightarrow> h2\<lparr> masterIp := ip \<rparr>)"

fun reportMicMsg :: "stat_env \<Rightarrow> (nat \<Rightarrow> int) \<Rightarrow> nat \<Rightarrow> bool \<Rightarrow> string \<Rightarrow> (stat_head \<times> stat_body) list \<Rightarrow> stat_app \<Rightarrow>
    ((stat_head \<times> stat_body \<times> int) list \<times> stat_app) option" where
  "reportMicMsg e clk iIndex bFromClient host [] app = Some ([], app)"
| "reportMicMsg e clk iIndex bFromClient host ((h, body) # msgs) app =
     (let head = report_head bFromClient host (sa_vip app) h
      in if bd_count body = 0 \<and> execCount body = 0 \<and> timeoutCount body = 0
         then reportMicMsg e clk iIndex bFromClient host msgs app
         else Option.bind (addHashMap e (clk (length msgs)) iIndex head body app) (\<lambda>(iAddHash, app1).
           map_option (\<lambda>(log, app2). ((head, body, iAddHash) # log, app2)) (reportMicMsg e clk iIndex bFromClient host msgs app1)))"

section \<open>Weights\<close>

function getGcd :: "int \<Rightarrow> int \<Rightarrow> int" where
  "getGcd a b = (if a \<noteq> 0 then getGcd (b smod a) a else b)"
  by pat_completeness auto
termination
proof (relation "measure (\<lambda>(a, b). nat \<bar>a\<bar>)")
  show "((b smod a, a), (a, b)) \<in> measure (\<lambda>(a, b). nat \<bar>a\<bar>)" if "a \<noteq> 0" for a b :: int
    using that by (simp add: signed_modulo_int_def sgn_if)
qed simp

declare getGcd.simps [simp del]

definition getDbWeighted :: "int list \<Rightarrow> int \<times> int" where
  "getDbWeighted ws = fold (\<lambda>w (g, m). (getGcd g w, if w > m then w else m)) ws (0, 0)"

record wrr_state =
  curWeight :: int
  lastSq :: int

text \<open>
  The next database by weight: \<open>None\<close> is a loop that does not end, or no database.
\<close>

definition wrr_advance :: "int \<Rightarrow> int \<Rightarrow> int \<Rightarrow> wrr_state \<Rightarrow> wrr_state" where
  "wrr_advance iMaxDb iGcd iMaxW s =
     (let sq = (lastSq s + 1) smod iMaxDb;
          c = (if sq = 0 then (if curWeight s - iGcd \<le> 0 then iMaxW else curWeight s - iGcd) else curWeight s)
      in \<lparr> curWeight = c, lastSq = sq \<rparr>)"

partial_function (option) getIndexWithWeighted :: "int \<Rightarrow> int \<Rightarrow> int list \<Rightarrow> wrr_state \<Rightarrow> (nat \<times> wrr_state) option" where
  "getIndexWithWeighted iGcd iMaxW vDbWeight s =
     (if vDbWeight = [] then None
      else
        let s1 = wrr_advance (int (length vDbWeight)) iGcd iMaxW s
        in if lastSq s1 = 0 \<and> curWeight s - iGcd \<le> 0 \<and> iMaxW = 0 then Some (0, s1)
           else if vDbWeight ! nat (lastSq s1) \<ge> curWeight s1 then Some (nat (lastSq s1), s1)
           else getIndexWithWeighted iGcd iMaxW vDbWeight s1)"

lemmas [code] = getIndexWithWeighted.simps

section \<open>Taking the resting group\<close>

text \<open>One record after the other; \<open>iCount\<close> runs over all maps.\<close>

record stat_db =
  db_weights :: "int list"
  db_enableWeighted :: bool
  db_ipHasDb :: "(string \<times> nat list) list"
  db_toIp :: "nat \<Rightarrow> nat"

definition take_record :: "stat_db \<Rightarrow> 'h \<times> 'b \<Rightarrow> nat \<times> wrr_state \<times> ('h \<times> 'b) list list \<Rightarrow> (nat \<times> wrr_state \<times> ('h \<times> 'b) list list) option" where
  "take_record db p z =
     (let (iCount, w, v) = z;
          (g, mx) = getDbWeighted (db_weights db)
      in if db_weights db = [] then Some (Suc iCount, w, v)
         else Option.bind (if db_enableWeighted db then getIndexWithWeighted g mx (db_weights db) w
                           else Some (iCount mod length (db_weights db), w)) (\<lambda>(dbSeq, w1).
           Some (Suc iCount, w1, v[dbSeq := st_put (fst p) (snd p) (v ! dbSeq)])))"

definition getDataFromBuffer :: "stat_db \<Rightarrow> ('h \<times> 'b) list list \<Rightarrow> wrr_state \<Rightarrow> (nat \<times> wrr_state \<times> ('h \<times> 'b) list list) option" where
  "getDataFromBuffer db ms w =
     fold_opt (take_record db) (concat ms) (0, w, replicate (length (db_weights db)) [])"

text \<open>
  What the inserting threads are given: for every host its databases, turned by the configured number,
  which is converted to an unsigned one of 64 bits.
\<close>

definition turned :: "int \<Rightarrow> nat list \<Rightarrow> nat list" where
  "turned r vDb = map (\<lambda>i. vDb ! (nat ((int i + r) mod 2 ^ 64) mod length vDb)) [0..<length vDb]"

record 'm queue_item =
  qi_index :: nat
  qi_date :: string
  qi_flag :: string
  qi_msg :: 'm

definition queue_items :: "tc_common \<Rightarrow> (int \<Rightarrow> string) \<Rightarrow> stat_db \<Rightarrow> int \<Rightarrow> string \<Rightarrow> int \<Rightarrow> 'm list \<Rightarrow> (nat \<times> 'm queue_item) list" where
  "queue_items tc minute db interval sRandOrder tnow v =
     (let (t, sDate, sFlag) = getTimeInfo minute interval tnow;
          r = tc_strto_int tc (if sRandOrder = [] then ''0'' else sRandOrder)
      in concat (map (\<lambda>(ip, vDb). map (\<lambda>d. (db_toIp db d, \<lparr> qi_index = d, qi_date = sDate, qi_flag = sFlag, qi_msg = v ! d \<rparr>)) (turned r vDb))
           (db_ipHasDb db)))"

text \<open>A round of the collecting thread, with the group it took last.\<close>

record reaper =
  rp_wrr :: wrr_state
  rp_last :: "nat option"
  rp_queued :: "(nat \<times> stat_map queue_item) list"

definition reap :: "stat_env \<Rightarrow> stat_db \<Rightarrow> string \<Rightarrow> int \<Rightarrow> stat_app \<times> reaper \<Rightarrow> (stat_app \<times> reaper) option" where
  "reap e db sRandOrder tnow z =
     (let (app, rp) = z; g = 1 - sa_select app
      in if rp_last rp \<noteq> Some g \<and> getSelectBuffer tnow g 3 app then
           map_option (\<lambda>(iTotalNum, w, v).
             (app\<lparr> sa_maps := (sa_maps app)(g := map (\<lambda>_. []) (sa_maps app g)) \<rparr>,
              rp\<lparr> rp_wrr := w, rp_last := Some g,
                 rp_queued := rp_queued rp @ (if iTotalNum = 0 then [] else queue_items (se_tc e) (se_minute e) db (sa_interval app) sRandOrder tnow v) \<rparr>))
             (getDataFromBuffer db (sa_maps app g) (rp_wrr rp))
         else Some z)"

section \<open>Nothing is lost\<close>

definition st_count :: "stat_map \<Rightarrow> int" where
  "st_count m = sum_list (map (\<lambda>p. bd_count (snd p)) m)"

lemma st_count_simps [simp]: "st_count [] = 0" "st_count (p # m) = bd_count (snd p) + st_count m" "st_count (m @ m') = st_count m + st_count m'"
  by (simp_all add: st_count_def)

lemma st_count_filter: "distinct (map fst m) \<Longrightarrow>
  st_count (filter (\<lambda>p. fst p \<noteq> h) m) = st_count m - (case map_of m h of None \<Rightarrow> 0 | Some b \<Rightarrow> bd_count b)"
proof (induction m)
  case (Cons p m)
  show ?case
  proof (cases "fst p = h")
    case True
    with Cons.prems have "\<forall>q \<in> set m. fst q \<noteq> h" by (metis distinct.simps(2) image_eqI list.map(2) list.set_map)
    then have "filter (\<lambda>p. fst p \<noteq> h) m = m" by (rule filter_True)
    with True show ?thesis by simp
  qed (use Cons in auto)
qed simp

lemma st_count_put: "distinct (map fst m) \<Longrightarrow>
  st_count (st_put h b m) = st_count m + bd_count b - (case map_of m h of None \<Rightarrow> 0 | Some b \<Rightarrow> bd_count b)"
  by (simp add: st_put_def st_count_filter)

lemma st_put_keys: "fst ` set (st_put h b m) = insert h (fst ` set m)"
  by (auto simp: st_put_def image_iff)

lemma st_put_distinct: "distinct (map fst m) \<Longrightarrow> distinct (map fst (st_put h b m))"
  by (auto simp: st_put_def distinct_map_filter)

lemma stat_add_count:
  assumes "stat_add e head body m = Some (ret, m')" and "distinct (map fst m)"
  shows "distinct (map fst m') \<and> fst ` set m' \<subseteq> insert head (fst ` set m) \<and> st_count m' = st_count m + (if ret = 0 then bd_count body else 0)"
proof (cases "se_get e m head < 0")
  case True
  with assms show ?thesis by (auto simp: stat_add_def)
next
  case False
  let ?old = "case map_of m head of None \<Rightarrow> no_body | Some st \<Rightarrow> st"
  obtain st where st: "add_body body ?old = Some st" and r: "ret = se_set e m head st" "m' = (if ret = 0 then st_put head st m else m)"
    using assms(1) False by (auto simp: stat_add_def)
  have "bd_count st = bd_count ?old + bd_count body" using st by (auto simp: add_body_def ck32_Some bind_eq_Some_conv)
  then have "bd_count st - (case map_of m head of None \<Rightarrow> 0 | Some b \<Rightarrow> bd_count b) = bd_count body"
    by (cases "map_of m head") (simp_all add: no_body_def)
  with r assms(2) show ?thesis by (auto simp: st_count_put st_put_distinct st_put_keys)
qed

text \<open>Every map holds only records of its own hash, each once.\<close>

definition maps_ok :: "stat_env \<Rightarrow> stat_map list \<Rightarrow> bool" where
  "maps_ok e ms \<longleftrightarrow> (\<forall>k < length ms. distinct (map fst (ms ! k)) \<and> (\<forall>h \<in> fst ` set (ms ! k). map_key e h (length ms) = k))"

definition stat_app_ok :: "stat_env \<Rightarrow> stat_app \<Rightarrow> bool" where
  "stat_app_ok e app \<longleftrightarrow> sa_select app < 2 \<and> maps_ok e (sa_maps app 0) \<and> maps_ok e (sa_maps app 1)"

definition group_count :: "stat_map list \<Rightarrow> int" where
  "group_count ms = sum_list (map st_count ms)"

definition stored :: "stat_app \<Rightarrow> int" where
  "stored app = group_count (sa_maps app 0) + group_count (sa_maps app 1)"

lemma group_count_update: "k < length ms \<Longrightarrow> group_count (ms[k := m]) = group_count ms + st_count m - st_count (ms ! k)"
proof (induction ms arbitrary: k)
  case (Cons x ms)
  then show ?case by (cases k) (simp_all add: group_count_def)
qed simp

lemma maps_ok_update:
  assumes "maps_ok e ms" and "k < length ms" and "distinct (map fst m)" and "\<And>h. h \<in> fst ` set m \<Longrightarrow> map_key e h (length ms) = k"
  shows "maps_ok e (ms[k := m])"
  using assms by (auto simp: maps_ok_def nth_list_update)

lemma dump2file_frame [simp]:
  "sa_maps (dump2file e t app) = sa_maps app" "sa_buffer (dump2file e t app) = sa_buffer app"
  "sa_interval (dump2file e t app) = sa_interval app" "sa_vip (dump2file e t app) = sa_vip app"
  "sa_select app < 2 \<Longrightarrow> sa_select (dump2file e t app) < 2"
  by (auto simp: dump2file_def Let_def)

lemma addHashMap_count:
  assumes "addHashMap e t i head body app = Some (ret, app')" and "stat_app_ok e app"
  shows "stat_app_ok e app' \<and> stored app' = stored app + (if ret = 0 then bd_count body else 0)"
proof -
  define app1 where "app1 = dump2file e t (app\<lparr> sa_buffer := (sa_buffer app)(sa_select app := (sa_buffer app (sa_select app))[i := t]) \<rparr>)"
  define g where "g = sa_select app1"
  define ms where "ms = sa_maps app1 g"
  define k where "k = map_key e head (length ms)"
  have ok1: "stat_app_ok e app1" and st1: "stored app1 = stored app"
    using assms(2) by (simp_all add: app1_def stat_app_ok_def stored_def)
  have g: "g = 0 \<or> g = 1" using ok1 by (auto simp: stat_app_ok_def g_def)
  have mok: "maps_ok e ms" using ok1 g by (auto simp: stat_app_ok_def ms_def)
  from assms(1) consider "ret = -1" "app' = app1"
    | m where "ms \<noteq> []" "stat_add e head body (ms ! k) = Some (ret, m)" "app' = app1\<lparr> sa_maps := (sa_maps app1)(g := ms[k := m]) \<rparr>"
    by (auto simp: addHashMap_def Let_def app1_def[symmetric] g_def[symmetric] ms_def[symmetric] k_def[symmetric] split: if_splits)
  then show ?thesis
  proof cases
    case 1
    with ok1 st1 show ?thesis by simp
  next
    case 2
    have k: "k < length ms" using 2(1) by (simp add: k_def map_key_def)
    have d: "distinct (map fst (ms ! k))" using mok k by (simp add: maps_ok_def)
    note c = stat_add_count[OF 2(2) d]
    have "maps_ok e (ms[k := m])"
    proof (rule maps_ok_update[OF mok k])
      show "distinct (map fst m)" using c by simp
      show "map_key e h (length ms) = k" if "h \<in> fst ` set m" for h
      proof (cases "h = head")
        case False
        with that c have "h \<in> fst ` set (ms ! k)" by (meson insert_iff subsetD)
        with mok k show ?thesis unfolding maps_ok_def by blast
      qed (simp add: k_def)
    qed
    moreover have "group_count (ms[k := m]) = group_count ms + (if ret = 0 then bd_count body else 0)"
      using c k by (simp add: group_count_update)
    ultimately show ?thesis using g ok1 st1 2(3) by (auto simp: stat_app_ok_def stored_def ms_def g_def)
  qed
qed



definition accepted :: "(stat_head \<times> stat_body \<times> int) list \<Rightarrow> int" where
  "accepted log = sum_list (map (\<lambda>(h, b, ret). if ret = 0 then bd_count b else 0) log)"

lemma reportMicMsg_count:
  "reportMicMsg e clk i c host msgs app = Some (log, app') \<Longrightarrow> stat_app_ok e app \<Longrightarrow> stat_app_ok e app' \<and> stored app' = stored app + accepted log"
proof (induction msgs arbitrary: app log)
  case Nil
  then show ?case by (simp add: accepted_def)
next
  case (Cons p msgs)
  obtain h b where p: "p = (h, b)" by (cases p)
  show ?case
  proof (cases "bd_count b = 0 \<and> execCount b = 0 \<and> timeoutCount b = 0")
    case True
    with Cons p show ?thesis by (auto simp: Let_def)
  next
    case False
    with Cons.prems p obtain ret app1 log1 where
      a: "addHashMap e (clk (length msgs)) i (report_head c host (sa_vip app) h) b app = Some (ret, app1)"
      "reportMicMsg e clk i c host msgs app1 = Some (log1, app')" and l: "log = (report_head c host (sa_vip app) h, b, ret) # log1"
      by (auto simp: Let_def bind_eq_Some_conv)
    from addHashMap_count[OF a(1) Cons.prems(2)] Cons.IH[OF a(2)] l show ?thesis by (simp add: accepted_def)
  qed
qed

lemma wrr_range:
  assumes "getIndexWithWeighted g mx ws s = Some y" and "-1 \<le> lastSq s"
  shows "fst y < length ws \<and> 0 \<le> lastSq (snd y)"
  using assms
proof (induction g mx ws s y rule: getIndexWithWeighted.raw_induct[rotated, consumes 1])
  case (1 f g mx ws s y)
  let ?s1 = "wrr_advance (int (length ws)) g mx s"
  have ne: "ws \<noteq> []" using 1 by (auto split: if_splits)
  then have r: "0 \<le> lastSq ?s1 \<and> lastSq ?s1 < int (length ws)"
    using 1(3) by (simp add: wrr_advance_def signed_modulo_int_def sgn_if Let_def)
  show ?case
  proof (cases "(lastSq ?s1 = 0 \<and> curWeight s - g \<le> 0 \<and> mx = 0) \<or> ws ! nat (lastSq ?s1) \<ge> curWeight ?s1")
    case True
    with 1(2) ne r show ?thesis by (auto simp: Let_def split: if_splits)
  next
    case False
    with 1(2) ne have "f g mx ws ?s1 = Some y" by (auto simp: Let_def split: if_splits)
    from 1(1)[OF this] r show ?thesis by simp
  qed
qed



lemma st_put_fresh: "h \<notin> fst ` set m \<Longrightarrow> st_put h b m = (h, b) # m"
proof -
  assume "h \<notin> fst ` set m"
  then have "\<forall>q \<in> set m. fst q \<noteq> h" by auto
  then show ?thesis by (simp add: st_put_def)
qed

lemma take_records:
  assumes "fold_opt (take_record db) ps (c, w, v) = Some (c', w', v')" and "db_weights db \<noteq> []"
    and "length v = length (db_weights db)" and "-1 \<le> lastSq w" and "distinct (map fst ps)"
    and "\<forall>m \<in> set v. fst ` set m \<inter> fst ` set ps = {}"
  shows "length v' = length v \<and> -1 \<le> lastSq w' \<and> group_count v' = group_count v + st_count ps \<and> c' = c + length ps"
  using assms
proof (induction ps arbitrary: c w v)
  case Nil
  then show ?case by simp
next
  case (Cons p ps)
  obtain g mx where gm: "getDbWeighted (db_weights db) = (g, mx)" by (cases "getDbWeighted (db_weights db)")
  obtain i w1 where iw: "(if db_enableWeighted db then getIndexWithWeighted g mx (db_weights db) w
      else Some (c mod length (db_weights db), w)) = Some (i, w1)"
    and rest: "fold_opt (take_record db) ps (Suc c, w1, v[i := st_put (fst p) (snd p) (v ! i)]) = Some (c', w', v')"
  proof -
    have "take_record db p (c, w, v) = Option.bind (if db_enableWeighted db then getIndexWithWeighted g mx (db_weights db) w
        else Some (c mod length (db_weights db), w)) (\<lambda>(i, w1). Some (Suc c, w1, v[i := st_put (fst p) (snd p) (v ! i)]))"
      using Cons.prems(2) by (simp add: take_record_def gm)
    with Cons.prems(1) that show ?thesis by (auto simp: bind_eq_Some_conv simp del: split_paired_Ex)
  qed
  have i: "i < length v" and w1: "-1 \<le> lastSq w1"
    using iw Cons.prems(2,3,4) wrr_range[of g mx "db_weights db" w "(i, w1)"] by (auto split: if_splits)
  have fresh: "fst p \<notin> fst ` set (v ! i)" using Cons.prems(6) i nth_mem[OF i] by fastforce
  let ?v1 = "v[i := st_put (fst p) (snd p) (v ! i)]"
  have "\<forall>m \<in> set ?v1. fst ` set m \<inter> fst ` set ps = {}"
  proof
    fix m assume "m \<in> set ?v1"
    then consider "m \<in> set v" | "m = st_put (fst p) (snd p) (v ! i)" by (meson in_set_conv_nth insertE set_update_subset_insert subsetD)
    then show "fst ` set m \<inter> fst ` set ps = {}"
    proof cases
      case 1
      with Cons.prems(6) show ?thesis by auto
    next
      case 2
      have "fst ` set (v ! i) \<inter> fst ` set (p # ps) = {}" using Cons.prems(6) nth_mem[OF i] by blast
      moreover have "fst p \<notin> fst ` set ps" using Cons.prems(5) by simp
      ultimately show ?thesis unfolding 2 st_put_keys list.set image_insert by blast
    qed
  qed
  from Cons.IH[OF rest Cons.prems(2) _ w1 _ this] Cons.prems(3,5) i fresh show ?case
    by (simp add: group_count_update st_put_fresh)
qed

lemma maps_ok_distinct:
  assumes "maps_ok e ms"
  shows "distinct (map fst (concat ms))"
proof -
  have "distinct (map fst (concat (take n ms))) \<and> (\<forall>h \<in> fst ` set (concat (take n ms)). map_key e h (length ms) < n)" if "n \<le> length ms" for n
    using that
  proof (induction n)
    case (Suc n)
    then have n: "n < length ms" by simp
    with assms have "distinct (map fst (ms ! n))" "\<forall>h \<in> fst ` set (ms ! n). map_key e h (length ms) = n" unfolding maps_ok_def by blast+
    with Suc n show ?case by (fastforce simp: take_Suc_conv_app_nth)
  qed simp
  from this[of "length ms"] show ?thesis by simp
qed

lemma st_count_concat: "st_count (concat ms) = group_count ms"
  by (induction ms) (simp_all add: group_count_def)

text \<open>The order of the databases of a host is only turned.\<close>

lemma turned_rotate:
  assumes "0 \<le> r" and "r < 2 ^ 31" and "length vDb < 2 ^ 32"
  shows "turned r vDb = rotate (nat r) vDb"
proof (rule nth_equalityI)
  show "length (turned r vDb) = length (rotate (nat r) vDb)" by (simp add: turned_def)
  fix i assume i: "i < length (turned r vDb)"
  then have "int i + r < 2 ^ 64" using assms by (simp add: turned_def)
  then have "(int i + r) mod 2 ^ 64 = int i + r" using assms(1) by simp
  with i assms(1) show "turned r vDb ! i = rotate (nat r) vDb ! i"
    by (simp add: turned_def nth_rotate nat_add_distrib add.commute)
qed

lemma mset_rotate1: "mset (rotate1 xs) = mset xs"
  by (cases xs) simp_all

lemma mset_rotate: "mset (rotate n xs) = mset xs"
  by (induction n) (simp_all add: mset_rotate1)

lemma mset_turned_all:
  assumes "0 \<le> r" and "r < 2 ^ 31" and "length (concat (map snd ips)) < 2 ^ 32"
  shows "mset (concat (map (\<lambda>(ip, vDb). turned r vDb) ips)) = mset (concat (map snd ips))"
  using assms(3)
proof (induction ips)
  case (Cons p ips)
  then have "length (snd p) < 2 ^ 32" by simp
  from turned_rotate[OF assms(1,2) this] Cons show ?case by (cases p) (simp add: mset_rotate)
qed simp

text \<open>The databases are those of the hosts, each once.\<close>

definition db_ok :: "stat_db \<Rightarrow> bool" where
  "db_ok db \<longleftrightarrow> db_weights db \<noteq> [] \<and> mset (concat (map snd (db_ipHasDb db))) = mset [0..<length (db_weights db)]"

lemma queue_dbs:
  assumes "0 \<le> r" and "r < 2 ^ 31" and "r = tc_strto_int (se_tc e) (if o1 = [] then ''0'' else o1)" and "db_ok db" and "length (db_weights db) < 2 ^ 32"
  shows "mset (map (\<lambda>q. (qi_index (snd q), qi_msg (snd q))) (queue_items (se_tc e) (se_minute e) db interval o1 t v)) = mset (map (\<lambda>d. (d, v ! d)) [0..<length (db_weights db)])"
proof -
  have l: "length (concat (map snd (db_ipHasDb db))) < 2 ^ 32"
    using assms(4,5) by (metis db_ok_def diff_zero length_upt size_mset)
  have "map (\<lambda>q. (qi_index (snd q), qi_msg (snd q))) (queue_items (se_tc e) (se_minute e) db interval o1 t v) =
      map (\<lambda>d. (d, v ! d)) (concat (map (\<lambda>(ip, vDb). turned r vDb) (db_ipHasDb db)))"
    by (simp add: queue_items_def Let_def assms(3)[symmetric] map_concat comp_def split_beta)
  moreover have "mset (concat (map (\<lambda>(ip, vDb). turned r vDb) (db_ipHasDb db))) = mset [0..<length (db_weights db)]"
    using mset_turned_all[OF assms(1,2) l] assms(4) by (simp add: db_ok_def)
  ultimately show ?thesis by simp
qed



definition queued :: "reaper \<Rightarrow> int" where
  "queued rp = sum_list (map (\<lambda>q. st_count (qi_msg (snd q))) (rp_queued rp))"

lemma queue_count:
  assumes "0 \<le> r" and "r < 2 ^ 31" and "r = tc_strto_int (se_tc e) (if o1 = [] then ''0'' else o1)" and "db_ok db" and "length (db_weights db) < 2 ^ 32"
    and "length v = length (db_weights db)"
  shows "sum_list (map (\<lambda>q. st_count (qi_msg (snd q))) (queue_items (se_tc e) (se_minute e) db interval o1 t v)) = group_count v"
proof -
  have "sum_list (map (\<lambda>q. st_count (qi_msg (snd q))) (queue_items (se_tc e) (se_minute e) db interval o1 t v)) =
      sum_mset (image_mset (\<lambda>x. st_count (snd x)) (mset (map (\<lambda>q. (qi_index (snd q), qi_msg (snd q))) (queue_items (se_tc e) (se_minute e) db interval o1 t v))))"
    by (simp add: sum_mset_sum_list[symmetric] image_mset.compositionality comp_def)
  also have "\<dots> = sum_mset (image_mset (\<lambda>x. st_count (snd x)) (mset (map (\<lambda>d. (d, v ! d)) [0..<length (db_weights db)])))"
    by (simp only: queue_dbs[OF assms(1-5)])
  also have "\<dots> = sum_list (map (\<lambda>d. st_count (v ! d)) [0..<length v])"
    by (simp add: sum_mset_sum_list[symmetric] image_mset.compositionality comp_def assms(6))
  also have "map (\<lambda>d. st_count (v ! d)) [0..<length v] = map st_count v" by (rule nth_equalityI) simp_all
  finally show ?thesis by (simp add: group_count_def)
qed

lemma reap_count:
  assumes "reap e db o1 t (app, rp) = Some (app', rp')" and "stat_app_ok e app" and "-1 \<le> lastSq (rp_wrr rp)"
    and "db_ok db" and "length (db_weights db) < 2 ^ 32"
    and "0 \<le> tc_strto_int (se_tc e) (if o1 = [] then ''0'' else o1)" and "tc_strto_int (se_tc e) (if o1 = [] then ''0'' else o1) < 2 ^ 31"
  shows "stat_app_ok e app' \<and> -1 \<le> lastSq (rp_wrr rp') \<and> stored app' + queued rp' = stored app + queued rp"
proof (cases "rp_last rp \<noteq> Some (1 - sa_select app) \<and> getSelectBuffer t (1 - sa_select app) 3 app")
  case False
  then have "reap e db o1 t (app, rp) = Some (app, rp)" unfolding reap_def Let_def prod.case by (rule if_not_P)
  with assms(1-3) show ?thesis by simp
next
  case True
  define g where "g = 1 - sa_select app"
  obtain c w v where d: "getDataFromBuffer db (sa_maps app g) (rp_wrr rp) = Some (c, w, v)"
    and app': "app' = app\<lparr> sa_maps := (sa_maps app)(g := map (\<lambda>_. []) (sa_maps app g)) \<rparr>"
    and rp': "rp' = rp\<lparr> rp_wrr := w, rp_last := Some g,
       rp_queued := rp_queued rp @ (if c = 0 then [] else queue_items (se_tc e) (se_minute e) db (sa_interval app) o1 t v) \<rparr>"
  proof -
    have "reap e db o1 t (app, rp) = map_option (\<lambda>(c, w, v). (app\<lparr> sa_maps := (sa_maps app)(g := map (\<lambda>_. []) (sa_maps app g)) \<rparr>,
        rp\<lparr> rp_wrr := w, rp_last := Some g, rp_queued := rp_queued rp @ (if c = 0 then [] else queue_items (se_tc e) (se_minute e) db (sa_interval app) o1 t v) \<rparr>))
        (getDataFromBuffer db (sa_maps app g) (rp_wrr rp))"
      using True unfolding reap_def Let_def prod.case g_def by (rule if_P)
    with assms(1) that show ?thesis by (cases "getDataFromBuffer db (sa_maps app g) (rp_wrr rp)") auto
  qed
  have g: "g = 0 \<or> g = 1" by (auto simp: g_def)
  then have mok: "maps_ok e (sa_maps app g)" using assms(2) unfolding stat_app_ok_def by blast
  have "db_weights db \<noteq> []" using assms(4) by (simp add: db_ok_def)
  from take_records[OF d[unfolded getDataFromBuffer_def] this _ assms(3) maps_ok_distinct[OF mok]]
  have t: "length v = length (db_weights db)" "-1 \<le> lastSq w" "group_count v = group_count (sa_maps app g)" "c = length (concat (sa_maps app g))"
    by (simp_all add: group_count_def st_count_concat sum_list_replicate set_replicate_conv_if)
  have q: "queued rp' = queued rp + group_count (sa_maps app g)"
  proof (cases "c = 0")
    case True
    with t(4) have "concat (sa_maps app g) = []" by (metis length_0_conv)
    then have "group_count (sa_maps app g) = 0" by (metis st_count_concat st_count_simps(1))
    with True rp' show ?thesis by (simp add: queued_def)
  next
    case False
    with queue_count[OF assms(6,7) refl assms(4,5) t(1)] t(3) rp' show ?thesis by (simp add: queued_def)
  qed
  have "stored app' = stored app - group_count (sa_maps app g)"
  proof -
    have "group_count (map (\<lambda>_. []) (ms :: stat_map list)) = 0" for ms by (simp add: group_count_def comp_def)
    with g show ?thesis by (elim disjE) (simp_all add: app' stored_def)
  qed
  moreover have "stat_app_ok e app'"
    using assms(2) g unfolding stat_app_ok_def by (elim disjE) (simp_all add: app' maps_ok_def)
  ultimately show ?thesis using q t(2) rp' by simp
qed



text \<open>Histories of reports and of rounds of the collecting thread, with all that the log shows.\<close>

datatype stat_event = Report "nat \<Rightarrow> int" nat bool string "(stat_head \<times> stat_body) list" | Reap int

fun stat_step :: "stat_env \<Rightarrow> stat_db \<Rightarrow> string \<Rightarrow> stat_event \<Rightarrow> stat_app \<times> reaper \<times> (stat_head \<times> stat_body \<times> int) list \<Rightarrow>
    (stat_app \<times> reaper \<times> (stat_head \<times> stat_body \<times> int) list) option" where
  "stat_step e db o1 (Report clk i c host msgs) (app, rp, log) =
     map_option (\<lambda>(l, app1). (app1, rp, log @ l)) (reportMicMsg e clk i c host msgs app)"
| "stat_step e db o1 (Reap t) (app, rp, log) = map_option (\<lambda>(app1, rp1). (app1, rp1, log)) (reap e db o1 t (app, rp))"

definition stat_start :: "nat \<Rightarrow> nat \<Rightarrow> nat \<Rightarrow> int \<Rightarrow> (string \<rightharpoonup> string) \<Rightarrow> stat_app" where
  "stat_start select threads hashmapnum interval vip =
     \<lparr> sa_select = select, sa_buffer = (\<lambda>_. replicate threads 0), sa_maps = (\<lambda>_. replicate hashmapnum []), sa_lastDump = 0,
       sa_interval = interval, sa_vip = vip \<rparr>"

definition reaper_start :: reaper where
  "reaper_start = \<lparr> rp_wrr = \<lparr> curWeight = 0, lastSq = -1 \<rparr>, rp_last = None, rp_queued = [] \<rparr>"


section \<open>Shares\<close>

lemma smod_nonneg: "0 \<le> b \<Longrightarrow> 0 < a \<Longrightarrow> b smod a = b mod (a :: int)"
  by (simp add: signed_modulo_int_def sgn_if)

text \<open>
  Fact (getGcd_is_gcd). The loop over remainders ends and computes the greatest common divisor of numbers that
  are not negative.
\<close>

theorem getGcd_is_gcd:
  assumes "0 \<le> a" and "0 \<le> b"
  shows "getGcd a b = gcd a b"
  using assms
proof (induction a b rule: getGcd.induct)
  case (1 a b)
  show ?case
  proof (cases "a = 0")
    case True
    with 1 show ?thesis by (simp add: getGcd.simps)
  next
    case False
    with 1 have "getGcd (b smod a) a = gcd (b mod a) a" by (simp add: smod_nonneg)
    with False show ?thesis by (simp add: getGcd.simps[of a b] gcd.commute gcd_red_int[symmetric])
  qed
qed

lemma getDbWeighted_fold:
  assumes "\<forall>w \<in> set ws. 0 \<le> w" and "0 \<le> g" and "0 \<le> m" and "fold (\<lambda>w (g, m). (getGcd g w, if w > m then w else m)) ws (g, m) = (g', m')"
  shows "0 \<le> g' \<and> g' dvd g \<and> (\<forall>w \<in> set ws. g' dvd w) \<and> (g' = 0 \<longrightarrow> g = 0 \<and> (\<forall>w \<in> set ws. w = 0)) \<and>
    m \<le> m' \<and> (\<forall>w \<in> set ws. w \<le> m') \<and> (m' = m \<or> m' \<in> set ws)"
  using assms
proof (induction ws arbitrary: g m)
  case (Cons w ws)
  have w: "0 \<le> w" using Cons.prems(1) by simp
  have "fold (\<lambda>w (g, m). (getGcd g w, if w > m then w else m)) ws (gcd g w, if w > m then w else m) = (g', m')"
    using Cons.prems w by (simp add: getGcd_is_gcd)
  from Cons.IH[OF _ _ _ this] Cons.prems(1,3) have ih: "0 \<le> g' \<and> g' dvd gcd g w \<and> (\<forall>w \<in> set ws. g' dvd w) \<and>
     (g' = 0 \<longrightarrow> gcd g w = 0 \<and> (\<forall>w \<in> set ws. w = 0)) \<and> (if w > m then w else m) \<le> m' \<and> (\<forall>w \<in> set ws. w \<le> m') \<and>
     (m' = (if w > m then w else m) \<or> m' \<in> set ws)" by simp
  then show ?case by (auto split: if_splits)
qed simp

lemma getDbWeighted_ok:
  assumes "getDbWeighted ws = (g, m)" and "\<forall>w \<in> set ws. 0 \<le> w" and "0 < m"
  shows "0 < g" and "\<forall>w \<in> set ws. g dvd w \<and> w \<le> m" and "m \<in> set ws"
  using getDbWeighted_fold[OF assms(2) _ _ assms(1)[unfolded getDbWeighted_def]] assms(2,3) by (auto simp: order_less_le)

fun wrr_run :: "int \<Rightarrow> int \<Rightarrow> int list \<Rightarrow> nat \<Rightarrow> wrr_state \<Rightarrow> (nat list \<times> wrr_state) option" where
  "wrr_run g mx ws 0 s = Some ([], s)"
| "wrr_run g mx ws (Suc m) s = Option.bind (getIndexWithWeighted g mx ws s) (\<lambda>(i, s1). map_option (\<lambda>(is, s2). (i # is, s2)) (wrr_run g mx ws m s1))"

lemma wrr_run_add:
  "wrr_run g mx ws (a + b) s = Option.bind (wrr_run g mx ws a s) (\<lambda>(is, s1). map_option (\<lambda>(js, s2). (is @ js, s2)) (wrr_run g mx ws b s1))"
proof (induction a arbitrary: s)
  case 0
  then show ?case by (simp add: option.map_ident_strong case_prod_beta)
next
  case (Suc a)
  show ?case
  proof (cases "getIndexWithWeighted g mx ws s")
    case (Some p)
    with Suc show ?thesis by (cases p; cases "wrr_run g mx ws a (snd p)") (auto simp: option.map_comp comp_def split_beta)
  qed simp
qed

lemma wrr_run_same: "getIndexWithWeighted g mx ws s = getIndexWithWeighted g mx ws s' \<Longrightarrow> 0 < m \<Longrightarrow> wrr_run g mx ws m s = wrr_run g mx ws m s'"
  by (cases m) simp_all

text \<open>
  One cycle visits every database at every level, from the largest weight down; \<open>wrr_pos\<close> is the state after visit
  \<open>k\<close>, and \<open>wrr_at k s\<close> says that \<open>k\<close> is the next visit.
\<close>

definition wrr_pos :: "int \<Rightarrow> int \<Rightarrow> nat \<Rightarrow> nat \<Rightarrow> wrr_state" where
  "wrr_pos g mx n k = \<lparr> curWeight = mx - int (k div n) * g, lastSq = int (k mod n) \<rparr>"

definition wrr_at :: "int \<Rightarrow> int \<Rightarrow> nat \<Rightarrow> nat \<Rightarrow> wrr_state \<Rightarrow> bool" where
  "wrr_at g mx n k s \<longleftrightarrow> wrr_advance (int n) g mx s = wrr_pos g mx n k"

definition wrr_hit :: "int \<Rightarrow> int \<Rightarrow> int list \<Rightarrow> nat \<Rightarrow> bool" where
  "wrr_hit g mx ws k \<longleftrightarrow> mx - int (k div length ws) * g \<le> ws ! (k mod length ws)"

lemma wrr_visit:
  assumes "wrr_at g mx (length ws) k s" and "ws \<noteq> []" and "mx \<noteq> 0"
  shows "getIndexWithWeighted g mx ws s =
    (if wrr_hit g mx ws k then Some (k mod length ws, wrr_pos g mx (length ws) k) else getIndexWithWeighted g mx ws (wrr_pos g mx (length ws) k))"
  using assms by (subst getIndexWithWeighted.simps) (simp add: wrr_at_def Let_def wrr_hit_def, simp add: wrr_pos_def)

lemma wrr_at_start: "0 < n \<Longrightarrow> 0 < g \<Longrightarrow> 0 < mx \<Longrightarrow> wrr_at g mx n 0 \<lparr> curWeight = 0, lastSq = -1 \<rparr>"
  by (simp add: wrr_at_def wrr_advance_def wrr_pos_def signed_modulo_int_def)

lemma wrr_at_next:
  assumes "0 < n" and "0 < g" and "mx = int l * g" and "k < l * n"
  shows "wrr_at g mx n (if Suc k = l * n then 0 else Suc k) (wrr_pos g mx n k)"
proof -
  define q r where "q = k div n" and "r = k mod n"
  have k: "k = q * n + r" and r: "r < n" using assms(1) by (simp_all add: q_def r_def)
  have pos: "wrr_pos g mx n k = \<lparr> curWeight = mx - int q * g, lastSq = int r \<rparr>" by (simp add: wrr_pos_def q_def r_def)
  have q: "q < l" using assms(4) k by (metis add_lessD1 mult_less_cancel2)
  show ?thesis
  proof (cases "Suc r = n")
    case False
    then have sr: "Suc r < n" using r by simp
    then have sm: "(int r + 1) smod int n = int (Suc r)" by (simp add: smod_nonneg)
    have dm: "Suc k div n = q" "Suc k mod n = Suc r" using sr k by (simp_all flip: add_Suc_right)
    have "Suc k \<noteq> l * n"
    proof
      assume "Suc k = l * n"
      then have "Suc k mod n = 0" by simp
      with dm(2) show False by simp
    qed
    then show ?thesis unfolding wrr_at_def wrr_advance_def pos using sm dm by (simp add: wrr_pos_def Let_def)
  next
    case True
    then have "int r + 1 = int n" by simp
    then have sm: "(int r + 1) smod int n = 0" using r by (simp add: smod_nonneg)
    have sk: "Suc k = Suc q * n" using k True by simp
    have cur: "mx - int q * g - g = int (l - Suc q) * g" using q assms(3) by (simp add: of_nat_diff algebra_simps)
    show ?thesis
    proof (cases "l = Suc q")
      case e: True
      with sk have "Suc k = l * n" by simp
      then show ?thesis unfolding wrr_at_def wrr_advance_def pos using sm cur e by (simp add: wrr_pos_def Let_def)
    next
      case f: False
      with q have "0 < l - Suc q" by simp
      then have gt: "0 < int (l - Suc q) * g" using assms(2) by simp
      have ne: "Suc k \<noteq> l * n" unfolding sk using f assms(1) by (simp del: mult_Suc)
      have dm: "Suc k div n = Suc q" "Suc k mod n = 0" unfolding sk using assms(1) by simp_all
      have eq: "mx - int (Suc q) * g = int (l - Suc q) * g" using cur by (simp add: algebra_simps)
      define z where "z = int (l - Suc q) * g"
      have z: "mx - int q * g - g = z" "0 < z" "mx - int (Suc q) * g = z" unfolding z_def by (fact cur, fact gt, fact eq)
      have "wrr_advance (int n) g mx (wrr_pos g mx n k) = \<lparr> curWeight = z, lastSq = 0 \<rparr>"
        unfolding wrr_advance_def pos using sm z by (simp add: Let_def)
      also have "\<dots> = wrr_pos g mx n (Suc k)" unfolding wrr_pos_def dm z(3) by simp
      finally show ?thesis unfolding wrr_at_def using ne by simp
    qed
  qed
qed



lemma wrr_cycle:
  assumes "ws \<noteq> []" and "0 < g" and "mx = int l * g" and "0 < l" and "k \<le> l * length ws"
    and "wrr_at g mx (length ws) (if k = l * length ws then 0 else k) s" and "wrr_at g mx (length ws) 0 s0"
  shows "\<exists>s'. wrr_run g mx ws (length (filter (wrr_hit g mx ws) [k..<l * length ws])) s =
      Some (map (\<lambda>k. k mod length ws) (filter (wrr_hit g mx ws) [k..<l * length ws]), s') \<and>
    getIndexWithWeighted g mx ws s' = getIndexWithWeighted g mx ws s0"
  using assms(5,6)
proof (induction "l * length ws - k" arbitrary: k s)
  case 0
  then have "k = l * length ws" by simp
  have mx: "mx \<noteq> 0" using assms(2-4) by simp
  from 0 \<open>k = l * length ws\<close> have "wrr_at g mx (length ws) 0 s" by simp
  from wrr_visit[OF this assms(1) mx] wrr_visit[OF assms(7) assms(1) mx] \<open>k = l * length ws\<close> show ?case by simp
next
  case (Suc x)
  then have k: "k < l * length ws" by simp
  have mx: "mx \<noteq> 0" using assms(2-4) by simp
  have at: "wrr_at g mx (length ws) k s" using Suc.prems(2) k by simp
  note v = wrr_visit[OF at assms(1) mx]
  let ?p = "wrr_pos g mx (length ws) k"
  have "wrr_at g mx (length ws) (if Suc k = l * length ws then 0 else Suc k) ?p"
    by (rule wrr_at_next[OF _ assms(2,3) k]) (use assms(1) in simp)
  moreover have "x = l * length ws - Suc k" "Suc k \<le> l * length ws" using Suc.hyps(2) k by simp_all
  ultimately obtain s' where
    ih: "wrr_run g mx ws (length (filter (wrr_hit g mx ws) [Suc k..<l * length ws])) ?p =
      Some (map (\<lambda>k. k mod length ws) (filter (wrr_hit g mx ws) [Suc k..<l * length ws]), s')"
    "getIndexWithWeighted g mx ws s' = getIndexWithWeighted g mx ws s0" using Suc.hyps(1) by blast
  show ?case
  proof (cases "wrr_hit g mx ws k")
    case True
    with v ih k show ?thesis by (simp add: upt_conv_Cons)
  next
    case False
    with v have same: "getIndexWithWeighted g mx ws s = getIndexWithWeighted g mx ws ?p" by simp
    show ?thesis
    proof (cases "filter (wrr_hit g mx ws) [Suc k..<l * length ws] = []")
      case True
      with ih same False k show ?thesis by (simp add: upt_conv_Cons)
    next
      case ne: False
      with wrr_run_same[OF same] ih False k show ?thesis by (simp add: upt_conv_Cons)
    qed
  qed
qed

lemma wrr_cycles:
  assumes "ws \<noteq> []" and "0 < g" and "mx = int l * g" and "0 < l" and "wrr_at g mx (length ws) 0 s0"
    and "cyc = map (\<lambda>k. k mod length ws) (filter (wrr_hit g mx ws) [0..<l * length ws])"
  shows "\<exists>s'. wrr_run g mx ws (t * length cyc) s0 = Some (concat (replicate t cyc), s') \<and>
    getIndexWithWeighted g mx ws s' = getIndexWithWeighted g mx ws s0"
proof (induction t)
  case 0
  then show ?case by simp
next
  case (Suc t)
  then obtain s' where ih: "wrr_run g mx ws (t * length cyc) s0 = Some (concat (replicate t cyc), s')"
    "getIndexWithWeighted g mx ws s' = getIndexWithWeighted g mx ws s0" by blast
  have "wrr_at g mx (length ws) (if 0 = l * length ws then 0 else 0) s0" using assms(5) by simp
  from wrr_cycle[OF assms(1-4) _ this assms(5)] assms(6) obtain s1 where
    one: "wrr_run g mx ws (length cyc) s0 = Some (cyc, s1)" "getIndexWithWeighted g mx ws s1 = getIndexWithWeighted g mx ws s0" by auto
  have r: "concat (replicate (Suc t) cyc) = concat (replicate t cyc) @ cyc" by (induction t) simp_all
  show ?case
  proof (cases "cyc = []")
    case True
    then show ?thesis by (intro exI[of _ s0]) simp
  next
    case False
    then have "wrr_run g mx ws (length cyc) s' = Some (cyc, s1)" using wrr_run_same[OF ih(2)] one(1) by simp
    then have "wrr_run g mx ws (t * length cyc + length cyc) s0 = Some (concat (replicate t cyc) @ cyc, s1)"
      unfolding wrr_run_add using ih(1) by simp
    then show ?thesis using one(2) r by (intro exI[of _ s1]) (simp add: add.commute)
  qed
qed

lemma filter_eq_upt: "filter (\<lambda>j. j = i) [0..<n] = (if i < n then [i] else [])"
  by (induction n) auto

lemma block_count:
  assumes "i < n"
  shows "length (filter (\<lambda>k. k mod n = i \<and> P (k div n)) [0..<l * n]) = length (filter P [0..<l])"
proof (induction l)
  case (Suc l)
  let ?Q = "\<lambda>k. k mod n = i \<and> P (k div n)"
  have e: "[0..<l * n + n] = [0..<l * n] @ map (\<lambda>j. j + l * n) [0..<n]"
    by (subst upt_add_eq_append) (simp_all only: map_add_upt add.commute le0)
  have "filter (?Q \<circ> (\<lambda>j. j + l * n)) [0..<n] = filter (\<lambda>j. j = i \<and> P l) [0..<n]"
    by (rule filter_cong) simp_all
  also have "length \<dots> = (if P l then 1 else 0)"
    using assms filter_eq_upt[of i n] by simp
  finally have b: "length (filter ?Q (map (\<lambda>j. j + l * n) [0..<n])) = (if P l then 1 else 0)"
    by (simp add: filter_map)
  have "length (filter ?Q [0..<Suc l * n]) = length (filter ?Q [0..<l * n]) + (if P l then 1 else 0)"
    using b by (simp only: mult_Suc add.commute[of n] e filter_append length_append)
  also have "\<dots> = length (filter P [0..<Suc l])" by (simp add: Suc)
  finally show ?case .
qed simp

lemma level_count:
  "a \<le> l \<Longrightarrow> 0 < g \<Longrightarrow> length (filter (\<lambda>q. int l * g - int q * g \<le> int a * g) [0..<l]) = a"
proof -
  assume a: "a \<le> l" and g: "0 < g"
  have "(int l * g - int q * g \<le> int a * g) = (l - a \<le> q)" if "q < l" for q
  proof -
    have "int l * g - int q * g = (int l - int q) * g" by (simp add: algebra_simps)
    then have "(int l * g - int q * g \<le> int a * g) = (int l - int q \<le> int a)" using g by simp
    also have "\<dots> = (l - a \<le> q)" using a that by linarith
    finally show ?thesis .
  qed
  then have "filter (\<lambda>q. int l * g - int q * g \<le> int a * g) [0..<l] = filter (\<lambda>q. l - a \<le> q) [0..<l]"
    by (intro filter_cong refl) simp
  also have "length \<dots> = card ({0..<l} \<inter> {q. l - a \<le> q})"
    by (simp add: distinct_length_filter Int_commute)
  also have "{0..<l} \<inter> {q. l - a \<le> q} = {l - a..<l}" by auto
  finally show ?thesis using a by simp
qed







lemma count_concat_replicate: "count_list (concat (replicate t xs)) x = t * count_list xs x"
  by (induction t) simp_all

text \<open>
  Property C21 (weighted_share). With weights that are not all 0, the turns by weight always end, and of every
  \<open>t\<close> cycles of as many records as the sum of the weights (over their common divisor) each database gets exactly
  \<open>t\<close> times its weight (over the divisor).
\<close>

theorem weighted_share:
  assumes "getDbWeighted ws = (g, mx)" and "\<forall>w \<in> set ws. 0 \<le> w" and "0 < mx"
  shows "\<exists>is s'. wrr_run g mx ws (t * nat (sum_list ws div g)) \<lparr> curWeight = 0, lastSq = -1 \<rparr> = Some (is, s') \<and>
    (\<forall>i < length ws. count_list is i = t * nat (ws ! i div g))"
proof -
  note gm = getDbWeighted_ok[OF assms]
  define l where "l = nat (mx div g)"
  have l: "mx = int l * g" "0 < l"
  proof -
    have "mx div g * g = mx" using gm(2,3) by simp
    moreover from this have "0 < mx div g" using gm(1) assms(3) by (metis zero_less_mult_pos2)
    ultimately show "mx = int l * g" "0 < l" by (simp_all add: l_def)
  qed
  have ne: "ws \<noteq> []" using gm(3) by auto
  define n where "n = length ws"
  define cyc where "cyc = map (\<lambda>k. k mod n) (filter (wrr_hit g mx ws) [0..<l * n])"
  have cnt: "count_list cyc i = nat (ws ! i div g)" if i: "i < n" for i
  proof -
    have wi: "g dvd ws ! i" "ws ! i \<le> mx" "0 \<le> ws ! i" using gm(2) assms(2) i n_def by simp_all
    then obtain b where "ws ! i = g * b" by blast
    with wi(3) gm(1) have b: "ws ! i = int (nat b) * g" "0 \<le> b" by (simp_all add: zero_le_mult_iff)
    have bl: "nat b \<le> l" using wi(2) l(1) b gm(1) by simp
    have "count_list cyc i = length (filter (\<lambda>k. k mod n = i) (filter (wrr_hit g mx ws) [0..<l * n]))"
    proof -
      have "((=) i) \<circ> (\<lambda>k. k mod n) = (\<lambda>k. k mod n = i)" by (auto simp: fun_eq_iff)
      then show ?thesis unfolding cyc_def count_list_eq_length_filter filter_map length_map by simp
    qed
    also have "filter (\<lambda>k. k mod n = i) (filter (wrr_hit g mx ws) [0..<l * n]) =
        filter (\<lambda>k. k mod n = i \<and> (int l * g - int (k div n) * g \<le> int (nat b) * g)) [0..<l * n]"
      unfolding filter_filter
    proof (rule filter_cong[OF refl])
      show "(wrr_hit g mx ws k \<and> k mod n = i) = (k mod n = i \<and> int l * g - int (k div n) * g \<le> int (nat b) * g)" for k
        unfolding wrr_hit_def n_def[symmetric] using b(1) l(1) by (cases "k mod n = i") simp_all
    qed
    also have "length \<dots> = length (filter (\<lambda>q. int l * g - int q * g \<le> int (nat b) * g) [0..<l])"
      by (rule block_count[OF i])
    also have "\<dots> = nat b" by (rule level_count[OF bl gm(1)])
    also have "nat b = nat (ws ! i div g)" using b gm(1) by simp
    finally show ?thesis .
  qed
  have len: "length cyc = nat (sum_list ws div g)"
  proof -
    have "set cyc \<subseteq> {0..<n}" using ne by (auto simp: cyc_def n_def)
    then have "length cyc = (\<Sum>i = 0..<n. count_list cyc i)" by (metis finite_atLeastLessThan sum_count_set)
    also have "\<dots> = (\<Sum>i = 0..<n. nat (ws ! i div g))" using cnt by simp
    finally have "int (length cyc) = int (\<Sum>i = 0..<n. nat (ws ! i div g))" by simp
    also have "\<dots> = (\<Sum>i = 0..<n. ws ! i div g)"
      using assms(2) gm(1) by (simp add: n_def pos_imp_zdiv_nonneg_iff)
    also have "\<dots> = sum_list (map (\<lambda>w. w div g) ws)" by (simp add: sum_list_sum_nth n_def)
    also have "\<dots> = sum_list ws div g"
      using gm(2) by (induction ws) (simp_all add: div_plus_div_distrib_dvd_left)
    finally show ?thesis by simp
  qed
  have "wrr_at g mx (length ws) 0 \<lparr> curWeight = 0, lastSq = -1 \<rparr>"
    using wrr_at_start[of n g mx] ne gm(1) assms(3) by (simp add: n_def)
  from wrr_cycles[OF ne gm(1) l this cyc_def[unfolded n_def], of t] obtain s' where
    "wrr_run g mx ws (t * length cyc) \<lparr> curWeight = 0, lastSq = -1 \<rparr> = Some (concat (replicate t cyc), s')" by blast
  with len cnt show ?thesis
    by (intro exI[of _ "concat (replicate t cyc)"] exI[of _ s']) (simp add: count_concat_replicate n_def)
qed







section \<open>What a record holds\<close>

definition interval_sum :: "(int, int) omap \<Rightarrow> int \<Rightarrow> int" where
  "interval_sum ps k = sum_list (map snd (filter (\<lambda>p. fst p = k) ps))"

lemma add_intervals: "fold_opt add_interval ps m = Some m' \<Longrightarrow> om_get 0 m' k = om_get 0 m k + interval_sum ps k"
proof (induction ps arbitrary: m)
  case (Cons p ps)
  then obtain m1 where a: "add_interval p m = Some m1" and r: "fold_opt add_interval ps m1 = Some m'" by (auto simp: bind_eq_Some_conv)
  from a have "om_get 0 m1 k = (if k = fst p then om_get 0 m k + snd p else om_get 0 m k)"
    by (auto simp: add_interval_def ck32_Some)
  with Cons.IH[OF r] show ?case by (auto simp: interval_sum_def)
qed (simp add: interval_sum_def)

lemma add_body_fields:
  assumes "add_body b st = Some st'"
  shows "bd_count st' = bd_count st + bd_count b" and "timeoutCount st' = timeoutCount st + timeoutCount b"
    and "execCount st' = execCount st + execCount b" and "totalRspTime st' = totalRspTime st + totalRspTime b"
    and "om_get 0 (intervalCount st') k = om_get 0 (intervalCount st) k + interval_sum (intervalCount b) k"
    and "maxRspTime st' = max (maxRspTime st) (maxRspTime b)"
    and "minRspTime st' = (if minRspTime st = 0 then minRspTime b else if minRspTime b = 0 then minRspTime st else min (minRspTime st) (minRspTime b))"
  using assms by (auto simp: add_body_def ck32_Some ck64_Some bind_eq_Some_conv add_intervals)

text \<open>
  Property C20 (record_is_the_sum). The record that a sequence of reports leaves, unless a field overflows, holds
  the sums of their counts, times and intervals, their largest time, and the smallest of their times
  that is not 0 (or 0 when all are): the order of the reports does not matter.
\<close>

theorem record_is_the_sum:
  assumes "fold_opt add_body bs no_body = Some st"
  shows "bd_count st = sum_list (map bd_count bs) \<and> timeoutCount st = sum_list (map timeoutCount bs) \<and>
    execCount st = sum_list (map execCount bs) \<and> totalRspTime st = sum_list (map totalRspTime bs) \<and>
    om_get 0 (intervalCount st) k = sum_list (map (\<lambda>b. interval_sum (intervalCount b) k) bs) \<and>
    maxRspTime st = Max (insert 0 (maxRspTime ` set bs)) \<and>
    (if \<forall>b \<in> set bs. minRspTime b = 0 then minRspTime st = 0 else minRspTime st = Min (minRspTime ` set bs - {0}))"
  using assms
proof (induction bs arbitrary: st rule: rev_induct)
  case Nil
  then have "st = no_body" by simp
  then show ?case by (simp add: no_body_def om_get_def)
next
  case (snoc b bs)
  obtain s1 where f: "fold_opt add_body bs no_body = Some s1" and a: "add_body b s1 = Some st"
  proof (cases "fold_opt add_body bs no_body")
    case None
    with snoc.prems show ?thesis by (simp add: fold_opt_append)
  next
    case (Some s1)
    with snoc.prems have "Option.bind (add_body b s1) (fold_opt add_body []) = Some st" by (simp add: fold_opt_append)
    then have "add_body b s1 = Some st" by (auto simp: bind_eq_Some_conv)
    with Some that show ?thesis by blast
  qed
  note ih = snoc.IH[OF f] and fld = add_body_fields[OF a]
  have mx: "maxRspTime st = Max (insert 0 (maxRspTime ` set (bs @ [b])))"
  proof -
    have "Max (insert 0 (maxRspTime ` set (bs @ [b]))) = Max (insert (maxRspTime b) (insert 0 (maxRspTime ` set bs)))"
      by (rule arg_cong[where f = Max]) auto
    also have "\<dots> = max (maxRspTime b) (Max (insert 0 (maxRspTime ` set bs)))" by (rule Max_insert) simp_all
    finally show ?thesis using ih fld(6) by (simp add: max.commute)
  qed
  have mn: "if \<forall>x \<in> set (bs @ [b]). minRspTime x = 0 then minRspTime st = 0 else minRspTime st = Min (minRspTime ` set (bs @ [b]) - {0})"
  proof (cases "minRspTime b = 0")
    case True
    then have "minRspTime ` set (bs @ [b]) - {0} = minRspTime ` set bs - {0}" by auto
    with True ih fld(7) show ?thesis by (simp split: if_splits)
  next
    case nz: False
    show ?thesis
    proof (cases "\<forall>x \<in> set bs. minRspTime x = 0")
      case True
      then have "minRspTime ` set (bs @ [b]) - {0} = {minRspTime b}" using nz by auto
      with True nz ih fld(7) show ?thesis by simp
    next
      case False
      then have ne: "minRspTime ` set bs - {0} \<noteq> {}" by auto
      have s1: "minRspTime s1 = Min (minRspTime ` set bs - {0})" using ih False by auto
      then have "minRspTime s1 \<noteq> 0" using Min_in[OF _ ne] by auto
      with fld(7) nz have "minRspTime st = min (minRspTime b) (minRspTime s1)" by (simp add: min.commute)
      also have "\<dots> = Min (insert (minRspTime b) (minRspTime ` set bs - {0}))" unfolding s1 by (rule Min_insert[symmetric]) (use ne in simp_all)
      also have "insert (minRspTime b) (minRspTime ` set bs - {0}) = minRspTime ` set (bs @ [b]) - {0}" using nz by auto
      finally show ?thesis using nz by simp
    qed
  qed
  have "interval_sum [] k = 0" by (simp add: interval_sum_def)
  with ih fld mx mn show ?case by simp
qed

text \<open>
  Fact (negative_order_queues_twice). A negative number of turns is converted to an unsigned one: of three
  databases of a host the records of the first are queued twice (and freed twice), those of the last never.
\<close>

lemma negative_order_queues_twice: "turned (-1) [a, b, c] = [a, a, b]"
proof -
  have "[0..<length [a, b, c]] = [0, 1, 2]" by (simp add: upt_rec)
  then show ?thesis unfolding turned_def by simp
qed

section \<open>Witnesses\<close>

theorem getGcd_is_gcd_witness: "getGcd 12 18 = 6"
proof -
  have "gcd 12 18 = (6 :: int)" by code_simp
  then show ?thesis using getGcd_is_gcd[of 12 18] by simp
qed

theorem weighted_share_witness:
  "\<exists>is s'. wrr_run 2 6 [6, 2, 0] (5 * 4) \<lparr> curWeight = 0, lastSq = -1 \<rparr> = Some (is, s') \<and>
     (\<forall>i < 3. count_list is i = 5 * nat ([6, 2, 0] ! i div 2))"
proof -
  have "getDbWeighted [6, 2, 0] = (2, 6)" by (simp add: getDbWeighted_def getGcd_is_gcd)
  from weighted_share[OF this, of 5] show ?thesis by (simp add: numeral_3_eq_3)
qed

definition sample_head :: stat_head where
  "sample_head = \<lparr> masterName = ''A@1.2'', slaveName = ''B'', interfaceName = ''f'', masterIp = ''m'', slaveIp = ''s'', slavePort = 1,
     returnValue = 0, tarsVersion = [] \<rparr>"

definition sample_body :: stat_body where
  "sample_body = \<lparr> bd_count = 3, timeoutCount = 1, execCount = 0, intervalCount = [(5, 3)], totalRspTime = 9, maxRspTime = 4, minRspTime = 2 \<rparr>"

definition sample_stat :: stat_env where
  "sample_stat = \<lparr> se_hash = length, se_get = (\<lambda>m h. 0), se_set = (\<lambda>m h b. 0), se_used = length, se_all = 100,
     se_minute = (\<lambda>t. ''202001010005''), se_tc = sample_tc \<rparr>"

definition sample_stat_db :: stat_db where
  "sample_stat_db = \<lparr> db_weights = [1, 1], db_enableWeighted = False, db_ipHasDb = [(''h1'', [0]), (''h2'', [1])], db_toIp = id \<rparr>"

theorem record_is_the_sum_witness:
  "\<exists>st. fold_opt add_body [sample_body, sample_body\<lparr> minRspTime := 0 \<rparr>, sample_body\<lparr> minRspTime := 1 \<rparr>] no_body = Some st \<and>
    bd_count st = 9 \<and> minRspTime st = 1"
proof -
  obtain st where st: "fold_opt add_body [sample_body, sample_body\<lparr> minRspTime := 0 \<rparr>, sample_body\<lparr> minRspTime := 1 \<rparr>] no_body = Some st"
    by (simp add: add_body_def sample_body_def no_body_def add_interval_def om_get_def)
  from record_is_the_sum[OF st] have "bd_count st = 9" "minRspTime st = Min ({2, 0, 1} - {0})"
    by (simp_all add: sample_body_def)
  moreover have "{2, 0, 1} - {0} = {1, 2 :: int}" by auto
  ultimately show ?thesis using st by auto
qed








end
