(* ===== verification/Stat_Db.thy ===== *)
theory Stat_Db
  imports Stat_Count
begin

text \<open>
  The databases of the stat server (\<open>StatServer/StatDbManager.cpp\<close>, \<open>ReapSSDProcThread::run\<close>, \<open>StatServer::doReserveDb\<close>):
  which thread writes to which database, the tables of a day, insertion in batches with one repetition, the
  time of the last insertion, and dropping old tables.
\<close>

section \<open>Threads and databases\<close>

record db_conf =
  dc_host :: string
  dc_port :: int
  dc_tbname :: string
  dc_weight :: int

text \<open>The hosts in key order with the numbers of their databases, as the first loop of the constructor collects them.\<close>

definition add_host :: "nat \<times> db_conf \<Rightarrow> (string, nat list) omap \<Rightarrow> (string, nat list) omap" where
  "add_host p m = om_put (dc_host (snd p)) (om_get [] m (dc_host (snd p)) @ [fst p]) m"

definition ip_has_db :: "db_conf list \<Rightarrow> (string, nat list) omap" where
  "ip_has_db cs = fold add_host (zip [0..<length cs] cs) []"

text \<open>
  The number of threads starts from whatever the memory holds (\<open>garbage\<close>), because the constructor does not
  initialise it, and counts the hosts.
\<close>

definition db_ip_num :: "nat \<Rightarrow> nat \<Rightarrow> db_conf list \<Rightarrow> nat" where
  "db_ip_num garbage insertDbThread cs = min insertDbThread (garbage + length (ip_has_db cs))"

fun thread_indexes :: "nat \<Rightarrow> nat \<Rightarrow> (string, nat list) omap \<Rightarrow> (string \<times> nat) list" where
  "thread_indexes num i [] = []"
| "thread_indexes num i ((ip, ds) # m) = (ip, i) # thread_indexes num (if Suc i = num then 0 else Suc i) m"

definition stat_db_init :: "nat \<Rightarrow> nat \<Rightarrow> bool \<Rightarrow> db_conf list \<Rightarrow> stat_db" where
  "stat_db_init garbage insertDbThread weighted cs =
     \<lparr> db_weights = map dc_weight cs, db_enableWeighted = weighted, db_ipHasDb = ip_has_db cs,
       db_toIp = (\<lambda>d. case map_of (thread_indexes (db_ip_num garbage insertDbThread cs) 0 (ip_has_db cs)) (dc_host (cs ! d)) of
         None \<Rightarrow> 0 | Some i \<Rightarrow> i) \<rparr>"

section \<open>Statements\<close>

text \<open>
  A row, with the average the server computes; the database is a parameter: it answers how many tables have a
  similar name, creates a table, inserts rows (\<open>insert ignore\<close>), counts the entries of the status table that are not
  older, updates or replaces one, and creates the status table. \<open>None\<close> and \<open>Inl\<close> are exceptions.
\<close>

record sd_row =
  ro_source :: string
  ro_date :: string
  ro_flag :: string
  ro_head :: stat_head
  ro_body :: stat_body
  ro_intervals :: string
  ro_ave :: int

record 'd stat_sql =
  q_like :: "string \<Rightarrow> 'd \<Rightarrow> nat option"
  q_create :: "string \<Rightarrow> 'd \<Rightarrow> bool \<times> 'd"
  q_insert :: "string \<Rightarrow> sd_row list \<Rightarrow> 'd \<Rightarrow> string option \<times> 'd"
  q_count :: "string \<Rightarrow> string \<Rightarrow> 'd \<Rightarrow> nat option"
  q_update :: "string \<Rightarrow> string \<Rightarrow> 'd \<Rightarrow> nat option \<times> 'd"
  q_replace :: "string \<Rightarrow> string \<Rightarrow> 'd \<Rightarrow> nat option \<times> 'd"
  q_status :: "'d \<Rightarrow> 'd"

record db_manager =
  dm_lastDay :: string
  dm_tbNamePre :: string
  dm_maxInsert :: int
  dm_cut :: nat
  dm_localIp :: string

definition IsdbTableExist :: "'d stat_sql \<Rightarrow> string \<Rightarrow> 'd \<Rightarrow> bool" where
  "IsdbTableExist q name d = (case q_like q name d of None \<Rightarrow> False | Some n \<Rightarrow> n > 0)"

definition creatTb :: "'d stat_sql \<Rightarrow> string \<Rightarrow> 'd \<Rightarrow> int \<times> 'd" where
  "creatTb q name d =
     (if IsdbTableExist q name d then (0, d)
      else let (ok, d1) = q_create q name d in (if ok then 0 else 1, d1))"

definition two_digits :: "nat \<Rightarrow> string" where
  "two_digits h = (if h < 10 then ''0'' @ show_nat h else show_nat h)"

definition day_tables :: "string \<Rightarrow> string list" where
  "day_tables day = map (\<lambda>h. day @ two_digits h) [0..<24]"

definition day_of :: "string \<Rightarrow> string" where
  "day_of name = (if length name < 2 then name else take (length name - 2) name)"

definition creatTable :: "'d stat_sql \<Rightarrow> string \<Rightarrow> db_manager \<Rightarrow> 'd \<Rightarrow> int \<times> db_manager \<times> 'd" where
  "creatTable q sTbName mgr d =
     (if dm_lastDay mgr = day_of sTbName then (0, mgr, d)
      else
        let (iRet, d1) = fold (\<lambda>name (r, d). let (r1, d1) = creatTb q name d in (if r \<noteq> 0 \<or> r1 \<noteq> 0 then 1 else 0, d1))
          (day_tables (day_of sTbName)) (0, d)
        in (iRet, mgr\<lparr> dm_lastDay := day_of sTbName \<rparr>, d1))"

definition table_name :: "db_manager \<Rightarrow> string \<Rightarrow> string \<Rightarrow> string \<Rightarrow> string" where
  "table_name mgr sTbNamePre sDate sFlag =
     (if sTbNamePre \<noteq> [] then sTbNamePre else dm_tbNamePre mgr) @ filter (\<lambda>c. c \<noteq> CHR ''-'') sDate @ take (dm_cut mgr * 2) sFlag"

definition ave_time :: "stat_body \<Rightarrow> int" where
  "ave_time b =
     (if bd_count b = 0 then 0
      else let a = signed_take_bit 31 (c_div (totalRspTime b) (bd_count b)) in if a = 0 then 1 else a)"

definition num_str :: "int \<Rightarrow> string" where
  "num_str i = (if i < 0 then ''-'' @ show_nat (nat (- i)) else show_nat (nat i))"

fun interval_str :: "(int, int) omap \<Rightarrow> string" where
  "interval_str [] = []"
| "interval_str [(k, v)] = num_str k @ ''|'' @ num_str v"
| "interval_str ((k, v) # p # m) = num_str k @ ''|'' @ num_str v @ '','' @ interval_str (p # m)"

definition row_of :: "db_manager \<Rightarrow> string \<Rightarrow> string \<Rightarrow> stat_head \<times> stat_body \<Rightarrow> sd_row" where
  "row_of mgr sDate sFlag p =
     \<lparr> ro_source = dm_localIp mgr, ro_date = sDate, ro_flag = sFlag, ro_head = fst p, ro_body = snd p,
       ro_intervals = interval_str (intervalCount (snd p)), ro_ave = ave_time (snd p) \<rparr>"

text \<open>
  The loop over the records: \<open>acc\<close> are the values collected for the statement, \<open>stop\<close> tells before which
  record the server is stopped. An exception of a statement ends the loop.
\<close>

datatype insert_end = Inserted | Stopped | Failed string

fun insert_loop :: "'d stat_sql \<Rightarrow> db_manager \<Rightarrow> (nat \<Rightarrow> bool) \<Rightarrow> string \<Rightarrow> sd_row list \<Rightarrow> sd_row list \<Rightarrow> 'd \<Rightarrow> insert_end \<times> 'd" where
  "insert_loop q mgr stop tb acc [] d =
     (if acc = [] then (Inserted, d)
      else case q_insert q tb acc d of (None, d1) \<Rightarrow> (Inserted, d1) | (Some err, d1) \<Rightarrow> (Failed err, d1))"
| "insert_loop q mgr stop tb acc (r # rs) d =
     (if stop (length rs) then (Stopped, d)
      else if int (Suc (length acc)) \<ge> dm_maxInsert mgr then
        (case q_insert q tb (acc @ [r]) d of (None, d1) \<Rightarrow> insert_loop q mgr stop tb [] rs d1 | (Some err, d1) \<Rightarrow> (Failed err, d1))
      else insert_loop q mgr stop tb (acc @ [r]) rs d)"

definition insert2Db :: "'d stat_sql \<Rightarrow> (nat \<Rightarrow> bool) \<Rightarrow> stat_map \<Rightarrow> string \<Rightarrow> string \<Rightarrow> string \<Rightarrow> db_manager \<Rightarrow> 'd \<Rightarrow> int \<times> db_manager \<times> 'd" where
  "insert2Db q stop statmsg sDate sFlag sTbNamePre mgr d =
     (let tb = table_name mgr sTbNamePre sDate sFlag;
          (r0, mgr1, d1) = creatTable q tb mgr d
      in case insert_loop q mgr stop tb [] (map (row_of mgr sDate sFlag) statmsg) d1 of
           (Inserted, d2) \<Rightarrow> (0, mgr1, d2)
         | (Stopped, d2) \<Rightarrow> (-1, mgr1, d2)
         | (Failed err, d2) \<Rightarrow>
             if \<not> str_contains err ''Duplicate'' then let (r1, mgr2, d3) = creatTable q tb mgr1 d2 in (1, mgr2, d3)
             else (1, mgr1, d2))"

definition updateEcsStatus :: "'d stat_sql \<Rightarrow> string \<Rightarrow> string \<Rightarrow> db_manager \<Rightarrow> 'd \<Rightarrow> int \<times> 'd" where
  "updateEcsStatus q sLastTime sTbNamePre mgr d =
     (let sAppName = (if sTbNamePre \<noteq> [] then sTbNamePre else dm_tbNamePre mgr)
      in case q_update q sAppName sLastTime d of
           (None, d1) \<Rightarrow> (1, q_status q d1)
         | (Some iRet, d1) \<Rightarrow>
             if iRet = 0 then (case q_replace q sAppName sLastTime d1 of (None, d2) \<Rightarrow> (1, q_status q d2) | (Some _, d2) \<Rightarrow> (0, d2))
             else (0, d1))"

definition checkLastTime :: "'d stat_sql \<Rightarrow> string \<Rightarrow> string \<Rightarrow> db_manager \<Rightarrow> 'd \<Rightarrow> nat \<times> 'd" where
  "checkLastTime q sLastTime sTbNamePre mgr d =
     (case q_count q (if sTbNamePre \<noteq> [] then sTbNamePre else dm_tbNamePre mgr) sLastTime d of
        None \<Rightarrow> (0, q_status q d)
      | Some n \<Rightarrow> (n, d))"

text \<open>The messages are those of the alarms; \<open>halt\<close> tells whether the server is being stopped after each attempt.\<close>

definition insert2MultiDbs :: "'d stat_sql \<Rightarrow> (nat \<Rightarrow> nat \<Rightarrow> bool) \<Rightarrow> (nat \<Rightarrow> bool) \<Rightarrow> string \<Rightarrow> stat_map \<Rightarrow> string \<Rightarrow> string \<Rightarrow> db_manager \<Rightarrow> 'd \<Rightarrow>
    int \<times> string list \<times> db_manager \<times> 'd" where
  "insert2MultiDbs q stop halt sTbNamePre statmsg sDate sFlag mgr d =
     (let sLastTime = sDate @ '' '' @ sFlag;
          app = sTbNamePre @ dm_localIp mgr;
          (n, d0) = checkLastTime q sLastTime app mgr d;
          status = (\<lambda>mgr d. let (r, d') = updateEcsStatus q sLastTime app mgr d in (0, if r \<noteq> 0 then [''updateEcsStatus''] else [], mgr, d'))
      in if n \<noteq> 0 then (0, [], mgr, d0)
         else
           let (r1, mgr1, d1) = insert2Db q (stop 0) statmsg sDate sFlag sTbNamePre mgr d0
           in if r1 = 0 then status mgr1 d1
              else if r1 = -1 \<or> halt 0 then (-1, [], mgr1, d1)
              else
                let (r2, mgr2, d2) = insert2Db q (stop 1) statmsg sDate sFlag sTbNamePre mgr1 d1
                in if r2 = 0 then status mgr2 d2
                   else if r2 = -1 \<or> halt 1 then (-1, [], mgr2, d2)
                   else (0, [''insert2Db''], mgr2, d2))"

text \<open>A thread takes the items it was given one after the other; \<open>pre\<close> are the configured table prefixes.\<close>

definition proc_item where
  "proc_item q stop halt pre it z =
     (let (alarms, mgr, db) = z;
          (r, al, mgr1, d1) = insert2MultiDbs q stop halt (pre (qi_index it)) (qi_msg it) (qi_date it) (qi_flag it) mgr (db (qi_index it))
      in (alarms @ al, mgr1, db(qi_index it := d1)))"

text \<open>Dropping old tables: the names come in the order of the database; the cut is a name of the first day to keep.\<close>

fun reserve_loop :: "string \<Rightarrow> string list \<Rightarrow> string list" where
  "reserve_loop limit [] = []"
| "reserve_loop limit (name # names) =
     (if name = ''t_ecstatus'' then reserve_loop limit names
      else if name < limit then name # reserve_loop limit names
      else [])"

definition doReserveDb :: "(int \<Rightarrow> string) \<Rightarrow> int \<Rightarrow> int \<Rightarrow> (string \<times> string list option) list \<Rightarrow> string list" where
  "doReserveDb day tnow reserveDay dbs =
     concat (map (\<lambda>(tbname, names). reserve_loop (tbname @ day (tnow - reserveDay * 24 * 60 * 60) @ ''00'') (case names of None \<Rightarrow> [] | Some ns \<Rightarrow> ns))
       (takeWhile (\<lambda>p. snd p \<noteq> None) dbs))"

section \<open>Which thread writes where\<close>

lemma add_host_mset:
  assumes "om_ok m"
  shows "mset (concat (map snd (add_host p m))) = mset (concat (map snd m)) + {#fst p#}"
proof -
  have "mset (concat (map snd (om_put k (om_get [] m k @ [x]) m))) = mset (concat (map snd m)) + {#x#}" if "om_ok m" for k x and m :: "(string, nat list) omap"
    using that
  proof (induction m)
    case Nil
    then show ?case by (simp add: om_get_def)
  next
    case (Cons e m)
    obtain k' v where e: "e = (k', v)" by (cases e)
    have get: "om_get [] ((k', v) # m) k = (if k = k' then v else om_get [] m k)" by (simp add: om_get_def)
    have less: "om_get [] m k = []" if "k < k'"
    proof -
      have "k \<notin> fst ` set m" using Cons.prems that e by (auto simp: om_ok_Cons)
      then have "om_find m k = None" by (simp only: map_of_eq_None_iff) simp
      then show ?thesis by (simp add: om_get_def)
    qed
    show ?case using Cons e get less by (auto simp: om_ok_Cons add_ac)
  qed
  then show ?thesis using assms by (simp add: add_host_def)
qed

lemma ip_has_db_mset: "om_ok (ip_has_db cs) \<and> mset (concat (map snd (ip_has_db cs))) = mset [0..<length cs]"
proof -
  have f: "om_ok (fold add_host ps m) \<and> mset (concat (map snd (fold add_host ps m))) = mset (concat (map snd m)) + mset (map fst ps)"
    if "om_ok m" for ps and m :: "(string, nat list) omap"
    using that
  proof (induction ps arbitrary: m)
    case (Cons a ps)
    have "om_ok (add_host a m)" using Cons.prems by (simp add: add_host_def)
    from Cons.IH[OF this] add_host_mset[OF Cons.prems, of a] show ?case by (simp del: mset_concat)
  qed simp
  show ?thesis using f[of "[]" "zip [0..<length cs] cs"] by (simp add: ip_has_db_def)
qed

lemma ip_has_db_keys: "fst ` set (ip_has_db cs) = dc_host ` set cs"
proof -
  have f: "fst ` set (fold add_host ps m) = fst ` set m \<union> (dc_host \<circ> snd) ` set ps" for ps and m :: "(string, nat list) omap"
    by (induction ps arbitrary: m) (auto simp: add_host_def)
  have "snd ` set (zip [0..<length cs] cs) = set cs" by (metis list.set_map map_snd_zip length_upt diff_zero)
  then have "(dc_host \<circ> snd) ` set (zip [0..<length cs] cs) = dc_host ` set cs" by (metis image_comp)
  then show ?thesis unfolding ip_has_db_def f by simp
qed

lemma thread_indexes_bound:
  "i < num \<Longrightarrow> map_of (thread_indexes num i m) ip = Some j \<Longrightarrow> j < num"
  by (induction num i m rule: thread_indexes.induct) (auto split: if_splits)

lemma thread_indexes_dom: "fst ` set (thread_indexes num i m) = fst ` set m"
  by (induction num i m rule: thread_indexes.induct) auto

text \<open>
  Fact (databases_have_threads). When the count of hosts starts from 0 and there is a thread, every database
  belongs to exactly one host and every database is written by a thread that exists.
\<close>

theorem databases_have_threads:
  assumes "0 < insertDbThread" and "cs \<noteq> []"
  shows "db_ok (stat_db_init 0 insertDbThread weighted cs) \<and>
    (\<forall>d < length cs. db_toIp (stat_db_init 0 insertDbThread weighted cs) d < db_ip_num 0 insertDbThread cs)"
proof (intro conjI allI impI)
  show "db_ok (stat_db_init 0 insertDbThread weighted cs)"
    using ip_has_db_mset[of cs] assms(2) by (simp add: db_ok_def stat_db_init_def)
  fix d assume d: "d < length cs"
  have "fst ` set (ip_has_db cs) \<noteq> {}" using assms(2) by (simp add: ip_has_db_keys)
  then have "ip_has_db cs \<noteq> []" by auto
  then have n: "0 < db_ip_num 0 insertDbThread cs" using assms(1) by (simp add: db_ip_num_def)
  have "dc_host (cs ! d) \<in> fst ` set (thread_indexes (db_ip_num 0 insertDbThread cs) 0 (ip_has_db cs))"
    using d by (simp add: thread_indexes_dom ip_has_db_keys)
  then obtain j where j: "map_of (thread_indexes (db_ip_num 0 insertDbThread cs) 0 (ip_has_db cs)) (dc_host (cs ! d)) = Some j"
    by (metis map_of_eq_None_iff not_None_eq)
  from thread_indexes_bound[OF n j] j show "db_toIp (stat_db_init 0 insertDbThread weighted cs) d < db_ip_num 0 insertDbThread cs"
    by (simp add: stat_db_init_def)
qed

section \<open>Insertion\<close>

text \<open>
  What is relied on: a statement that succeeds leaves the rows it was given and the old ones; one that fails may
  leave some of them (MyISAM), and no statement touches another table.
\<close>

definition insert_laws :: "'d stat_sql \<Rightarrow> ('d \<Rightarrow> string \<Rightarrow> sd_row set) \<Rightarrow> bool" where
  "insert_laws q rows \<longleftrightarrow>
     (\<forall>tb rs d. rows (snd (q_insert q tb rs d)) tb \<subseteq> rows d tb \<union> set rs \<and> rows d tb \<subseteq> rows (snd (q_insert q tb rs d)) tb \<and>
        (fst (q_insert q tb rs d) = None \<longrightarrow> rows (snd (q_insert q tb rs d)) tb = rows d tb \<union> set rs)) \<and>
     (\<forall>tb d. rows (snd (q_create q tb d)) = rows d) \<and> (\<forall>d. rows (q_status q d) = rows d) \<and>
     (\<forall>a t d. rows (snd (q_update q a t d)) = rows d \<and> rows (snd (q_replace q a t d)) = rows d)"

lemma creatTable_rows: "insert_laws q rows \<Longrightarrow> creatTable q tb mgr d = (r, mgr1, d1) \<Longrightarrow> rows d1 = rows d"
proof -
  assume l: "insert_laws q rows" and c: "creatTable q tb mgr d = (r, mgr1, d1)"
  have one: "rows (snd (creatTb q name d)) = rows d" for name d
    using l by (simp add: creatTb_def insert_laws_def split_beta)
  have "rows (snd (fold (\<lambda>name (r, d). let (r1, d1) = creatTb q name d in (if r \<noteq> 0 \<or> r1 \<noteq> 0 then 1 else 0, d1)) names (r0, d))) = rows d"
    for names and r0 :: int and d
  proof (induction names arbitrary: r0 d)
    case (Cons n ns)
    obtain x y where "creatTb q n d = (x, y)" by (cases "creatTb q n d")
    with Cons one[of n d] show ?case by simp
  qed simp
  with c show ?thesis by (auto simp: creatTable_def split_beta Let_def split: if_splits)
qed

lemma insert_loop_rows:
  "insert_laws q rows \<Longrightarrow> insert_loop q mgr stop tb acc rs d = (x, d') \<Longrightarrow>
   rows d tb \<subseteq> rows d' tb \<and> rows d' tb \<subseteq> rows d tb \<union> set acc \<union> set rs \<and> (x = Inserted \<longrightarrow> rows d' tb = rows d tb \<union> set acc \<union> set rs)"
proof (induction q mgr stop tb acc rs d rule: insert_loop.induct)
  case (1 q mgr stop tb acc d)
  obtain o1 d1 where i: "q_insert q tb acc d = (o1, d1)" by (cases "q_insert q tb acc d")
  have "rows d1 tb \<subseteq> rows d tb \<union> set acc \<and> rows d tb \<subseteq> rows d1 tb \<and> (o1 = None \<longrightarrow> rows d1 tb = rows d tb \<union> set acc)"
    using 1(1) i unfolding insert_laws_def by (metis fst_conv snd_conv)
  with 1(2) i show ?case by (auto split: if_splits option.splits)
next
  case (2 q mgr stop tb acc r rs d)
  obtain o1 d1 where i: "q_insert q tb (acc @ [r]) d = (o1, d1)" by (cases "q_insert q tb (acc @ [r]) d")
  have law: "rows d1 tb \<subseteq> rows d tb \<union> set (acc @ [r]) \<and> rows d tb \<subseteq> rows d1 tb \<and> (o1 = None \<longrightarrow> rows d1 tb = rows d tb \<union> set (acc @ [r]))"
    using 2(3) i unfolding insert_laws_def by (metis fst_conv snd_conv)
  show ?case
  proof (cases "stop (length rs)")
    case True
    with 2(4) show ?thesis by auto
  next
    case go: False
    show ?thesis
    proof (cases "int (Suc (length acc)) \<ge> dm_maxInsert mgr")
      case False
      with 2(4) go have "insert_loop q mgr stop tb (acc @ [r]) rs d = (x, d')" by simp
      from 2(2)[OF go False 2(3) this] show ?thesis by auto
    next
      case True
      show ?thesis
      proof (cases o1)
        case None
        with 2(4) go True i have "insert_loop q mgr stop tb [] rs d1 = (x, d')" by simp
        from 2(1)[OF go True i[symmetric] None 2(3) this] law None show ?thesis by auto
      next
        case (Some err)
        with 2(4) go True i law show ?thesis by auto
      qed
    qed
  qed
qed

lemma insert2Db_rows:
  assumes "insert_laws q rows" and "insert2Db q stop msg sDate sFlag pre mgr d = (r, mgr', d')" and "tb = table_name mgr pre sDate sFlag"
  shows "rows d tb \<subseteq> rows d' tb \<and> rows d' tb \<subseteq> rows d tb \<union> set (map (row_of mgr sDate sFlag) msg) \<and>
    (r = 0 \<longrightarrow> rows d' tb = rows d tb \<union> set (map (row_of mgr sDate sFlag) msg))"
proof -
  obtain r0 mgr1 d1 where c: "creatTable q tb mgr d = (r0, mgr1, d1)" by (cases "creatTable q tb mgr d") auto
  obtain x d2 where l: "insert_loop q mgr stop tb [] (map (row_of mgr sDate sFlag) msg) d1 = (x, d2)"
    by (cases "insert_loop q mgr stop tb [] (map (row_of mgr sDate sFlag) msg) d1")
  have "rows d1 = rows d" by (rule creatTable_rows[OF assms(1) c])
  with insert_loop_rows[OF assms(1) l]
  have lr: "rows d tb \<subseteq> rows d2 tb \<and> rows d2 tb \<subseteq> rows d tb \<union> set (map (row_of mgr sDate sFlag) msg) \<and>
    (x = Inserted \<longrightarrow> rows d2 tb = rows d tb \<union> set (map (row_of mgr sDate sFlag) msg))" by simp
  have e: "insert2Db q stop msg sDate sFlag pre mgr d =
    (case x of Inserted \<Rightarrow> (0, mgr1, d2) | Stopped \<Rightarrow> (-1, mgr1, d2)
     | Failed err \<Rightarrow> if \<not> str_contains err ''Duplicate'' then let (r1, mgr2, d3) = creatTable q tb mgr1 d2 in (1, mgr2, d3) else (1, mgr1, d2))"
    unfolding insert2Db_def Let_def assms(3)[symmetric] c prod.case l by (cases x) simp_all
  show ?thesis
  proof (cases x)
    case (Failed err)
    obtain r1 mgr2 d3 where c2: "creatTable q tb mgr1 d2 = (r1, mgr2, d3)" by (cases "creatTable q tb mgr1 d2") auto
    from creatTable_rows[OF assms(1) c2] e assms(2) Failed c2 lr show ?thesis by (auto split: if_splits)
  qed (use e assms(2) lr in auto)
qed





lemma creatTable_mgr: "creatTable q tb mgr d = (r, mgr', d') \<Longrightarrow> mgr' = mgr\<lparr> dm_lastDay := day_of tb \<rparr>"
  by (auto simp: creatTable_def split_beta Let_def split: if_splits)

text \<open>
  Fact (failed_create_not_retried). Once the tables of a day were created, with or without success, the day counts as
  done: the creation in the handler of a failed insertion issues no statement.
\<close>

lemma failed_create_not_retried: "creatTable q tb mgr d = (r, mgr', d') \<Longrightarrow> creatTable q tb mgr' d2 = (0, mgr', d2)"
  using creatTable_mgr[of q tb mgr d r mgr' d'] by (simp add: creatTable_def)

lemma insert2Db_mgr: "insert2Db q stop msg sDate sFlag pre mgr d = (r, mgr', d') \<Longrightarrow> \<exists>day. mgr' = mgr\<lparr> dm_lastDay := day \<rparr>"
  by (auto simp: insert2Db_def Let_def split: prod.splits insert_end.splits if_splits dest!: creatTable_mgr)

lemma same_rows [simp]: "row_of (mgr\<lparr> dm_lastDay := day \<rparr>) = row_of mgr" "table_name (mgr\<lparr> dm_lastDay := day \<rparr>) = table_name mgr"
  by (simp_all add: fun_eq_iff row_of_def table_name_def)

lemma updateEcsStatus_rows: "insert_laws q rows \<Longrightarrow> rows (snd (updateEcsStatus q t app mgr d)) = rows d"
  by (auto simp: updateEcsStatus_def Let_def insert_laws_def split: prod.splits option.splits) (metis snd_conv)+

lemma checkLastTime_rows: "insert_laws q rows \<Longrightarrow> rows (snd (checkLastTime q t app mgr d)) = rows d"
  by (auto simp: checkLastTime_def insert_laws_def split: option.splits)

definition record_time where
  "record_time q t app mgr d =
     (0 :: int, if fst (updateEcsStatus q t app mgr d) \<noteq> 0 then [''updateEcsStatus''] else [], mgr, snd (updateEcsStatus q t app mgr d))"

lemma insert2MultiDbs_eq:
  assumes "checkLastTime q (sDate @ '' '' @ sFlag) (pre @ dm_localIp mgr) mgr d = (n, d0)"
    and "insert2Db q (stop 0) msg sDate sFlag pre mgr d0 = (r1, m1, d1)" and "insert2Db q (stop 1) msg sDate sFlag pre m1 d1 = (r2, m2, d2)"
  shows "insert2MultiDbs q stop halt pre msg sDate sFlag mgr d =
    (if n \<noteq> 0 then (0, [], mgr, d0)
     else if r1 = 0 then record_time q (sDate @ '' '' @ sFlag) (pre @ dm_localIp mgr) m1 d1
     else if r1 = -1 \<or> halt 0 then (-1, [], m1, d1)
     else if r2 = 0 then record_time q (sDate @ '' '' @ sFlag) (pre @ dm_localIp mgr) m2 d2
     else if r2 = -1 \<or> halt 1 then (-1, [], m2, d2) else (0, [''insert2Db''], m2, d2))"
  using assms unfolding insert2MultiDbs_def Let_def by (simp add: record_time_def split_beta)


text \<open>
  Fact (second_batch_is_dropped). After a batch of an interval has been inserted and recorded, another batch
  of the same interval and database is dropped without an alarm, whatever records it has.
\<close>

theorem second_batch_is_dropped:
  assumes "insert2MultiDbs q stop halt pre msg sDate sFlag mgr d = (0, [], mgr1, d1)"
    and "\<And>a t d d' k. q_update q a t d = (Some (Suc k), d') \<Longrightarrow> \<exists>n. q_count q a t d' = Some (Suc n)"
    and "\<And>a t d d' k. q_replace q a t d = (Some k, d') \<Longrightarrow> \<exists>n. q_count q a t d' = Some (Suc n)"
    and "dm_localIp mgr \<noteq> []"
  shows "insert2MultiDbs q stop' halt' pre msg' sDate sFlag mgr1 d1 = (0, [], mgr1, d1)"
proof -
  let ?t = "sDate @ '' '' @ sFlag" and ?app = "pre @ dm_localIp mgr"
  have app: "?app \<noteq> []" using assms(4) by simp
  have upd: "\<exists>n. q_count q ?app ?t d' = Some (Suc n)" if "updateEcsStatus q ?t ?app m d2 = (0, d')" for m d2 d'
  proof -
    obtain x d3 where u: "q_update q ?app ?t d2 = (x, d3)" by (cases "q_update q ?app ?t d2")
    obtain y d4 where v: "q_replace q ?app ?t d3 = (y, d4)" by (cases "q_replace q ?app ?t d3")
    show ?thesis
    proof (cases x)
      case None
      with that app u show ?thesis by (simp add: updateEcsStatus_def)
    next
      case (Some k)
      show ?thesis
      proof (cases k)
        case 0
        show ?thesis
        proof (cases y)
          case None
          with that app u v Some 0 show ?thesis by (simp add: updateEcsStatus_def)
        next
          case (Some j)
          with that app u v \<open>x = Some k\<close> 0 assms(3)[of ?app ?t d3] show ?thesis by (simp add: updateEcsStatus_def)
        qed
      next
        case (Suc j)
        with that app u Some assms(2)[of ?app ?t d2] show ?thesis by (simp add: updateEcsStatus_def)
      qed
    qed
  qed
  have skips: "insert2MultiDbs q stop' halt' pre msg' sDate sFlag m' d' = (0, [], m', d')" if "q_count q ?app ?t d' = Some (Suc n)" "dm_localIp m' = dm_localIp mgr" for m' d' n
    using that app by (simp add: insert2MultiDbs_def checkLastTime_def Let_def)
  obtain n d0 where c: "checkLastTime q ?t ?app mgr d = (n, d0)" by (cases "checkLastTime q ?t ?app mgr d")
  show ?thesis
  proof (cases "n = 0")
    case False
    with assms(1) c have "mgr1 = mgr" "d1 = d0" by (simp_all add: insert2MultiDbs_def Let_def)
    moreover have "d0 = d" "q_count q ?app ?t d = Some n" using c False app by (auto simp: checkLastTime_def split: option.splits)
    ultimately show ?thesis using skips[of d "n - 1" mgr] False by simp
  next
    case True
    obtain r1 m1 d2 where i1: "insert2Db q (stop 0) msg sDate sFlag pre mgr d0 = (r1, m1, d2)" by (cases "insert2Db q (stop 0) msg sDate sFlag pre mgr d0") auto
    obtain r2 m2 d3 where i2: "insert2Db q (stop 1) msg sDate sFlag pre m1 d2 = (r2, m2, d3)" by (cases "insert2Db q (stop 1) msg sDate sFlag pre m1 d2") auto
    have ip: "dm_localIp m1 = dm_localIp mgr" "dm_localIp m2 = dm_localIp mgr" using insert2Db_mgr[OF i1] insert2Db_mgr[OF i2] by auto
    from assms(1)[unfolded insert2MultiDbs_eq[OF c i1 i2]] True
    have "(mgr1 = m1 \<and> updateEcsStatus q ?t ?app m1 d2 = (0, d1)) \<or> (mgr1 = m2 \<and> updateEcsStatus q ?t ?app m2 d3 = (0, d1))"
      by (auto simp: record_time_def prod_eq_iff split: if_splits)
    with upd skips ip show ?thesis by metis
  qed
qed

text \<open>
  Fact (day_cut_table_missing). When tables are cut by day, the tables created for a date miss every day
  from the 24th on: the code strips the last two digits as if they were an hour.
\<close>

lemma day_cut_table_missing:
  assumes "dm_cut mgr = 0" and "pre \<noteq> []" and "filter (\<lambda>c. c \<noteq> CHR ''-'') sDate = month @ two_digits day" and "24 \<le> day" and "day < 32"
  shows "table_name mgr pre sDate sFlag \<notin> set (day_tables (day_of (table_name mgr pre sDate sFlag)))"
proof -
  have form: "two_digits h = [char_of (h div 10 + 48), char_of (h mod 10 + 48)]" if "h < 100" for h
  proof (cases "h < 10")
    case True
    moreover have "CHR ''0'' = char_of (48 :: nat)" by code_simp
    ultimately show ?thesis by (simp add: two_digits_def show_nat.simps[of h])
  next
    case False
    moreover have "h div 10 < 10" using that by (simp add: less_mult_imp_div_less)
    ultimately show ?thesis by (simp add: two_digits_def show_nat.simps[of h] show_nat.simps[of "h div 10"])
  qed
  have ch: "a = b" if "char_of (a + 48 :: nat) = (char_of (b + 48 :: nat) :: char)" "a < 10" "b < 10" for a b
  proof -
    have "of_char (char_of (a + 48 :: nat) :: char) = (of_char (char_of (b + 48 :: nat) :: char) :: nat)" using that(1) by simp
    with that(2,3) show ?thesis by simp
  qed
  have inj: False if "two_digits h = two_digits day" "h < 24" for h
  proof -
    have "h div 10 = day div 10" "h mod 10 = day mod 10"
      using that form[of h] form[of day] assms(5) by (auto intro: ch)
    then have "h = day" by (metis div_mult_mod_eq)
    with that(2) assms(4) show False by simp
  qed
  have len: "length (two_digits day) = 2" using form[of day] assms(5) by simp
  have "table_name mgr pre sDate sFlag = (pre @ month) @ two_digits day" using assms(1-3) by (simp add: table_name_def)
  moreover have "day_of ((pre @ month) @ two_digits day) = pre @ month" using len by (simp add: day_of_def)
  ultimately show ?thesis by (auto simp: day_tables_def dest: inj[OF sym])
qed

text \<open>
  Fact (reserve_drops_older). With the names in order, cleaning drops exactly the tables whose name comes
  before that of the first day to keep, except the status table, of whatever kind they are.
\<close>

theorem reserve_drops_older:
  assumes "sorted names"
  shows "reserve_loop limit names = filter (\<lambda>n. n < limit \<and> n \<noteq> ''t_ecstatus'') names"
  using assms
proof (induction names)
  case (Cons n ns)
  show ?case
  proof (cases "n = ''t_ecstatus'' \<or> n < limit")
    case True
    with Cons show ?thesis by auto
  next
    case False
    with Cons.prems have "\<forall>m \<in> set ns. \<not> m < limit" by (auto dest: le_less_trans)
    with False show ?thesis by simp
  qed
qed simp





section \<open>Witnesses\<close>

text \<open>A database as its rows per table and its status entries; everything succeeds.\<close>

definition sample_sql :: "((string \<Rightarrow> sd_row set) \<times> (string \<times> string) list) stat_sql" where
  "sample_sql = \<lparr> q_like = (\<lambda>n d. Some 0), q_create = (\<lambda>n d. (True, d)),
     q_insert = (\<lambda>tb rs d. (None, ((fst d)(tb := fst d tb \<union> set rs), snd d))),
     q_count = (\<lambda>a t d. Some (length (filter (\<lambda>x. fst x = a \<and> t \<le> snd x) (snd d)))),
     q_update = (\<lambda>a t d. (Some (if a \<in> fst ` set (snd d) then 1 else 0), if a \<in> fst ` set (snd d) then (fst d, (a, t) # snd d) else d)),
     q_replace = (\<lambda>a t d. (Some 1, (fst d, (a, t) # snd d))), q_status = id \<rparr>"

definition sample_mgr :: db_manager where
  "sample_mgr = \<lparr> dm_lastDay = [], dm_tbNamePre = ''t_'', dm_maxInsert = 2, dm_cut = 1, dm_localIp = ''ip'' \<rparr>"

lemma sample_sql_laws: "insert_laws sample_sql fst"
  by (auto simp: insert_laws_def sample_sql_def)

lemma sample_batch:
  "\<exists>mgr1 d1. insert2MultiDbs sample_sql (\<lambda>_ _. False) (\<lambda>_. False) ''t_'' [(sample_head, sample_body)] ''20200101'' ''0005'' sample_mgr (\<lambda>_. {}, []) =
    (0, [], mgr1, d1)"
proof -
  have c: "\<exists>r d'. creatTable sample_sql tb mgr d = (r, mgr\<lparr> dm_lastDay := day_of tb \<rparr>, d')" for tb mgr d
    using creatTable_mgr by (metis prod_cases3)
  have u: "fst (updateEcsStatus sample_sql t a m d) = 0" for t a m d
    by (simp add: updateEcsStatus_def sample_sql_def Let_def)
  have i: "fst (insert2Db sample_sql (\<lambda>_. False) [(sample_head, sample_body)] da f p sample_mgr d) = 0" for da f p d
    using c[of "table_name sample_mgr p da f" sample_mgr d]
    by (auto simp: insert2Db_def Let_def sample_mgr_def) (simp_all add: sample_sql_def)
  have "checkLastTime sample_sql t a sample_mgr (\<lambda>_. {}, []) = (0, (\<lambda>_. {}, []))" for t a
    by (simp add: checkLastTime_def sample_sql_def)
  then show ?thesis using i u
    by (simp add: insert2MultiDbs_def Let_def split_beta)
qed

theorem databases_have_threads_witness:
  "db_ok (stat_db_init 0 4 False [\<lparr> dc_host = ''h'', dc_port = 3306, dc_tbname = ''t_'', dc_weight = 1 \<rparr>])"
  using databases_have_threads[of 4 "[\<lparr> dc_host = ''h'', dc_port = 3306, dc_tbname = ''t_'', dc_weight = 1 \<rparr>]" False] by simp


theorem second_batch_is_dropped_witness:
  "\<exists>mgr1 d1. insert2MultiDbs sample_sql (\<lambda>_ _. False) (\<lambda>_. False) ''t_'' [(sample_head, sample_body)] ''20200101'' ''0005'' sample_mgr (\<lambda>_. {}, []) =
    (0, [], mgr1, d1) \<and>
    insert2MultiDbs sample_sql (\<lambda>_ _. False) (\<lambda>_. False) ''t_'' [(sample_head\<lparr> slavePort := 2 \<rparr>, sample_body)] ''20200101'' ''0005'' mgr1 d1 = (0, [], mgr1, d1)"
proof -
  obtain mgr1 d1 where b: "insert2MultiDbs sample_sql (\<lambda>_ _. False) (\<lambda>_. False) ''t_'' [(sample_head, sample_body)] ''20200101'' ''0005'' sample_mgr (\<lambda>_. {}, []) =
    (0, [], mgr1, d1)" using sample_batch by blast
  have "insert2MultiDbs sample_sql (\<lambda>_ _. False) (\<lambda>_. False) ''t_'' [(sample_head\<lparr> slavePort := 2 \<rparr>, sample_body)] ''20200101'' ''0005'' mgr1 d1 = (0, [], mgr1, d1)"
    by (rule second_batch_is_dropped[OF b]) (auto simp: sample_sql_def sample_mgr_def split: if_splits)
  with b show ?thesis by blast
qed

theorem reserve_drops_older_witness:
  "reserve_loop ''t_2020010100'' [''t_2019123100'', ''t_ecstatus''] = [''t_2019123100'']"
  using reserve_drops_older[of "[''t_2019123100'', ''t_ecstatus'']" "''t_2020010100''"] by simp





section \<open>Start\<close>

text \<open>The configuration of \<open>StatServer::initialize\<close>; \<open>ipGroups\<close> are the lines of the virtual addresses.\<close>

definition virtual_ips :: "tc_common \<Rightarrow> string list \<Rightarrow> (string \<rightharpoonup> string)" where
  "virtual_ips tc ipGroups =
     fold (\<lambda>line m. let g = tc_sepstr tc line '';'' True in if length g < 2 then m else m(g ! 0 \<mapsto> g ! 1)) ipGroups Map.empty"

definition stat_initialize :: "stat_env \<Rightarrow> int \<Rightarrow> nat \<Rightarrow> nat \<Rightarrow> string list \<Rightarrow> int \<Rightarrow> stat_app" where
  "stat_initialize e insertInterval threads hashmapnum ipGroups tnow =
     (let interval = (if insertInterval < 5 then 5 else insertInterval)
      in stat_start (nat (getSelectBufferFromFlag e interval tnow [])) threads hashmapnum interval (virtual_ips (se_tc e) ipGroups))"

definition stat_reserve_day :: "int \<Rightarrow> int" where
  "stat_reserve_day configured = (if configured < 2 then 2 else configured)"

end
