(* ===== verification/Property_Server.thy ===== *)
theory Property_Server
  imports Stat_Db
begin

text \<open>
  The property server (\<open>PropertyServer/PropertyImp.cpp\<close>, \<open>PropertyHashMap.h\<close>, \<open>PropertyServer.cpp\<close>,
  \<open>PropertyReapThread.cpp\<close>, \<open>PropertyDbManager.cpp\<close>): values of properties are merged by their policies in one
  of two groups of maps; the groups change roles as in the stat server, but the collecting thread waits until every
  thread has left the resting group. Functions whose text is the one of the stat server are defined by it.
\<close>

section \<open>Merging values\<close>

record prop_head =
  moduleName :: string
  propertyName :: string
  setName :: string
  setArea :: string
  setID :: string
  ph_ip :: string

type_synonym prop_body = "(string \<times> string) list"
type_synonym prop_map = "(prop_head \<times> prop_body) list"

text \<open>
  What the library gives: hashing, the code of reading a record (\<open>pe_nodata\<close> are the codes of a missing one, 0 that
  of a read one) and of writing it, the blocks, local time, strings, 64-bit numbers in strings, the sum of two numbers
  in strings as floating point, and their quotient.
\<close>

record prop_env =
  pe_hash :: "string \<Rightarrow> nat"
  pe_get :: "prop_map \<Rightarrow> prop_head \<Rightarrow> int"
  pe_nodata :: "int \<Rightarrow> bool"
  pe_set :: "prop_map \<Rightarrow> prop_head \<Rightarrow> prop_body \<Rightarrow> int"
  pe_used :: "prop_map \<Rightarrow> nat"
  pe_all :: nat
  pe_minute :: "int \<Rightarrow> string"
  pe_tc :: tc_common
  pe_ll :: "string \<Rightarrow> int"
  pe_dadd :: "string \<Rightarrow> string \<Rightarrow> string"
  pe_ddiv :: "string \<Rightarrow> int \<Rightarrow> string"
  pe_double :: "string \<Rightarrow> string"

definition sum_str :: "prop_env \<Rightarrow> string \<Rightarrow> string \<Rightarrow> string option" where
  "sum_str e a b = map_option num_str (ck64 (pe_ll e a + pe_ll e b))"

fun join_with :: "string \<Rightarrow> string list \<Rightarrow> string" where
  "join_with d [] = []"
| "join_with d [x] = x"
| "join_with d (x # y # xs) = x @ d @ join_with d (y # xs)"

text \<open>\<open>None\<close> is an overflow or an index past the end of a vector.\<close>

definition merge_field :: "prop_env \<Rightarrow> string list \<Rightarrow> nat \<times> string \<Rightarrow> string option" where
  "merge_field e fieldIn p =
     (if length fieldIn \<le> fst p then None
      else
        let sTmp = tc_sepstr (pe_tc e) (snd p) ''|'' False;
            inTmp = tc_sepstr (pe_tc e) (fieldIn ! fst p) ''|'' False
        in if length sTmp < 2 \<or> length inTmp < 2 then None
           else map_option (\<lambda>t. sTmp ! 0 @ ''|'' @ t) (sum_str e (sTmp ! 1) (inTmp ! 1)))"

definition merge_value :: "prop_env \<Rightarrow> string \<Rightarrow> string \<Rightarrow> string \<Rightarrow> string option" where
  "merge_value e policy old inValue =
     (if policy = ''Count'' \<or> policy = ''Sum'' then sum_str e old inValue
      else if policy = ''Min'' then Some (num_str (if pe_ll e old < pe_ll e inValue then pe_ll e old else pe_ll e inValue))
      else if policy = ''Max'' then Some (num_str (if pe_ll e old > pe_ll e inValue then pe_ll e old else pe_ll e inValue))
      else if policy = ''Distr'' then
        let fields = tc_sepstr (pe_tc e) old '','' False;
            fieldIn = tc_sepstr (pe_tc e) inValue '','' False
        in map_option (join_with '','') (map_opt (merge_field e fieldIn) (zip [0..<length fields] fields))
      else if policy = ''Avg'' then
        let sTmp = tc_sepstr (pe_tc e) old ''='' False;
            inTmp = tc_sepstr (pe_tc e) inValue ''='' False
        in if sTmp = [] \<or> inTmp = [] then None
           else map_option (\<lambda>c. pe_dadd e (sTmp ! 0) (inTmp ! 0) @ ''='' @ num_str c)
             (ck64 ((if length inTmp = 2 then pe_ll e (inTmp ! 1) else 1) + (if length sTmp = 2 then pe_ll e (sTmp ! 1) else 1)))
      else Some old)"

definition merge_info :: "prop_env \<Rightarrow> string \<times> string \<Rightarrow> (string, string) omap \<Rightarrow> (string, string) omap option" where
  "merge_info e p m =
     (case om_find m (fst p) of
        Some old \<Rightarrow> map_option (\<lambda>v. om_put (fst p) v m) (merge_value e (fst p) old (snd p))
      | None \<Rightarrow> Some (om_put (fst p) (snd p) m))"

text \<open>Of several entries of a policy in the stored record the first one counts.\<close>

definition first_infos :: "prop_body \<Rightarrow> (string, string) omap" where
  "first_infos b = fold (\<lambda>p m. if om_find m (fst p) = None then om_put (fst p) (snd p) m else m) b []"

definition merge_body :: "prop_env \<Rightarrow> prop_body \<Rightarrow> prop_body \<Rightarrow> prop_body option" where
  "merge_body e body st = fold_opt (merge_info e) body (first_infos st)"

definition prop_add :: "prop_env \<Rightarrow> prop_head \<Rightarrow> prop_body \<Rightarrow> prop_map \<Rightarrow> (int \<times> prop_map) option" where
  "prop_add e head body m =
     (let store = (\<lambda>b. (pe_set e m head b, if pe_set e m head b = 0 then st_put head b m else m));
          ret = pe_get e m head
      in if ret < 0 \<or> pe_nodata e ret then Some (store body)
         else if ret = 0 then map_option store (merge_body e body (case map_of m head of None \<Rightarrow> [] | Some st \<Rightarrow> st))
         else Some (ret, m))"

section \<open>Reports\<close>

text \<open>
  \<open>pp_buffer g\<close> holds, for every thread, when it left group \<open>g\<close> and whether it did; \<open>pp_lastBuf\<close> is the group each
  thread used last.
\<close>

record prop_app =
  pp_select :: nat
  pp_buffer :: "nat \<Rightarrow> (int \<times> int) list"
  pp_maps :: "nat \<Rightarrow> prop_map list"
  pp_lastDump :: int
  pp_interval :: int
  pp_lastBuf :: "nat \<Rightarrow> nat option"

definition prop_dump2file :: "prop_env \<Rightarrow> int \<Rightarrow> prop_app \<Rightarrow> prop_app" where
  "prop_dump2file e tnow app =
     (let app1 = (if pp_lastDump app = 0 then app\<lparr> pp_lastDump := fst (getTimeInfo (pe_minute e) (pp_interval app) tnow) \<rparr> else app)
      in if tnow - pp_lastDump app1 > pp_interval app * 60 then
           app1\<lparr> pp_lastDump := fst (getTimeInfo (pe_minute e) (pp_interval app) tnow), pp_select := 1 - pp_select app \<rparr>
         else app1)"

text \<open>A thread that finds the groups changed marks the one it left; the first time it marks none.\<close>

definition leave_group :: "nat \<Rightarrow> int \<Rightarrow> prop_app \<Rightarrow> prop_app" where
  "leave_group i tms app =
     (if pp_lastBuf app i = Some (pp_select app) then app
      else
        let app1 = (case pp_lastBuf app i of
              None \<Rightarrow> app
            | Some g \<Rightarrow> app\<lparr> pp_buffer := (pp_buffer app)(g := (pp_buffer app g)[i := (tms, 1)]) \<rparr>)
        in app1\<lparr> pp_lastBuf := (pp_lastBuf app1)(i \<mapsto> pp_select app) \<rparr>)"

definition prop_key :: "prop_env \<Rightarrow> prop_head \<Rightarrow> nat \<Rightarrow> nat" where
  "prop_key e head n = pe_hash e (moduleName head @ ph_ip head) mod n"

text \<open>
  One message: \<open>Inl\<close> ends the whole call because the map is nearly full. \<open>None\<close> is undefined behaviour.
\<close>

definition handle_one :: "prop_env \<Rightarrow> int \<Rightarrow> int \<Rightarrow> nat \<Rightarrow> prop_head \<Rightarrow> prop_body \<Rightarrow> prop_app \<Rightarrow> (prop_app + prop_app) option" where
  "handle_one e tnow tms i head body app =
     (let app1 = prop_dump2file e tnow app
      in if (case pp_lastBuf app1 i of None \<Rightarrow> False | Some g \<Rightarrow> g \<noteq> pp_select app1 \<and> length (pp_buffer app1 g) \<le> i) then None
         else
           let app2 = leave_group i tms app1;
               ms = pp_maps app2 (pp_select app2);
               k = prop_key e head (length ms)
           in if ms = [] then None
              else if pe_used e (ms ! k) * 100 > pe_all e * 95 then Some (Inl app2)
              else map_option (\<lambda>(ret, m). Inr (app2\<lparr> pp_maps := (pp_maps app2)(pp_select app2 := ms[k := m]) \<rparr>))
                (prop_add e head body (ms ! k)))"

fun handlePropMsg :: "prop_env \<Rightarrow> (nat \<Rightarrow> int) \<Rightarrow> nat \<Rightarrow> string \<Rightarrow> (prop_head \<times> prop_body) list \<Rightarrow> prop_app \<Rightarrow> (int \<times> prop_app) option" where
  "handlePropMsg e clk i ip [] app = Some (0, app)"
| "handlePropMsg e clk i ip ((h, b) # msgs) app =
     Option.bind (handle_one e (clk (length msgs) div 1000) (clk (length msgs)) i (h\<lparr> ph_ip := ip \<rparr>) b app) (\<lambda>r.
       case r of Inl app1 \<Rightarrow> Some (-1, app1) | Inr app1 \<Rightarrow> handlePropMsg e clk i ip msgs app1)"

definition reportPropMsg :: "prop_env \<Rightarrow> (nat \<Rightarrow> int) \<Rightarrow> nat \<Rightarrow> string \<Rightarrow> (prop_head \<times> prop_body) list \<Rightarrow> prop_app \<Rightarrow> (int \<times> prop_app) option" where
  "reportPropMsg e clk i ip msgs app = map_option (\<lambda>(r, app1). (0, app1)) (handlePropMsg e clk i ip msgs app)"

section \<open>The collecting thread\<close>

definition prop_getSelectBuffer :: "int \<Rightarrow> nat \<Rightarrow> int \<Rightarrow> prop_app \<Rightarrow> bool \<times> prop_app" where
  "prop_getSelectBuffer tms g iInterval app =
     (if \<exists>p \<in> set (pp_buffer app g). snd p \<noteq> 1 then (False, app)
      else if \<exists>p \<in> set (pp_buffer app g). tms - fst p < iInterval then (False, app)
      else (True, app\<lparr> pp_buffer := (pp_buffer app)(g := map (\<lambda>p. (fst p, 0)) (pp_buffer app g)) \<rparr>))"

text \<open>These functions have the text of the stat server.\<close>

definition prop_getIndexWithWeighted :: "int \<Rightarrow> int \<Rightarrow> int list \<Rightarrow> wrr_state \<Rightarrow> (nat \<times> wrr_state) option" where
  "prop_getIndexWithWeighted = getIndexWithWeighted"

definition prop_getGcd :: "int \<Rightarrow> int \<Rightarrow> int" where
  "prop_getGcd = getGcd"

definition prop_getDbWeighted :: "int list \<Rightarrow> int \<times> int" where
  "prop_getDbWeighted = getDbWeighted"

definition prop_getDataFromBuffer :: "stat_db \<Rightarrow> prop_map list \<Rightarrow> wrr_state \<Rightarrow> (nat \<times> wrr_state \<times> prop_map list) option" where
  "prop_getDataFromBuffer = getDataFromBuffer"

record prop_reaper =
  pr_wrr :: wrr_state
  pr_last :: "nat option"
  pr_queued :: "(nat \<times> prop_map queue_item) list"

definition prop_reap :: "prop_env \<Rightarrow> stat_db \<Rightarrow> string \<Rightarrow> int \<Rightarrow> prop_app \<times> prop_reaper \<Rightarrow> (prop_app \<times> prop_reaper) option" where
  "prop_reap e db randOrder tms z =
     (let (app, rp) = z; g = 1 - pp_select app
      in if pr_last rp = Some g then Some z
         else
           let (ok, app1) = prop_getSelectBuffer tms g 1000 app
           in if \<not> ok then Some (app1, rp)
              else map_option (\<lambda>(iTotalNum, w, v).
                (app1\<lparr> pp_maps := (pp_maps app1)(g := map (\<lambda>_. []) (pp_maps app1 g)) \<rparr>,
                 rp\<lparr> pr_wrr := w, pr_last := Some g,
                    pr_queued := pr_queued rp @ (if iTotalNum = 0 then []
                      else queue_items (pe_tc e) (pe_minute e) db (pp_interval app1) randOrder (tms div 1000) v) \<rparr>))
                (prop_getDataFromBuffer db (pp_maps app1 g) (pr_wrr rp)))"

definition prop_start :: "nat \<Rightarrow> nat \<Rightarrow> nat \<Rightarrow> int \<Rightarrow> prop_app" where
  "prop_start select threads hashmapnum interval =
     \<lparr> pp_select = select, pp_buffer = (\<lambda>_. replicate threads (0, 1))(select := replicate threads (0, 0)),
       pp_maps = (\<lambda>_. replicate hashmapnum []), pp_lastDump = 0, pp_interval = interval, pp_lastBuf = Map.empty \<rparr>"

definition prop_reaper_start :: prop_reaper where
  "prop_reaper_start = \<lparr> pr_wrr = \<lparr> curWeight = 0, lastSq = -1 \<rparr>, pr_last = None, pr_queued = [] \<rparr>"

definition property_initialize :: "prop_env \<Rightarrow> int \<Rightarrow> nat \<Rightarrow> nat \<Rightarrow> int \<Rightarrow> prop_app" where
  "property_initialize e insertInterval threads hashmapnum tnow =
     (let interval = (if insertInterval < 5 then 5 else insertInterval);
          flag = snd (snd (getTimeInfo (pe_minute e) interval tnow));
          select = (tc_strto_int (pe_tc e) (str_substr flag 2 2) div interval) mod 2
      in prop_start (nat select) threads hashmapnum interval)"

section \<open>Databases\<close>

text \<open>
  Databases of a host are shared between \<open>t\<close> threads of it, where \<open>t\<close> is the configured number or the smallest number of
  databases of a host.
\<close>

definition threads_of_db :: "nat \<Rightarrow> db_conf list \<Rightarrow> nat" where
  "threads_of_db insertThreadByDB cs = min insertThreadByDB (fold (\<lambda>p m. min (length (snd p)) m) (ip_has_db cs) 999999)"

definition host_number :: "nat \<Rightarrow> nat \<Rightarrow> db_conf list \<Rightarrow> string \<Rightarrow> nat" where
  "host_number garbage byMachine cs host =
     (case map_of (thread_indexes (db_ip_num garbage byMachine cs) 0 (ip_has_db cs)) host of None \<Rightarrow> 0 | Some i \<Rightarrow> i)"

text \<open>The counter of a host is reset when it reaches \<open>t\<close>, so it is the number of its databases before, modulo \<open>t\<close>.\<close>

fun prop_db_to_ip :: "(string \<Rightarrow> nat) \<Rightarrow> nat \<Rightarrow> (string \<Rightarrow> nat) \<Rightarrow> db_conf list \<Rightarrow> nat list" where
  "prop_db_to_ip first t second [] = []"
| "prop_db_to_ip first t second (c # cs) =
     (first (dc_host c) * t + second (dc_host c)) #
     prop_db_to_ip first t (second(dc_host c := (if Suc (second (dc_host c)) = t then 0 else Suc (second (dc_host c))))) cs"

definition prop_db_init :: "nat \<Rightarrow> nat \<Rightarrow> nat \<Rightarrow> bool \<Rightarrow> db_conf list \<Rightarrow> stat_db" where
  "prop_db_init garbage byMachine byDB weighted cs =
     \<lparr> db_weights = map dc_weight cs, db_enableWeighted = weighted, db_ipHasDb = ip_has_db cs,
       db_toIp = (\<lambda>d. prop_db_to_ip (host_number garbage byMachine cs) (threads_of_db byDB cs) (\<lambda>_. 0) cs ! d) \<rparr>"

definition getInsertDbThreadNum :: "nat \<Rightarrow> nat \<Rightarrow> nat \<Rightarrow> db_conf list \<Rightarrow> nat" where
  "getInsertDbThreadNum garbage byMachine byDB cs = db_ip_num garbage byMachine cs * threads_of_db byDB cs"

record prop_row =
  pw_date :: string
  pw_flag :: string
  pw_head :: prop_head
  pw_policy :: string
  pw_value :: string

record 'd prop_sql =
  pq_like :: "string \<Rightarrow> 'd \<Rightarrow> nat option"
  pq_create :: "string \<Rightarrow> 'd \<Rightarrow> bool \<times> 'd"
  pq_insert :: "string \<Rightarrow> prop_row list \<Rightarrow> 'd \<Rightarrow> string option \<times> 'd"
  pq_count :: "string \<Rightarrow> string \<Rightarrow> 'd \<Rightarrow> nat option"
  pq_update :: "string \<Rightarrow> string \<Rightarrow> 'd \<Rightarrow> nat option \<times> 'd"
  pq_replace :: "string \<Rightarrow> string \<Rightarrow> 'd \<Rightarrow> nat option \<times> 'd"
  pq_status :: "'d \<Rightarrow> 'd"

definition hasdbTableExist :: "'d prop_sql \<Rightarrow> string \<Rightarrow> 'd \<Rightarrow> bool" where
  "hasdbTableExist q name d = (case pq_like q name d of None \<Rightarrow> False | Some n \<Rightarrow> n > 0)"

definition prop_creatTb :: "'d prop_sql \<Rightarrow> string \<Rightarrow> 'd \<Rightarrow> int \<times> 'd" where
  "prop_creatTb q name d =
     (if hasdbTableExist q name d then (0, d) else let (ok, d1) = pq_create q name d in (if ok then 0 else 1, d1))"

definition prop_creatTable :: "'d prop_sql \<Rightarrow> string \<Rightarrow> 'd \<Rightarrow> int \<times> 'd" where
  "prop_creatTable q sTbName d =
     fold (\<lambda>name (r, d). let (r1, d1) = prop_creatTb q name d in (if r \<noteq> 0 \<or> r1 \<noteq> 0 then 1 else 0, d1)) (day_tables (day_of sTbName)) (0, d)"

text \<open>The value of a row: an average is the sum over the number of records.\<close>

definition row_value :: "prop_env \<Rightarrow> string \<times> string \<Rightarrow> string option" where
  "row_value e p =
     (if fst p = ''Avg'' then
        let sTmp = tc_sepstr (pe_tc e) (snd p) ''='' False
        in if sTmp = [] then None
           else if length sTmp = 2 \<and> pe_ll e (sTmp ! 1) \<noteq> 0 then Some (pe_ddiv e (sTmp ! 0) (pe_ll e (sTmp ! 1)))
           else Some (pe_double e (sTmp ! 0))
      else Some (snd p))"

definition rows_of :: "prop_env \<Rightarrow> string \<Rightarrow> string \<Rightarrow> prop_head \<times> prop_body \<Rightarrow> prop_row list option" where
  "rows_of e sDate sFlag p =
     map_opt (\<lambda>i. map_option (\<lambda>v. \<lparr> pw_date = sDate, pw_flag = sFlag, pw_head = fst p, pw_policy = fst i, pw_value = v \<rparr>) (row_value e i)) (snd p)"

text \<open>
  The loop over the records. \<open>skip\<close> is the number of records to leave out, \<open>now\<close> counts the values collected so far;
  \<open>None\<close> is a value of an average without content. The statement is that of the values collected since the last.
\<close>

fun prop_insert_loop :: "prop_env \<Rightarrow> 'd prop_sql \<Rightarrow> int \<Rightarrow> (nat \<Rightarrow> bool) \<Rightarrow> string \<Rightarrow> string \<Rightarrow> string \<Rightarrow> nat \<Rightarrow> prop_row list \<Rightarrow> nat \<Rightarrow>
    prop_map \<Rightarrow> 'd \<Rightarrow> (insert_end \<times> nat \<times> 'd) option" where
  "prop_insert_loop e q mx stop tb sDate sFlag skip acc now [] d =
     Some (if acc = [] then (Inserted, now, d)
       else case pq_insert q tb acc d of (None, d1) \<Rightarrow> (Inserted, now, d1) | (Some err, d1) \<Rightarrow> (Failed err, now, d1))"
| "prop_insert_loop e q mx stop tb sDate sFlag skip acc now (p # ps) d =
     (if stop (length ps) then Some (Stopped, now, d)
      else case skip of
        Suc n \<Rightarrow> prop_insert_loop e q mx stop tb sDate sFlag n acc now ps d
      | 0 \<Rightarrow>
          Option.bind (rows_of e sDate sFlag p) (\<lambda>rows.
            let acc1 = acc @ rows; now1 = now + length rows
            in if int (length acc1) \<ge> mx then
                 (case pq_insert q tb acc1 d of
                    (None, d1) \<Rightarrow> prop_insert_loop e q mx stop tb sDate sFlag 0 [] now1 ps d1
                  | (Some err, d1) \<Rightarrow> Some (Failed err, now1, d1))
               else prop_insert_loop e q mx stop tb sDate sFlag 0 acc1 now1 ps d))"

definition prop_insert2Db :: "prop_env \<Rightarrow> 'd prop_sql \<Rightarrow> db_manager \<Rightarrow> (nat \<Rightarrow> bool) \<Rightarrow> prop_map \<Rightarrow> string \<Rightarrow> string \<Rightarrow> nat \<Rightarrow> string \<Rightarrow> 'd \<Rightarrow>
    (int \<times> nat \<times> 'd) option" where
  "prop_insert2Db e q mgr stop msg sDate sFlag iOldWriteNum sTbNamePre d =
     (let tb = table_name mgr sTbNamePre sDate sFlag; d1 = snd (prop_creatTable q tb d)
      in map_option (\<lambda>(x, iNow, d2).
           case x of
             Inserted \<Rightarrow> (0, iNow, d2)
           | Stopped \<Rightarrow> (-1, iNow, d2)
           | Failed err \<Rightarrow> (1, iNow, if \<not> str_contains err ''Duplicate'' then snd (prop_creatTable q tb d2) else d2))
         (prop_insert_loop e q (dm_maxInsert mgr) stop tb sDate sFlag iOldWriteNum [] 0 msg d1))"

definition prop_updateEcsStatus :: "'d prop_sql \<Rightarrow> string \<Rightarrow> string \<Rightarrow> db_manager \<Rightarrow> 'd \<Rightarrow> int \<times> 'd" where
  "prop_updateEcsStatus q sLastTime sTbNamePre mgr d =
     (let sAppName = (if sTbNamePre \<noteq> [] then sTbNamePre else dm_tbNamePre mgr)
      in case pq_update q sAppName sLastTime d of
           (None, d1) \<Rightarrow> (1, pq_status q d1)
         | (Some iRet, d1) \<Rightarrow>
             if iRet = 0 then (case pq_replace q sAppName sLastTime d1 of (None, d2) \<Rightarrow> (1, pq_status q d2) | (Some _, d2) \<Rightarrow> (0, d2))
             else (0, d1))"

definition prop_checkLastTime :: "'d prop_sql \<Rightarrow> string \<Rightarrow> string \<Rightarrow> db_manager \<Rightarrow> 'd \<Rightarrow> nat \<times> 'd" where
  "prop_checkLastTime q sLastTime sTbNamePre mgr d =
     (case pq_count q (if sTbNamePre \<noteq> [] then sTbNamePre else dm_tbNamePre mgr) sLastTime d of
        None \<Rightarrow> (0, pq_status q d)
      | Some n \<Rightarrow> (n, d))"

definition prop_insert2MultiDbs :: "prop_env \<Rightarrow> 'd prop_sql \<Rightarrow> db_manager \<Rightarrow> (nat \<Rightarrow> nat \<Rightarrow> bool) \<Rightarrow> (nat \<Rightarrow> bool) \<Rightarrow> string \<Rightarrow> prop_map \<Rightarrow> string \<Rightarrow> string \<Rightarrow> 'd \<Rightarrow>
    (int \<times> string list \<times> 'd) option" where
  "prop_insert2MultiDbs e q mgr stop halt sTbNamePre msg sDate sFlag d =
     (let sLastTime = sDate @ '' '' @ sFlag;
          app = sTbNamePre @ dm_localIp mgr;
          (n, d0) = prop_checkLastTime q sLastTime app mgr d;
          status = (\<lambda>d. let (r, d') = prop_updateEcsStatus q sLastTime app mgr d in (0, if r \<noteq> 0 then [''updateEcsStatus''] else [], d'))
      in if n \<noteq> 0 then Some (0, [], d0)
         else
           Option.bind (prop_insert2Db e q mgr (stop 0) msg sDate sFlag 0 sTbNamePre d0) (\<lambda>(r1, iNow, d1).
             if r1 = 0 then Some (status d1)
             else if r1 = -1 \<or> halt 0 then Some (-1, [], d1)
             else map_option (\<lambda>(r2, iNow2, d2).
               if r2 = 0 then status d2
               else if r2 = -1 \<or> halt 1 then (-1, [], d2)
               else (0, [''insert2Db''], d2))
               (prop_insert2Db e q mgr (stop 1) msg sDate sFlag iNow sTbNamePre d1)))"

section \<open>What merging gives\<close>

lemma first_infos_ok: "om_ok (first_infos b)"
proof -
  have "om_ok m \<Longrightarrow> om_ok (fold (\<lambda>p m. if om_find m (fst p) = None then om_put (fst p) (snd p) m else m) b m)" for m
    by (induction b arbitrary: m) auto
  from this[OF om_ok_Nil] show ?thesis by (simp add: first_infos_def)
qed

lemma first_infos_find: "om_find (first_infos b) k = map_of b k"
proof -
  have "om_find (fold (\<lambda>p m. if om_find m (fst p) = None then om_put (fst p) (snd p) m else m) b m) k =
      (case om_find m k of None \<Rightarrow> map_of b k | Some v \<Rightarrow> Some v)" for m
    by (induction b arbitrary: m) (auto split: option.splits)
  from this[of "[]"] show ?thesis by (simp add: first_infos_def)
qed

lemma merge_infos:
  "fold_opt (merge_info e) body m = Some r \<Longrightarrow> distinct (map fst body) \<Longrightarrow>
   om_find r k = (case map_of body k of None \<Rightarrow> om_find m k
     | Some v \<Rightarrow> (case om_find m k of None \<Rightarrow> Some v | Some old \<Rightarrow> merge_value e k old v)) \<and> (om_ok m \<longrightarrow> om_ok r)"
proof (induction body arbitrary: m)
  case Nil
  then show ?case by simp
next
  case (Cons p body)
  obtain m1 where a: "merge_info e p m = Some m1" and r: "fold_opt (merge_info e) body m1 = Some r"
    using Cons.prems(1) by (cases "merge_info e p m") auto
  have d: "distinct (map fst body)" "map_of body (fst p) = None" using Cons.prems(2) by (auto simp: map_of_eq_None_iff)
  have m1: "om_find m1 k = (if k = fst p then (case om_find m k of None \<Rightarrow> Some (snd p) | Some old \<Rightarrow> merge_value e k old (snd p)) else om_find m k)
    \<and> (om_ok m \<longrightarrow> om_ok m1)"
    using a by (auto simp: merge_info_def split: option.splits)
  from Cons.IH[OF r d(1)] m1 d(2) show ?case by (cases p) (auto split: option.splits)
qed

text \<open>
  Fact (merged_record). Merging a report into a record keeps every policy of both: one that only one of them
  has keeps its value, one that both have gets the merged value, whatever the order of the entries; the
  record stays in the order of policies.
\<close>

theorem merged_record:
  assumes "merge_body e body st = Some r" and "distinct (map fst body)"
  shows "om_ok r \<and> om_find r policy =
    (case map_of body policy of None \<Rightarrow> map_of st policy
     | Some v \<Rightarrow> (case map_of st policy of None \<Rightarrow> Some v | Some old \<Rightarrow> merge_value e policy old v))"
  using merge_infos[OF assms(1)[unfolded merge_body_def] assms(2), of policy] first_infos_ok[of st] unfolding first_infos_find by simp

text \<open>
  Fact (short_distribution_crashes). A report of a distribution with fewer ranges than the stored record has reads
  past the end of a vector: any client can end the server.
\<close>

theorem short_distribution_crashes:
  assumes "map_of m head = Some st" and "pe_get e m head = 0" and "\<not> pe_nodata e 0"
    and "map_of st ''Distr'' = Some old"
    and "length (tc_sepstr (pe_tc e) v '','' False) < length (tc_sepstr (pe_tc e) old '','' False)"
  shows "prop_add e head [(''Distr'', v)] m = None"
proof -
  let ?f = "tc_sepstr (pe_tc e) old '','' False" and ?i = "tc_sepstr (pe_tc e) v '','' False"
  have l: "length ?i < length (zip [0..<length ?f] ?f)" using assms(5) by simp
  have "map_opt (merge_field e ?i) (zip [0..<length ?f] ?f) = None"
  proof (rule ccontr)
    assume "map_opt (merge_field e ?i) (zip [0..<length ?f] ?f) \<noteq> None"
    then obtain ys where "map_opt (merge_field e ?i) (zip [0..<length ?f] ?f) = Some ys" by blast
    from map_opt_Some[OF this] l have "merge_field e ?i (zip [0..<length ?f] ?f ! length ?i) \<noteq> None" by auto
    with assms(5) show False by (simp add: merge_field_def)
  qed
  then have "merge_value e ''Distr'' old v = None" by (simp add: merge_value_def Let_def)
  then have "merge_body e [(''Distr'', v)] st = None" using assms(4) by (simp add: merge_body_def merge_info_def first_infos_find)
  with assms(1-3) show ?thesis by (simp add: prop_add_def Let_def)
qed

section \<open>Threads that rest\<close>

datatype prop_event = PReport "nat \<Rightarrow> int" nat string "(prop_head \<times> prop_body) list" | PReap int

fun prop_step :: "prop_env \<Rightarrow> stat_db \<Rightarrow> string \<Rightarrow> prop_event \<Rightarrow> prop_app \<times> prop_reaper \<Rightarrow> (prop_app \<times> prop_reaper) option" where
  "prop_step e db o1 (PReport clk i ip msgs) (app, rp) = map_option (\<lambda>(r, app1). (app1, rp)) (reportPropMsg e clk i ip msgs app)"
| "prop_step e db o1 (PReap t) z = prop_reap e db o1 t z"

text \<open>What is true as long as thread \<open>j\<close> never reports; \<open>s0\<close> is the group in use at the start.\<close>

definition unmarked :: "nat \<Rightarrow> nat \<Rightarrow> prop_app \<Rightarrow> bool" where
  "unmarked s0 j app \<longleftrightarrow> pp_select app < 2 \<and> (\<forall>g. j < length (pp_buffer app g)) \<and> snd (pp_buffer app s0 ! j) = 0"

definition idle_inv :: "nat \<Rightarrow> nat \<Rightarrow> prop_app \<Rightarrow> prop_reaper \<Rightarrow> bool" where
  "idle_inv s0 j app rp \<longleftrightarrow> s0 < 2 \<and> unmarked s0 j app \<and>
     (pr_last rp = None \<or> (pr_last rp = Some (1 - s0) \<and> snd (pp_buffer app (1 - s0) ! j) = 0))"

definition flags_of :: "nat \<Rightarrow> prop_app \<Rightarrow> bool \<times> (nat \<Rightarrow> nat) \<times> (nat \<Rightarrow> int)" where
  "flags_of j app = (pp_select app < 2, \<lambda>g. length (pp_buffer app g), \<lambda>g. snd (pp_buffer app g ! j))"

lemma handle_one_flags:
  assumes "handle_one e t tms i head body app = Some r" and "i \<noteq> j" and "pp_select app < 2"
  shows "flags_of j (case r of Inl a \<Rightarrow> a | Inr a \<Rightarrow> a) = flags_of j app"
proof -
  have d: "flags_of j (prop_dump2file e t app) = flags_of j app"
    using assms(3) by (auto simp: flags_of_def prop_dump2file_def Let_def)
  have l: "flags_of j (leave_group i tms app1) = flags_of j app1" for app1
    using assms(2) by (auto simp: flags_of_def leave_group_def Let_def fun_eq_iff split: option.splits)
  have m: "flags_of j (app1\<lparr> pp_maps := x \<rparr>) = flags_of j app1" for app1 x
    by (simp add: flags_of_def)
  from assms(1) l[of "prop_dump2file e t app"] d m show ?thesis
    by (auto simp: handle_one_def Let_def split: if_splits sum.splits)
qed

lemma reportPropMsg_flags:
  "reportPropMsg e clk i ip msgs app = Some (r, app') \<Longrightarrow> i \<noteq> j \<Longrightarrow> pp_select app < 2 \<Longrightarrow> flags_of j app' = flags_of j app"
proof -
  have "handlePropMsg e clk i ip msgs app = Some (r, app') \<Longrightarrow> i \<noteq> j \<Longrightarrow> pp_select app < 2 \<Longrightarrow> flags_of j app' = flags_of j app" for r
  proof (induction msgs arbitrary: app)
    case (Cons p msgs)
    obtain h b where p: "p = (h, b)" by (cases p)
    with Cons.prems(1) obtain x where x: "handle_one e (clk (length msgs) div 1000) (clk (length msgs)) i (h\<lparr> ph_ip := ip \<rparr>) b app = Some x"
      by (cases "handle_one e (clk (length msgs) div 1000) (clk (length msgs)) i (h\<lparr> ph_ip := ip \<rparr>) b app") auto
    note f = handle_one_flags[OF x Cons.prems(2,3)]
    show ?case
    proof (cases x)
      case (Inl a)
      with Cons.prems(1) p x f show ?thesis by simp
    next
      case (Inr a)
      then have "pp_select a < 2" using f Cons.prems(3) by (simp add: flags_of_def)
      with Cons.IH[of a] Cons.prems(1,2) Inr p x f show ?thesis by simp
    qed
  qed simp
  then show "reportPropMsg e clk i ip msgs app = Some (r, app') \<Longrightarrow> i \<noteq> j \<Longrightarrow> pp_select app < 2 \<Longrightarrow> flags_of j app' = flags_of j app"
    by (auto simp: reportPropMsg_def)
qed

lemma idle_inv_flags: "idle_inv s0 j app rp \<Longrightarrow> flags_of j app' = flags_of j app \<Longrightarrow> idle_inv s0 j app' rp"
  by (simp add: idle_inv_def unmarked_def flags_of_def fun_eq_iff)

lemma reap_unmarked:
  assumes "j < length (pp_buffer app (1 - pp_select app))" and "snd (pp_buffer app (1 - pp_select app) ! j) = 0"
  shows "prop_reap e db o1 t (app, rp) = Some (app, rp)"
proof -
  have "\<exists>p \<in> set (pp_buffer app (1 - pp_select app)). snd p \<noteq> 1" using assms by (metis nth_mem zero_neq_one)
  then show ?thesis by (simp add: prop_reap_def prop_getSelectBuffer_def Let_def)
qed

lemma reap_idle:
  assumes "prop_reap e db o1 t (app, rp) = Some (app', rp')" and "idle_inv s0 j app rp"
  shows "idle_inv s0 j app' rp'"
proof -
  let ?g = "1 - pp_select app"
  have j: "j < length (pp_buffer app ?g)" using assms(2) by (simp add: idle_inv_def unmarked_def)
  show ?thesis
  proof (cases "snd (pp_buffer app ?g ! j) = 0")
    case True
    with reap_unmarked[OF j, of e db o1 t rp] assms show ?thesis by simp
  next
    case False
    have s: "s0 < 2" "pp_select app < 2" "snd (pp_buffer app s0 ! j) = 0" using assms(2) by (simp_all add: idle_inv_def unmarked_def)
    have "?g \<noteq> s0" using False s(3) by auto
    then have g: "?g = 1 - s0" "s0 < 2" "?g \<noteq> s0" using s(1,2) by arith+
    then have none: "pr_last rp = None" using assms(2) False by (auto simp: idle_inv_def)
    obtain ok app1 where sel: "prop_getSelectBuffer t ?g 1000 app = (ok, app1)" by (cases "prop_getSelectBuffer t ?g 1000 app")
    show ?thesis
    proof (cases ok)
      case False
      with sel have "app1 = app" by (auto simp: prop_getSelectBuffer_def split: if_splits)
      with False assms none sel show ?thesis by (simp add: prop_reap_def Let_def)
    next
      case True
      with sel have a1: "app1 = app\<lparr> pp_buffer := (pp_buffer app)(?g := map (\<lambda>p. (fst p, 0)) (pp_buffer app ?g)) \<rparr>"
        by (auto simp: prop_getSelectBuffer_def split: if_splits)
      have eq: "prop_reap e db o1 t (app, rp) = map_option (\<lambda>(iTotalNum, w, v).
          (app1\<lparr> pp_maps := (pp_maps app1)(?g := map (\<lambda>_. []) (pp_maps app1 ?g)) \<rparr>,
           rp\<lparr> pr_wrr := w, pr_last := Some ?g,
              pr_queued := pr_queued rp @ (if iTotalNum = 0 then []
                else queue_items (pe_tc e) (pe_minute e) db (pp_interval app1) o1 (t div 1000) v) \<rparr>))
          (prop_getDataFromBuffer db (pp_maps app1 ?g) (pr_wrr rp))"
        unfolding prop_reap_def Let_def prod.case none sel using True by simp
      then have rp': "pr_last rp' = Some ?g" and app': "pp_buffer app' = pp_buffer app1" "pp_select app' = pp_select app1"
        using assms(1) by (cases "prop_getDataFromBuffer db (pp_maps app1 ?g) (pr_wrr rp)"; auto)+
      have "unmarked s0 j app'" using assms(2) g(3) by (simp add: idle_inv_def unmarked_def app' a1)
      moreover have "snd (pp_buffer app' (1 - s0) ! j) = 0" unfolding app' a1 g(1)[symmetric] using j by simp
      ultimately show ?thesis using g(1,2) rp' by (simp add: idle_inv_def)
    qed
  qed
qed

text \<open>
  Fact (idle_thread_blocks). As long as one of the threads gets no report, the collecting thread takes a group at
  most once, because it waits for every thread to have left a group: after the first time a round does nothing.
\<close>

theorem idle_thread_blocks:
  assumes "fold_opt (prop_step e db o1) evs (prop_start s0 threads n interval, prop_reaper_start) = Some (app, rp)"
    and "s0 < 2" and "j < threads" and "\<forall>clk i ip msgs. PReport clk i ip msgs \<in> set evs \<longrightarrow> i \<noteq> j"
    and "pr_last rp \<noteq> None"
  shows "prop_reap e db o1 t (app, rp) = Some (app, rp)"
proof -
  let ?P = "\<lambda>(app, rp). idle_inv s0 j app rp"
  have step: "?P z'" if "ev \<in> set evs" "?P z" "prop_step e db o1 ev z = Some z'" for z z' ev
  proof -
    obtain app rp where z: "z = (app, rp)" by (cases z)
    show ?thesis
    proof (cases ev)
      case (PReport clk i ip msgs)
      with that z obtain r app1 where a: "reportPropMsg e clk i ip msgs app = Some (r, app1)" and z': "z' = (app1, rp)" by auto
      have "i \<noteq> j" using assms(4) that(1) PReport by blast
      moreover have inv: "idle_inv s0 j app rp" using that(2) z by simp
      moreover from inv have "pp_select app < 2" by (simp add: idle_inv_def unmarked_def)
      ultimately have "idle_inv s0 j app1 rp" using reportPropMsg_flags[OF a] idle_inv_flags by blast
      with z' show ?thesis by simp
    next
      case (PReap t)
      with that z show ?thesis by (cases z') (auto intro: reap_idle)
    qed
  qed
  have start: "?P (prop_start s0 threads n interval, prop_reaper_start)"
    using assms(2,3) by (simp add: idle_inv_def unmarked_def prop_start_def prop_reaper_start_def)
  have "?P (app, rp)" by (rule fold_opt_inv[OF assms(1), of ?P, OF start]) (rule step)
  then have inv: "idle_inv s0 j app rp" by simp
  then have both: "snd (pp_buffer app s0 ! j) = 0" "snd (pp_buffer app (1 - s0) ! j) = 0" "j < length (pp_buffer app (1 - pp_select app))"
    using assms(5) by (auto simp: idle_inv_def unmarked_def)
  have "1 - pp_select app = s0 \<or> 1 - pp_select app = 1 - s0"
    using inv by (auto simp: idle_inv_def unmarked_def)
  with both show ?thesis by (intro reap_unmarked[of j]) auto
qed



section \<open>Insertion\<close>

text \<open>
  What is relied on: creating tables and the status table change no rows, and a statement that fails leaves its
  table as it was (InnoDB).
\<close>

definition prop_laws :: "'d prop_sql \<Rightarrow> ('d \<Rightarrow> string \<Rightarrow> prop_row set) \<Rightarrow> bool" where
  "prop_laws q rows \<longleftrightarrow>
     (\<forall>tb rs d. fst (pq_insert q tb rs d) = None \<longrightarrow> rows (snd (pq_insert q tb rs d)) tb = rows d tb \<union> set rs) \<and>
     (\<forall>tb rs d. fst (pq_insert q tb rs d) \<noteq> None \<longrightarrow> rows (snd (pq_insert q tb rs d)) tb = rows d tb) \<and>
     (\<forall>tb d. rows (snd (pq_create q tb d)) = rows d) \<and> (\<forall>d. rows (pq_status q d) = rows d) \<and>
     (\<forall>a t d. rows (snd (pq_update q a t d)) = rows d \<and> rows (snd (pq_replace q a t d)) = rows d)"

lemma prop_creatTable_rows: "prop_laws q rows \<Longrightarrow> rows (snd (prop_creatTable q tb d)) = rows d"
proof -
  assume l: "prop_laws q rows"
  have one: "rows (snd (prop_creatTb q name d)) = rows d" for name d
    using l by (simp add: prop_creatTb_def prop_laws_def split_beta)
  have "rows (snd (fold (\<lambda>name (r, d). let (r1, d1) = prop_creatTb q name d in (if r \<noteq> 0 \<or> r1 \<noteq> 0 then 1 else 0, d1)) names (r0, d))) = rows d"
    for names and r0 :: int and d
  proof (induction names arbitrary: r0 d)
    case (Cons n ns)
    obtain x y where "prop_creatTb q n d = (x, y)" by (cases "prop_creatTb q n d")
    with Cons one[of n d] show ?case by simp
  qed simp
  then show ?thesis by (simp add: prop_creatTable_def)
qed

lemma prop_updateEcsStatus_rows: "prop_laws q rows \<Longrightarrow> rows (snd (prop_updateEcsStatus q t app mgr d)) = rows d"
  by (auto simp: prop_updateEcsStatus_def Let_def prop_laws_def split: prod.splits option.splits) (metis snd_conv)+

definition never :: "nat \<Rightarrow> bool" where
  "never n = False"

text \<open>A run without statements before the end: the values are only collected.\<close>

lemma collect_rows:
  "map_opt (rows_of e sDate sFlag) msg = Some rss \<Longrightarrow> int (length acc + length (concat rss)) < mx \<Longrightarrow>
   prop_insert_loop e q mx never tb sDate sFlag 0 acc k msg d =
   prop_insert_loop e q mx never tb sDate sFlag 0 (acc @ concat rss) (k + length (concat rss)) [] d"
proof (induction msg arbitrary: acc k rss)
  case Nil
  then show ?case by simp
next
  case (Cons p msg)
  then obtain rs rss' where r: "rows_of e sDate sFlag p = Some rs" "map_opt (rows_of e sDate sFlag) msg = Some rss'" "rss = rs # rss'"
    by (auto simp: bind_eq_Some_conv)
  with Cons.prems(2) have "int (length (acc @ rs) + length (concat rss')) < mx" "\<not> mx \<le> int (length (acc @ rs))" by simp_all
  with Cons.IH[OF r(2) this(1), of "k + length rs"] r show ?case by (simp add: never_def Let_def add.assoc)
qed

lemma skip_records:
  "length msg \<le> n \<Longrightarrow> prop_insert_loop e q mx never tb sDate sFlag n [] k msg d = Some (Inserted, k, d)"
proof (induction msg arbitrary: n)
  case (Cons p msg)
  then obtain m where "n = Suc m" "length msg \<le> m" by (cases n) auto
  with Cons.IH show ?case by (simp add: never_def)
qed simp

lemma concat_at_least: "\<forall>rs \<in> set rss. rs \<noteq> [] \<Longrightarrow> length rss \<le> length (concat rss)"
proof (induction rss)
  case (Cons r rss)
  then show ?case by (cases r) simp_all
qed simp

text \<open>
  Fact (failed_batch_is_skipped). When the statement of a batch fails, the repetition leaves out as many records
  as values had been collected for the failed statement, which are all: nothing is inserted, yet the interval is
  recorded as done and no alarm about the insertion is raised. The records are lost.
\<close>

theorem failed_batch_is_skipped:
  assumes "prop_laws q rows" and "map_opt (rows_of e sDate sFlag) msg = Some rss" and "\<forall>rs \<in> set rss. rs \<noteq> []" and "msg \<noteq> []"
    and "int (length (concat rss)) < dm_maxInsert mgr" and "pre \<noteq> []" and "tb = table_name mgr pre sDate sFlag"
    and "pq_count q (pre @ dm_localIp mgr) (sDate @ '' '' @ sFlag) d = Some 0"
    and "fst (pq_insert q tb (concat rss) (snd (prop_creatTable q tb d))) \<noteq> None" and "\<not> halt 0"
  shows "\<exists>alarms d'. prop_insert2MultiDbs e q mgr (\<lambda>_. never) halt pre msg sDate sFlag d = Some (0, alarms, d') \<and>
    ''insert2Db'' \<notin> set alarms \<and> rows d' tb = rows d tb"
proof -
  let ?d1 = "snd (prop_creatTable q tb d)"
  obtain err d2 where i: "pq_insert q tb (concat rss) ?d1 = (Some err, d2)"
    using assms(9) by (cases "pq_insert q tb (concat rss) ?d1") auto
  have len: "length msg \<le> length (concat rss)"
  proof -
    have "length rss = length msg" using map_opt_Some[OF assms(2)] by simp
    moreover have "length rss \<le> length (concat rss)" by (rule concat_at_least[OF assms(3)])
    ultimately show ?thesis by simp
  qed
  then have ne: "concat rss \<noteq> []" using assms(4) by (metis le_zero_eq length_0_conv)
  define d3 where "d3 = (if \<not> str_contains err ''Duplicate'' then snd (prop_creatTable q tb d2) else d2)"
  have "prop_insert_loop e q (dm_maxInsert mgr) never tb sDate sFlag 0 [] 0 msg ?d1 = Some (Failed err, length (concat rss), d2)"
    using collect_rows[OF assms(2), of "[]" "dm_maxInsert mgr" q tb 0 ?d1] assms(5) i ne by simp
  then have one: "prop_insert2Db e q mgr never msg sDate sFlag 0 pre d = Some (1, length (concat rss), d3)"
    by (simp add: prop_insert2Db_def Let_def assms(7)[symmetric] d3_def)
  define d4 where "d4 = snd (prop_creatTable q tb d3)"
  have two: "prop_insert2Db e q mgr never msg sDate sFlag (length (concat rss)) pre d3 = Some (0, 0, d4)"
    using skip_records[OF len, of e q] by (simp add: prop_insert2Db_def Let_def assms(7)[symmetric] d4_def)
  have r4: "rows d4 tb = rows d tb"
  proof -
    have "rows d2 tb = rows ?d1 tb" using assms(1) i unfolding prop_laws_def by (metis fst_conv snd_conv option.distinct(1))
    then show ?thesis using prop_creatTable_rows[OF assms(1)] by (simp add: d3_def d4_def)
  qed
  obtain r5 d5 where u: "prop_updateEcsStatus q (sDate @ '' '' @ sFlag) (pre @ dm_localIp mgr) mgr d4 = (r5, d5)"
    by (cases "prop_updateEcsStatus q (sDate @ '' '' @ sFlag) (pre @ dm_localIp mgr) mgr d4")
  have "prop_checkLastTime q (sDate @ '' '' @ sFlag) (pre @ dm_localIp mgr) mgr d = (0, d)"
    using assms(6,8) by (simp add: prop_checkLastTime_def)
  then have "prop_insert2MultiDbs e q mgr (\<lambda>_. never) halt pre msg sDate sFlag d =
      Some (0, if r5 \<noteq> 0 then [''updateEcsStatus''] else [], d5)"
    unfolding prop_insert2MultiDbs_def Let_def using one two u assms(10) by simp
  moreover have "rows d5 = rows d4" using prop_updateEcsStatus_rows[OF assms(1), of "sDate @ '' '' @ sFlag" "pre @ dm_localIp mgr" mgr d4] u by simp
  ultimately show ?thesis using r4 by auto
qed

section \<open>Threads of databases\<close>

lemma prop_db_to_ip_bound:
  assumes "\<And>c. c \<in> set cs \<Longrightarrow> first (dc_host c) < num" and "0 < t" and "\<And>h. second h < t"
  shows "\<forall>i \<in> set (prop_db_to_ip first t second cs). i < num * t"
  using assms(1,3)
proof (induction cs arbitrary: second)
  case (Cons c cs)
  have "first (dc_host c) * t + second (dc_host c) < (first (dc_host c) + 1) * t" using Cons.prems(2) by simp
  also have "\<dots> \<le> num * t" using Cons.prems(1)[of c] by (intro mult_le_mono1) simp
  finally have "first (dc_host c) * t + second (dc_host c) < num * t" .
  moreover have "\<forall>i \<in> set (prop_db_to_ip first t (second(dc_host c := (if Suc (second (dc_host c)) = t then 0 else Suc (second (dc_host c))))) cs). i < num * t"
    by (rule Cons.IH) (use Cons.prems assms(2) in \<open>auto simp: Suc_lessI\<close>)
  ultimately show ?case by simp
qed simp

lemma prop_db_to_ip_length [simp]: "length (prop_db_to_ip first t second cs) = length cs"
  by (induction cs arbitrary: second) simp_all

text \<open>
  Fact (property_databases_have_threads). With a thread per machine and one per database configured, and the
  count of hosts starting from 0, every database of the property server is written by a thread that exists.
\<close>

theorem property_databases_have_threads:
  assumes "0 < byMachine" and "0 < byDB" and "d < length cs"
  shows "db_toIp (prop_db_init 0 byMachine byDB weighted cs) d < getInsertDbThreadNum 0 byMachine byDB cs"
proof -
  have ne: "ip_has_db cs \<noteq> []" using assms(3) ip_has_db_keys[of cs] by auto
  then have n: "0 < db_ip_num 0 byMachine cs" using assms(1) by (simp add: db_ip_num_def)
  have sizes: "\<forall>p \<in> set (ip_has_db cs). snd p \<noteq> []"
  proof -
    have "\<forall>p \<in> set m. snd p \<noteq> [] \<Longrightarrow> \<forall>p \<in> set (fold add_host ps m). snd p \<noteq> []" for m ps
    proof (induction ps arbitrary: m)
      case (Cons a ps)
      have "\<forall>p \<in> set (add_host a m). snd p \<noteq> []"
        using Cons.prems om_put_set[of "dc_host (snd a)" "om_get [] m (dc_host (snd a)) @ [fst a]" m] by (fastforce simp: add_host_def)
      with Cons.IH show ?case by simp
    qed simp
    from this[of "[]"] show ?thesis by (simp add: ip_has_db_def)
  qed
  have "0 < fold (\<lambda>p m. min (length (snd p)) m) ps m" if "\<forall>p \<in> set ps. snd p \<noteq> []" "0 < m" for ps :: "(string \<times> nat list) list" and m
    using that by (induction ps arbitrary: m) auto
  from this[OF sizes, of 999999] have t: "0 < threads_of_db byDB cs" using assms(2) by (simp add: threads_of_db_def)
  have first: "host_number 0 byMachine cs h < db_ip_num 0 byMachine cs" for h
    using n thread_indexes_bound[OF n] by (auto simp: host_number_def split: option.splits)
  have "\<forall>i \<in> set (prop_db_to_ip (host_number 0 byMachine cs) (threads_of_db byDB cs) (\<lambda>_. 0) cs). i < db_ip_num 0 byMachine cs * threads_of_db byDB cs"
    by (rule prop_db_to_ip_bound) (use first t in auto)
  then show ?thesis using assms(3) by (simp add: prop_db_init_def getInsertDbThreadNum_def)
qed



section \<open>Witnesses\<close>

definition sample_prop :: prop_env where
  "sample_prop = \<lparr> pe_hash = length, pe_get = (\<lambda>m h. if h \<in> fst ` set m then 0 else 1), pe_nodata = (\<lambda>r. r = 1), pe_set = (\<lambda>m h b. 0),
     pe_used = length, pe_all = 100, pe_minute = (\<lambda>t. ''202001010005''), pe_tc = sample_tc, pe_ll = (\<lambda>s. int (dec_val 0 s)),
     pe_dadd = (\<lambda>a b. a), pe_ddiv = (\<lambda>a n. a), pe_double = id \<rparr>"

definition sample_prop_head :: prop_head where
  "sample_prop_head = \<lparr> moduleName = ''M'', propertyName = ''P'', setName = [], setArea = [], setID = [], ph_ip = ''ip'' \<rparr>"

theorem merged_record_witness:
  "\<exists>r. merge_body sample_prop [(''Max'', ''7''), (''Other'', ''x'')] [(''Max'', ''5''), (''Keep'', ''k'')] = Some r \<and>
    om_find r ''Keep'' = Some ''k'' \<and> om_find r ''Other'' = Some ''x'' \<and> om_find r ''Max'' = merge_value sample_prop ''Max'' ''5'' ''7''"
proof -
  obtain r where r: "merge_body sample_prop [(''Max'', ''7''), (''Other'', ''x'')] [(''Max'', ''5''), (''Keep'', ''k'')] = Some r"
    by (simp add: merge_body_def merge_info_def first_infos_def merge_value_def)
  have d: "distinct (map fst [(''Max'', ''7''), (''Other'', ''x'')])" by simp
  from merged_record[OF r d, of "''Keep''"] merged_record[OF r d, of "''Other''"] merged_record[OF r d, of "''Max''"] r
  show ?thesis by simp
qed

theorem short_distribution_crashes_witness:
  "prop_add sample_prop sample_prop_head [(''Distr'', ''0|1'')] [(sample_prop_head, [(''Distr'', ''0|1,5|2'')])] = None"
  by (rule short_distribution_crashes[of _ _ "[(''Distr'', ''0|1,5|2'')]" _ "''0|1,5|2''"])
    (simp_all add: sample_prop_def sample_tc_def)

theorem idle_thread_blocks_witness:
  "\<exists>app rp. fold_opt (prop_step sample_prop sample_stat_db [])
      [PReap 5000, PReport (\<lambda>_. 1000000) 0 ''ip'' [(sample_prop_head, [(''Sum'', ''3'')])], PReport (\<lambda>_. 2000000) 0 ''ip'' [(sample_prop_head, [(''Sum'', ''4'')])]]
      (prop_start 0 2 1 5, prop_reaper_start) = Some (app, rp) \<and>
    prop_reap sample_prop sample_stat_db [] 9000000 (app, rp) = Some (app, rp)"
proof -
  let ?evs = "[PReap 5000, PReport (\<lambda>_. 1000000) 0 ''ip'' [(sample_prop_head, [(''Sum'', ''3'')])], PReport (\<lambda>_. 2000000) 0 ''ip'' [(sample_prop_head, [(''Sum'', ''4'')])]]"
  have "map_option (\<lambda>z. pr_last (snd z)) (fold_opt (prop_step sample_prop sample_stat_db []) ?evs (prop_start 0 2 1 5, prop_reaper_start)) = Some (Some 1)"
    by code_simp
  then obtain app rp where r: "fold_opt (prop_step sample_prop sample_stat_db []) ?evs (prop_start 0 2 1 5, prop_reaper_start) = Some (app, rp)" "pr_last rp \<noteq> None"
    by auto
  have "prop_reap sample_prop sample_stat_db [] 9000000 (app, rp) = Some (app, rp)"
    by (rule idle_thread_blocks[OF r(1), of 1]) (use r(2) in auto)
  with r(1) show ?thesis by blast
qed

definition failing_sql :: "((string \<Rightarrow> prop_row set) \<times> (string \<times> string) list) prop_sql" where
  "failing_sql = \<lparr> pq_like = (\<lambda>n d. Some 1), pq_create = (\<lambda>n d. (True, d)), pq_insert = (\<lambda>tb rs d. (Some ''Lost connection'', d)),
     pq_count = (\<lambda>a t d. Some 0), pq_update = (\<lambda>a t d. (Some 1, d)), pq_replace = (\<lambda>a t d. (Some 1, d)), pq_status = id \<rparr>"

theorem failed_batch_is_skipped_witness:
  "\<exists>alarms d'. prop_insert2MultiDbs sample_prop failing_sql (sample_mgr\<lparr> dm_maxInsert := 1000 \<rparr>) (\<lambda>_. never) (\<lambda>_. False) ''t_''
      [(sample_prop_head, [(''Sum'', ''3'')])] ''20200101'' ''0005'' (\<lambda>_. {}, []) = Some (0, alarms, d') \<and>
    ''insert2Db'' \<notin> set alarms \<and> fst d' (table_name (sample_mgr\<lparr> dm_maxInsert := 1000 \<rparr>) ''t_'' ''20200101'' ''0005'') = {}"
proof -
  have rows: "map_opt (rows_of sample_prop ''20200101'' ''0005'') [(sample_prop_head, [(''Sum'', ''3'')])] =
    Some [[\<lparr> pw_date = ''20200101'', pw_flag = ''0005'', pw_head = sample_prop_head, pw_policy = ''Sum'', pw_value = ''3'' \<rparr>]]"
    by (simp add: rows_of_def row_value_def)
  have "prop_laws failing_sql fst" by (simp add: prop_laws_def failing_sql_def)
  from failed_batch_is_skipped[OF this rows, of "sample_mgr\<lparr> dm_maxInsert := 1000 \<rparr>" "''t_''" _ "(\<lambda>_. {}, [])" "\<lambda>_. False"]
  show ?thesis by (simp add: failing_sql_def)
qed

theorem property_databases_have_threads_witness:
  "db_toIp (prop_db_init 0 4 2 False [\<lparr> dc_host = ''h'', dc_port = 3306, dc_tbname = ''t_'', dc_weight = 1 \<rparr>]) 0 <
   getInsertDbThreadNum 0 4 2 [\<lparr> dc_host = ''h'', dc_port = 3306, dc_tbname = ''t_'', dc_weight = 1 \<rparr>]"
  by (rule property_databases_have_threads) simp_all



section \<open>More functions with the text of the stat server\<close>

definition prop_getTimeInfo :: "(int \<Rightarrow> string) \<Rightarrow> int \<Rightarrow> int \<Rightarrow> int \<times> string \<times> string" where
  "prop_getTimeInfo = getTimeInfo"

definition prop_doReserveDb :: "(int \<Rightarrow> string) \<Rightarrow> int \<Rightarrow> int \<Rightarrow> (string \<times> string list option) list \<Rightarrow> string list" where
  "prop_doReserveDb = doReserveDb"

text \<open>An item of the queue of a thread.\<close>

definition prop_proc_item where
  "prop_proc_item e q mgr stop halt pre it z =
     (let (alarms, db) = z
      in map_option (\<lambda>(r, al, d1). (alarms @ al, db(qi_index it := d1)))
        (prop_insert2MultiDbs e q mgr stop halt (pre (qi_index it)) (qi_msg it) (qi_date it) (qi_flag it) (db (qi_index it))))"

end
