(* ===== verification/Node_Check.thy ===== *)
theory Node_Check
  imports Node_Commands
begin

text \<open>
  The periodic work of \<open>NodeServer\<close> on one server (\<open>ServerObject::checkServer\<close>, \<open>doMonScript\<close>,
  \<open>checkCoredumpLimit\<close>), and the events that reach a server object together: heart beats, commands,
  checks and answers. The states a server goes through are abstracted to a labelled transition
  relation that every event is shown to follow.
\<close>

section \<open>Periodic work\<close>

definition isCoreDump :: "cmd_env \<Rightarrow> int \<Rightarrow> node_state \<Rightarrow> bool" where
  "isCoreDump k p s = (k_pid_state k (tick s) p = CHR ''R'' \<or> k_pid_state k (tick s) p = CHR ''D'')"

text \<open>\<open>k_monitor\<close> is the result map of the monitor script, \<open>None\<close> an exception.\<close>

definition doMonScript :: "tc_common \<Rightarrow> tc_file \<Rightarrow> cmd_env \<Rightarrow> node_state \<Rightarrow> node_state" where
  "doMonScript tc fs k s =
     (let e = k_env k; tNow = now e s
      in if f_abs fs (so_monitorScript (ob s)) then
           (if state_of s = Activating \<or> tNow - so_keepAliveTime (ob s) > k_heart_beat k then
              (case k_monitor k (tick s) of
                 None \<Rightarrow> pass_time s
               | Some m \<Rightarrow>
                   (case m ''pid'' of
                      Some v \<Rightarrow> if tc_isdigit tc v then keepAlive e (tc_strto_int tc v) [] (pass_time s) else pass_time s
                    | None \<Rightarrow> pass_time s))
            else s)
         else if so_startScript (ob s) \<noteq> [] \<or> \<not> so_tarsServer (ob s) then
           (let (p, s1) = savePid tc k s in if p > 0 then keepAlive e p [] s1 else s1)
         else s)"

text \<open>The state synchronisation at the beginning of a check: \<open>None\<close> when a stop command does not return.\<close>

definition check_process :: "tc_common \<Rightarrow> tc_file \<Rightarrow> cmd_env \<Rightarrow> node_state \<Rightarrow> node_state option" where
  "check_process tc fs k s =
     (let e = k_env k; (flag, s1) = checkPid e s
      in if flag \<noteq> 0 \<and> state_of s1 \<noteq> Inactive \<and>
            \<not> (state_of s1 = Activating \<and> \<not> isStartTimeOut (now_ms e s1) (ob s1)) \<and>
            \<not> (state_of s1 = Patching \<or> state_of s1 = BatchPatching)
         then Some (setState e Inactive True s1)
         else if flag = 0 \<and> state_of s1 = Activating \<and> so_started (ob s1) \<and> isStartTimeOut (now_ms e s1) (ob s1)
         then map_option snd (command_stop tc fs k False False False s1)
         else Some s1)"

definition check_zombie :: "tc_common \<Rightarrow> tc_file \<Rightarrow> cmd_env \<Rightarrow> int \<Rightarrow> node_state \<Rightarrow> node_state option" where
  "check_zombie tc fs k iTimeout s =
     (let e = k_env k; iRealTimeout = (if so_timeout (ob s) > 0 then so_timeout (ob s) else iTimeout)
      in if state_of s = Active \<and> isTimeOut (now e s) iRealTimeout (ob s) \<and>
            (\<not> isCoreDump k (so_pid (ob s)) s \<or> isTimeOut (now e s) (so_coreTimeout (ob s)) (ob s))
         then map_option snd (command_stop tc fs k True False False s)
         else Some s)"

definition check_restart :: "tc_common \<Rightarrow> tc_file \<Rightarrow> cmd_env \<Rightarrow> node_state \<Rightarrow> (bool \<times> node_state) option" where
  "check_restart tc fs k s =
     (let e = k_env k
      in if state_of s = Inactive \<and> isAutoStart (now e s) (ob s) then
           map_option (\<lambda>(r, s1).
             (True, if bEnableCoreLimit (so_limitStateInfo (ob s1))
                    then on_ob (\<lambda>so. so\<lparr> so_limitResource := addExcStopRecord (now e s1) (so_limitResource so) \<rparr>) s1
                    else s1)) (command_start tc fs k False s)
         else Some (False, s))"

definition checkServer :: "tc_common \<Rightarrow> tc_file \<Rightarrow> cmd_env \<Rightarrow> int \<Rightarrow> node_state \<Rightarrow> (bool \<times> node_state) option" where
  "checkServer tc fs k iTimeout s =
     (if state_of s = Inactive \<and> d_settingState (so_desc (ob s)) = ''inactive'' then Some (False, s)
      else if so_isStarting (ob s) \<or> so_startTime (ob s) + 5000 > now_ms (k_env k) s then Some (False, s)
      else Option.bind (check_process tc fs k s) (\<lambda>s1.
             Option.bind (check_zombie tc fs k iTimeout s1) (check_restart tc fs k)))"

definition setServerCoreLimit :: "cmd_env \<Rightarrow> bool \<Rightarrow> node_state \<Rightarrow> bool \<times> node_state" where
  "setServerCoreLimit k bClose s =
     (case command_notify k (if bClose then ''tars.closecore yes'' else ''tars.closecore no'') s of
        None \<Rightarrow> (False, s)
      | Some (iRet, s1) \<Rightarrow> (iRet = 0, s1))"

definition checkCoredumpLimit :: "cmd_env \<Rightarrow> node_state \<Rightarrow> node_state" where
  "checkCoredumpLimit k s =
     (let inf = so_limitStateInfo (ob s);
          update = (\<lambda>u c s. on_ob (\<lambda>so. so\<lparr> so_limitStateUpdated := u, so_limitStateInfo := (so_limitStateInfo so)\<lparr> bCloseCore := c \<rparr> \<rparr>) s)
      in if d_settingState (so_desc (ob s)) = ''inactive'' then s
         else if state_of s \<noteq> Active then s
         else if \<not> bEnableCoreLimit inf then s
         else if eCoreType inf = EM_AUTO_LIMIT then
           (let (iRet, bNeedClose, r) = IsCoreLimitNeedClose (now (k_env k) s) (so_limitResource (ob s));
                s1 = on_ob (\<lambda>so. so\<lparr> so_limitResource := r \<rparr>) s
            in if so_limitStateUpdated (ob s1) \<and> bNeedClose then
                 (let (ok, s2) = setServerCoreLimit k True s1 in update (\<not> ok) bNeedClose s2)
               else if iRet = 2 \<and> \<not> bNeedClose then
                 (let (ok, s2) = setServerCoreLimit k False s1 in update (so_limitStateUpdated (ob s2)) bNeedClose s2)
               else s1)
         else if so_limitStateUpdated (ob s) then
           (let (ok, s1) = setServerCoreLimit k (bCloseCore inf) s
            in on_ob (\<lambda>so. so\<lparr> so_limitStateUpdated := \<not> ok \<rparr>) s1)
         else s)"

section \<open>The states of a server\<close>

text \<open>What reaches a server object. A command that does not return leaves no state.\<close>

datatype node_event =
    HeartBeat int string
  | ActivatingBeat int
  | StartCmd bool
  | StopCmd bool bool bool
  | NotifyCmd string
  | DestroyCmd string string
  | AddFileCmd string bool bool bool
  | ImagePulled bool
  | CheckServer int
  | MonScript
  | CoreCheck
  | RegistryAnswer int
  | LimitInfo server_limit_info
  | CoreReset

fun node_step :: "tc_common \<Rightarrow> tc_file \<Rightarrow> cmd_env \<Rightarrow> node_event \<Rightarrow> node_state \<Rightarrow> node_state option" where
  "node_step tc fs k (HeartBeat p a) s = Some (keepAlive (k_env k) p a s)"
| "node_step tc fs k (ActivatingBeat p) s = Some (keepActiving (k_env k) p s)"
| "node_step tc fs k (StartCmd byNode) s = map_option snd (command_start tc fs k byNode s)"
| "node_step tc fs k (StopCmd ua byNode core) s = map_option snd (command_stop tc fs k ua byNode core s)"
| "node_step tc fs k (NotifyCmd m) s = map_option snd (command_notify k m s)"
| "node_step tc fs k (DestroyCmd l d) s = map_option snd (command_destroy tc fs l d s)"
| "node_step tc fs k (AddFileCmd f m sc ok) s = map_option snd (command_addfile (k_env k) f m sc ok s)"
| "node_step tc fs k (ImagePulled b) s = Some (container_pulled k b s)"
| "node_step tc fs k (CheckServer t) s = map_option snd (checkServer tc fs k t s)"
| "node_step tc fs k MonScript s = Some (doMonScript tc fs k s)"
| "node_step tc fs k CoreCheck s = Some (checkCoredumpLimit k s)"
| "node_step tc fs k (RegistryAnswer r) s = Some (on_ob (callback_updateServer r) s)"
| "node_step tc fs k (LimitInfo i) s = Some (on_ob (setServerLimitInfo i) s)"
| "node_step tc fs k CoreReset s = Some (on_ob (resetCoreInfo (now (k_env k) s)) s)"

text \<open>The abstract machine: which event may take a server from which state to which.\<close>

inductive transition :: "node_event \<Rightarrow> internal_state \<Rightarrow> internal_state \<Rightarrow> bool" where
  stay: "transition ev st st"
| beat: "p > 0 \<Longrightarrow> \<not> in_transition st \<or> st = Activating \<Longrightarrow> transition (HeartBeat p a) st Active"
| mon_beat: "\<not> in_transition st \<or> st = Activating \<Longrightarrow> transition MonScript st Active"
| activating: "p > 0 \<Longrightarrow> transition (ActivatingBeat p) st Activating"
| start: "transition (StartCmd byNode) Inactive Activating"
| stop: "st \<notin> {Inactive, Destroying} \<Longrightarrow> st' \<in> {Inactive, Deactivating} \<Longrightarrow> transition (StopCmd ua byNode core) st st'"
| pull_failed: "transition (ImagePulled b) st Inactive"
| check_down: "st \<notin> {Patching, BatchPatching} \<Longrightarrow> st' \<in> {Inactive, Activating} \<Longrightarrow> transition (CheckServer t) st st'"
| check_stop: "st \<in> {Activating, Active} \<Longrightarrow> transition (CheckServer t) st Deactivating"

declare transition.stay [simp, intro]

inductive_cases to_ActiveE: "transition ev st Active"

text \<open>Many steps.\<close>

inductive reaches :: "node_event list \<Rightarrow> internal_state \<Rightarrow> internal_state \<Rightarrow> bool" where
  reach_nil: "reaches [] st st"
| reach_step: "transition ev st st' \<Longrightarrow> reaches evs st' st'' \<Longrightarrow> reaches (ev # evs) st st''"

fun node_run :: "tc_common \<Rightarrow> tc_file \<Rightarrow> cmd_env \<Rightarrow> node_event list \<Rightarrow> node_state \<Rightarrow> node_state option" where
  "node_run tc fs k [] s = Some s"
| "node_run tc fs k (ev # evs) s = Option.bind (node_step tc fs k ev s) (node_run tc fs k evs)"

section \<open>What each event does\<close>

lemma keepAlive_outcome:
  "state_of (keepAlive e p a s) = (if p > 0 then alive_state (state_of s) else state_of s)"
  "so_enabled (ob (keepAlive e p a s)) = so_enabled (ob s)"
  "acts (keepAlive e p a s) = acts s"
proof -
  have "state_of (keepAlive e p a s) = (if p > 0 then alive_state (state_of s) else state_of s) \<and>
    so_enabled (ob (keepAlive e p a s)) = so_enabled (ob s) \<and> acts (keepAlive e p a s) = acts s"
  proof (cases "0 < p")
    case True
    show ?thesis unfolding keepAlive_eq[OF True] using True by (auto simp: alive_state_def)
  next
    case False
    then show ?thesis by (simp add: keepAlive_def)
  qed
  then show "state_of (keepAlive e p a s) = (if p > 0 then alive_state (state_of s) else state_of s)"
    "so_enabled (ob (keepAlive e p a s)) = so_enabled (ob s)" "acts (keepAlive e p a s) = acts s" by blast+
qed

lemma keepActiving_outcome:
  "state_of (keepActiving e p s) = (if p > 0 then Activating else state_of s)"
  "so_enabled (ob (keepActiving e p s)) = so_enabled (ob s)" "acts (keepActiving e p s) = acts s"
  by (simp_all add: keepActiving_def Let_def)

lemma doMonScript_outcome:
  "state_of (doMonScript tc fs k s) \<in> {state_of s, alive_state (state_of s)}"
  "so_enabled (ob (doMonScript tc fs k s)) = so_enabled (ob s)"
  "acts (doMonScript tc fs k s) = acts s"
  by (simp_all add: doMonScript_def Let_def split_beta keepAlive_outcome cfg_enabled[OF savePid_simps(2)] split: option.split)

lemma alive_stateD: "alive_state st = st \<or> alive_state st = Active \<and> (\<not> in_transition st \<or> st = Activating)"
  by (auto simp: alive_state_def)

lemma command_notify_outcome:
  assumes "command_notify k m s = Some (r, s')"
  shows "ob s' = ob s \<and> starts_of s' = starts_of s"
proof (cases "fst (notify_can s) = EXECUTABLE")
  case True
  with assms show ?thesis
    by (auto simp: command_notify_def doProcess_def notify_can_def notify_exec_def Let_def split: option.splits if_splits)
next
  case False
  with assms show ?thesis
    by (auto simp: command_notify_def doProcess_def notify_can_def split: exe_status.splits if_splits)
qed

lemma command_destroy_outcome:
  "command_destroy tc fs l d s = Some (r, s') \<Longrightarrow> ob s' = ob s \<and> starts_of s' = starts_of s"
  by (auto simp: command_destroy_def doProcess_def destroy_can_def destroy_exec_def Let_def split: if_splits)

lemma command_addfile_outcome:
  assumes "command_addfile e f m sc ok s = Some (r, s')"
  shows "state_of s' = state_of s \<and> so_enabled (ob s') = so_enabled (ob s) \<and> starts_of s' = starts_of s"
proof (cases "fst (addfile_can e f s) = EXECUTABLE")
  case True
  then have "snd (addfile_can e f s) = setState e AddFilesing True s" by (simp add: addfile_can_def split: if_splits)
  with True assms show ?thesis
    by (auto simp: command_addfile_def doProcess_def addfile_exec_def Let_def split: if_splits)
next
  case False
  then have "snd (addfile_can e f s) = s" by (auto simp: addfile_can_def split: if_splits)
  with False assms show ?thesis
    by (auto simp: command_addfile_def doProcess_def split: exe_status.splits)
qed

lemma container_pulled_outcome:
  "state_of (container_pulled k b s) \<in> {state_of s, Inactive}"
  "so_enabled (ob (container_pulled k b s)) = so_enabled (ob s)"
  by (auto simp: container_pulled_def split: option.split)

lemma setServerCoreLimit_outcome:
  "ob (snd (setServerCoreLimit k b s)) = ob s" "starts_of (snd (setServerCoreLimit k b s)) = starts_of s"
  using command_notify_outcome[of k] by (auto simp: setServerCoreLimit_def split: option.split)

lemma checkCoredumpLimit_outcome:
  "state_of (checkCoredumpLimit k s) = state_of s"
  "so_enabled (ob (checkCoredumpLimit k s)) = so_enabled (ob s)"
  "starts_of (checkCoredumpLimit k s) = starts_of s"
  by (simp_all add: checkCoredumpLimit_def Let_def split_beta setServerCoreLimit_outcome)

definition same_control :: "node_state \<Rightarrow> node_state \<Rightarrow> bool" where
  "same_control s s' \<longleftrightarrow> so_enabled (ob s') = so_enabled (ob s) \<and> starts_of s' = starts_of s"

lemma stop_same_control:
  assumes "map_option snd (command_stop tc fs k ua False core s) = Some s'"
  shows "same_control s s' \<and> (state_of s' = state_of s \<or> state_of s' \<in> {Inactive, Deactivating})"
proof -
  obtain r where "command_stop tc fs k ua False core s = Some (r, s')" using assms by (auto simp del: not_None_eq)
  from command_stop_outcome[OF this] show ?thesis by (auto simp: same_control_def)
qed

lemma check_process_outcome:
  assumes "check_process tc fs k s = Some s'"
  shows "same_control s s' \<and> (state_of s' = state_of s \<or>
    state_of s \<notin> {Patching, BatchPatching} \<and> state_of s' = Inactive \<or>
    state_of s = Activating \<and> state_of s' = Deactivating)"
proof (cases "fst (checkPid (k_env k) s) \<noteq> 0")
  case True
  with assms show ?thesis
    by (auto simp: check_process_def Let_def split_beta same_control_def split: if_splits)
next
  case False
  let ?s1 = "snd (checkPid (k_env k) s)"
  have s1: "same_control s ?s1" by (simp add: same_control_def)
  show ?thesis
  proof (cases "state_of s = Activating \<and> so_started (ob s) \<and> isStartTimeOut (now_ms (k_env k) ?s1) (ob ?s1)")
    case True
    with False assms have "map_option snd (command_stop tc fs k False False False ?s1) = Some s'"
      by (simp add: check_process_def Let_def split_beta)
    from stop_same_control[OF this] True s1 show ?thesis by (auto simp: same_control_def)
  next
    case nt: False
    with False assms have "s' = ?s1" by (auto simp: check_process_def Let_def split_beta split: if_splits)
    with s1 show ?thesis by simp
  qed
qed

lemma check_zombie_outcome:
  assumes "check_zombie tc fs k t s = Some s'"
  shows "same_control s s' \<and> (state_of s' = state_of s \<or> state_of s = Active \<and> state_of s' \<in> {Inactive, Deactivating})"
proof (cases "s' = s")
  case True
  then show ?thesis by (simp add: same_control_def)
next
  case False
  with assms have "state_of s = Active \<and> map_option snd (command_stop tc fs k True False False s) = Some s'"
    by (auto simp: check_zombie_def Let_def split: if_splits)
  with stop_same_control[of tc fs k True False s s'] show ?thesis by blast
qed

lemma check_restart_outcome:
  assumes "check_restart tc fs k s = Some (b, s')"
  shows "if b then state_of s = Inactive \<and> isAutoStart (now (k_env k) s) (ob s) \<and> state_of s' \<in> {Inactive, Activating} \<and>
      so_enabled (ob s') = so_enabled (ob s) \<and>
      (starts_of s' = starts_of s \<or> (\<exists>a. is_start a \<and> starts_of s' = starts_of s @ [a]))
    else s' = s"
proof (cases "state_of s = Inactive \<and> isAutoStart (now (k_env k) s) (ob s)")
  case False
  with assms show ?thesis by (auto simp: check_restart_def)
next
  case True
  with assms obtain r s1 where c: "command_start tc fs k False s = Some (r, s1)" and b: "b"
    and s': "state_of s' = state_of s1" "acts s' = acts s1" "so_enabled (ob s') = so_enabled (ob s1)"
    by (auto simp: check_restart_def Let_def)
  have st: "starts_of s' = starts_of s1" by (rule starts_of_acts) (rule s'(2))
  from command_start_outcome[OF c] True
  have "state_of s1 \<in> {Inactive, Activating}" "so_enabled (ob s1) = so_enabled (ob s)"
    "starts_of s1 = starts_of s \<or> (\<exists>a. is_start a \<and> starts_of s1 = starts_of s @ [a])"
    by (auto simp: starts_of_def)
  with True b s' st show ?thesis by simp
qed

lemma auto_start_enabled: "isAutoStart t so \<Longrightarrow> so_enabled so \<and> so_loaded so \<and> so_patched so \<and> \<not> isActivatingLimited t (so_activator so)"
  by (auto simp: isAutoStart_def split: if_splits)

text \<open>The three parts of a check put together: \<open>s2\<close> is the state the restart decision sees.\<close>

lemma checkServer_outcome:
  assumes "checkServer tc fs k t s = Some (b, s')"
  shows "so_enabled (ob s') = so_enabled (ob s) \<and> transition (CheckServer t) (state_of s) (state_of s') \<and>
    (if b then so_enabled (ob s) \<and> state_of s' \<in> {Inactive, Activating} \<and>
       (starts_of s' = starts_of s \<or> (\<exists>a. is_start a \<and> starts_of s' = starts_of s @ [a]))
     else starts_of s' = starts_of s)"
proof (cases "state_of s = Inactive \<and> d_settingState (so_desc (ob s)) = ''inactive'' \<or>
    so_isStarting (ob s) \<or> so_startTime (ob s) + 5000 > now_ms (k_env k) s")
  case True
  with assms show ?thesis by (auto simp: checkServer_def split: if_splits)
next
  case False
  with assms obtain s1 s2 where p: "check_process tc fs k s = Some s1" and z: "check_zombie tc fs k t s1 = Some s2"
    and r: "check_restart tc fs k s2 = Some (b, s')"
    by (auto simp: checkServer_def bind_eq_Some_conv)
  have c: "so_enabled (ob s2) = so_enabled (ob s)" "starts_of s2 = starts_of s"
    using check_process_outcome[OF p] check_zombie_outcome[OF z] by (simp_all add: same_control_def)
  have st: "state_of s2 = state_of s \<or> state_of s \<notin> {Patching, BatchPatching} \<and> state_of s2 = Inactive \<or>
      state_of s \<in> {Activating, Active} \<and> state_of s2 = Deactivating"
    using check_process_outcome[OF p] check_zombie_outcome[OF z] by auto
  show ?thesis
  proof (cases b)
    case True
    with check_restart_outcome[OF r] auto_start_enabled[of _ "ob s2"] c st show ?thesis
      by (auto intro: transition.check_down)
  next
    case False
    with check_restart_outcome[OF r] c st show ?thesis
      by (auto intro: transition.check_down transition.check_stop)
  qed
qed

section \<open>Refinement\<close>

lemma step_follows_machine:
  assumes "node_step tc fs k ev s = Some s'"
  shows "transition ev (state_of s) (state_of s')"
proof (cases ev)
  case (HeartBeat p a)
  with assms alive_stateD[of "state_of s"] show ?thesis
    by (cases "0 < p") (auto simp: keepAlive_outcome intro: transition.beat)
next
  case (ActivatingBeat p)
  with assms show ?thesis by (cases "0 < p") (auto simp: keepActiving_outcome intro: transition.activating)
next
  case (StartCmd b)
  with assms obtain r where "command_start tc fs k b s = Some (r, s')" by auto
  from command_start_outcome[OF this] StartCmd show ?thesis
    by (cases "state_of s = Inactive") (auto intro: transition.start)
next
  case (StopCmd ua b core)
  with assms obtain r where "command_stop tc fs k ua b core s = Some (r, s')" by auto
  from command_stop_outcome[OF this] StopCmd show ?thesis
    by (cases "state_of s = Inactive") (auto intro: transition.stop)
next
  case (CheckServer t)
  with assms obtain b where "checkServer tc fs k t s = Some (b, s')" by auto
  from checkServer_outcome[OF this] CheckServer show ?thesis by simp
next
  case (ImagePulled b)
  with assms container_pulled_outcome(1)[of k b s] show ?thesis by (auto intro: transition.pull_failed)
next
  case MonScript
  with assms doMonScript_outcome(1)[of tc fs k s] alive_stateD[of "state_of s"] show ?thesis
    by (auto intro: transition.mon_beat)
next
  case (NotifyCmd m)
  with assms obtain r where "command_notify k m s = Some (r, s')" by auto
  from command_notify_outcome[OF this] show ?thesis by simp
next
  case (DestroyCmd l d)
  with assms obtain r where "command_destroy tc fs l d s = Some (r, s')" by auto
  from command_destroy_outcome[OF this] show ?thesis by simp
next
  case (AddFileCmd f m sc ok)
  with assms obtain r where "command_addfile (k_env k) f m sc ok s = Some (r, s')" by auto
  from command_addfile_outcome[OF this] show ?thesis by simp
qed (use assms in \<open>auto simp: checkCoredumpLimit_outcome callback_updateServer_def onUpdateServerResult_def
    setServerLimitInfo_def resetCoreInfo_def\<close>)

lemma run_follows_machine:
  "node_run tc fs k evs s = Some s' \<Longrightarrow> reaches evs (state_of s) (state_of s')"
proof (induction evs arbitrary: s)
  case Nil
  then show ?case by (simp add: reaches.reach_nil)
next
  case (Cons ev evs)
  then obtain s1 where "node_step tc fs k ev s = Some s1" "node_run tc fs k evs s1 = Some s'"
    by (auto simp: bind_eq_Some_conv)
  with Cons.IH step_follows_machine show ?case by (blast intro: reaches.reach_step)
qed

text \<open>Which events can make a server active.\<close>

fun is_beat :: "node_event \<Rightarrow> bool" where
  "is_beat (HeartBeat p a) = (p > 0)"
| "is_beat MonScript = True"
| "is_beat _ = False"

lemma reaches_Active:
  assumes "reaches evs st Active" and "st \<noteq> Active"
  shows "list_ex is_beat evs"
  using assms
proof (induction evs st "Active" rule: reaches.induct)
  case (reach_step ev st st' evs)
  show ?case
  proof (cases "st' = Active")
    case True
    with reach_step.hyps(1) \<open>st \<noteq> Active\<close> have "is_beat ev" by (auto elim!: to_ActiveE)
    then show ?thesis by simp
  qed (use reach_step in auto)
qed simp

section \<open>Disabled servers\<close>

text \<open>The event as a total step: a command that does not return has no further effect.\<close>

definition quiet_step :: "tc_common \<Rightarrow> tc_file \<Rightarrow> cmd_env \<Rightarrow> node_event \<Rightarrow> node_state \<Rightarrow> node_state" where
  "quiet_step tc fs k ev s =
     (case ev of StartCmd True \<Rightarrow> s | ImagePulled _ \<Rightarrow> s
      | _ \<Rightarrow> (case node_step tc fs k ev s of None \<Rightarrow> s | Some s' \<Rightarrow> s'))"

fun no_node_start :: "node_event \<Rightarrow> bool" where
  "no_node_start (StartCmd byNode) = (\<not> byNode)"
| "no_node_start (ImagePulled b) = False"
| "no_node_start _ = True"

lemma disabled_step:
  assumes "node_step tc fs k ev s = Some s'" and "no_node_start ev" and "\<not> so_enabled (ob s)"
  shows "\<not> so_enabled (ob s') \<and> starts_of s' = starts_of s"
proof (cases ev)
  case (StartCmd b)
  with assms obtain r where "command_start tc fs k False s = Some (r, s')" by auto
  from command_start_outcome[OF this] assms(3) starts_of_acts[of s' s] show ?thesis by auto
next
  case (StopCmd ua b core)
  with assms obtain r where "command_stop tc fs k ua b core s = Some (r, s')" by auto
  from command_stop_outcome[OF this] assms(3) show ?thesis by simp
next
  case (CheckServer t)
  with assms obtain b where "checkServer tc fs k t s = Some (b, s')" by auto
  from checkServer_outcome[OF this] assms(3) show ?thesis by (cases b) auto
next
  case (HeartBeat p a)
  then have "s' = keepAlive (k_env k) p a s" using assms by simp
  with keepAlive_outcome(2,3)[of "k_env k" p a s] assms(3) show ?thesis by (auto intro: starts_of_acts)
next
  case (ActivatingBeat p)
  then have "s' = keepActiving (k_env k) p s" using assms by simp
  with keepActiving_outcome(2,3)[of "k_env k" p s] assms(3) show ?thesis by (auto intro: starts_of_acts)
next
  case MonScript
  then have "s' = doMonScript tc fs k s" using assms by simp
  with doMonScript_outcome(2,3)[of tc fs k s] assms(3) show ?thesis by (auto intro: starts_of_acts)
next
  case (NotifyCmd m)
  with assms obtain r where "command_notify k m s = Some (r, s')" by auto
  from command_notify_outcome[OF this] assms(3) show ?thesis by simp
next
  case (DestroyCmd l d)
  with assms obtain r where "command_destroy tc fs l d s = Some (r, s')" by auto
  from command_destroy_outcome[OF this] assms(3) show ?thesis by simp
next
  case (AddFileCmd f m sc ok)
  with assms obtain r where "command_addfile (k_env k) f m sc ok s = Some (r, s')" by auto
  from command_addfile_outcome[OF this] assms(3) show ?thesis by simp
next
  case (ImagePulled b)
  with assms(2) show ?thesis by simp
qed (use assms in \<open>auto simp: checkCoredumpLimit_outcome callback_updateServer_def onUpdateServerResult_def
    setServerLimitInfo_def resetCoreInfo_def split: if_splits\<close>)

interpretation disabled: event_system "quiet_step tc fs k" "\<lambda>s. \<not> so_enabled (ob s) \<and> starts_of s = l"
proof
  fix s ev
  assume s: "\<not> so_enabled (ob s) \<and> starts_of s = l"
  show "\<not> so_enabled (ob (quiet_step tc fs k ev s)) \<and> starts_of (quiet_step tc fs k ev s) = l"
  proof (cases "no_node_start ev")
    case False
    with s show ?thesis by (cases ev rule: no_node_start.cases) (auto simp: quiet_step_def)
  next
    case True
    then have q: "quiet_step tc fs k ev s = (case node_step tc fs k ev s of None \<Rightarrow> s | Some s' \<Rightarrow> s')"
      by (cases ev rule: no_node_start.cases) (simp_all add: quiet_step_def)
    show ?thesis
    proof (cases "node_step tc fs k ev s")
      case None
      with s q show ?thesis by simp
    next
      case (Some s')
      from disabled_step[OF this True] s q Some show ?thesis by simp
    qed
  qed
qed

lemma node_run_quiet:
  "node_run tc fs k evs s = Some s' \<Longrightarrow> list_all no_node_start evs \<Longrightarrow> s' = fold (quiet_step tc fs k) evs s"
proof (induction evs arbitrary: s)
  case (Cons ev evs)
  then obtain s1 where s1: "node_step tc fs k ev s = Some s1" "node_run tc fs k evs s1 = Some s'"
    by (auto simp: bind_eq_Some_conv)
  have "quiet_step tc fs k ev s = s1"
    using s1(1) Cons.prems(2) by (cases ev rule: no_node_start.cases) (auto simp: quiet_step_def)
  with Cons.IH[OF s1(2)] Cons.prems(2) show ?case by simp
qed simp

section \<open>Restart after a crash\<close>

text \<open>The object part that decides about a restart, unchanged by looking at the process and by reporting.\<close>

definition start_part :: "server_object \<Rightarrow> string \<times> string \<times> string \<times> string \<times> bool \<times> int" where
  "start_part so = (so_startScript so, so_exeFile so, so_exePath so, so_serverType so, so_tarsServer so, so_timeout so)"

lemma start_part_simps [simp]:
  "start_part (ob (setState e st b s)) = start_part (ob s)" "start_part (ob (snd (checkPid e s))) = start_part (ob s)"
proof -
  show "start_part (ob (setState e st b s)) = start_part (ob s)"
    using setState_ob[of e st b s] by (auto simp: start_part_def)
  show "start_part (ob (snd (checkPid e s))) = start_part (ob s)"
    by (simp add: checkPid_def setPid_def Let_def start_part_def split: option.split)
qed

lemma startNormal_starts:
  assumes "clock_runs (k_env k)" and "k_fork k (tick s) = Some p" and "p \<noteq> 0"
  shows "\<exists>b s'. startNormal tc k s = Some (b, s') \<and> acts s' = acts s @ [StartProcess (so_exePath (ob s) @ ''/tars_start.sh'')]"
proof -
  let ?s2 = "pass_time (act (StartProcess (so_exePath (ob s) @ ''/tars_start.sh'')) (record_start (k_env k) s))"
  obtain s3 where w: "wait_file k (now (k_env k) ?s2) ?s2 = Some s3" using wait_file_returns[OF assms(1)] by blast
  from wait_file_outcome[OF w] have "acts s3 = acts s @ [StartProcess (so_exePath (ob s) @ ''/tars_start.sh'')]" by simp
  with w assms(2,3) show ?thesis by (auto simp: startNormal_def Let_def split_beta)
qed

lemma resolve_exe_installed:
  assumes "f_exist fs (so_exeFile so)" and "so_serverType so = ''tars_cpp''"
  shows "resolve_exe fs so = Some (True, so_exeFile so)"
  using assms by (simp add: resolve_exe_def)

lemma command_start_starts:
  assumes "clock_runs (k_env k)" and fork: "\<And>n. \<exists>p. k_fork k n = Some p \<and> p \<noteq> 0"
    and "f_exist fs (so_exeFile (ob s))" and "so_serverType (ob s) = ''tars_cpp''"
    and "state_of s = Inactive" and "so_enabled (ob s)" and "\<not> so_container (ob s)"
    and "so_tarsServer (ob s)" and "so_startScript (ob s) = []"
  shows "\<exists>r s'. command_start tc fs k False s = Some (r, s') \<and>
    starts_of s' = starts_of s @ [StartProcess (so_exePath (ob s) @ ''/tars_start.sh'')]"
proof -
  let ?s0 = "on_ob (setStarting True) s"
  let ?s1 = "snd (start_can (k_env k) True False ?s0)"
  have st: "fst (start_can (k_env k) True False ?s0) = EXECUTABLE"
    using assms by (simp add: start_can_def)
  have s1e: "?s1 = setState (k_env k) Activating False (on_ob (setPatched True) ?s0)"
    using assms by (simp add: start_can_def Let_def)
  then have "start_part (ob ?s1) = start_part (ob s)"
    by (simp add: setPatched_def setStarting_def) (simp add: start_part_def)
  then have s1: "so_container (ob ?s1) = False" "acts ?s1 = acts s" "so_tarsServer (ob ?s1)" "so_startScript (ob ?s1) = []"
    "so_exePath (ob ?s1) = so_exePath (ob s)"
    using assms by (simp_all add: start_part_def s1e setPatched_def setStarting_def)
  obtain p where p: "k_fork k (tick ?s1) = Some p" "p \<noteq> 0" using fork by blast
  obtain b s' where n: "startNormal tc k ?s1 = Some (b, s')"
    and a: "acts s' = acts s @ [StartProcess (so_exePath (ob s) @ ''/tars_start.sh'')]"
    using startNormal_starts[OF assms(1) p, of tc] s1 by auto
  have ex: "start_exec tc k ?s1 = Some (if b then 0 else -1, startFinish (k_env k) b s')"
    using n s1 by (simp add: start_exec_def)
  have "command_start tc fs k False s =
      Some (if b then 0 else -1, on_ob (setStarting False) (startFinish (k_env k) b s'))"
    using ex st assms resolve_exe_installed[of fs "ob s"]
    by (simp add: command_start_def needs_search_def doProcess_def)
  with a show ?thesis by (simp add: starts_of_def)
qed

lemma check_finds_death:
  assumes "state_of s = Active" and "\<not> so_container (ob s)" and "\<not> e_alive (k_env k) (tick s) (so_pid (ob s))"
  shows "\<exists>s1. check_process tc fs k s = Some s1 \<and> check_zombie tc fs k t s1 = Some s1 \<and> state_of s1 = Inactive \<and>
    cfg (ob s1) = cfg (ob s) \<and> so_activator (ob s1) = so_activator (ob s) \<and> start_part (ob s1) = start_part (ob s) \<and>
    starts_of s1 = starts_of s"
proof -
  let ?s1 = "setState (k_env k) Inactive True (snd (checkPid (k_env k) s))"
  have "fst (checkPid (k_env k) s) \<noteq> 0" using assms by (simp add: checkPid_def)
  then have "check_process tc fs k s = Some ?s1"
    using assms by (simp add: check_process_def Let_def split_beta)
  moreover have "check_zombie tc fs k t ?s1 = Some ?s1" by (simp add: check_zombie_def)
  ultimately show ?thesis by auto
qed

lemma check_restarts:
  assumes "clock_runs (k_env k)" and "\<And>n. \<exists>p. k_fork k n = Some p \<and> p \<noteq> 0"
    and "state_of s = Inactive" and "f_exist fs (so_exeFile (ob s))" and "so_serverType (ob s) = ''tars_cpp''"
    and "so_enabled (ob s)" and "so_loaded (ob s)" and "so_patched (ob s)" and "\<not> limited (so_activator (ob s))"
    and "\<not> so_container (ob s)" and "so_tarsServer (ob s)" and "so_startScript (ob s) = []"
  shows "\<exists>s'. check_restart tc fs k s = Some (True, s') \<and>
    starts_of s' = starts_of s @ [StartProcess (so_exePath (ob s) @ ''/tars_start.sh'')]"
proof -
  obtain r s1 where "command_start tc fs k False s = Some (r, s1)"
    "starts_of s1 = starts_of s @ [StartProcess (so_exePath (ob s) @ ''/tars_start.sh'')]"
    using command_start_starts[OF assms(1,2) assms(4,5,3,6,10,11,12), of tc] by blast
  moreover have "isAutoStart (now (k_env k) s) (ob s)"
    using assms by (simp add: isAutoStart_def in_transition_iff isActivatingLimited_def)
  ultimately show ?thesis using assms(3) by (simp add: check_restart_def)
qed

lemma wait_pid_never:
  assumes "wait_pid tc k i n s = Some y" and "\<forall>s. fst (savePid tc k s) = 0"
  shows "\<not> fst y"
  using assms
proof (induction tc k i n s y rule: wait_pid.raw_induct[rotated, consumes 1])
  case (1 f tc k i n s y)
  show ?case
  proof (cases "now (k_env k) s - i < n")
    case True
    with 1(2,3) have "f tc k i n (pass_time (snd (savePid tc k s))) = Some y" by simp
    from 1(1)[OF this 1(3)] show ?thesis .
  next
    case False
    with 1(2) show ?thesis by auto
  qed
qed

section \<open>Properties\<close>


text \<open>
  Fact (active_needs_beat). A server that is not Active becomes so only through a heart beat
  with a process id or a monitor script: no command and no check ever reports a server as running.
\<close>

theorem active_needs_beat:
  assumes "node_run tc fs k evs s = Some s'" and "state_of s \<noteq> Active" and "state_of s' = Active"
  shows "list_ex is_beat evs"
proof -
  from run_follows_machine[OF assms(1)] assms(3) have "reaches evs (state_of s) Active" by simp
  from reaches_Active[OF this assms(2)] show ?thesis .
qed


text \<open>
  Property C11 (crash_is_restarted). When the process of an enabled, installed and unlimited server
  dies, the next check sets it Inactive and starts it again with its start script, exactly once.
\<close>

theorem crash_is_restarted:
  assumes "clock_runs (k_env k)" and "\<forall>n. \<exists>p. k_fork k n = Some p \<and> p \<noteq> 0"
    and "state_of s = Active" and "\<not> e_alive (k_env k) (tick s) (so_pid (ob s))"
    and "\<not> so_isStarting (ob s)" and "so_startTime (ob s) + 5000 \<le> now_ms (k_env k) s"
    and "f_exist fs (so_exeFile (ob s))" and "so_serverType (ob s) = ''tars_cpp''"
    and "so_enabled (ob s)" and "so_loaded (ob s)" and "so_patched (ob s)" and "\<not> limited (so_activator (ob s))"
    and "\<not> so_container (ob s)" and "so_tarsServer (ob s)" and "so_startScript (ob s) = []"
  shows "\<exists>s'. checkServer tc fs k t s = Some (True, s') \<and>
    starts_of s' = starts_of s @ [StartProcess (so_exePath (ob s) @ ''/tars_start.sh'')]"
proof -
  obtain s1 where p: "check_process tc fs k s = Some s1" and z: "check_zombie tc fs k t s1 = Some s1"
    and s1: "state_of s1 = Inactive" "cfg (ob s1) = cfg (ob s)" "so_activator (ob s1) = so_activator (ob s)"
      "start_part (ob s1) = start_part (ob s)" "starts_of s1 = starts_of s"
    using check_finds_death[OF assms(3,13,4)] by blast
  have "\<exists>s'. check_restart tc fs k s1 = Some (True, s') \<and>
      starts_of s' = starts_of s1 @ [StartProcess (so_exePath (ob s1) @ ''/tars_start.sh'')]"
    by (rule check_restarts) (use assms s1 in \<open>auto simp: cfg_def start_part_def\<close>)
  with p z assms s1 show ?thesis by (simp add: checkServer_def start_part_def)
qed

text \<open>
  Fact (script_start_fails). A server started by a script is found again only when the
  process list has more than two words; with one matching process it has exactly two, so the start
  waits out its interval and is reported as failed.
\<close>

theorem script_start_fails:
  assumes "\<forall>n. length (tc_sepstr tc (k_ps k n) (CHR '' '' # [char_of (9 :: nat)]) False) \<le> 2"
    and "startByScript tc k s = Some (succ, s')"
  shows "\<not> succ"
proof -
  have no: "\<forall>s. fst (savePid tc k s) = 0"
    using assms(1) by (simp add: savePid_def Let_def not_less[symmetric])
  show ?thesis
  proof (cases "k_script k (tick s)")
    case True
    with assms(2) obtain i n s2 b s3 where w: "wait_pid tc k i n s2 = Some (b, s3)" and "succ \<longrightarrow> b"
      by (auto simp: startByScript_def Let_def bind_eq_Some_conv split_beta split: if_splits)
    with wait_pid_never[OF w no] show ?thesis by simp
  qed (use assms(2) in \<open>simp add: startByScript_def\<close>)
qed

section \<open>Examples\<close>

definition ready_node :: node_state where
  "ready_node = sample_node\<lparr> ob := sample_object\<lparr> so_state := Active, so_pid := 77, so_started := True, so_loaded := True,
     so_exeFile := ''/bin/AppServer'' \<rparr> \<rparr>"


theorem active_needs_beat_witness:
  "list_ex is_beat [HeartBeat 77 []]"
proof -
  have st: "state_of (keepAlive (k_env (sample_cmd (\<lambda>_. True))) 77 [] sample_node) = Active"
    by (simp add: keepAlive_outcome alive_state_def in_transition_iff sample_node_def sample_object_def)
  show ?thesis
    by (rule active_needs_beat[of sample_tc sample_fs "sample_cmd (\<lambda>_. True)" _ sample_node
          "keepAlive (k_env (sample_cmd (\<lambda>_. True))) 77 [] sample_node"])
      (use st in \<open>simp_all add: sample_node_def sample_object_def\<close>)
qed


theorem crash_is_restarted_witness:
  "\<exists>s'. checkServer sample_tc sample_fs (sample_cmd (\<lambda>_. False)) 60 ready_node = Some (True, s') \<and>
    starts_of s' = [StartProcess ''/bin/tars_start.sh'']"
  using crash_is_restarted[OF sample_clock, of "\<lambda>_. False" ready_node sample_fs sample_tc 60]
  by (simp add: sample_cmd_def sample_world_def ready_node_def sample_node_def sample_object_def sample_fs_def
      new_activator_def clearRunntimeData_def starts_of_def)

theorem script_start_fails_witness:
  "\<exists>s'. startByScript sample_tc (sample_cmd (\<lambda>_. True)) sample_node = Some (False, s')"
proof -
  have two: "tc_sepstr sample_tc ''prog 77'' (CHR '' '' # [char_of (9 :: nat)]) False = [''prog'', ''77'']" by code_simp
  obtain b s' where s': "startByScript sample_tc (sample_cmd (\<lambda>_. True)) sample_node = Some (b, s')"
    using startByScript_returns[OF sample_clock] by fastforce
  have "\<not> b"
    by (rule script_start_fails[OF _ s']) (simp add: sample_cmd_def two)
  with s' show ?thesis by simp
qed

end
