(* ===== verification/Node_Factory.thy ===== *)
theory Node_Factory
  imports Node_Check
begin

text \<open>
  The servers of a node: \<open>NodeServer/CommandLoad.cpp\<close> computes the paths of a server, writes its
  configuration and sets up the object; \<open>ServerFactory.cpp\<close> keeps the objects, asks the registry
  for their descriptors, remembers its answers in a shared map and hands out the limits of the
  configuration. Each object has its own \<open>node_state\<close>. The classes \<open>TC_Config\<close>, \<open>TC_Endpoint\<close> and
  \<open>TC_File\<close> of the utility library are parameters, as are the answers of other servers. The platform is Linux.
\<close>

section \<open>Descriptors\<close>

record adapter_descriptor =
  ad_endpoint :: string
  ad_allowIp :: string
  ad_queuecap :: int
  ad_queuetimeout :: int
  ad_maxConnections :: int
  ad_threadNum :: int
  ad_servant :: string
  ad_protocol :: string

record load_descriptor =
  ld_application :: string
  ld_serverName :: string
  ld_runType :: string
  ld_settingState :: string
  ld_basePath :: string
  ld_exePath :: string
  ld_serverType :: string
  ld_startScript :: string
  ld_stopScript :: string
  ld_monitorScript :: string
  ld_profile :: string
  ld_setId :: string
  ld_asyncThreadNum :: int
  ld_configCenterPort :: int
  ld_baseImage :: string
  ld_sha :: string
  ld_adapters :: "(string, adapter_descriptor) omap"

definition desc_of :: "load_descriptor \<Rightarrow> server_descriptor" where
  "desc_of d = \<lparr>d_application = ld_application d, d_serverName = ld_serverName d, d_runType = ld_runType d,
     d_settingState = ld_settingState d, d_adapters = map fst (ld_adapters d)\<rparr>"

section \<open>The environment of loading\<close>

record tars_ep =
  te_host :: string
  te_port :: int
  te_tcp :: bool
  te_timeout :: int

text \<open>
  The merged configuration as its readers see it: its text, a value by path with a default, a domain
  as a map. \<open>lv_config\<close> builds it from the inserted domains and the profile; \<open>None\<close> is an exception.
\<close>

record conf_view =
  cv_text :: string
  cv_get :: "string \<Rightarrow> string \<Rightarrow> string"
  cv_map :: "string \<Rightarrow> (string, string) omap"

record loading_env =
  lv_path :: "string \<Rightarrow> string"
  lv_ext :: "string \<Rightarrow> string"
  lv_profile :: "string \<Rightarrow> string \<Rightarrow> string \<Rightarrow> string option"
  lv_dataDir :: string
  lv_logPath :: string
  lv_nodeName :: string
  lv_mkdir :: "string \<Rightarrow> bool"
  lv_writable :: "string \<Rightarrow> bool"
  lv_show :: "int \<Rightarrow> string"
  lv_replace :: "string \<Rightarrow> string \<Rightarrow> string \<Rightarrow> string"
  lv_reverse :: "string \<Rightarrow> string"
  lv_ep_parse :: "string \<Rightarrow> tars_ep option"
  lv_ep_str :: "tars_ep \<Rightarrow> string"
  lv_sepEndpoint :: "string \<Rightarrow> string list"
  lv_conf_port :: "string \<Rightarrow> int option"
  lv_rand :: "nat \<Rightarrow> nat"
  lv_connects :: "nat \<Rightarrow> int \<Rightarrow> bool"
  lv_adapter :: tars_ep
  lv_node_obj :: string
  lv_locator :: string
  lv_query_name :: string
  lv_query :: "(int \<times> (string \<times> int) list) option"
  lv_priKey :: string
  lv_config :: "(string \<times> (string, string) omap) list \<Rightarrow> string \<Rightarrow> conf_view option"
  lv_list :: "(int \<times> string list) option"

text \<open>What loading leaves in the process and on the disk: the used ports, the configuration files, the directories made.\<close>

record load_state =
  ls_allPorts :: "int list"
  ls_files :: "string \<Rightarrow> string option"
  ls_dirs :: "string list"
  ls_rand :: nat

section \<open>Paths\<close>

record load_paths =
  lp_serverDir :: string
  lp_exePath :: string
  lp_exeFile :: string
  lp_serverType :: string
  lp_confPath :: string
  lp_confFile :: string
  lp_startScript :: string
  lp_stopScript :: string
  lp_monitorScript :: string
  lp_libPath :: string

definition interpreter_of :: "loading_env \<Rightarrow> load_descriptor \<Rightarrow> string \<Rightarrow> string \<Rightarrow> string" where
  "interpreter_of v d key dflt =
     (case lv_profile v (ld_profile d) (''/tars/application/server<'' @ key @ ''>'') dflt of None \<Rightarrow> dflt | Some x \<Rightarrow> x)"

definition exe_of :: "loading_env \<Rightarrow> tc_file \<Rightarrow> load_descriptor \<Rightarrow> string \<Rightarrow> string \<Rightarrow> string \<Rightarrow> string \<times> string" where
  "exe_of v fs d serverDir ty exePath =
     (let (exePath, exeFile) =
        (if exePath = '''' then
           (let p = serverDir @ ''/bin/''
            in (p, if ty = ''tars_java'' then interpreter_of v d ''java'' ''java''
                   else if ty = ''tars_nodejs'' then interpreter_of v d ''nodejs'' ''node''
                   else if ty = ''tars_php'' then interpreter_of v d ''php'' ''php''
                   else f_simplify fs (p @ ''/'' @ ld_serverName d)))
         else if \<not> f_abs fs exePath then
           (let x = serverDir @ ''/bin/'' @ exePath in (lv_path v x, x))
         else (f_simplify fs (if ty = ''tars_java'' then serverDir @ ''/bin/'' else lv_path v (ld_exePath d)), ld_exePath d))
      in (f_simplify fs exePath @ ''/'', f_simplify fs exeFile))"

definition script_of :: "tc_common \<Rightarrow> tc_file \<Rightarrow> string \<Rightarrow> string \<Rightarrow> string" where
  "script_of tc fs exePath s =
     (let s = tc_trim tc s; s = (if s \<noteq> '''' \<and> \<not> f_abs fs s then exePath @ s else s) in f_simplify fs s)"

definition load_paths_of :: "tc_common \<Rightarrow> tc_file \<Rightarrow> loading_env \<Rightarrow> load_descriptor \<Rightarrow> load_paths" where
  "load_paths_of tc fs v d =
     (let base = tc_trim tc (ld_basePath d); ty = tc_lower tc (tc_trim tc (ld_serverType d));
          dir = (if base = '''' \<or> \<not> f_abs fs base
                 then f_simplify fs (lv_dataDir v @ ''/'' @ ld_application d @ ''.'' @ ld_serverName d) else base);
          confPath = dir @ ''/conf/'';
          (exePath, exeFile) = exe_of v fs d dir ty (tc_trim tc (ld_exePath d))
      in \<lparr>lp_serverDir = dir, lp_exePath = exePath, lp_exeFile = exeFile, lp_serverType = ty, lp_confPath = confPath,
          lp_confFile = confPath @ ld_application d @ ''.'' @ ld_serverName d @ ''.config.conf'',
          lp_startScript = script_of tc fs exePath (ld_startScript d),
          lp_stopScript = script_of tc fs exePath (ld_stopScript d),
          lp_monitorScript = script_of tc fs exePath (ld_monitorScript d),
          lp_libPath = lv_dataDir v @ ''/lib/''\<rparr>)"

section \<open>Ports\<close>

definition addPort :: "loading_env \<Rightarrow> bool \<Rightarrow> string \<Rightarrow> int \<Rightarrow> server_object \<Rightarrow> server_object" where
  "addPort v tcp hostIp port so =
     so\<lparr>so_ports := om_put (lv_show v port @ ''/'' @ (if tcp then ''tcp'' else ''udp'')) (hostIp, port) (so_ports so)\<rparr>"

text \<open>The loop that draws ports until one refuses connections and has not been used; \<open>None\<close> is never to end.\<close>

partial_function (option) draw_port :: "loading_env \<Rightarrow> int list \<Rightarrow> nat \<Rightarrow> (int \<times> nat) option" where
  "draw_port v used n =
     (let p = int (30000 + lv_rand v n mod 15000)
      in if \<not> lv_connects v n p \<and> p \<notin> set used then Some (p, n + 1) else draw_port v used (n + 1))"

lemmas [code] = draw_port.simps

definition local_port :: "loading_env \<Rightarrow> string \<Rightarrow> load_state \<Rightarrow> (int \<times> load_state) option" where
  "local_port v confFile z =
     (case (case ls_files z confFile of None \<Rightarrow> None | Some t \<Rightarrow> lv_conf_port v t) of
        Some p \<Rightarrow> Some (p, z\<lparr>ls_allPorts := p # ls_allPorts z\<rparr>)
      | None \<Rightarrow> map_option (\<lambda>(p, n). (p, z\<lparr>ls_allPorts := p # ls_allPorts z, ls_rand := n\<rparr>))
                  (draw_port v (ls_allPorts z) (ls_rand z)))"

definition loopback :: "string \<Rightarrow> bool" where
  "loopback h \<longleftrightarrow> h = ''127.0.0.1'' \<or> h = ''localhost''"

definition replaceHostLocalIp :: "string \<Rightarrow> string" where
  "replaceHostLocalIp h = (if loopback h then ''127.0.0.1'' else h)"

definition replaceHostLocalEp :: "loading_env \<Rightarrow> tars_ep \<Rightarrow> string" where
  "replaceHostLocalEp v ep = lv_ep_str v (ep\<lparr>te_host := replaceHostLocalIp (te_host ep)\<rparr>)"

text \<open>The adapters from the last to the first; \<open>None\<close> is an endpoint that does not parse.\<close>

definition adapter_domain :: "loading_env \<Rightarrow> adapter_descriptor \<Rightarrow> tars_ep \<Rightarrow> (string, string) omap" where
  "adapter_domain v a ep = fold (\<lambda>(k, x). om_put k x)
     [(''endpoint'', lv_ep_str v ep), (''allow'', ad_allowIp a), (''queuecap'', lv_show v (ad_queuecap a)),
      (''queuetimeout'', lv_show v (ad_queuetimeout a)), (''maxconns'', lv_show v (ad_maxConnections a)),
      (''threads'', lv_show v (ad_threadNum a)), (''servant'', ad_servant a),
      (''protocol'', if ad_protocol a = '''' then ''tars'' else ad_protocol a)] []"

fun load_adapters :: "loading_env \<Rightarrow> bool \<Rightarrow> (string \<times> adapter_descriptor) list \<Rightarrow> server_object \<times> load_state \<Rightarrow>
    (string \<times> (string, string) omap) list option \<times> server_object \<times> load_state" where
  "load_adapters v container [] (so, z) = (Some [], so, z)"
| "load_adapters v container ((name, a) # as) (so, z) =
     (if name = '''' then load_adapters v container as (so, z)
      else (case lv_ep_parse v (ad_endpoint a) of
              None \<Rightarrow> (None, so, z)
            | Some ep \<Rightarrow>
                (let so = (if container then addPort v (te_tcp ep) (te_host ep) (te_port ep) so else so);
                     ep = (if container then ep\<lparr>te_host := ''0.0.0.0''\<rparr> else ep);
                     (ds, so, z) = load_adapters v container as (so, z\<lparr>ls_allPorts := te_port ep # ls_allPorts z\<rparr>)
                 in (map_option (\<lambda>ds. (''/tars/application/server/'' @ name, adapter_domain v a ep) # ds) ds, so, z))))"

section \<open>Macros\<close>

definition decodeMacro :: "loading_env \<Rightarrow> server_object \<Rightarrow> string \<Rightarrow> string" where
  "decodeMacro v so value = fold (\<lambda>(k, x) t. lv_replace v t (''${'' @ k @ ''}'') (lv_reverse v x)) (so_macro so) value"

fun join_locator :: "loading_env \<Rightarrow> string list \<Rightarrow> string option" where
  "join_locator v [] = Some ''''"
| "join_locator v (e # es) =
     (case (lv_ep_parse v e, join_locator v es) of
        (Some ep, Some rest) \<Rightarrow> Some (replaceHostLocalEp v ep @ (if es \<noteq> [] then '':'' else '''') @ rest)
      | _ \<Rightarrow> None)"

text \<open>The locator of the process, with the local host replaced; \<open>None\<close> is an exception.\<close>

definition own_locator :: "loading_env \<Rightarrow> (string, string) omap option" where
  "own_locator v =
     (case str_find CHR ''@'' (lv_locator v) of
        None \<Rightarrow> Some []
      | Some pos \<Rightarrow> map_option (\<lambda>l. [(''locator'', take pos (lv_locator v) @ ''@'' @ l)])
                      (join_locator v (lv_sepEndpoint v (drop (pos + 1) (lv_locator v)))))"

definition query_locator :: "loading_env \<Rightarrow> bool \<Rightarrow> string option" where
  "query_locator v succ =
     (case (if succ then lv_query v else Some (0, [])) of
        None \<Rightarrow> None
      | Some (iRet, eps) \<Rightarrow>
          if iRet = 0 \<and> eps \<noteq> []
          then Some (lv_query_name v @ ''@'' @ butlast (concat (map (\<lambda>(h, p).
                 ''tcp -h '' @ replaceHostLocalIp h @ '' -p '' @ lv_show v p @ '':'') eps)))
          else None)"

definition load_macros ::
  "tc_common \<Rightarrow> tc_file \<Rightarrow> loading_env \<Rightarrow> load_descriptor \<Rightarrow> load_paths \<Rightarrow> tars_ep \<Rightarrow> bool \<Rightarrow> (string, string) omap option" where
  "load_macros tc fs v d p local succ =
     map_option (\<lambda>m.
       fold (\<lambda>(k, x). om_put k x)
         ((case query_locator v succ of None \<Rightarrow> [] | Some l \<Rightarrow> [(''locator'', l)]) @
          [(''modulename'', ld_application d @ ''.'' @ ld_serverName d), (''app'', ld_application d), (''server'', ld_serverName d),
           (''nodename'', lv_nodeName v), (''serverid'', ld_application d @ ''.'' @ ld_serverName d),
           (''localip'', te_host (lv_adapter v)), (''exe'', f_simplify fs (lp_exeFile p)),
           (''basepath'', f_simplify fs (lp_exePath p) @ ''/''), (''datapath'', f_simplify fs (lp_serverDir p) @ ''/data/''),
           (''logpath'', lv_logPath v), (''local'', lv_ep_str v local)] @
          (if lv_priKey v = '''' then [(''priKey'', lv_priKey v)] else []) @
          [(''mainclass'', ''com.qq.'' @ tc_lower tc (ld_application d) @ ''.'' @ tc_lower tc (ld_serverName d) @ ''.'' @ ld_serverName d),
           (''config-center-port'', lv_show v (ld_configCenterPort d)),
           (''enableset'', if ld_setId d = '''' then ''n'' else ''y''),
           (''setdivision'', if ld_setId d = '''' then ''NULL'' else ld_setId d),
           (''asyncthread'', lv_show v (ld_asyncThreadNum d)), (''baseimage'', ld_baseImage d), (''sha'', ld_sha d)]) m)
       (own_locator v)"

section \<open>Writing the configuration\<close>

definition note_dir :: "string \<Rightarrow> load_state \<Rightarrow> load_state" where
  "note_dir p z = z\<lparr>ls_dirs := ls_dirs z @ [p]\<rparr>"

definition keep_conf :: "string \<Rightarrow> string \<Rightarrow> load_state \<Rightarrow> load_state" where
  "keep_conf f text z =
     (case ls_files z f of
        Some old \<Rightarrow> if old \<noteq> text then z\<lparr>ls_files := (ls_files z)(f @ ''.bak'' \<mapsto> old)\<rparr> else z
      | None \<Rightarrow> z)"

definition write_conf :: "string \<Rightarrow> string \<Rightarrow> load_state \<Rightarrow> load_state" where
  "write_conf f text z = (let z = keep_conf f text z in z\<lparr>ls_files := (ls_files z)(f \<mapsto> text)\<rparr>)"

definition setScript :: "tc_common \<Rightarrow> tc_file \<Rightarrow> string \<Rightarrow> string \<Rightarrow> string \<Rightarrow> server_object \<Rightarrow> server_object" where
  "setScript tc fs a b c so = so\<lparr>so_startScript := f_simplify fs (tc_trim tc a), so_stopScript := f_simplify fs (tc_trim tc b),
     so_monitorScript := f_simplify fs (tc_trim tc c)\<rparr>"

text \<open>What the object takes over from the merged configuration, up to the local endpoint and after it.\<close>

definition take_conf :: "tc_common \<Rightarrow> conf_view \<Rightarrow> load_paths \<Rightarrow> server_object \<Rightarrow> server_object" where
  "take_conf tc c p so =
     (let so = so\<lparr>so_timeout := tc_strto_int tc (cv_get c ''/tars/application/server<hearttimeout>'' ''45000''),
                so_activatingTimeout := tc_strto_int tc (cv_get c ''/tars/application/server<activating-timeout>'' ''60000'')\<rparr>;
          so = addPorts tc (cv_map c ''/tars/application/container/ports'') so;
          so = setEnSynState (tc_lower tc (cv_get c ''/tars/application/server<enableworking>'' ''y'') = ''y'') so
      in so\<lparr>so_exeFile := lp_exeFile p, so_exePath := lp_exePath p\<rparr>)"

text \<open>The last part: the old file is kept when it differs, the new one written and read back.\<close>

definition store_conf ::
  "tc_common \<Rightarrow> tc_file \<Rightarrow> loading_env \<Rightarrow> load_paths \<Rightarrow> conf_view \<Rightarrow> server_object \<times> load_state \<Rightarrow> int \<times> server_object \<times> load_state" where
  "store_conf tc fs v p c w =
     (let (so, z) = w
      in if \<not> lv_writable v (lp_confFile p) then (- 1, so, keep_conf (lp_confFile p) (cv_text c) z)
         else (let z = write_conf (lp_confFile p) (cv_text c) z; so = take_conf tc c p so
               in case lv_ep_parse v (cv_get c ''/tars/application/server<local>'' '''') of
                    None \<Rightarrow> (- 1, so, z)
                  | Some ep \<Rightarrow> (0, setLoaded True (setScript tc fs (lp_startScript p) (lp_stopScript p)
                      (lp_monitorScript p) (setServerType tc (lp_serverType p) so)), z)))"

text \<open>The part after the local port is known.\<close>

definition macro_conf ::
  "tc_common \<Rightarrow> tc_file \<Rightarrow> loading_env \<Rightarrow> load_descriptor \<Rightarrow> load_paths \<Rightarrow> bool \<Rightarrow> (string \<times> (string, string) omap) list \<Rightarrow> int \<Rightarrow>
     server_object \<times> load_state \<Rightarrow> int \<times> server_object \<times> load_state" where
  "macro_conf tc fs v d p succ ds port w =
     (let (so, z) = w;
          local = \<lparr>te_host = (if so_container so then ''0.0.0.0'' else ''127.0.0.1''), te_port = port, te_tcp = True, te_timeout = 10000\<rparr>;
          so = (if so_container so then addPort v True ''127.0.0.1'' port so else so)
      in case load_macros tc fs v d p local succ of
           None \<Rightarrow> (- 1, so, z)
         | Some mMacro \<Rightarrow>
             (let z = note_dir (f_simplify fs (lp_exePath p) @ ''/'') z;
                  z = note_dir (f_simplify fs (lp_serverDir p) @ ''/data/'') z;
                  z = note_dir (''/'' @ ld_application d @ ''/'' @ ld_serverName d @ ''/'') z;
                  so = setMacro mMacro so
              in case lv_config v ds (decodeMacro v so (ld_profile d)) of
                   None \<Rightarrow> (- 1, so, z)
                 | Some c \<Rightarrow> store_conf tc fs v p c (so, z)))"

definition updateConfigFile ::
  "tc_common \<Rightarrow> tc_file \<Rightarrow> loading_env \<Rightarrow> load_descriptor \<Rightarrow> load_paths \<Rightarrow> bool \<Rightarrow> server_object \<times> load_state \<Rightarrow>
     (int \<times> server_object \<times> load_state) option" where
  "updateConfigFile tc fs v d p succ w =
     (let (so, z) = w;
          node = (''/tars/application/server'', [(''node'', lv_node_obj v @ ''@'' @ replaceHostLocalEp v (lv_adapter v))]);
          (ds, so, z) = load_adapters v (so_container so) (rev (ld_adapters d)) (so\<lparr>so_ports := []\<rparr>, z)
      in case ds of
           None \<Rightarrow> Some (- 1, so, z)
         | Some ds \<Rightarrow> map_option (\<lambda>(port, z). macro_conf tc fs v d p succ (node # ds) port (so, z))
                        (local_port v (lp_confFile p) z))"

section \<open>Configuration files of the server\<close>

datatype remote_fetch = FetchScript string | FetchConfig string

definition isScriptFile :: "tc_common \<Rightarrow> tc_file \<Rightarrow> loading_env \<Rightarrow> server_object \<Rightarrow> string \<Rightarrow> bool" where
  "isScriptFile tc fs v so f \<longleftrightarrow> tc_lower tc (lv_ext v f) = ''sh'' \<or> f_name fs (so_startScript so) = f \<or>
     f_name fs (so_stopScript so) = f \<or> f_name fs (so_monitorScript so) = f"

text \<open>The list comes from the configuration server; a code other than 0 is only reported.\<close>

definition getRemoteConf :: "tc_common \<Rightarrow> tc_file \<Rightarrow> loading_env \<Rightarrow> server_object \<Rightarrow> remote_fetch list" where
  "getRemoteConf tc fs v so =
     (if so_application so @ ''.'' @ so_serverName so = ''tars.tarsconfig'' then []
      else (case lv_list v of
              None \<Rightarrow> []
            | Some (ret, vf) \<Rightarrow> concat (map (\<lambda>f. if isScriptFile tc fs v so f then [FetchScript f]
                  else if \<not> so_tarsServer so then [FetchConfig f] else []) vf)))"

section \<open>The command\<close>

definition load_can :: "node_env \<Rightarrow> node_state \<Rightarrow> exe_status \<times> node_state" where
  "load_can e s =
     (if so_application (ob s) = '''' \<or> so_serverName (ob s) = '''' then (DIS_EXECUTABLE, s)
      else if in_transition (state_of s) \<and> state_of s \<noteq> Activating then (DIS_EXECUTABLE, s)
      else (EXECUTABLE, setState e Loading True s))"

text \<open>The servers of the framework start from the configuration of the installation.\<close>

definition take_old_conf :: "tc_file \<Rightarrow> loading_env \<Rightarrow> load_descriptor \<Rightarrow> load_paths \<Rightarrow> load_state \<Rightarrow> load_state" where
  "take_old_conf fs v d p z =
     (if ld_application d \<noteq> ''tars'' then z
      else (let old = f_simplify fs (lv_dataDir v @ ''/../../'' @ ld_serverName d @ ''/conf/'' @ ld_application d @ ''.'' @ ld_serverName d @ ''.config.conf'')
            in case (ls_files z (lp_confFile p), ls_files z old) of
                 (None, Some t) \<Rightarrow> (note_dir (lp_confPath p) z)\<lparr>ls_files := (ls_files z)(lp_confFile p \<mapsto> t)\<rparr>
               | _ \<Rightarrow> z))"

definition load_exec ::
  "tc_common \<Rightarrow> tc_file \<Rightarrow> loading_env \<Rightarrow> load_descriptor \<Rightarrow> bool \<Rightarrow> node_state \<times> load_state \<Rightarrow>
     (int \<times> remote_fetch list \<times> node_state \<times> load_state) option" where
  "load_exec tc fs v d succ w =
     (let (s, z) = w; p = load_paths_of tc fs v d; z = take_old_conf fs v d p z
      in if \<not> lv_mkdir v (lp_exePath p) then Some (- 1, [], s, z)
         else (let z = note_dir (lp_exePath p) z in
           if \<not> lv_mkdir v (lp_libPath p) then Some (- 1, [], s, z)
           else (let z = note_dir (lp_libPath p) z in
             if \<not> lv_mkdir v (lp_confPath p) then Some (- 1, [], s, z)
             else map_option (\<lambda>(r, so, z).
                    if r \<noteq> 0 then (- 1, [], s\<lparr>ob := so\<rparr>, z)
                    else (0, if succ then getRemoteConf tc fs v so else [], s\<lparr>ob := so\<rparr>, z))
                  (updateConfigFile tc fs v d p succ (ob s, note_dir (lp_confPath p) z)))))"

text \<open>\<open>doProcess\<close> of the command and its destruction, which sets the state back.\<close>

definition command_load ::
  "tc_common \<Rightarrow> tc_file \<Rightarrow> loading_env \<Rightarrow> node_env \<Rightarrow> load_descriptor \<Rightarrow> bool \<Rightarrow> node_state \<times> load_state \<Rightarrow>
     (int \<times> remote_fetch list \<times> node_state \<times> load_state) option" where
  "command_load tc fs v e d succ w =
     (case load_can e (fst w) of
        (EXECUTABLE, s1) \<Rightarrow>
          map_option (\<lambda>(r, fetched, s2, z). (r, fetched, setState e (state_of (fst w)) True s2, z))
            (load_exec tc fs v d succ (s1, snd w))
      | (_, s1) \<Rightarrow> Some (- 1, [], s1, snd w))"


section \<open>Limits of the configuration\<close>

record limit_conf =
  lc_info :: server_limit_info
  lc_monitorIntervalMs :: int
  lc_bReportLoadInfo :: bool

definition initial_limit :: limit_conf where
  "initial_limit = \<lparr>lc_info = \<lparr>bEnableCoreLimit = False, bCloseCore = False, eCoreType = EM_AUTO_LIMIT, iMaxExcStopCount = 3,
     iCoreLimitTimeInterval = 5, iCoreLimitExpiredTime = 30, iActivatorMaxCount = 10, iActivatorTimeInterval = 60,
     iActivatorPunishInterval = 600\<rparr>, lc_monitorIntervalMs = 1000, lc_bReportLoadInfo = True\<rparr>"

text \<open>A value of the configuration, or the default: that of the code for the default section itself, that section's otherwise.\<close>

definition parseLimitInfo :: "tc_common \<Rightarrow> limit_conf \<Rightarrow> (string, string) omap \<Rightarrow> limit_conf \<Rightarrow> bool \<Rightarrow> limit_conf" where
  "parseLimitInfo tc dflt m x bDefault =
     (let base = (if bDefault then initial_limit else dflt);
          num = (\<lambda>k dv. case om_find m k of Some s \<Rightarrow> tc_strto_int tc s | None \<Rightarrow> dv)
      in \<lparr>lc_info = (lc_info x)\<lparr>iMaxExcStopCount := num ''maxstopcount'' (iMaxExcStopCount (lc_info base)),
            iCoreLimitTimeInterval := num ''coretimeinterval'' (iCoreLimitTimeInterval (lc_info base)),
            iCoreLimitExpiredTime := num ''coretimeexpired'' (iCoreLimitExpiredTime (lc_info base)),
            bEnableCoreLimit := (case om_find m ''corelimitenable'' of Some s \<Rightarrow> s = ''true'' | None \<Rightarrow> bEnableCoreLimit (lc_info base)),
            iActivatorMaxCount := num ''ActivatorMaxCount'' (iActivatorMaxCount (lc_info base)),
            iActivatorTimeInterval := num ''ActivatorTimeInterval'' (iActivatorTimeInterval (lc_info base)),
            iActivatorPunishInterval := num ''ActivatorPunishInterval'' (iActivatorPunishInterval (lc_info base))\<rparr>,
          lc_monitorIntervalMs = num ''monitorIntervalMs'' (lc_monitorIntervalMs base),
          lc_bReportLoadInfo = (case om_find m ''reportLoadInfoenable'' of Some s \<Rightarrow> tc_strto_int tc s = 1 | None \<Rightarrow> lc_bReportLoadInfo base)\<rparr>)"

text \<open>\<open>TC_ReadersWriterData\<close>: two copies, one for the readers and one for the writer, that change places.\<close>

type_synonym 'a two_copies = "'a \<times> 'a"

definition swap_copies :: "'a two_copies \<Rightarrow> 'a two_copies" where
  "swap_copies c = (snd c, fst c)"

text \<open>The objects by application and name; the descriptor of each is kept beside it.\<close>

record server_factory =
  sf_mmServerList :: "(string, (string, node_state) omap) omap"
  sf_descs :: "((string \<times> string) \<times> load_descriptor) list"
  sf_cache :: "((string \<times> string) \<times> load_descriptor) list"
  sf_load :: load_state
  sf_serverConf :: "(string, limit_conf) omap two_copies"
  sf_appConf :: "(string, limit_conf) omap two_copies"
  sf_default :: limit_conf
  sf_changed :: bool
  sf_minMonitorMs :: int
  sf_bReportLoadInfo :: bool

text \<open>
  The configuration file as \<open>loadConfig\<close> reads it: a domain as a map, the names of its subdomains, a
  value with a default. \<open>None\<close> is an exception while it is read.
\<close>

record node_conf =
  nc_map :: "string \<Rightarrow> (string, string) omap"
  nc_domains :: "string \<Rightarrow> string list"
  nc_get :: "string \<Rightarrow> string \<Rightarrow> string"

definition auto_core :: "limit_conf \<Rightarrow> limit_conf" where
  "auto_core x = x\<lparr>lc_info := (lc_info x)\<lparr>bCloseCore := False, eCoreType := EM_AUTO_LIMIT\<rparr>\<rparr>"

definition loadConfig_step :: "tc_common \<Rightarrow> node_conf \<Rightarrow> limit_conf \<Rightarrow> string \<Rightarrow> (string, limit_conf) omap \<Rightarrow> (string, limit_conf) omap" where
  "loadConfig_step tc c dflt section m =
     (if section = ''default'' then m
      else (let x = auto_core (parseLimitInfo tc dflt (nc_map c (''/tars/app_conf/'' @ section)) initial_limit False)
            in fold (\<lambda>app. om_put app x) (tc_sepstr tc (nc_get c (''/tars/app_conf<'' @ section @ ''>'') '''') ''|'' False) m))"

definition factory_loadConfig :: "tc_common \<Rightarrow> node_conf option \<Rightarrow> server_factory \<Rightarrow> bool \<times> server_factory" where
  "factory_loadConfig tc conf f =
     (case conf of
        None \<Rightarrow> (False, f)
      | Some c \<Rightarrow>
          (let dflt = parseLimitInfo tc (sf_default f) (nc_map c ''/tars/app_conf/default'') (sf_default f) True;
               apps = fold (loadConfig_step tc c dflt) (nc_domains c ''/tars/app_conf/'') (snd (sf_appConf f));
               closed = dflt\<lparr>lc_info := (lc_info dflt)\<lparr>bCloseCore := True, eCoreType := EM_MANUAL_LIMIT\<rparr>\<rparr>;
               servers = fold (\<lambda>s. om_put s closed) (tc_sepstr tc (nc_get c ''/tars/app_conf<closecore>'' '''') ''|'' False) (snd (sf_serverConf f))
           in (True, f\<lparr>sf_default := dflt, sf_appConf := swap_copies (fst (sf_appConf f), apps),
                sf_serverConf := swap_copies (fst (sf_serverConf f), servers), sf_changed := True\<rparr>)))"

definition loadLimitInfo :: "string \<Rightarrow> string \<Rightarrow> server_factory \<Rightarrow> limit_conf" where
  "loadLimitInfo sAppId sServerId f =
     (case om_find (fst (sf_serverConf f)) sServerId of
        Some x \<Rightarrow> x
      | None \<Rightarrow> (case om_find (fst (sf_appConf f)) sAppId of Some x \<Rightarrow> x | None \<Rightarrow> auto_core (sf_default f)))"

definition lower_interval :: "limit_conf \<Rightarrow> server_factory \<Rightarrow> server_factory" where
  "lower_interval x f = (if lc_monitorIntervalMs x < sf_minMonitorMs f then f\<lparr>sf_minMonitorMs := lc_monitorIntervalMs x\<rparr> else f)"

definition limit_server :: "string \<Rightarrow> string \<times> node_state \<Rightarrow> server_factory \<Rightarrow> server_factory" where
  "limit_server app e f =
     (let x = loadLimitInfo app (app @ ''.'' @ fst e) f; f = lower_interval x f
      in f\<lparr>sf_mmServerList := om_put app (om_put (fst e) (on_ob (setServerLimitInfo (lc_info x)) (snd e))
             (om_get [] (sf_mmServerList f) app)) (sf_mmServerList f)\<rparr>)"

definition setAllServerResourceLimit :: "server_factory \<Rightarrow> server_factory" where
  "setAllServerResourceLimit f =
     (if sf_changed f
      then (fold (\<lambda>(app, g). fold (limit_server app) g) (sf_mmServerList f) f)\<lparr>sf_changed := False\<rparr>
      else f)"

section \<open>The servers\<close>

definition getServer :: "string \<Rightarrow> string \<Rightarrow> server_factory \<Rightarrow> node_state option" where
  "getServer app name f = (case om_find (sf_mmServerList f) app of None \<Rightarrow> None | Some g \<Rightarrow> om_find g name)"

definition putServer :: "string \<Rightarrow> string \<Rightarrow> node_state \<Rightarrow> server_factory \<Rightarrow> server_factory" where
  "putServer app name s f =
     f\<lparr>sf_mmServerList := om_put app (om_put name s (om_get [] (sf_mmServerList f) app)) (sf_mmServerList f)\<rparr>"

definition eraseServer :: "string \<Rightarrow> string \<Rightarrow> server_factory \<Rightarrow> server_factory" where
  "eraseServer app name f =
     (case om_find (sf_mmServerList f) app of
        None \<Rightarrow> f
      | Some g \<Rightarrow>
          if om_find g name = None then f
          else if om_erase name g = [] then f\<lparr>sf_mmServerList := om_erase app (sf_mmServerList f)\<rparr>
          else f\<lparr>sf_mmServerList := om_put app (om_erase name g) (sf_mmServerList f)\<rparr>)"

definition new_server :: "load_descriptor \<Rightarrow> int \<Rightarrow> node_state" where
  "new_server d t = \<lparr>ob = setServerDescriptor (desc_of d) t
     \<lparr>so_tarsServer = True, so_serverType = '''', so_container = False, so_enabled = False, so_loaded = False, so_patched = True,
      so_noticed = False, so_noticeFailTimes = 0, so_enSynState = True, so_application = '''', so_serverName = '''',
      so_desc = desc_of d, so_startScript = '''', so_stopScript = '''', so_monitorScript = '''', so_exePath = '''', so_exeFile = '''',
      so_macro = [], so_ports = [],
      so_patchInfo = \<lparr>bPatching = False, iPercent = 0, iModifyTime = 0, sVersion = [], sResult = [], bSucc = False\<rparr>,
      so_pid = 0, so_version = [], so_procStartTime = 0, so_activator = new_activator 60 10 600, so_keepAliveTime = 0,
      so_adapterKeepAliveTime = [], so_state = Inactive, so_lastState = Inactive, so_timeout = 0, so_coreTimeout = 60,
      so_activatingTimeout = 0, so_limitStateUpdated = False, so_limitStateInfo = lc_info initial_limit,
      so_limitResource = new_limit_resource t 5 10 60, so_started = False, so_startTime = 0, so_isStarting = False\<rparr>,
     tick = 0, sent = [], acts = []\<rparr>"

text \<open>The shared map hands out its entries in the order in which they were set, the last one first.\<close>

definition hm_set :: "(string \<times> string) \<Rightarrow> load_descriptor \<Rightarrow> ((string \<times> string) \<times> load_descriptor) list \<Rightarrow>
    ((string \<times> string) \<times> load_descriptor) list" where
  "hm_set k d m = (k, d) # filter (\<lambda>e. fst e \<noteq> k) m"

definition keepDesc :: "load_descriptor \<Rightarrow> server_factory \<Rightarrow> server_factory" where
  "keepDesc d f = f\<lparr>sf_descs := hm_set (ld_application d, ld_serverName d) d (sf_descs f)\<rparr>"

text \<open>
  The environments of the servers: \<open>E app name\<close> is the world around one object. The result is the
  object that is returned, if any, and what was fetched for it.
\<close>

type_synonym server_env = "string \<Rightarrow> string \<Rightarrow> node_env"

definition createServer ::
  "tc_common \<Rightarrow> tc_file \<Rightarrow> loading_env \<Rightarrow> server_env \<Rightarrow> int \<Rightarrow> load_descriptor \<Rightarrow> bool \<Rightarrow> server_factory \<Rightarrow>
     (bool \<times> server_factory) option" where
  "createServer tc fs v E t d succ f =
     (let app = ld_application d; name = ld_serverName d
      in case getServer app name f of
           Some s \<Rightarrow>
             map_option (\<lambda>(r, fetched, s, z). (r = 0, putServer app name s (keepDesc d (f\<lparr>sf_load := z\<rparr>))))
               (command_load tc fs v (E app name) d succ (on_ob (setServerDescriptor (desc_of d) t) s, sf_load f))
         | None \<Rightarrow>
             map_option (\<lambda>(r, fetched, s, z).
                 let f = f\<lparr>sf_load := z\<rparr>
                 in if r = 0
                    then (let x = loadLimitInfo app (app @ ''.'' @ name) f; f = lower_interval x f;
                              f = (if lc_bReportLoadInfo x then f else f\<lparr>sf_bReportLoadInfo := False\<rparr>)
                          in (True, putServer app name (on_ob (setServerLimitInfo (lc_info x)) s) (keepDesc d f)))
                    else (False, f))
               (command_load tc fs v (E app name) d succ (new_server d t, sf_load f)))"

section \<open>Descriptors from the registry and from the shared map\<close>

text \<open>The answer of \<open>getServers\<close>; \<open>None\<close> without a proxy or when the call raises.\<close>

definition getServerFromRegistry ::
  "load_descriptor list option \<Rightarrow> string \<Rightarrow> string \<Rightarrow> server_factory \<Rightarrow> load_descriptor list \<times> server_factory" where
  "getServerFromRegistry ans app name f =
     (case ans of
        None \<Rightarrow> ([], f)
      | Some ds \<Rightarrow>
          (let c = (if ds \<noteq> [] \<and> app = '''' \<and> name = '''' then [] else sf_cache f)
           in (ds, f\<lparr>sf_cache := fold (\<lambda>d. hm_set (ld_application d, ld_serverName d) d) ds c\<rparr>)))"

definition getServerFromCache :: "string \<Rightarrow> string \<Rightarrow> server_factory \<Rightarrow> load_descriptor list" where
  "getServerFromCache app name f =
     (if app \<noteq> '''' \<and> name \<noteq> ''''
      then (case map_of (sf_cache f) (app, name) of Some d \<Rightarrow> [d] | None \<Rightarrow> [])
      else map snd (filter (\<lambda>((a, n), d). (name = '''' \<and> app = '''') \<or> (app = '''' \<and> name = n) \<or> (name = '''' \<and> app = a))
             (sf_cache f)))"

text \<open>The loop over the descriptors; the object of the last one is the result.\<close>

fun create_all ::
  "tc_common \<Rightarrow> tc_file \<Rightarrow> loading_env \<Rightarrow> server_env \<Rightarrow> int \<Rightarrow> bool \<Rightarrow> load_descriptor list \<Rightarrow> bool \<times> server_factory \<Rightarrow>
     (bool \<times> server_factory) option" where
  "create_all tc fs v E t succ [] w = Some w"
| "create_all tc fs v E t succ (d # ds) (r, f) =
     Option.bind (createServer tc fs v E t d succ f) (create_all tc fs v E t succ ds)"

definition factory_loadServer ::
  "tc_common \<Rightarrow> tc_file \<Rightarrow> loading_env \<Rightarrow> server_env \<Rightarrow> int \<Rightarrow> load_descriptor list option \<Rightarrow> bool \<Rightarrow> string \<Rightarrow> string \<Rightarrow> bool \<Rightarrow>
     server_factory \<Rightarrow> (bool \<times> server_factory) option" where
  "factory_loadServer tc fs v E t ans pinged app name enableCache f =
     (let (ds, f) = getServerFromRegistry ans app name f;
          ds = (if ds = [] \<and> enableCache then getServerFromCache app name f else ds)
      in if ds = [] then Some (False, f) else create_all tc fs v E t pinged ds (False, f))"

section \<open>Loading leaves the process alone\<close>

text \<open>The part of the object that says what runs.\<close>

definition run_part :: "server_object \<Rightarrow> int \<times> bool \<times> int \<times> bool \<times> internal_state \<times> int \<times> (string, int) omap" where
  "run_part so = (so_pid so, so_started so, so_procStartTime so, so_enabled so, so_lastState so, so_keepAliveTime so,
     so_adapterKeepAliveTime so)"

lemma addPort_run [simp]: "run_part (addPort v t h p so) = run_part so" "so_state (addPort v t h p so) = so_state so"
  by (simp_all add: addPort_def run_part_def)

lemma addPorts_run [simp]: "run_part (addPorts tc ls so) = run_part so \<and> so_state (addPorts tc ls so) = so_state so"
proof -
  have "run_part (fold (\<lambda>e so. case str_rfind CHR '':'' (snd e) of None \<Rightarrow> so
       | Some c \<Rightarrow> so\<lparr> so_ports := om_put (fst e) (take c (snd e), tc_strto_int tc (drop (c + 1) (snd e))) (so_ports so) \<rparr>) ls so) = run_part so
    \<and> so_state (fold (\<lambda>e so. case str_rfind CHR '':'' (snd e) of None \<Rightarrow> so
       | Some c \<Rightarrow> so\<lparr> so_ports := om_put (fst e) (take c (snd e), tc_strto_int tc (drop (c + 1) (snd e))) (so_ports so) \<rparr>) ls so) = so_state so"
    by (induction ls arbitrary: so) (auto simp: run_part_def split: option.splits)
  then show ?thesis unfolding addPorts_def .
qed

lemma load_adapters_run:
  "load_adapters v c as (so, z) = (ds, so', z') \<Longrightarrow> run_part so' = run_part so \<and> so_state so' = so_state so"
proof (induction as arbitrary: so z ds so' z')
  case (Cons e as)
  obtain name a where e: "e = (name, a)" by (cases e)
  show ?case
  proof (cases "name = '''' \<or> lv_ep_parse v (ad_endpoint a) = None")
    case True
    with Cons e show ?thesis by (auto split: if_splits)
  next
    case False
    then obtain ep where ep: "name \<noteq> ''''" "lv_ep_parse v (ad_endpoint a) = Some ep" by auto
    define so1 where "so1 = (if c then addPort v (te_tcp ep) (te_host ep) (te_port ep) so else so)"
    define z1 where "z1 = z\<lparr>ls_allPorts := te_port ep # ls_allPorts z\<rparr>"
    obtain ds2 so2 z2 where r: "load_adapters v c as (so1, z1) = (ds2, so2, z2)" by (metis surj_pair)
    have "so' = so2" using Cons.prems ep e r by (auto simp: so1_def z1_def Let_def split: if_splits)
    with Cons.IH[OF r] show ?thesis by (simp add: so1_def)
  qed
qed simp

lemma take_conf_run: "run_part (take_conf tc c p so) = run_part so \<and> so_state (take_conf tc c p so) = so_state so"
  using addPorts_run[of tc "cv_map c ''/tars/application/container/ports''"
    "so\<lparr>so_timeout := tc_strto_int tc (cv_get c ''/tars/application/server<hearttimeout>'' ''45000''),
        so_activatingTimeout := tc_strto_int tc (cv_get c ''/tars/application/server<activating-timeout>'' ''60000'')\<rparr>"]
  by (simp add: take_conf_def Let_def run_part_def setEnSynState_def)

lemma store_conf_run:
  "store_conf tc fs v p c (so, z) = (r, so', z') \<Longrightarrow> run_part so' = run_part so \<and> so_state so' = so_state so"
proof -
  have "run_part (setLoaded True (setScript tc fs a b k (setServerType tc ty x))) = run_part x \<and>
      so_state (setLoaded True (setScript tc fs a b k (setServerType tc ty x))) = so_state x" for a b k ty x
    by (simp add: setLoaded_def setScript_def setServerType_def Let_def run_part_def)
  then show "store_conf tc fs v p c (so, z) = (r, so', z') \<Longrightarrow> ?thesis"
    by (auto simp: store_conf_def Let_def take_conf_run split: if_splits option.splits)
qed

lemma macro_conf_run:
  assumes "macro_conf tc fs v d p succ ds port (so, z) = (r, so', z')"
  shows "run_part so' = run_part so \<and> so_state so' = so_state so"
proof -
  define so1 where "so1 = (if so_container so then addPort v True ''127.0.0.1'' port so else so)"
  have 1: "run_part so1 = run_part so \<and> so_state so1 = so_state so" by (simp add: so1_def)
  have macro: "run_part (setMacro m x) = run_part x \<and> so_state (setMacro m x) = so_state x" for m x
    by (simp add: setMacro_def run_part_def)
  show ?thesis
    using assms 1 macro[of _ so1] unfolding macro_conf_def Let_def prod.case so1_def[symmetric]
    by (auto split: option.splits dest: store_conf_run)
qed

lemma updateConfigFile_run:
  assumes "updateConfigFile tc fs v d p succ (so, z) = Some (r, so', z')"
  shows "run_part so' = run_part so \<and> so_state so' = so_state so"
proof -
  obtain ds so1 z1 where la: "load_adapters v (so_container so) (rev (ld_adapters d)) (so\<lparr>so_ports := []\<rparr>, z) = (ds, so1, z1)"
    by (metis surj_pair)
  have 1: "run_part so1 = run_part so \<and> so_state so1 = so_state so"
    using load_adapters_run[OF la] by (simp add: run_part_def)
  show ?thesis
    using assms 1 unfolding updateConfigFile_def prod.case Let_def la
    by (auto split: option.splits dest!: macro_conf_run)
qed

lemma load_exec_run:
  assumes "load_exec tc fs v d succ (s, z) = Some (r, fetched, s', z')"
  shows "run_part (ob s') = run_part (ob s) \<and> state_of s' = state_of s \<and> acts s' = acts s \<and> sent s' = sent s \<and> tick s' = tick s"
proof -
  obtain zz where "Some (r, fetched, s', z') = Some (- 1, [], s, zz) \<or>
     Some (r, fetched, s', z') = map_option (\<lambda>(r, so, z).
         if r \<noteq> 0 then (- 1, [], s\<lparr>ob := so\<rparr>, z)
         else (0, if succ then getRemoteConf tc fs v so else [], s\<lparr>ob := so\<rparr>, z))
       (updateConfigFile tc fs v d (load_paths_of tc fs v d) succ (ob s, zz))"
    using assms unfolding load_exec_def Let_def prod.case by (metis (lifting))
  then show ?thesis
    using updateConfigFile_run[of tc fs v d "load_paths_of tc fs v d" succ "ob s" zz]
    by (cases "updateConfigFile tc fs v d (load_paths_of tc fs v d) succ (ob s, zz)") (auto split: if_splits)
qed

lemma setState_run [simp]: "run_part (ob (setState e st b s)) = run_part (ob s)"
  using setState_ob[of e st b s] by (auto simp: run_part_def)

lemma command_load_run:
  assumes "command_load tc fs v e d succ (s, z) = Some (r, fetched, s', z')"
  shows "run_part (ob s') = run_part (ob s) \<and> state_of s' = state_of s \<and> acts s' = acts s"
proof (cases "fst (load_can e s) = EXECUTABLE")
  case True
  then have can: "load_can e s = (EXECUTABLE, setState e Loading True s)"
    by (auto simp: load_can_def split: if_splits)
  obtain s2 where "load_exec tc fs v d succ (setState e Loading True s, z) = Some (r, fetched, s2, z')"
    "s' = setState e (state_of s) True s2"
    using assms can by (auto simp: command_load_def)
  then show ?thesis using load_exec_run by fastforce
next
  case False
  with assms show ?thesis by (auto simp: command_load_def load_can_def split: if_splits)
qed





section \<open>The servers across loads\<close>

definition same_process :: "node_state \<Rightarrow> node_state \<Rightarrow> bool" where
  "same_process s s' \<longleftrightarrow> state_of s' = state_of s \<and> acts s' = acts s \<and> so_pid (ob s') = so_pid (ob s) \<and>
     so_started (ob s') = so_started (ob s) \<and> so_procStartTime (ob s') = so_procStartTime (ob s)"

lemma getServer_put [simp]:
  "getServer a n (putServer app name s f) = (if a = app \<and> n = name then Some s else getServer a n f)"
  by (simp add: getServer_def putServer_def om_get_def split: option.split)

lemma getServer_fields [simp]:
  "getServer a n (f\<lparr>sf_load := z\<rparr>) = getServer a n f" "getServer a n (f\<lparr>sf_cache := c\<rparr>) = getServer a n f"
  "getServer a n (f\<lparr>sf_bReportLoadInfo := b\<rparr>) = getServer a n f" "getServer a n (lower_interval x f) = getServer a n f"
  "getServer a n (keepDesc d f) = getServer a n f"
  by (simp_all add: getServer_def lower_interval_def keepDesc_def)

lemma same_process_refl [simp]: "same_process s s"
  by (simp add: same_process_def)

lemma same_process_trans: "same_process s t \<Longrightarrow> same_process t u \<Longrightarrow> same_process s u"
  by (simp add: same_process_def)

lemma setServerDescriptor_process: "same_process s (on_ob (setServerDescriptor d t) s)"
  by (simp add: same_process_def setServerDescriptor_def setLastKeepAliveTime_def Let_def)

lemma command_load_process:
  assumes "command_load tc fs v e d succ (s, z) = Some (r, fetched, s', z')"
  shows "same_process s s'"
  using command_load_run[OF assms] by (simp add: same_process_def run_part_def)

lemma createServer_keeps:
  assumes "createServer tc fs v E t d succ f = Some (r, f')" and "getServer a n f = Some s"
  shows "\<exists>s'. getServer a n f' = Some s' \<and> same_process s s'"
proof (cases "getServer (ld_application d) (ld_serverName d) f")
  case None
  then have "\<not> (a = ld_application d \<and> n = ld_serverName d)" using assms(2) by auto
  moreover obtain r0 fe s0 z0 where "command_load tc fs v (E (ld_application d) (ld_serverName d)) d succ (new_server d t, sf_load f) = Some (r0, fe, s0, z0)"
    using assms(1) None by (auto simp: createServer_def Let_def)
  ultimately have "getServer a n f' = getServer a n f"
    using assms(1) None by (auto simp: createServer_def Let_def split: if_splits)
  then show ?thesis using assms(2) by simp
next
  case (Some s1)
  then obtain fe s2 z2 r0 where c: "command_load tc fs v (E (ld_application d) (ld_serverName d)) d succ
      (on_ob (setServerDescriptor (desc_of d) t) s1, sf_load f) = Some (r0, fe, s2, z2)"
    and f': "f' = putServer (ld_application d) (ld_serverName d) s2 (keepDesc d (f\<lparr>sf_load := z2\<rparr>))"
    using assms(1) by (auto simp: createServer_def Let_def)
  have "same_process s1 s2"
    using same_process_trans[OF setServerDescriptor_process command_load_process[OF c]] .
  then show ?thesis using f' assms(2) Some by auto
qed

lemma create_all_keeps:
  "create_all tc fs v E t succ ds (r0, f) = Some (r, f') \<Longrightarrow> getServer a n f = Some s \<Longrightarrow>
     \<exists>s'. getServer a n f' = Some s' \<and> same_process s s'"
proof (induction ds arbitrary: r0 f s)
  case (Cons d ds)
  obtain r1 f1 where c: "createServer tc fs v E t d succ f = Some (r1, f1)" "create_all tc fs v E t succ ds (r1, f1) = Some (r, f')"
    using Cons.prems(1) by (auto simp: bind_eq_Some_conv)
  obtain s1 where s1: "getServer a n f1 = Some s1" "same_process s s1" using createServer_keeps[OF c(1) Cons.prems(2)] by blast
  from Cons.IH[OF c(2) s1(1)] s1(2) show ?case by (auto intro: same_process_trans)
qed simp

lemma factory_load_keeps:
  assumes "factory_loadServer tc fs v E t ans pinged app name enableCache f = Some (r, f')" and "getServer a n f = Some s"
  shows "\<exists>s'. getServer a n f' = Some s' \<and> same_process s s'"
proof -
  obtain ds f1 where g: "getServerFromRegistry ans app name f = (ds, f1)" by (metis surj_pair)
  have "getServer a n f1 = Some s"
    using g assms(2) by (auto simp: getServerFromRegistry_def Let_def split: option.splits)
  then show ?thesis
    using assms(1) create_all_keeps unfolding factory_loadServer_def g Let_def by (auto split: if_splits)
qed

lemma createServer_cache: "createServer tc fs v E t d succ f = Some (r, f') \<Longrightarrow> sf_cache f' = sf_cache f"
  by (auto simp: createServer_def Let_def putServer_def lower_interval_def keepDesc_def split: option.splits if_splits)

lemma create_all_cache: "create_all tc fs v E t succ ds (r0, f) = Some (r, f') \<Longrightarrow> sf_cache f' = sf_cache f"
  by (induction ds arbitrary: r0 f) (auto simp: bind_eq_Some_conv createServer_cache)

text \<open>The server of the last descriptor exists after a load that returns an object.\<close>

lemma createServer_exists:
  "createServer tc fs v E t d succ f = Some (True, f') \<Longrightarrow> getServer (ld_application d) (ld_serverName d) f' \<noteq> None"
  by (auto simp: createServer_def Let_def split: option.splits if_splits)

lemma create_all_exists:
  "create_all tc fs v E t succ ds (r0, f) = Some (True, f') \<Longrightarrow> ds \<noteq> [] \<Longrightarrow>
     getServer (ld_application (last ds)) (ld_serverName (last ds)) f' \<noteq> None"
proof (induction ds arbitrary: r0 f)
  case (Cons d ds)
  then show ?case using createServer_exists by (cases "ds = []") (fastforce simp: bind_eq_Some_conv)+
qed simp

text \<open>
  Fact (loading_keeps_processes). Loading servers, of the whole node or of one server, with the
  registry up or from the shared map, whatever fails on the way, does not start, stop or signal a
  process: every server that the node had is still there, in its internal state, with its process id.
\<close>

theorem loading_keeps_processes:
  assumes "factory_loadServer tc fs v E t ans pinged app name enableCache f = Some (r, f')" and "getServer a n f = Some s"
  shows "\<exists>s'. getServer a n f' = Some s' \<and> same_process s s'"
  by (rule factory_load_keeps[OF assms])

section \<open>What the registry hears\<close>

text \<open>
  Fact (reload_reports_inactive). Loading the descriptor of a running server again passes through the
  internal state Loading, which is reported as Inactive: the first report of the command
  tells the registry that the running server is down.
\<close>

theorem reload_reports_inactive:
  assumes "state_of s = Active" and "so_application (ob s) \<noteq> ''''" and "so_serverName (ob s) \<noteq> ''''"
    and "so_noticeFailTimes (ob s) < 3" and "command_load tc fs v e d succ (s, z) = Some (r, fetched, s', z')"
  shows "\<exists>rest. sent s' = sent s @ SyncUpdate tars_Inactive (so_pid (ob s)) # rest"
proof -
  let ?s1 = "setState e Loading True s"
  have can: "load_can e s = (EXECUTABLE, ?s1)" using assms(1-3) by (simp add: load_can_def in_transition_iff)
  have first: "sent ?s1 = sent s @ [SyncUpdate tars_Inactive (so_pid (ob s))]"
    using assms(1,4) by (auto simp: setState_def synState_def reported_def Let_def on_ob_def split: option.splits)
  obtain s2 where s2: "load_exec tc fs v d succ (?s1, z) = Some (r, fetched, s2, z')" "s' = setState e Active True s2"
    using assms(1,5) can by (auto simp: command_load_def)
  have "sent s2 = sent ?s1" using load_exec_run[OF s2(1)] by simp
  moreover have "\<exists>us. sent (setState e Active True s2) = sent s2 @ us"
    using synState_sent[of e s2] synState_sent[of e "on_ob (\<lambda>so. so\<lparr>so_state := Active\<rparr>) s2"]
    by (auto simp: setState_def Let_def)
  ultimately show ?thesis using s2(2) first by auto
qed

section \<open>Time outs\<close>

lemma addPorts_timeout [simp]: "so_timeout (addPorts tc ls so) = so_timeout so"
proof -
  have "so_timeout (fold (\<lambda>e so. case str_rfind CHR '':'' (snd e) of None \<Rightarrow> so
       | Some c \<Rightarrow> so\<lparr> so_ports := om_put (fst e) (take c (snd e), tc_strto_int tc (drop (c + 1) (snd e))) (so_ports so) \<rparr>) ls so) = so_timeout so"
    by (induction ls arbitrary: so) (auto split: option.splits)
  then show ?thesis unfolding addPorts_def .
qed

lemma updateConfigFile_timeout:
  assumes "updateConfigFile tc fs v d p succ (so, z) = Some (0, so', z')"
    and "\<And>ds t c. lv_config v ds t = Some c \<Longrightarrow> cv_get c ''/tars/application/server<hearttimeout>'' ''45000'' = ''45000''"
    and "tc_strto_int tc ''45000'' = 45000"
  shows "so_timeout so' = 45000"
proof -
  obtain ds so1 z1 where la: "load_adapters v (so_container so) (rev (ld_adapters d)) (so\<lparr>so_ports := []\<rparr>, z) = (ds, so1, z1)"
    by (metis surj_pair)
  obtain ds2 port z2 where m: "macro_conf tc fs v d p succ ds2 port (so1, z2) = (0, so', z')"
    using assms(1) unfolding updateConfigFile_def prod.case Let_def la by (auto split: option.splits)
  obtain so3 z3 c where "store_conf tc fs v p c (so3, z3) = (0, so', z')" and c: "\<exists>ds t. lv_config v ds t = Some c"
    using m unfolding macro_conf_def Let_def prod.case by (auto split: option.splits) blast
  then show ?thesis
    using assms(2,3) by (auto simp: store_conf_def Let_def take_conf_def setEnSynState_def setLoaded_def setScript_def
        setServerType_def split: if_splits option.splits)
qed

text \<open>
  Fact (default_timeout_is_hours). A server whose configuration does not set a heart beat time out
  gets the default 45000 when it is loaded, and the check compares it with seconds: as long as
  its last beats are at most 45000 seconds old, twelve and a half hours, a hung server is left alone,
  whatever time out the node is configured with.
\<close>

theorem default_timeout_is_hours:
  assumes "command_load tc fs v e d succ (s, z) = Some (0, fetched, s', z')"
    and "\<And>ds t c. lv_config v ds t = Some c \<Longrightarrow> cv_get c ''/tars/application/server<hearttimeout>'' ''45000'' = ''45000''"
    and "tc_strto_int tc ''45000'' = 45000"
    and "now (k_env k) s' - so_keepAliveTime (ob s') \<le> 45000"
    and "\<And>a t. (a, t) \<in> set (so_adapterKeepAliveTime (ob s')) \<Longrightarrow> now (k_env k) s' - t \<le> 45000"
  shows "check_zombie tc fs k heartTimeout s' = Some s'"
proof -
  have can: "load_can e s = (EXECUTABLE, setState e Loading True s)"
    using assms(1) by (auto simp: command_load_def load_can_def split: if_splits)
  obtain s2 where s2: "load_exec tc fs v d succ (setState e Loading True s, z) = Some (0, fetched, s2, z')"
      "s' = setState e (state_of s) True s2"
    using assms(1) can by (auto simp: command_load_def)
  then obtain zz so' where u: "updateConfigFile tc fs v d (load_paths_of tc fs v d) succ (ob (setState e Loading True s), zz) = Some (0, so', z')"
      and so': "ob s2 = so'"
    by (auto simp: load_exec_def Let_def split: if_splits)
  have "so_timeout so' = 45000" by (rule updateConfigFile_timeout[OF u assms(2,3)])
  then have "so_timeout (ob s2) = 45000" using so' by simp
  then have "so_timeout (ob s') = 45000" using setState_ob[of e "state_of s" True s2] s2(2) by auto
  moreover have "\<not> isTimeOut (now (k_env k) s') 45000 (ob s')"
    using assms(4,5) by (fastforce simp: isTimeOut_def)
  ultimately show ?thesis by (simp add: check_zombie_def Let_def)
qed

section \<open>Local ports\<close>

text \<open>
  Fact (fresh_local_port). A server without a configuration file gets a local port between
  30000 and 44999 that nothing listens on and that no adapter and no local port loaded before it has; the
  search ends as soon as the numbers drawn hit such a port.
\<close>

theorem fresh_local_port:
  assumes "ls_files z f = None" and "n \<le> k" and "n = ls_rand z"
    and "\<not> lv_connects v k (int (30000 + lv_rand v k mod 15000))"
    and "int (30000 + lv_rand v k mod 15000) \<notin> set (ls_allPorts z)"
  shows "\<exists>p z'. local_port v f z = Some (p, z') \<and> 30000 \<le> p \<and> p < 45000 \<and> p \<notin> set (ls_allPorts z) \<and>
     (\<exists>j. \<not> lv_connects v j p) \<and> set (ls_allPorts z') = insert p (set (ls_allPorts z))"
proof -
  have "\<exists>p m. draw_port v used n = Some (p, m) \<and> 30000 \<le> p \<and> p < 45000 \<and> p \<notin> set used \<and> (\<exists>j. \<not> lv_connects v j p)"
    if "n \<le> k" "\<not> lv_connects v k (int (30000 + lv_rand v k mod 15000))" "int (30000 + lv_rand v k mod 15000) \<notin> set used" for used n
    using that
  proof (induction "k - n" arbitrary: n)
    case 0
    then show ?case by (subst draw_port.simps) (auto simp: Let_def)
  next
    case (Suc j)
    let ?p = "int (30000 + lv_rand v n mod 15000)"
    show ?case
    proof (cases "\<not> lv_connects v n ?p \<and> ?p \<notin> set used")
      case True
      then show ?thesis by (subst draw_port.simps) (auto simp: Let_def)
    next
      case False
      have "\<exists>p m. draw_port v used (n + 1) = Some (p, m) \<and> 30000 \<le> p \<and> p < 45000 \<and> p \<notin> set used \<and> (\<exists>j. \<not> lv_connects v j p)"
        using Suc.prems Suc.hyps(2) by (intro Suc.hyps(1)) auto
      with False show ?thesis by (subst draw_port.simps) (auto simp: Let_def)
    qed
  qed
  from this[of n "ls_allPorts z"] assms show ?thesis by (auto simp: local_port_def)
qed



section \<open>The shared map remembers the registry\<close>

text \<open>What the registry said last of every server, over its answers in order: a full answer replaces everything.\<close>

definition remember :: "string \<times> string \<times> load_descriptor list \<Rightarrow> (string \<times> string \<Rightarrow> load_descriptor option) \<Rightarrow>
    (string \<times> string \<Rightarrow> load_descriptor option)" where
  "remember a m = (case a of (app, name, ds) \<Rightarrow>
     foldl (\<lambda>m d. m((ld_application d, ld_serverName d) \<mapsto> d))
       (if ds \<noteq> [] \<and> app = '''' \<and> name = '''' then Map.empty else m) ds)"

fun hear :: "(string \<times> string \<times> load_descriptor list option) list \<Rightarrow> server_factory \<Rightarrow> server_factory" where
  "hear [] f = f"
| "hear ((app, name, ans) # as) f = hear as (snd (getServerFromRegistry ans app name f))"

fun heard :: "(string \<times> string \<times> load_descriptor list option) list \<Rightarrow> (string \<times> string \<Rightarrow> load_descriptor option) \<Rightarrow>
    (string \<times> string \<Rightarrow> load_descriptor option)" where
  "heard [] m = m"
| "heard ((app, name, None) # as) m = heard as m"
| "heard ((app, name, Some ds) # as) m = heard as (remember (app, name, ds) m)"

lemma hm_set_map [simp]: "map_of (hm_set k d m) = (map_of m)(k \<mapsto> d)"
proof -
  have "map_of (filter (\<lambda>e. fst e \<noteq> k) m) x = (if x = k then None else map_of m x)" for x
    by (induction m) auto
  then show ?thesis by (auto simp: hm_set_def fun_eq_iff)
qed

lemma hm_set_all: "map_of (fold (\<lambda>d. hm_set (ld_application d, ld_serverName d) d) ds c) =
    foldl (\<lambda>m d. m((ld_application d, ld_serverName d) \<mapsto> d)) (map_of c) ds"
  by (induction ds arbitrary: c) simp_all

lemma cache_heard: "map_of (sf_cache (hear as f)) = heard as (map_of (sf_cache f))"
proof (induction as arbitrary: f)
  case (Cons a as)
  obtain app name ans where a: "a = (app, name, ans)" by (cases a)
  show ?case
  proof (cases ans)
    case None
    with Cons a show ?thesis by (simp add: getServerFromRegistry_def)
  next
    case (Some ds)
    with Cons[of "snd (getServerFromRegistry ans app name f)"] a show ?thesis
      by (auto simp: getServerFromRegistry_def Let_def hm_set_all remember_def split: if_splits)
  qed
qed simp


section \<open>Two slips of the loading command\<close>

lemma macros_fold: "om_find (fold (\<lambda>(k, x). om_put k x) kvs m) k = (case map_of (rev kvs) k of Some x \<Rightarrow> Some x | None \<Rightarrow> om_find m k)"
  by (induction kvs arbitrary: m) (auto simp: map_add_Some_iff split: option.splits)

text \<open>
  Fact (private_key_is_never_passed). The macro for the private key of the framework is set only when
  the key is empty, so no configuration ever contains a key.
\<close>

theorem private_key_is_never_passed:
  assumes "load_macros tc fs v d p local succ = Some m" and "om_find m ''priKey'' = Some k"
  shows "k = ''''"
  using assms by (auto simp: load_macros_def macros_fold own_locator_def map_add_Some_iff split: option.splits if_splits)

text \<open>
  Fact (log_directory_at_root). The directory for the logs is made before the log path is read from
  the configuration, from a member that is still empty: it is made under the root of the file system.
\<close>

theorem log_directory_at_root:
  assumes "macro_conf tc fs v d p succ ds port (so, z) = (0, so', z')"
  shows "''/'' @ ld_application d @ ''/'' @ ld_serverName d @ ''/'' \<in> set (ls_dirs z')"
  using assms by (auto simp: macro_conf_def store_conf_def write_conf_def keep_conf_def note_dir_def Let_def
      split: option.splits if_splits)

text \<open>
  Fact (third_load_restores_limits). The configuration of limits has two copies that change places,
  and the one that is written is not emptied: a server whose core files were closed by one
  load and opened by the next is closed again by the one after that.
\<close>

theorem third_load_restores_limits:
  assumes "tc_sepstr tc (nc_get c1 ''/tars/app_conf<closecore>'' '''') ''|'' False = [s]"
    and "tc_sepstr tc (nc_get c2 ''/tars/app_conf<closecore>'' '''') ''|'' False = []"
    and "sf_serverConf f = ([], [])"
  shows "bCloseCore (lc_info (loadLimitInfo a s (snd (factory_loadConfig tc (Some c2)
           (snd (factory_loadConfig tc (Some c2) (snd (factory_loadConfig tc (Some c1) f)))))))) \<and>
    om_find (fst (sf_serverConf (snd (factory_loadConfig tc (Some c2) (snd (factory_loadConfig tc (Some c1) f)))))) s = None"
  using assms by (simp_all add: factory_loadConfig_def Let_def swap_copies_def loadLimitInfo_def)

section \<open>Witnesses\<close>

definition sample_ep :: tars_ep where
  "sample_ep = \<lparr>te_host = ''10.0.0.1'', te_port = 1000, te_tcp = True, te_timeout = 0\<rparr>"

definition sample_view_conf :: conf_view where
  "sample_view_conf = \<lparr>cv_text = ''conf'', cv_get = (\<lambda>p d. d), cv_map = (\<lambda>p. [])\<rparr>"

definition sample_load_env :: loading_env where
  "sample_load_env = \<lparr>lv_path = (\<lambda>p. p), lv_ext = (\<lambda>p. ''''), lv_profile = (\<lambda>p k d. None), lv_dataDir = ''/data'', lv_logPath = ''/log'',
     lv_nodeName = ''n'', lv_mkdir = (\<lambda>p. True), lv_writable = (\<lambda>p. True), lv_show = (\<lambda>i. ''0''), lv_replace = (\<lambda>t a b. t),
     lv_reverse = id, lv_ep_parse = (\<lambda>t. Some sample_ep), lv_ep_str = (\<lambda>ep. te_host ep), lv_sepEndpoint = (\<lambda>t. [t]),
     lv_conf_port = (\<lambda>t. Some 30001), lv_rand = (\<lambda>n. n), lv_connects = (\<lambda>n p. p < 30002), lv_adapter = sample_ep,
     lv_node_obj = ''o'', lv_locator = '''', lv_query_name = ''q'', lv_query = None, lv_priKey = '''',
     lv_config = (\<lambda>ds t. Some sample_view_conf), lv_list = None\<rparr>"

definition sample_load_state :: load_state where
  "sample_load_state = \<lparr>ls_allPorts = [30002], ls_files = (\<lambda>f. Some ''conf''), ls_dirs = [], ls_rand = 0\<rparr>"

definition sample_ld :: load_descriptor where
  "sample_ld = \<lparr>ld_application = ''App'', ld_serverName = ''Svr'', ld_runType = '''', ld_settingState = ''active'', ld_basePath = '''',
     ld_exePath = '''', ld_serverType = ''tars_cpp'', ld_startScript = '''', ld_stopScript = '''', ld_monitorScript = '''',
     ld_profile = '''', ld_setId = '''', ld_asyncThreadNum = 1, ld_configCenterPort = 0, ld_baseImage = '''', ld_sha = '''',
     ld_adapters = []\<rparr>"

definition sample_factory :: server_factory where
  "sample_factory = \<lparr>sf_mmServerList = [(''App'', [(''Svr'', sample_node)])], sf_descs = [], sf_cache = [], sf_load = sample_load_state,
     sf_serverConf = ([], []), sf_appConf = ([], []), sf_default = initial_limit, sf_changed = False, sf_minMonitorMs = 60000,
     sf_bReportLoadInfo = True\<rparr>"

definition sample_senv :: server_env where
  "sample_senv = (\<lambda>a n. sample_world (Some 0) (\<lambda>p. True))"


definition sample_load_run :: "node_state \<Rightarrow> (int \<times> remote_fetch list \<times> node_state \<times> load_state) option" where
  "sample_load_run s = command_load sample_tc sample_fs sample_load_env (sample_world (Some 0) (\<lambda>p. True)) sample_ld False (s, sample_load_state)"

text \<open>Where directories can be made, files written and everything parses, a server with a configuration file loads.\<close>

lemma store_conf_ok:
  assumes "\<And>f. lv_writable v f" and "\<And>t. lv_ep_parse v t \<noteq> None"
  shows "fst (store_conf tc fs v p c (so, z)) = 0"
  using assms(2)[of "cv_get c ''/tars/application/server<local>'' ''''"] by (auto simp: store_conf_def Let_def assms(1))

lemma macro_conf_ok:
  assumes "\<And>f. lv_writable v f" and "\<And>t. lv_ep_parse v t \<noteq> None" and "lv_locator v = ''''" and "\<And>ds t. lv_config v ds t \<noteq> None"
  shows "fst (macro_conf tc fs v d p succ ds port (so, z)) = 0"
proof -
  have "load_macros tc fs v d p l succ \<noteq> None" for l using assms(3) by (simp add: load_macros_def own_locator_def)
  then have m: "load_macros tc fs v d p l succ = Some (the (load_macros tc fs v d p l succ))" for l by simp
  have c: "lv_config v ds t = Some (the (lv_config v ds t))" for ds t using assms(4) by simp
  show ?thesis unfolding macro_conf_def Let_def prod.case
    by (subst m, subst option.case, subst c, subst option.case, rule store_conf_ok[OF assms(1,2)])
qed

lemma updateConfigFile_ok:
  assumes "\<And>f. lv_writable v f" and "\<And>t. lv_ep_parse v t \<noteq> None" and "lv_locator v = ''''" and "\<And>ds t. lv_config v ds t \<noteq> None"
    and "ld_adapters d = []" and "\<And>f. ls_files z f \<noteq> None" and "\<And>t. lv_conf_port v t \<noteq> None"
  shows "map_option fst (updateConfigFile tc fs v d p succ (so, z)) = Some 0"
proof -
  obtain port z' where "local_port v (lp_confFile p) z = Some (port, z')"
    using assms(6)[of "lp_confFile p"] assms(7)[of "the (ls_files z (lp_confFile p))"]
    by (auto simp: local_port_def split: option.splits)
  then show ?thesis by (simp add: updateConfigFile_def Let_def assms(5) macro_conf_ok[OF assms(1-4)])
qed

lemma take_old_conf_files: "\<And>f. ls_files z f \<noteq> None \<Longrightarrow> ls_files (take_old_conf fs v d p z) f \<noteq> None"
  by (auto simp: take_old_conf_def Let_def split: option.split)

lemma load_exec_ok:
  assumes "\<And>so z. (\<And>f. ls_files z f \<noteq> None) \<Longrightarrow>
      map_option fst (updateConfigFile tc fs v d (load_paths_of tc fs v d) succ (so, z)) = Some 0"
    and "\<And>f. ls_files z f \<noteq> None" and "\<And>f. lv_mkdir v f"
  shows "map_option fst (load_exec tc fs v d succ (s, z)) = Some 0"
proof -
  let ?p = "load_paths_of tc fs v d"
  let ?z = "note_dir (lp_confPath ?p) (note_dir (lp_libPath ?p) (note_dir (lp_exePath ?p) (take_old_conf fs v d ?p z)))"
  have "\<And>f. ls_files ?z f \<noteq> None"
    using take_old_conf_files[OF assms(2), of fs v d ?p] by (simp add: note_dir_def)
  from assms(1)[OF this, of "ob s"] obtain so' z' where u: "updateConfigFile tc fs v d ?p succ (ob s, ?z) = Some (0, so', z')"
    by auto
  show ?thesis unfolding load_exec_def Let_def prod.case u by (simp add: assms(3))
qed

lemma command_load_ok:
  assumes "\<And>s. map_option fst (load_exec tc fs v d succ (s, z)) = Some 0" and "fst (load_can e s) = EXECUTABLE"
  shows "map_option fst (command_load tc fs v e d succ (s, z)) = Some 0"
proof -
  obtain s1 where s1: "load_can e s = (EXECUTABLE, s1)" using assms(2) by (metis prod.collapse)
  moreover obtain fe s2 z2 where "load_exec tc fs v d succ (s1, z) = Some (0, fe, s2, z2)" using assms(1)[of s1] by auto
  ultimately show ?thesis by (simp add: command_load_def)
qed

lemma sample_load:
  assumes "fst (load_can e s) = EXECUTABLE"
  shows "map_option fst (command_load sample_tc sample_fs sample_load_env e sample_ld succ (s, sample_load_state)) = Some 0"
  by (intro command_load_ok load_exec_ok updateConfigFile_ok assms)
    (auto simp: sample_load_env_def sample_ld_def sample_load_state_def)

lemma can_load_running [simp]: "fst (load_can e running_node) = EXECUTABLE"
  by (simp add: load_can_def running_node_def sample_node_def sample_object_def in_transition_iff)

lemma sample_load_run_Some:
  obtains fetched s' z' where "sample_load_run running_node = Some (0, fetched, s', z')"
  using sample_load[OF can_load_running, of "sample_world (Some 0) (\<lambda>p. True)" False] unfolding sample_load_run_def by auto

lemma sample_load_run_Some_fields:
  assumes "sample_load_run running_node = Some (r, fetched, s', z')"
  shows "so_keepAliveTime (ob s') = 0 \<and> so_adapterKeepAliveTime (ob s') = [(''A'', 0), (''AdminAdapter'', 0)]"
  using command_load_run[OF assms[unfolded sample_load_run_def]]
  by (simp add: run_part_def running_node_def sample_node_def sample_object_def)

lemma sample_create:
  assumes "getServer ''App'' ''Svr'' f = Some running_node" and "sf_load f = sample_load_state"
  shows "map_option fst (createServer sample_tc sample_fs sample_load_env sample_senv 5 sample_ld succ f) = Some True"
proof -
  let ?s = "on_ob (setServerDescriptor (desc_of sample_ld) 5) running_node"
  have names: "ld_application sample_ld = ''App''" "ld_serverName sample_ld = ''Svr''" by (simp_all add: sample_ld_def)
  have "fst (load_can e ?s) = EXECUTABLE" for e
    by (simp add: load_can_def in_transition_iff setServerDescriptor_def setLastKeepAliveTime_def Let_def on_ob_def running_node_def
        sample_node_def sample_object_def desc_of_def sample_ld_def)
  from sample_load[OF this, of "sample_senv ''App'' ''Svr''" succ] show ?thesis
    by (auto simp: createServer_def names Let_def assms)
qed

lemma sample_fields [simp]: "ld_application sample_ld = ''App''" "ld_serverName sample_ld = ''Svr''" "sf_load sample_factory = sample_load_state"
  "sf_load (putServer a n s f) = sf_load f" "sf_cache (putServer a n s f) = sf_cache f" "sf_cache sample_factory = []"
  by (simp_all add: sample_ld_def sample_factory_def putServer_def)

theorem loading_keeps_processes_witness:
  "map_option (\<lambda>(r, f). map_option state_of (getServer ''App'' ''Svr'' f))
     (factory_loadServer sample_tc sample_fs sample_load_env sample_senv 5 (Some [sample_ld]) False ''App'' ''Svr'' True
       (putServer ''App'' ''Svr'' running_node sample_factory)) = Some (Some Active)"
proof -
  let ?f = "putServer ''App'' ''Svr'' running_node sample_factory"
  let ?g = "snd (getServerFromRegistry (Some [sample_ld]) ''App'' ''Svr'' ?f)"
  have "map_option fst (createServer sample_tc sample_fs sample_load_env sample_senv 5 sample_ld False ?g) = Some True"
    by (rule sample_create) (simp_all add: getServerFromRegistry_def Let_def)
  then obtain f' where l: "factory_loadServer sample_tc sample_fs sample_load_env sample_senv 5 (Some [sample_ld]) False ''App'' ''Svr'' True ?f = Some (True, f')"
    by (auto simp: factory_loadServer_def getServerFromRegistry_def Let_def)
  have "getServer ''App'' ''Svr'' ?f = Some running_node" by simp
  from loading_keeps_processes[OF l this] obtain s' where "getServer ''App'' ''Svr'' f' = Some s'" "same_process running_node s'"
    by blast
  then show ?thesis using l by (simp add: same_process_def running_node_def)
qed

theorem reload_reports_inactive_witness:
  "\<exists>r fetched s' z' rest. sample_load_run running_node = Some (r, fetched, s', z') \<and> sent s' = SyncUpdate tars_Inactive 77 # rest"
proof -
  obtain fetched s' z' where l: "sample_load_run running_node = Some (0, fetched, s', z')" by (rule sample_load_run_Some)
  have "\<exists>rest. sent s' = sent running_node @ SyncUpdate tars_Inactive (so_pid (ob running_node)) # rest"
    by (rule reload_reports_inactive[OF _ _ _ _ l[unfolded sample_load_run_def]])
      (simp_all add: running_node_def sample_node_def sample_object_def)
  then show ?thesis using l by (auto simp: running_node_def sample_node_def sample_object_def)
qed

theorem default_timeout_is_hours_witness:
  "\<exists>s'. map_option (\<lambda>(r, fe, s, z). s) (sample_load_run running_node) = Some s' \<and>
     check_zombie sample_tc sample_fs (sample_cmd (\<lambda>_. True)\<lparr>k_env := (sample_world (Some 0) (\<lambda>p. True))\<lparr>e_now := \<lambda>s. 45000\<rparr>\<rparr>) 10 s' = Some s'"
proof -
  obtain fetched s' z' where l: "sample_load_run running_node = Some (0, fetched, s', z')" by (rule sample_load_run_Some)
  have "check_zombie sample_tc sample_fs (sample_cmd (\<lambda>_. True)\<lparr>k_env := (sample_world (Some 0) (\<lambda>p. True))\<lparr>e_now := \<lambda>s. 45000\<rparr>\<rparr>) 10 s' = Some s'"
    by (rule default_timeout_is_hours[OF l[unfolded sample_load_run_def]])
      (use sample_load_run_Some_fields[OF l] in \<open>auto simp: sample_load_env_def sample_view_conf_def sample_tc_def dec_val.simps\<close>)
  then show ?thesis using l by simp
qed

theorem fresh_local_port_witness:
  "\<exists>p z'. local_port sample_load_env ''f'' (sample_load_state\<lparr>ls_files := \<lambda>f. None\<rparr>) = Some (p, z') \<and> 30000 \<le> p \<and> p \<noteq> 30002"
  using fresh_local_port[of "sample_load_state\<lparr>ls_files := \<lambda>f. None\<rparr>" "''f''" 0 3 sample_load_env]
  by (fastforce simp: sample_load_state_def sample_load_env_def)


end
