(* ===== verification/Node_Manager.thy ===== *)
theory Node_Manager
  imports Node_Factory Node_Patch
begin

text \<open>
  What other processes ask of a node: \<open>NodeServer/ServerManager.cpp\<close> (the requests of the
  administration, pushed over a connection that the node opens, and the loop that keeps these connections)
  and \<open>ServerImp.cpp\<close> (the beats and versions of the servers). Each request is composed of a load of the descriptors
  and a command on one server. The answers of the registry, the shell, the shared memory and the
  other processes are parameters.
\<close>

section \<open>The environment\<close>

record manager_env =
  mg_tc :: tc_common
  mg_fs :: tc_file
  mg_load :: loading_env
  mg_cmd :: "string \<Rightarrow> string \<Rightarrow> cmd_env"
  mg_logPath :: string
  mg_tarsPath :: string
  mg_serverLog :: "string \<Rightarrow> string \<Rightarrow> string"
  mg_serverDir :: "string \<Rightarrow> string \<Rightarrow> string"
  mg_shell :: "string \<Rightarrow> string \<times> string"
  mg_admin :: "string \<Rightarrow> string option"
  mg_images :: "string list"
  mg_ftok :: "string \<Rightarrow> int"
  mg_shmget :: "int \<Rightarrow> int option"
  mg_shmstat :: "int \<Rightarrow> int option"
  mg_shmrm :: "int \<Rightarrow> bool"

text \<open>What a load meets: the time, the answer of \<open>getServers\<close>, whether the two pings are answered.\<close>

record reg_answer =
  ra_time :: int
  ra_list :: "load_descriptor list option"
  ra_pinged :: bool

text \<open>A result: the code of a command, or a code of the interface.\<close>

datatype node_code = Ret int | Err patch_reply

definition load_server :: "manager_env \<Rightarrow> reg_answer \<Rightarrow> string \<Rightarrow> string \<Rightarrow> bool \<Rightarrow> server_factory \<Rightarrow> (bool \<times> server_factory) option" where
  "load_server w a app name enableCache f =
     factory_loadServer (mg_tc w) (mg_fs w) (mg_load w) (\<lambda>x y. k_env (mg_cmd w x y)) (ra_time a) (ra_list a) (ra_pinged a)
       app name enableCache f"

text \<open>The server whose object a successful load returns: that of the last descriptor.\<close>

definition loaded_name :: "reg_answer \<Rightarrow> string \<Rightarrow> string \<Rightarrow> bool \<Rightarrow> server_factory \<Rightarrow> string \<times> string" where
  "loaded_name a app name enableCache f =
     (let (ds, f) = getServerFromRegistry (ra_list a) app name f;
          ds = (if ds = [] \<and> enableCache then getServerFromCache app name f else ds)
      in (ld_application (last ds), ld_serverName (last ds)))"

text \<open>Runs a command on one object, which stays in the factory.\<close>

definition run_on :: "string \<Rightarrow> string \<Rightarrow> outcome \<Rightarrow> server_factory \<Rightarrow> (int \<times> server_factory) option" where
  "run_on app name out f = map_option (\<lambda>(r, s). (r, putServer app name s f)) out"

section \<open>The requests\<close>

definition manager_loadServer :: "manager_env \<Rightarrow> reg_answer \<Rightarrow> string \<Rightarrow> string \<Rightarrow> server_factory \<Rightarrow> (node_code \<times> server_factory) option" where
  "manager_loadServer w a app name f =
     map_option (\<lambda>(ok, f1). (if ok then Ret 0 else Err EM_TARS_LOAD_SERVICE_DESC_ERR, f1)) (load_server w a app name False f)"

definition manager_destroyServer :: "manager_env \<Rightarrow> string \<Rightarrow> string \<Rightarrow> server_factory \<Rightarrow> (node_code \<times> server_factory) option" where
  "manager_destroyServer w app name f =
     (case getServer app name f of
        Some s \<Rightarrow>
          map_option (\<lambda>(r, f1). if r = 0 then (Ret 0, eraseServer app name f1) else (Err EM_TARS_LOAD_SERVICE_DESC_ERR, f1))
            (run_on app name (command_destroy (mg_tc w) (mg_fs w) (mg_serverLog w app name) (mg_serverDir w app name) s) f)
      | None \<Rightarrow> Some (Err EM_TARS_LOAD_SERVICE_DESC_ERR, f))"

definition manager_startServer :: "manager_env \<Rightarrow> reg_answer \<Rightarrow> string \<Rightarrow> string \<Rightarrow> server_factory \<Rightarrow> (node_code \<times> server_factory) option" where
  "manager_startServer w a app name f =
     Option.bind (load_server w a app name True f) (\<lambda>(ok, f1).
       let (x, y) = (if ok then loaded_name a app name True f else (app, name))
       in case getServer x y f1 of
            Some s \<Rightarrow>
              if ok then map_option (\<lambda>(r, f2). (Ret r, f2)) (run_on x y (command_start (mg_tc w) (mg_fs w) (mg_cmd w x y) True s) f1)
              else Some (Err EM_TARS_LOAD_SERVICE_DESC_ERR, putServer app name (on_ob (setEnabled True) s) f1)
          | None \<Rightarrow> Some (Err EM_TARS_LOAD_SERVICE_DESC_ERR, f1))"

definition manager_stopServer :: "manager_env \<Rightarrow> reg_answer \<Rightarrow> string \<Rightarrow> string \<Rightarrow> server_factory \<Rightarrow> (node_code \<times> server_factory) option" where
  "manager_stopServer w a app name f =
     Option.bind
       (case getServer app name f of
          Some s \<Rightarrow> map_option (\<lambda>(r, f1). (Ret r, f1))
                      (run_on app name (command_stop (mg_tc w) (mg_fs w) (mg_cmd w app name) True True False s) f)
        | None \<Rightarrow> Some (Err EM_TARS_UNKNOWN_ERR, f))
       (\<lambda>(r, f1). map_option (\<lambda>(ok, f2). (if ok then r else Err EM_TARS_LOAD_SERVICE_DESC_ERR, f2)) (load_server w a app name False f1))"

text \<open>The node itself is notified through its own administration object; \<open>None\<close> is an exception.\<close>

definition manager_notifyServer :: "manager_env \<Rightarrow> string \<Rightarrow> string \<Rightarrow> string \<Rightarrow> server_factory \<Rightarrow> (node_code \<times> server_factory) option" where
  "manager_notifyServer w app name message f =
     (if app = ''tars'' \<and> name = ''tarsnode'' then Some (Ret (if mg_admin w message = None then - 1 else 0), f)
      else (case getServer app name f of
              Some s \<Rightarrow> map_option (\<lambda>(r, f1). (Ret r, f1)) (run_on app name (command_notify (mg_cmd w app name) message s) f)
            | None \<Rightarrow> Some (Ret (- 1), f)))"

text \<open>\<open>err\<close> is the text that a failed load leaves.\<close>

definition manager_patchPro ::
  "manager_env \<Rightarrow> reg_answer \<Rightarrow> string \<Rightarrow> string \<Rightarrow> string \<Rightarrow> patch_request \<Rightarrow> server_factory \<times> batch_patch \<Rightarrow>
     (patch_reply \<times> server_factory \<times> batch_patch) option" where
  "manager_patchPro w a err enableOs osType rq z =
     (let (f, q) = z; app = rq_appname rq; name = rq_servername rq
      in Option.bind (load_server w a app name True f) (\<lambda>(ok, f1).
           let (x, y) = loaded_name a app name True f
           in case (if ok then getServer x y f1 else None) of
                Some s \<Rightarrow> (let (r, s1, q1) = patchPro (k_env (mg_cmd w x y)) None enableOs osType rq (s, q)
                           in Some (r, putServer x y s1 f1, q1))
              | None \<Rightarrow> Some (if str_contains err ''server state'' then EM_TARS_SERVICE_STATE_ERR
                              else EM_TARS_LOAD_SERVICE_DESC_ERR, f1, q)))"

section \<open>Queries\<close>

record state_info =
  xi_application :: string
  xi_serverName :: string
  xi_state :: server_state
  xi_pid :: int
  xi_setting :: server_state
  xi_exState :: "(string, string) omap"

definition manager_getStateInfo :: "manager_env \<Rightarrow> string \<Rightarrow> string \<Rightarrow> server_factory \<Rightarrow> node_code \<times> state_info" where
  "manager_getStateInfo w app name f =
     (case getServer app name f of
        Some s \<Rightarrow> (Err EM_TARS_SUCCESS,
          \<lparr>xi_application = app, xi_serverName = name, xi_state = toServerState (state_of s), xi_pid = so_pid (ob s),
           xi_setting = (if so_enabled (ob s) then tars_Active else tars_Inactive),
           xi_exState = om_put ''RUN_SECONDS'' (lv_show (mg_load w) (now (k_env (mg_cmd w app name)) s - so_procStartTime (ob s)))
             (om_put ''PROC_START_TIME'' (lv_show (mg_load w) (so_procStartTime (ob s))) [])\<rparr>)
      | None \<Rightarrow> (Err EM_TARS_UNKNOWN_ERR,
          \<lparr>xi_application = '''', xi_serverName = '''', xi_state = tars_Inactive, xi_pid = - 1, xi_setting = tars_Inactive,
           xi_exState = []\<rparr>))"

definition manager_getPatchPercent :: "string \<Rightarrow> string \<Rightarrow> server_factory \<Rightarrow> node_code \<times> patch_info option" where
  "manager_getPatchPercent app name f =
     (case getServer app name f of
        Some s \<Rightarrow> (let (r, info) = getPatchPercent (ob s) in (Ret r, Some info))
      | None \<Rightarrow> (Err EM_TARS_LOAD_SERVICE_DESC_ERR, None))"

definition manager_getLogFileList :: "manager_env \<Rightarrow> string \<Rightarrow> string \<Rightarrow> string list" where
  "manager_getLogFileList w app name =
     filter (\<lambda>x. length x \<ge> 5 \<and> str_contains x ''.log'')
       (map (f_name (mg_fs w)) (f_list (mg_fs w) (mg_logPath w @ ''/'' @ app @ ''/'' @ name @ ''/'')))"

definition shell_text :: "manager_env \<Rightarrow> string \<Rightarrow> string" where
  "shell_text w cmd = (let (out, err) = mg_shell w cmd in if out = '''' then err else out)"

definition manager_getLogData :: "manager_env \<Rightarrow> string \<Rightarrow> string \<Rightarrow> string \<Rightarrow> string \<Rightarrow> int \<times> string" where
  "manager_getLogData w app name logFile cmd =
     (let filePath = mg_logPath w @ ''/'' @ app @ ''/'' @ name @ ''/'' @ logFile
      in if \<not> f_exist (mg_fs w) filePath then (- 1, '''')
         else (0, shell_text w (lv_replace (mg_load w) cmd ''__log_file_name__'' filePath)))"

text \<open>The last part assigns where the first ones append.\<close>

definition manager_getNodeLoad :: "manager_env \<Rightarrow> int \<Rightarrow> int \<times> string" where
  "manager_getNodeLoad w p =
     (let fileData = shell_text w (''top -c -bw 160 -n 1 -o '%CPU' -o '%MEM'' @ [CHR 0x27]) @ ''#global-top-end#'';
          fileData = (if p > 0
             then fileData @ [char_of (10 :: nat), char_of (10 :: nat)] @ ''#this-top-begin#'' @ replicate 100 CHR ''-'' @ [char_of (10 :: nat)] @
                    fst (mg_shell w (''top -b -n 1 -o '%CPU' -o '%MEM' -H -p '' @ lv_show (mg_load w) p)) @ ''#this-top-end#''
             else fileData);
          fileData = fileData @ [char_of (10 :: nat), char_of (10 :: nat)] @ ''#core-file-begin#'' @ replicate 100 CHR ''-'' @ [char_of (10 :: nat)];
          fileData = shell_text w (''cd '' @ mg_tarsPath w @ ''/app_log; ls -alth core.*'')
      in (0, fileData))"

text \<open>Removes the shared memory of a cache server: the result and the segment that was removed.\<close>

definition manager_delCache :: "manager_env \<Rightarrow> string \<Rightarrow> string \<Rightarrow> int \<times> int option" where
  "manager_delCache w fullName sKey =
     (let base = f_simplify (mg_fs w) (mg_tarsPath w @ ''/tarsnode/data/'' @ fullName @ ''/bin'')
      in if fullName = '''' then (- 1, None)
         else if \<not> f_is_dir (mg_fs w) base then (0, None)
         else (let key = (if sKey = '''' then mg_ftok w base else tc_strto_int (mg_tc w) sKey)
               in case mg_shmget w key of
                    None \<Rightarrow> (0, None)
                  | Some shmid \<Rightarrow>
                      (case mg_shmstat w shmid of
                         None \<Rightarrow> (- 1, None)
                       | Some nattch \<Rightarrow>
                           if nattch \<ge> 1 then (- 1, None)
                           else if mg_shmrm w shmid then (0, Some shmid) else (- 1, None))))"

definition manager_forceDockerLogin :: "manager_env \<Rightarrow> int \<times> string list" where
  "manager_forceDockerLogin w = (0, mg_images w)"

section \<open>Beats of the servers\<close>

definition with_server :: "string \<Rightarrow> string \<Rightarrow> (node_state \<Rightarrow> node_state) \<Rightarrow> server_factory \<Rightarrow> int \<times> server_factory" where
  "with_server app name g f =
     (case getServer app name f of Some s \<Rightarrow> (0, putServer app name (g s) f) | None \<Rightarrow> (- 1, f))"

definition imp_keepAlive :: "manager_env \<Rightarrow> string \<Rightarrow> string \<Rightarrow> int \<Rightarrow> string \<Rightarrow> server_factory \<Rightarrow> int \<times> server_factory" where
  "imp_keepAlive w app name p adapter f = with_server app name (keepAlive (k_env (mg_cmd w app name)) p adapter) f"

definition imp_keepActiving :: "manager_env \<Rightarrow> string \<Rightarrow> string \<Rightarrow> int \<Rightarrow> server_factory \<Rightarrow> int \<times> server_factory" where
  "imp_keepActiving w app name p f = with_server app name (keepActiving (k_env (mg_cmd w app name)) p) f"

definition imp_reportVersion :: "string \<Rightarrow> string \<Rightarrow> string \<Rightarrow> server_factory \<Rightarrow> int \<times> server_factory" where
  "imp_reportVersion app name version f = with_server app name (on_ob (\<lambda>so. so\<lparr>so_version := version\<rparr>)) f"

section \<open>The connections to the administration\<close>

text \<open>The proxies by host; \<open>None\<close> is the null proxy that \<open>operator[]\<close> inserts for a host that has none.\<close>

type_synonym admin_prxs = "(string, tars_ep option) omap"

definition add_prx :: "tars_ep \<Rightarrow> admin_prxs \<Rightarrow> admin_prxs" where
  "add_prx ep m = (if om_find m (te_host ep) = None then om_put (te_host ep) (Some ep) m else m)"

text \<open>
  One round of the loop: proxies for new hosts, those of hosts that are gone are erased, and the
  node reports itself over all others.
\<close>

definition admin_round :: "tars_ep list \<Rightarrow> admin_prxs \<Rightarrow> admin_prxs \<times> tars_ep option list" where
  "admin_round eps m =
     (let m = filter (\<lambda>e. fst e \<in> te_host ` set eps) (fold add_prx eps m) in (m, map snd m))"

text \<open>The time to the next round, in milliseconds.\<close>

definition round_wait :: "int \<Rightarrow> int \<Rightarrow> int" where
  "round_wait start finish = (let diff = 10000 - (finish - start) in if diff > 0 then min diff 10000 else 0)"

text \<open>The answer of a callback goes over the proxy stored under the name that the request carries.\<close>

definition reply_over :: "string \<Rightarrow> admin_prxs \<Rightarrow> tars_ep option \<times> admin_prxs" where
  "reply_over nodeName m =
     (case om_find m nodeName of Some p \<Rightarrow> (p, m) | None \<Rightarrow> (None, om_put nodeName None m))"

datatype push =
    PushStart string string
  | PushStop string string
  | PushLoad string string
  | PushDestroy string string
  | PushNotify string string string

text \<open>The requests that change a server, as they arrive over a connection.\<close>

fun push_step :: "manager_env \<Rightarrow> push \<times> reg_answer \<Rightarrow> server_factory \<Rightarrow> (node_code \<times> server_factory) option" where
  "push_step w (PushStart app name, a) f = manager_startServer w a app name f"
| "push_step w (PushStop app name, a) f = manager_stopServer w a app name f"
| "push_step w (PushLoad app name, a) f = manager_loadServer w a app name f"
| "push_step w (PushDestroy app name, a) f = manager_destroyServer w app name f"
| "push_step w (PushNotify app name msg, a) f = manager_notifyServer w app name msg f"


fun push_run :: "manager_env \<Rightarrow> (push \<times> reg_answer) list \<Rightarrow> server_factory \<Rightarrow> server_factory option" where
  "push_run w [] f = Some f"
| "push_run w (p # ps) f = Option.bind (push_step w p f) (\<lambda>(r, f). push_run w ps f)"

section \<open>Loads in the factory\<close>

text \<open>The shared map holds every descriptor under its own name.\<close>

definition entries_ok :: "((string \<times> string) \<times> load_descriptor) list \<Rightarrow> bool" where
  "entries_ok c \<longleftrightarrow> (\<forall>(k, d) \<in> set c. k = (ld_application d, ld_serverName d))"

definition cache_ok :: "server_factory \<Rightarrow> bool" where
  "cache_ok f \<longleftrightarrow> entries_ok (sf_cache f)"

lemma entries_ok_set: "entries_ok c \<Longrightarrow> entries_ok (fold (\<lambda>d. hm_set (ld_application d, ld_serverName d) d) ds c)"
proof (induction ds arbitrary: c)
  case (Cons d ds)
  have "entries_ok (hm_set (ld_application d, ld_serverName d) d c)" using Cons.prems by (auto simp: hm_set_def entries_ok_def)
  with Cons.IH show ?case by simp
qed simp

lemma registry_cache_ok: "cache_ok f \<Longrightarrow> cache_ok (snd (getServerFromRegistry ans app name f))"
  using entries_ok_set[of "[]"] entries_ok_set[of "sf_cache f"]
  by (auto simp: cache_ok_def getServerFromRegistry_def Let_def entries_ok_def[of "[]"] split: option.split)

lemma load_server_keeps:
  "load_server w a app name c f = Some (ok, f') \<Longrightarrow> getServer x n f = Some s \<Longrightarrow>
     \<exists>s'. getServer x n f' = Some s' \<and> same_process s s'"
  unfolding load_server_def by (rule factory_load_keeps)

lemma load_server_cache:
  assumes "load_server w a app name c f = Some (ok, f')" and "cache_ok f"
  shows "cache_ok f'"
proof -
  obtain ds f1 where g: "getServerFromRegistry (ra_list a) app name f = (ds, f1)" by (metis surj_pair)
  then have "cache_ok f1" using registry_cache_ok[OF assms(2), of "ra_list a" app name] by simp
  moreover have "sf_cache f' = sf_cache f1"
    using assms(1) create_all_cache unfolding load_server_def factory_loadServer_def g Let_def by (auto split: if_splits)
  ultimately show ?thesis by (simp add: cache_ok_def)
qed

lemma run_on_Some: "run_on app name out f = Some (r, f') \<longleftrightarrow> (\<exists>s. out = Some (r, s) \<and> f' = putServer app name s f)"
  by (auto simp: run_on_def)

lemma cache_ok_put [simp]: "cache_ok (putServer a n s f) = cache_ok f"
  by (simp add: cache_ok_def putServer_def)

lemma eraseServer_cache [simp]: "sf_cache (eraseServer a n f) = sf_cache f"
  by (simp add: eraseServer_def split: option.split)

lemma cache_ok_erase [simp]: "cache_ok (eraseServer a n f) = cache_ok f"
  by (simp add: cache_ok_def)

lemma getServer_erase [simp]:
  "getServer a n (eraseServer app name f) = (if a = app \<and> n = name then None else getServer a n f)"
proof (cases "om_find (sf_mmServerList f) app")
  case None
  then show ?thesis by (auto simp: eraseServer_def getServer_def)
next
  case (Some g)
  have "om_find g n = None" if "om_erase name g = []" "n \<noteq> name"
  proof -
    have "om_find (om_erase name g) n = om_find g n" using that(2) by simp
    then show ?thesis using that(1) by simp
  qed
  with Some show ?thesis by (auto simp: eraseServer_def getServer_def)
qed


section \<open>One request at a time\<close>

fun push_name :: "push \<Rightarrow> string \<times> string" where
  "push_name (PushStart app name) = (app, name)"
| "push_name (PushStop app name) = (app, name)"
| "push_name (PushLoad app name) = (app, name)"
| "push_name (PushDestroy app name) = (app, name)"
| "push_name (PushNotify app name msg) = (app, name)"

text \<open>The registry describes the server that it was asked for, and a start names one server.\<close>

definition proper_push :: "push \<times> reg_answer \<Rightarrow> bool" where
  "proper_push p \<longleftrightarrow> (case fst p of
      PushStart app name \<Rightarrow> app \<noteq> '''' \<and> name \<noteq> '''' \<and>
        (\<forall>ds. ra_list (snd p) = Some ds \<longrightarrow> (\<forall>d \<in> set ds. ld_application d = app \<and> ld_serverName d = name))
    | _ \<Rightarrow> True)"

lemma loaded_name_asked:
  assumes "load_server w a app name True f = Some (True, f')" and "app \<noteq> ''''" and "name \<noteq> ''''" and "cache_ok f"
    and "\<And>ds d. ra_list a = Some ds \<Longrightarrow> d \<in> set ds \<Longrightarrow> ld_application d = app \<and> ld_serverName d = name"
  shows "loaded_name a app name True f = (app, name)"
proof -
  obtain ds f1 where g: "getServerFromRegistry (ra_list a) app name f = (ds, f1)" by (metis surj_pair)
  define es where "es = (if ds = [] then getServerFromCache app name f1 else ds)"
  have "es \<noteq> []" using assms(1) unfolding load_server_def factory_loadServer_def g Let_def es_def by (auto split: if_splits)
  then have last: "last es \<in> set es" by simp
  have c: "entries_ok (sf_cache f1)" using registry_cache_ok[OF assms(4), of "ra_list a" app name] g by (simp add: cache_ok_def)
  have "ld_application d = app \<and> ld_serverName d = name" if "d \<in> set es" for d
  proof (cases "ds = []")
    case True
    then have "map_of (sf_cache f1) (app, name) = Some d"
      using that assms(2,3) by (auto simp: es_def getServerFromCache_def split: option.splits)
    then show ?thesis using c by (auto simp: entries_ok_def dest: map_of_SomeD)
  next
    case False
    then have "ra_list a = Some ds" using g by (auto simp: getServerFromRegistry_def Let_def split: option.splits)
    with that False assms(5)[of ds d] show ?thesis by (simp add: es_def)
  qed
  with last show ?thesis by (simp add: loaded_name_def g es_def Let_def)
qed

lemma put_other: "(a, n) \<noteq> (x, y) \<Longrightarrow> getServer a n (putServer x y s f) = getServer a n f"
  by auto

lemma start_spares:
  assumes "manager_startServer w a app name f = Some (r, f')" and "proper_push (PushStart app name, a)" and "cache_ok f"
    and "(x, y) \<noteq> (app, name)" and "getServer x y f = Some s"
  shows "cache_ok f' \<and> (\<exists>s'. getServer x y f' = Some s' \<and> same_process s s')"
proof -
  obtain ok f1 where l: "load_server w a app name True f = Some (ok, f1)"
    using assms(1) by (auto simp: manager_startServer_def bind_eq_Some_conv)
  obtain s1 where s1: "getServer x y f1 = Some s1" "same_process s s1" using load_server_keeps[OF l assms(5)] by blast
  have "loaded_name a app name True f = (app, name)" if ok
    by (rule loaded_name_asked) (use that l assms(2,3) in \<open>auto simp: proper_push_def\<close>)
  then have n: "(if ok then loaded_name a app name True f else (app, name)) = (app, name)" by simp
  have "f' = f1 \<or> (\<exists>t. f' = putServer app name t f1)"
    using assms(1) unfolding manager_startServer_def l
    by (auto simp: n run_on_Some split: option.splits if_splits)
  then show ?thesis using s1 assms(4) load_server_cache[OF l assms(3)] by (auto simp: put_other)
qed

lemma stop_spares:
  assumes "manager_stopServer w a app name f = Some (r, f')" and "cache_ok f"
    and "(x, y) \<noteq> (app, name)" and "getServer x y f = Some s"
  shows "cache_ok f' \<and> (\<exists>s'. getServer x y f' = Some s' \<and> same_process s s')"
proof -
  obtain r1 f1 ok where l: "load_server w a app name False f1 = Some (ok, f')"
    and f1: "f1 = f \<or> (\<exists>t. f1 = putServer app name t f)"
    using assms(1) by (auto simp: manager_stopServer_def bind_eq_Some_conv run_on_Some split: option.splits)
  have "getServer x y f1 = Some s" "cache_ok f1" using f1 assms(2-4) by (auto simp: put_other)
  with load_server_keeps[OF l] load_server_cache[OF l] show ?thesis by blast
qed

lemma push_spares:
  assumes "push_step w p f = Some (r, f')" and "proper_push p" and "cache_ok f"
    and "(x, y) \<noteq> push_name (fst p)" and "getServer x y f = Some s"
  shows "cache_ok f' \<and> (\<exists>s'. getServer x y f' = Some s' \<and> same_process s s')"
proof -
  obtain q a where p: "p = (q, a)" by (cases p)
  show ?thesis
  proof (cases q)
    case (PushStart app name)
    with start_spares[of w a app name f r f' x y s] assms p show ?thesis by simp
  next
    case (PushStop app name)
    with stop_spares[of w a app name f r f' x y s] assms p show ?thesis by simp
  next
    case (PushLoad app name)
    then obtain ok where "load_server w a app name False f = Some (ok, f')"
      using assms(1) p by (auto simp: manager_loadServer_def)
    with load_server_keeps load_server_cache assms(3,5) show ?thesis by blast
  next
    case (PushDestroy app name)
    then have "f' = f \<or> (\<exists>t. f' = putServer app name t f \<or> f' = eraseServer app name (putServer app name t f))"
      using assms(1) p by (auto simp: manager_destroyServer_def run_on_Some split: option.splits if_splits)
    with assms(3-5) p PushDestroy show ?thesis by auto
  next
    case (PushNotify app name msg)
    then have "f' = f \<or> (\<exists>t. f' = putServer app name t f)"
      using assms(1) p by (auto simp: manager_notifyServer_def run_on_Some split: option.splits if_splits)
    with assms(3-5) p PushNotify show ?thesis by auto
  qed
qed




section \<open>Stops and starts\<close>

lemma reload_enabled:
  assumes "createServer tc fs v E t d succ f = Some (ok, f')" and "getServer (ld_application d) (ld_serverName d) f = Some s"
  shows "\<exists>s'. getServer (ld_application d) (ld_serverName d) f' = Some s' \<and> (so_enabled (ob s') \<longleftrightarrow> ld_settingState d = ''active'')"
proof -
  let ?s1 = "on_ob (setServerDescriptor (desc_of d) t) s"
  obtain r fe s2 z2 where c: "command_load tc fs v (E (ld_application d) (ld_serverName d)) d succ (?s1, sf_load f) = Some (r, fe, s2, z2)"
    and f': "f' = putServer (ld_application d) (ld_serverName d) s2 (keepDesc d (f\<lparr>sf_load := z2\<rparr>))"
    using assms by (auto simp: createServer_def Let_def)
  have "so_enabled (ob s2) = so_enabled (ob ?s1)" using command_load_run[OF c] by (simp add: run_part_def)
  also have "\<dots> = (ld_settingState d = ''active'')"
    by (simp add: setServerDescriptor_def setLastKeepAliveTime_def Let_def desc_of_def)
  finally show ?thesis by (simp add: f')
qed

text \<open>
  Fact (stop_follows_registry). A request to stop disables the server and then loads its descriptor
  again: afterwards the server is enabled exactly if the registry answers with the setting active, so a
  stop that the registry does not know of is undone by the next check, and disabled when the registry is silent.
\<close>

theorem stop_follows_registry:
  assumes "manager_stopServer w a app name f = Some (r, f')" and "getServer app name f = Some s"
    and "\<And>ds. ra_list a = Some ds \<Longrightarrow> \<exists>d. ds = [d] \<and> ld_application d = app \<and> ld_serverName d = name"
  shows "\<exists>s'. getServer app name f' = Some s' \<and>
     (so_enabled (ob s') \<longleftrightarrow> (\<exists>d. ra_list a = Some [d] \<and> ld_settingState d = ''active''))"
proof -
  obtain r1 f1 ok s1 where l: "load_server w a app name False f1 = Some (ok, f')"
    and stop: "command_stop (mg_tc w) (mg_fs w) (mg_cmd w app name) True True False s = Some (r1, s1)" "f1 = putServer app name s1 f"
    using assms(1,2) by (auto simp: manager_stopServer_def bind_eq_Some_conv run_on_Some)
  have dis: "\<not> so_enabled (ob s1)" using command_stop_outcome[OF stop(1)] by simp
  show ?thesis
  proof (cases "ra_list a")
    case None
    then have "f' = f1" using l by (simp add: load_server_def factory_loadServer_def getServerFromRegistry_def)
    with stop(2) dis None show ?thesis by simp
  next
    case (Some ds)
    then obtain d where d: "ds = [d]" "ld_application d = app" "ld_serverName d = name" using assms(3) by blast
    define f2 where "f2 = snd (getServerFromRegistry (Some ds) app name f1)"
    have c: "createServer (mg_tc w) (mg_fs w) (mg_load w) (\<lambda>x y. k_env (mg_cmd w x y)) (ra_time a) d (ra_pinged a) f2 = Some (ok, f')"
      using l unfolding load_server_def factory_loadServer_def f2_def Some
      by (simp add: getServerFromRegistry_def d(1) Let_def bind_eq_Some_conv split: if_splits)
    have "getServer app name f2 = Some s1" by (simp add: f2_def stop(2) getServerFromRegistry_def Let_def)
    from reload_enabled[OF c, unfolded d(2,3), OF this] show ?thesis by (simp add: Some d(1))
  qed
qed

text \<open>
  Fact (refused_start_enables). A request to start a server that the node has, while neither the registry nor
  the shared map describes it, is answered with an error, and enables the server all the same: the next check
  may start it.
\<close>

theorem refused_start_enables:
  assumes "ra_list a = None" and "map_of (sf_cache f) (app, name) = None" and "app \<noteq> ''''" and "name \<noteq> ''''"
    and "getServer app name f = Some s" and "\<not> in_transition (state_of s)" and "so_loaded (ob s)" and "so_patched (ob s)"
    and "\<not> isActivatingLimited t (so_activator (ob s))"
  shows "\<exists>f' s'. manager_startServer w a app name f = Some (Err EM_TARS_LOAD_SERVICE_DESC_ERR, f') \<and>
     getServer app name f' = Some s' \<and> same_process s s' \<and> isAutoStart t (ob s')"
proof -
  have "load_server w a app name True f = Some (False, f)"
    using assms(1-4) by (simp add: load_server_def factory_loadServer_def getServerFromRegistry_def getServerFromCache_def)
  then show ?thesis
    using assms(5-9) by (simp add: manager_startServer_def same_process_def isAutoStart_def setEnabled_def in_transition_def)
qed

text \<open>
  Fact (destroy_needs_rest). A request to destroy a server answers 0 exactly when the node has the
  server and it is Inactive, and then the server is gone; otherwise every server stays as it is, and the answer is
  always the same code, whatever the reason.
\<close>

theorem destroy_needs_rest:
  assumes "manager_destroyServer w app name f = Some (r, f')"
  shows "(case getServer app name f of
      Some s \<Rightarrow> if state_of s = Inactive then r = Ret 0 \<and> getServer app name f' = None
                else r = Err EM_TARS_LOAD_SERVICE_DESC_ERR \<and> getServer app name f' = Some s
    | None \<Rightarrow> r = Err EM_TARS_LOAD_SERVICE_DESC_ERR \<and> f' = f)"
  using assms by (auto simp: manager_destroyServer_def run_on_Some command_destroy_def doProcess_def destroy_can_def destroy_exec_def
      Let_def split: option.splits if_splits)

section \<open>The connections\<close>

lemma om_find_filter: "om_find (filter (\<lambda>e. fst e \<in> S) m) k = (if k \<in> S then om_find m k else None)"
  by (induction m) auto

lemma add_prx_find: "om_find (fold add_prx eps m) h =
    (case om_find m h of Some p \<Rightarrow> Some p | None \<Rightarrow> map_option Some (find (\<lambda>ep. te_host ep = h) eps))"
proof (induction eps arbitrary: m)
  case (Cons ep eps)
  show ?case unfolding fold_Cons o_def Cons.IH by (auto simp: add_prx_def split: option.splits)
qed (simp split: option.split)

lemma find_host: "h \<in> te_host ` set eps \<longleftrightarrow> find (\<lambda>ep. te_host ep = h) eps \<noteq> None"
  by (auto simp: find_None_iff2 find_None_iff)

text \<open>
  Fact (round_connects). After a round there is a proxy for every host of the administration that the locator
  lists, for the first of its endpoints unless the host had one before, and for no other host; a request that
  carries the name of such a host is answered over its proxy.
\<close>

theorem round_connects:
  assumes "h \<in> te_host ` set eps" and "om_find m h = None"
  shows "\<exists>ep. find (\<lambda>ep. te_host ep = h) eps = Some ep \<and>
     reply_over h (fst (admin_round eps m)) = (Some ep, fst (admin_round eps m)) \<and>
     Some ep \<in> set (snd (admin_round eps m)) \<and>
     (\<forall>x. om_find (fst (admin_round eps m)) x \<noteq> None \<longrightarrow> x \<in> te_host ` set eps)"
proof -
  obtain ep where ep: "find (\<lambda>ep. te_host ep = h) eps = Some ep" using assms(1) find_host by blast
  have f: "om_find (fst (admin_round eps m)) x =
      (if x \<in> te_host ` set eps then om_find (fold add_prx eps m) x else None)" for x
    by (simp add: admin_round_def Let_def om_find_filter)
  have h: "om_find (fst (admin_round eps m)) h = Some (Some ep)"
    unfolding f add_prx_find using assms ep by simp
  then have "(h, Some ep) \<in> set (fst (admin_round eps m))" by (rule map_of_SomeD)
  then have "Some ep \<in> set (snd (admin_round eps m))" by (force simp: admin_round_def Let_def)
  with ep h f show ?thesis by (auto simp: reply_over_def split: if_splits)
qed

text \<open>
  Fact (null_proxy_stays). A request that carries a host without a proxy is not answered and leaves a null
  proxy, which the following rounds keep as long as the locator lists the host: no request that carries
  this host is ever answered.
\<close>

theorem null_proxy_stays:
  assumes "om_find m h = None" and "\<And>eps. eps \<in> set rounds \<Longrightarrow> h \<in> te_host ` set eps"
  shows "fst (reply_over h m) = None \<and>
     fst (reply_over h (fold (\<lambda>eps m. fst (admin_round eps m)) rounds (snd (reply_over h m)))) = None"
proof -
  have step: "om_find (fst (admin_round eps m)) h = Some None" if "om_find m h = Some None" "h \<in> te_host ` set eps" for eps and m :: admin_prxs
    using that by (simp add: admin_round_def Let_def om_find_filter add_prx_find)
  have "om_find (fold (\<lambda>eps m. fst (admin_round eps m)) rounds m') h = Some None"
    if "om_find m' h = Some None" "\<And>eps. eps \<in> set rounds \<Longrightarrow> h \<in> te_host ` set eps" for m'
    using that by (induction rounds arbitrary: m') (auto simp: step)
  from this[of "snd (reply_over h m)"] show ?thesis using assms by (auto simp: reply_over_def)
qed

text \<open>
  Fact (node_load_is_core_list). The load of a node is answered with the list of its core files
  alone: the last part overwrites the two tables of \<open>top\<close>.
\<close>

theorem node_load_is_core_list:
  "manager_getNodeLoad w p = (0, shell_text w (''cd '' @ mg_tarsPath w @ ''/app_log; ls -alth core.*''))"
  by (simp add: manager_getNodeLoad_def Let_def)



section \<open>Examples\<close>

definition sample_manager :: manager_env where
  "sample_manager = \<lparr>mg_tc = sample_tc, mg_fs = sample_fs, mg_load = sample_load_env, mg_cmd = (\<lambda>a n. sample_cmd (\<lambda>p. True)),
     mg_logPath = ''/log'', mg_tarsPath = ''/tars'', mg_serverLog = (\<lambda>a n. ''''), mg_serverDir = (\<lambda>a n. ''''), mg_shell = (\<lambda>c. (c, '''')),
     mg_admin = (\<lambda>m. None), mg_images = [], mg_ftok = (\<lambda>p. 0), mg_shmget = (\<lambda>k. None), mg_shmstat = (\<lambda>i. None), mg_shmrm = (\<lambda>i. False)\<rparr>"

definition silent_registry :: reg_answer where
  "silent_registry = \<lparr>ra_time = 5, ra_list = None, ra_pinged = False\<rparr>"

lemma sample_putServer [simp]: "getServer ''App'' ''Svr'' sample_factory = Some sample_node"
  by (simp add: sample_factory_def getServer_def)

lemma sample_cache_ok: "cache_ok sample_factory"
  by (simp add: cache_ok_def entries_ok_def)


theorem stop_follows_registry_witness:
  "map_option (\<lambda>(r, f). map_option (so_enabled \<circ> ob) (getServer ''App'' ''Svr'' f))
     (manager_stopServer sample_manager silent_registry ''App'' ''Svr'' (putServer ''App'' ''Svr'' sample_node sample_factory))
   = Some (Some False)"
proof -
  let ?f = "putServer ''App'' ''Svr'' sample_node sample_factory"
  have "state_of sample_node = Inactive" by (simp add: sample_node_def sample_object_def)
  then have "command_stop tc fs k True True False sample_node = Some (0, snd (stop_can (k_env k) True sample_node))" for tc fs k
    by (simp add: command_stop_def stop_can_def doProcess_def Let_def)
  then obtain r f' where r: "manager_stopServer sample_manager silent_registry ''App'' ''Svr'' ?f = Some (r, f')"
    by (simp add: manager_stopServer_def run_on_def load_server_def factory_loadServer_def getServerFromRegistry_def silent_registry_def)
  have "\<exists>s'. getServer ''App'' ''Svr'' f' = Some s' \<and>
     (so_enabled (ob s') \<longleftrightarrow> (\<exists>d. ra_list silent_registry = Some [d] \<and> ld_settingState d = ''active''))"
    by (rule stop_follows_registry[OF r]) (simp_all add: silent_registry_def)
  then show ?thesis using r by (auto simp: silent_registry_def)
qed

theorem refused_start_enables_witness:
  "map_option (\<lambda>(r, f). (r, map_option (so_enabled \<circ> ob) (getServer ''App'' ''Svr'' f)))
     (manager_startServer sample_manager silent_registry ''App'' ''Svr''
       (putServer ''App'' ''Svr'' (on_ob (setEnabled False \<circ> setLoaded True) sample_node) sample_factory))
   = Some (Err EM_TARS_LOAD_SERVICE_DESC_ERR, Some True)"
proof -
  let ?s = "on_ob (setEnabled False \<circ> setLoaded True) sample_node"
  let ?f = "putServer ''App'' ''Svr'' ?s sample_factory"
  have "\<exists>f' s'. manager_startServer sample_manager silent_registry ''App'' ''Svr'' ?f = Some (Err EM_TARS_LOAD_SERVICE_DESC_ERR, f') \<and>
     getServer ''App'' ''Svr'' f' = Some s' \<and> same_process ?s s' \<and> isAutoStart 100 (ob s')"
    by (rule refused_start_enables)
      (simp_all add: silent_registry_def sample_node_def sample_object_def in_transition_iff isActivatingLimited_def new_activator_def
        on_ob_def setEnabled_def setLoaded_def clearRunntimeData_def)
  then obtain f' s' where f': "manager_startServer sample_manager silent_registry ''App'' ''Svr'' ?f = Some (Err EM_TARS_LOAD_SERVICE_DESC_ERR, f')"
     "getServer ''App'' ''Svr'' f' = Some s'" "isAutoStart 100 (ob s')" by auto
  then show ?thesis using auto_start_enabled[of 100 "ob s'"] by simp
qed

theorem round_connects_witness:
  "fst (reply_over ''10.0.0.1'' (fst (admin_round [sample_ep, sample_ep\<lparr>te_port := 2\<rparr>] []))) = Some sample_ep"
  using round_connects[of "''10.0.0.1''" "[sample_ep, sample_ep\<lparr>te_port := 2\<rparr>]" "[]"] by (auto simp: sample_ep_def)

theorem null_proxy_stays_witness:
  "fst (reply_over ''10.0.0.1'' (fst (admin_round [sample_ep] (snd (reply_over ''10.0.0.1'' []))))) = None"
  using null_proxy_stays[of "[]" "''10.0.0.1''" "[[sample_ep]]"] by (simp add: sample_ep_def)


end
