(* ===== verification/Reg_Descr.thy ===== *)
theory Reg_Descr
  imports Node_Manager
begin

text \<open>
  \<open>RegistryServer\<close>, part 6: the descriptors of the servers that the nodes ask for. \<open>DbHandle.cpp\<close> joins
  the rows of servers and adapters, resolves the profile templates through their parents and takes the
  base image from the thread of \<open>DockerThread.cpp\<close>; \<open>RegistryImp.cpp\<close> hands them out. The class
  \<open>TC_Config\<close> is a parameter, as are the docker engine and the comparison of the database.
\<close>

section \<open>Configuration texts\<close>

text \<open>\<open>'c\<close> is a parsed configuration; \<open>Inl\<close> is the text of a \<open>TC_Config_Exception\<close>.\<close>

record 'c config_lib =
  tcf_parse :: "string \<Rightarrow> string + 'c"
  tcf_join :: "'c \<Rightarrow> 'c \<Rightarrow> bool \<Rightarrow> 'c"
  tcf_tostr :: "'c \<Rightarrow> string"
  tcf_get :: "'c \<Rightarrow> string \<Rightarrow> string \<Rightarrow> string"

section \<open>Profile templates\<close>

record template_row =
  tp_name :: string
  tp_parents :: string
  tp_profile :: string

text \<open>The query by name: the rows, or the text of an exception.\<close>

type_synonym template_query = "string \<Rightarrow> string + template_row list"

definition desc_note :: "string \<Rightarrow> string \<Rightarrow> string" where
  "desc_note name x = ''('' @ name @ '':'' @ x @ '')''"

text \<open>
  The recursion over the parents. \<open>seen\<close> are the keys of \<open>mapRecursion\<close>, \<open>desc\<close> is the result text; both are
  shared by the calls. An exception of the query or of a configuration ends the call it occurs in with an empty
  text. \<open>None\<close> means that the recursion does not end.
\<close>

partial_function (option) profile_from ::
  "'c config_lib \<Rightarrow> template_query \<Rightarrow> string \<Rightarrow> string list \<Rightarrow> string \<Rightarrow> (string \<times> string list \<times> string) option" where
  "profile_from lib q name seen desc =
     (case q name of
        Inl what \<Rightarrow> Some ('''', seen, desc @ desc_note name what)
      | Inr [] \<Rightarrow> Some ('''', seen, desc @ desc_note name ''template not found'')
      | Inr (row # rows) \<Rightarrow>
          (case tcf_parse lib (tp_profile row) of
             Inl what \<Rightarrow> Some ('''', seen, desc @ desc_note name what)
           | Inr confMyself \<Rightarrow>
               (if tp_parents row \<noteq> '''' \<and> tp_parents row \<notin> set (List.insert (tp_name row) seen) then
                  Option.bind (profile_from lib q (tp_parents row) (List.insert (tp_name row) seen) desc) (\<lambda>(text, seen', desc').
                    (case tcf_parse lib text of
                       Inl what \<Rightarrow> Some ('''', seen', desc' @ desc_note name what)
                     | Inr confParents \<Rightarrow>
                         Some (tcf_tostr lib (tcf_join lib confMyself confParents False), seen', desc' @ desc_note name ''OK'')))
                else Some (tcf_tostr lib confMyself, List.insert (tp_name row) seen, desc @ desc_note name ''OK''))))"

definition getProfileTemplate :: "'c config_lib \<Rightarrow> template_query \<Rightarrow> string \<Rightarrow> (string \<times> string) option" where
  "getProfileTemplate lib q name = map_option (\<lambda>(text, seen, desc). (text, desc)) (profile_from lib q name [] '''')"

text \<open>The table under a comparison of names.\<close>

definition template_query_of :: "(string \<Rightarrow> string \<Rightarrow> bool) \<Rightarrow> template_row list \<Rightarrow> template_query" where
  "template_query_of eq tbl name = Inr (filter (\<lambda>r. eq (tp_name r) name) tbl)"

section \<open>Base images\<close>

record base_image =
  bi_id :: string
  bi_image :: string
  bi_registryId :: string
  bi_sha :: string

record docker_registry =
  dr_id :: string
  dr_registry :: string
  dr_user :: string
  dr_password :: string
  dr_succ :: bool
  dr_images :: "base_image list"

record image_row = base_image +
  im_result :: string

record docker_tables =
  dt_registries :: "(string \<times> string \<times> string \<times> string) list"
  dt_images :: "image_row list"

definition loadDockerInfo :: "(nat \<Rightarrow> bool) \<Rightarrow> docker_tables \<Rightarrow> int \<times> (string, docker_registry) omap" where
  "loadDockerInfo fails db =
     (if fails 0 then (- 1, [])
      else
        let info = fold (\<lambda>(i, reg, user, pwd). om_put i \<lparr> dr_id = i, dr_registry = reg, dr_user = user, dr_password = pwd,
                       dr_succ = False, dr_images = [] \<rparr>) (dt_registries db) []
        in if fails 1 then (- 1, info)
           else (0, fold (\<lambda>r info. (case om_find info (bi_registryId r) of
                       None \<Rightarrow> info
                     | Some d \<Rightarrow> om_put (bi_registryId r) (d\<lparr> dr_images := dr_images d @ [base_image.truncate r] \<rparr>) info))
                   (dt_images db) info))"

definition updateBaseImageSha :: "bool \<Rightarrow> string \<Rightarrow> string \<Rightarrow> docker_tables \<Rightarrow> int \<times> docker_tables" where
  "updateBaseImageSha fail i sha db =
     (if fail then (- 1, db)
      else (0, db\<lparr> dt_images := map (\<lambda>r. if bi_id r = i then r\<lparr> bi_sha := sha \<rparr> else r) (dt_images db) \<rparr>))"

definition updateBaseImageResult :: "bool \<Rightarrow> string \<Rightarrow> string \<Rightarrow> docker_tables \<Rightarrow> int \<times> docker_tables" where
  "updateBaseImageResult fail i result db =
     (if fail then (- 1, db)
      else (0, db\<lparr> dt_images := map (\<lambda>r. if bi_id r = i then r\<lparr> im_result := result \<rparr> else r) (dt_images db) \<rparr>))"

record docker_thread =
  dk_registries :: "(string, docker_registry) omap"
  dk_images :: "(string, string \<times> string) omap"

text \<open>The load; \<open>_baseImages\<close> is only added to.\<close>

definition loadDockerRegistry :: "(nat \<Rightarrow> bool) \<Rightarrow> docker_tables \<Rightarrow> docker_thread \<Rightarrow> docker_thread" where
  "loadDockerRegistry fails db d =
     (let (ret, rii) = loadDockerInfo fails db
      in if ret = 0
         then d\<lparr> dk_registries := rii,
                 dk_images := fold (\<lambda>(i, dr) m. fold (\<lambda>e. om_put (bi_id e) (bi_image e, bi_sha e)) (dr_images dr) m) rii (dk_images d) \<rparr>
         else d)"

definition getBaseImageById :: "(nat \<Rightarrow> bool) \<Rightarrow> docker_tables \<Rightarrow> string \<Rightarrow> docker_thread \<Rightarrow> (string \<times> string) \<times> docker_thread" where
  "getBaseImageById fails db i d =
     (case om_find (dk_images d) i of
        Some x \<Rightarrow> (x, d)
      | None \<Rightarrow> (let d = loadDockerRegistry fails db d
                 in (case om_find (dk_images d) i of Some x \<Rightarrow> x | None \<Rightarrow> ('''', ''''), d)))"

fun find_image :: "string \<Rightarrow> (string, docker_registry) omap \<Rightarrow> (docker_registry \<times> base_image) option" where
  "find_image i [] = None"
| "find_image i ((k, dr) # m) =
     (case find (\<lambda>b. bi_id b = i) (dr_images dr) of Some b \<Rightarrow> Some (dr, b) | None \<Rightarrow> find_image i m)"

definition findBaseImage :: "string \<Rightarrow> docker_thread \<Rightarrow> (docker_registry \<times> base_image) option" where
  "findBaseImage i d = find_image i (dk_registries d)"

text \<open>The pull runs in a thread of its own; here it is what the call starts.\<close>

definition docker_dockerPull ::
  "(nat \<Rightarrow> bool) \<Rightarrow> docker_tables \<Rightarrow> string \<Rightarrow> docker_thread \<Rightarrow> int \<times> (docker_registry \<times> base_image) option \<times> docker_thread" where
  "docker_dockerPull fails db i d =
     (let found = findBaseImage i d;
          d = loadDockerRegistry fails db d;
          found = (case found of None \<Rightarrow> findBaseImage i d | Some x \<Rightarrow> Some x)
      in case found of Some x \<Rightarrow> (0, Some x, d) | None \<Rightarrow> (- 1, None, d))"

text \<open>
  The docker engine: pulling an image with the credentials of a registry gives an error text or nothing, inspecting it an
  error text or its digest.
\<close>

record docker_engine =
  de_pull :: "docker_registry \<Rightarrow> string \<Rightarrow> string option"
  de_inspect :: "string \<Rightarrow> string + string"

definition doPull ::
  "docker_engine \<Rightarrow> (nat \<Rightarrow> bool) \<Rightarrow> string \<Rightarrow> docker_registry \<Rightarrow> base_image \<Rightarrow> docker_thread \<times> docker_tables \<Rightarrow>
     string \<times> docker_thread \<times> docker_tables" where
  "doPull e fails stamp dr b x =
     (let (d, db) = x;
          (result, d, db) =
            (case de_pull e dr (bi_image b) of
               Some err \<Rightarrow> (err, d, db)
             | None \<Rightarrow>
                 (case de_inspect e (bi_image b) of
                    Inl err \<Rightarrow> (err, d, db)
                  | Inr sha \<Rightarrow> (stamp @ '' - '' @ ''succ'', d\<lparr> dk_images := om_put (bi_id b) (bi_image b, sha) (dk_images d) \<rparr>,
                                 snd (updateBaseImageSha (fails 0) (bi_id b) sha db))))
      in (result, d, snd (updateBaseImageResult (fails 1) (bi_id b) result db)))"

definition pull_needed :: "docker_engine \<Rightarrow> base_image \<Rightarrow> bool" where
  "pull_needed e b \<longleftrightarrow> de_inspect e (bi_image b) \<noteq> Inr (bi_sha b) \<or> bi_sha b = ''''"

definition checkPullDocker ::
  "docker_engine \<Rightarrow> (string \<Rightarrow> nat \<Rightarrow> bool) \<Rightarrow> string \<Rightarrow> docker_thread \<times> docker_tables \<Rightarrow> docker_thread \<times> docker_tables" where
  "checkPullDocker e fails stamp x =
     fold (\<lambda>(k, dr) x. fold (\<lambda>b x. if pull_needed e b then snd (doPull e (fails (bi_id b)) stamp dr b x) else x) (dr_images dr) x)
       (dk_registries (fst x)) x"

section \<open>Descriptors\<close>

text \<open>A row of servers joined with adapters; without an adapter its columns are empty.\<close>

record descr_row =
  ds_application :: string
  ds_server_name :: string
  ds_node_name :: string
  ds_run_type :: string
  ds_base_image_id :: string
  ds_base_path :: string
  ds_exe_path :: string
  ds_setting_state :: string
  ds_present_state :: string
  ds_adapter_name :: string
  ds_thread_num :: string
  ds_async_thread_num :: string
  ds_endpoint :: string
  ds_profile :: string
  ds_template_name :: string
  ds_allow_ip :: string
  ds_max_connections :: string
  ds_servant :: string
  ds_queuecap :: string
  ds_queuetimeout :: string
  ds_protocol :: string
  ds_handlegroup :: string
  ds_patch_version :: string
  ds_patch_time :: string
  ds_patch_user :: string
  ds_server_type :: string
  ds_start_script :: string
  ds_stop_script :: string
  ds_monitor_script :: string
  ds_config_center_port :: string
  ds_enable_set :: string
  ds_set_name :: string
  ds_set_area :: string
  ds_set_group :: string

record reg_adapter =
  ga_adapterName :: string
  ga_threadNum :: string
  ga_endpoint :: string
  ga_maxConnections :: int
  ga_allowIp :: string
  ga_servant :: string
  ga_queuecap :: int
  ga_queuetimeout :: int
  ga_protocol :: string
  ga_handlegroup :: string

record reg_descriptor =
  gs_application :: string
  gs_serverName :: string
  gs_nodeName :: string
  gs_basePath :: string
  gs_exePath :: string
  gs_settingState :: string
  gs_presentState :: string
  gs_patchVersion :: string
  gs_patchTime :: string
  gs_patchUser :: string
  gs_profile :: string
  gs_serverType :: string
  gs_startScript :: string
  gs_stopScript :: string
  gs_monitorScript :: string
  gs_configCenterPort :: int
  gs_runType :: string
  gs_baseImageId :: string
  gs_baseImage :: string
  gs_sha :: string
  gs_setId :: string
  gs_asyncThreadNum :: int
  gs_adapters :: "(string, reg_adapter) omap"

text \<open>The condition of the query, under the comparison of the database.\<close>

definition row_wanted :: "(string \<Rightarrow> string \<Rightarrow> bool) \<Rightarrow> string \<Rightarrow> string \<Rightarrow> string \<Rightarrow> bool \<Rightarrow> descr_row \<Rightarrow> bool" where
  "row_wanted eq app server node withDns r \<longleftrightarrow> eq (ds_node_name r) node \<and> (app \<noteq> '''' \<longrightarrow> eq (ds_application r) app) \<and>
     (server \<noteq> '''' \<longrightarrow> eq (ds_server_name r) server) \<and> (\<not> withDns \<longrightarrow> \<not> eq (ds_server_type r) ''tars_dns'')"

definition row_id :: "descr_row \<Rightarrow> string" where
  "row_id r = ds_application r @ ''.'' @ ds_server_name r @ ''_'' @ ds_node_name r"

definition async_threads :: "tc_common \<Rightarrow> 'c config_lib \<Rightarrow> 'c \<Rightarrow> descr_row \<Rightarrow> int" where
  "async_threads tc lib tProfile r =
     (let d = (if ds_server_type r = ''tars_nodejs'' then 0 else 3);
          n = tc_strto_int tc (tc_trim tc (ds_async_thread_num r));
          d = (if n > d then n else d)
      in tc_strto_int tc (tcf_get lib tProfile ''/tars/application/client<asyncthread>'' (show_int d)))"

definition descriptor_of :: "tc_common \<Rightarrow> descr_row \<Rightarrow> string \<times> string \<Rightarrow> string \<Rightarrow> int \<Rightarrow> reg_descriptor" where
  "descriptor_of tc r img profile threads =
     \<lparr> gs_application = ds_application r, gs_serverName = ds_server_name r, gs_nodeName = ds_node_name r, gs_basePath = ds_base_path r,
       gs_exePath = ds_exe_path r, gs_settingState = ds_setting_state r, gs_presentState = ds_present_state r,
       gs_patchVersion = ds_patch_version r, gs_patchTime = ds_patch_time r, gs_patchUser = ds_patch_user r, gs_profile = profile,
       gs_serverType = ds_server_type r, gs_startScript = ds_start_script r, gs_stopScript = ds_stop_script r,
       gs_monitorScript = ds_monitor_script r, gs_configCenterPort = tc_strto_int tc (ds_config_center_port r), gs_runType = ds_run_type r,
       gs_baseImageId = ds_base_image_id r, gs_baseImage = fst img, gs_sha = snd img,
       gs_setId = (if tc_lower tc (ds_enable_set r) = ''y''
                   then ds_set_name r @ ''.'' @ ds_set_area r @ ''.'' @ ds_set_group r else ''''),
       gs_asyncThreadNum = threads, gs_adapters = [] \<rparr>"

definition adapter_of :: "tc_common \<Rightarrow> descr_row \<Rightarrow> reg_adapter" where
  "adapter_of tc r =
     \<lparr> ga_adapterName = ds_adapter_name r, ga_threadNum = ds_thread_num r, ga_endpoint = ds_endpoint r,
       ga_maxConnections = tc_strto_int tc (ds_max_connections r), ga_allowIp = ds_allow_ip r, ga_servant = ds_servant r,
       ga_queuecap = tc_strto_int tc (ds_queuecap r), ga_queuetimeout = tc_strto_int tc (ds_queuetimeout r),
       ga_protocol = ds_protocol r, ga_handlegroup = ds_handlegroup r \<rparr>"

text \<open>What the loop over the rows carries: the result, the places of the servers in it, the templates read so far.\<close>

record serve_state =
  sw_servers :: "reg_descriptor list"
  sw_index :: "(string, nat) omap"
  sw_profiles :: "(string, string) omap"
  sw_docker :: docker_thread

text \<open>The sources that the loop reads: utilities, configurations, templates, the tables of images.\<close>

record 'c serve_env =
  sv_tc :: tc_common
  sv_lib :: "'c config_lib"
  sv_templates :: template_query
  sv_images :: docker_tables
  sv_imageFaults :: "nat \<Rightarrow> bool"

definition row_image :: "'c serve_env \<Rightarrow> descr_row \<Rightarrow> docker_thread \<Rightarrow> (string \<times> string) \<times> docker_thread" where
  "row_image v r d =
     (if ds_base_image_id r \<noteq> '''' then getBaseImageById (sv_imageFaults v) (sv_images v) (ds_base_image_id r) d else (('''', ''''), d))"

definition row_template :: "'c serve_env \<Rightarrow> descr_row \<Rightarrow> (string, string) omap \<Rightarrow> (string, string) omap option" where
  "row_template v r m =
     (if om_find m (ds_template_name r) = None
      then map_option (\<lambda>(text, desc). om_put (ds_template_name r) text m) (getProfileTemplate (sv_lib v) (sv_templates v) (ds_template_name r))
      else Some m)"

text \<open>A server that is seen for the first time; \<open>Inl\<close> is the exception of a configuration.\<close>

definition new_descriptor :: "'c serve_env \<Rightarrow> descr_row \<Rightarrow> serve_state \<Rightarrow> (string + serve_state) option" where
  "new_descriptor v r st =
     (let (img, d) = row_image v r (sw_docker st); lib = sv_lib v
      in Option.bind (row_template v r (sw_profiles st)) (\<lambda>m.
           Some (case tcf_parse lib (om_get '''' m (ds_template_name r)) of
                   Inl what \<Rightarrow> Inl what
                 | Inr tParent \<Rightarrow>
                     (case tcf_parse lib (ds_profile r) of
                        Inl what \<Rightarrow> Inl what
                      | Inr tProfile \<Rightarrow>
                          (let profile = tcf_tostr lib (tcf_join lib tParent tProfile True)
                           in Inr \<lparr> sw_servers = sw_servers st @
                                      [descriptor_of (sv_tc v) r img profile (async_threads (sv_tc v) lib tProfile r)],
                                    sw_index = om_put (row_id r) (length (sw_servers st)) (sw_index st),
                                    sw_profiles = m, sw_docker = d \<rparr>)))))"

definition add_adapter :: "tc_common \<Rightarrow> descr_row \<Rightarrow> serve_state \<Rightarrow> serve_state" where
  "add_adapter tc r st =
     (if ds_adapter_name r = '''' then st
      else
        let i = om_get 0 (sw_index st) (row_id r); s = sw_servers st ! i
        in st\<lparr> sw_servers := (sw_servers st)[i := s\<lparr> gs_adapters := om_put (ds_adapter_name r) (adapter_of tc r) (gs_adapters s) \<rparr>] \<rparr>)"

definition serve_row :: "'c serve_env \<Rightarrow> descr_row \<Rightarrow> serve_state \<Rightarrow> (string + serve_state) option" where
  "serve_row v r st =
     map_option (map_sum id (add_adapter (sv_tc v) r))
       (if om_find (sw_index st) (row_id r) = None then new_descriptor v r st else Some (Inr st))"

fun serve_rows :: "'c serve_env \<Rightarrow> descr_row list \<Rightarrow> serve_state \<Rightarrow> (string + serve_state) option" where
  "serve_rows v [] st = Some (Inr st)"
| "serve_rows v (r # rs) st =
     Option.bind (serve_row v r st) (\<lambda>x. (case x of Inl what \<Rightarrow> Some (Inl what) | Inr st \<Rightarrow> serve_rows v rs st))"

text \<open>
  \<open>rows = None\<close>: the query throws, the answer is an empty list. \<open>Inl\<close> is the exception that goes to the node;
  the outer \<open>None\<close> a recursion over templates that does not end.
\<close>

definition db_getServers ::
  "'c serve_env \<Rightarrow> (string \<Rightarrow> string \<Rightarrow> bool) \<Rightarrow> descr_row list option \<Rightarrow> string \<Rightarrow> string \<Rightarrow> string \<Rightarrow> bool \<Rightarrow> docker_thread \<Rightarrow>
     (string + reg_descriptor list \<times> docker_thread) option" where
  "db_getServers v eq rows app server node withDns d =
     (case rows of
        None \<Rightarrow> Some (Inr ([], d))
      | Some rs \<Rightarrow>
          map_option (map_sum (\<lambda>what. ''TC_Config_Exception exception: '' @ what) (\<lambda>st. (sw_servers st, sw_docker st)))
            (serve_rows v (filter (row_wanted eq app server node withDns) rs)
               \<lparr> sw_servers = [], sw_index = [], sw_profiles = [], sw_docker = d \<rparr>))"

section \<open>The requests\<close>

definition ri_getServers where
  "ri_getServers v eq rows app server node d = db_getServers v eq rows app server node False d"

text \<open>\<open>found\<close> is the answer of \<open>getNodeTemplateName\<close>, \<open>dflt\<close> the template of the configuration.\<close>

definition ri_getNodeTemplate :: "'c config_lib \<Rightarrow> template_query \<Rightarrow> int \<times> string \<Rightarrow> string \<Rightarrow> (int \<times> string) option" where
  "ri_getNodeTemplate lib q found dflt =
     (let name = (if fst found \<noteq> 0 \<or> snd found = '''' then dflt else snd found)
      in map_option (\<lambda>(text, desc). (0, text)) (getProfileTemplate lib q name))"

definition ri_getDockerRegistry :: "docker_thread \<Rightarrow> int \<times> docker_registry list" where
  "ri_getDockerRegistry d = (0, map snd (dk_registries d))"

definition ri_dockerPull where
  "ri_dockerPull fails db i d = docker_dockerPull fails db i d"

text \<open>What the node decodes of a descriptor.\<close>

definition node_adapter :: "tc_common \<Rightarrow> reg_adapter \<Rightarrow> adapter_descriptor" where
  "node_adapter tc a = \<lparr> ad_endpoint = ga_endpoint a, ad_allowIp = ga_allowIp a, ad_queuecap = ga_queuecap a,
     ad_queuetimeout = ga_queuetimeout a, ad_maxConnections = ga_maxConnections a,
     ad_threadNum = tc_strto_int tc (ga_threadNum a), ad_servant = ga_servant a, ad_protocol = ga_protocol a \<rparr>"

definition node_descriptor :: "tc_common \<Rightarrow> reg_descriptor \<Rightarrow> load_descriptor" where
  "node_descriptor tc s =
     \<lparr> ld_application = gs_application s, ld_serverName = gs_serverName s, ld_runType = gs_runType s, ld_settingState = gs_settingState s,
       ld_basePath = gs_basePath s, ld_exePath = gs_exePath s, ld_serverType = gs_serverType s, ld_startScript = gs_startScript s,
       ld_stopScript = gs_stopScript s, ld_monitorScript = gs_monitorScript s, ld_profile = gs_profile s, ld_setId = gs_setId s,
       ld_asyncThreadNum = gs_asyncThreadNum s, ld_configCenterPort = gs_configCenterPort s, ld_baseImage = gs_baseImage s,
       ld_sha = gs_sha s, ld_adapters = map (\<lambda>(n, a). (n, node_adapter tc a)) (gs_adapters s) \<rparr>"

section \<open>Templates end\<close>

text \<open>The equation by the answer of the query.\<close>

lemma profile_from_cases:
  "q name = Inl what \<Longrightarrow> profile_from lib q name seen desc = Some ('''', seen, desc @ desc_note name what)"
  "q name = Inr [] \<Longrightarrow> profile_from lib q name seen desc = Some ('''', seen, desc @ desc_note name ''template not found'')"
  "q name = Inr (row # rows) \<Longrightarrow> tcf_parse lib (tp_profile row) = Inl what \<Longrightarrow>
     profile_from lib q name seen desc = Some ('''', seen, desc @ desc_note name what)"
  by (simp_all add: profile_from.simps[of lib q name])

lemma profile_from_last:
  assumes "q name = Inr (row # rows)" and "tcf_parse lib (tp_profile row) = Inr c"
    and "tp_parents row = '''' \<or> tp_parents row \<in> set (List.insert (tp_name row) seen)"
  shows "profile_from lib q name seen desc = Some (tcf_tostr lib c, List.insert (tp_name row) seen, desc @ desc_note name ''OK'')"
  using assms by (auto simp: profile_from.simps[of lib q name])

lemma profile_from_up:
  assumes "q name = Inr (row # rows)" and "tcf_parse lib (tp_profile row) = Inr c"
    and "tp_parents row \<noteq> ''''" and "tp_parents row \<notin> set (List.insert (tp_name row) seen)"
  shows "profile_from lib q name seen desc =
    Option.bind (profile_from lib q (tp_parents row) (List.insert (tp_name row) seen) desc) (\<lambda>(text, seen', desc').
      (case tcf_parse lib text of
         Inl what \<Rightarrow> Some ('''', seen', desc' @ desc_note name what)
       | Inr p \<Rightarrow> Some (tcf_tostr lib (tcf_join lib c p False), seen', desc' @ desc_note name ''OK'')))"
  using assms by (simp add: profile_from.simps[of lib q name])

text \<open>The templates that a query knows.\<close>

definition known_names :: "template_query \<Rightarrow> string set" where
  "known_names q = {n. \<exists>row rows. q n = Inr (row # rows)}"

lemma profile_from_returns:
  assumes exact: "\<And>n row rows. q n = Inr (row # rows) \<Longrightarrow> tp_name row = n" and fin: "finite (known_names q)"
  shows "name \<notin> set seen \<Longrightarrow> \<exists>r. profile_from lib q name seen desc = Some r"
proof (induction "card (known_names q - set seen)" arbitrary: name seen desc rule: less_induct)
  case less
  show ?case
  proof (cases "q name")
    case (Inl what)
    then show ?thesis by (simp add: profile_from_cases)
  next
    case (Inr rs)
    show ?thesis
    proof (cases rs)
      case Nil
      with Inr show ?thesis by (simp add: profile_from_cases)
    next
      case (Cons row rows)
      with Inr have row: "q name = Inr (row # rows)" by simp
      let ?seen = "List.insert (tp_name row) seen"
      show ?thesis
      proof (cases "tcf_parse lib (tp_profile row)")
        case (Inl what)
        with profile_from_cases(3)[where q = q, OF row this] show ?thesis by blast
      next
        case (Inr c)
        show ?thesis
        proof (cases "tp_parents row = '''' \<or> tp_parents row \<in> set ?seen")
          case True
          from profile_from_last[where q = q, OF row Inr this] show ?thesis by blast
        next
          case False
          have "name \<in> known_names q - set seen" using row less.prems by (auto simp: known_names_def)
          then have "known_names q - set ?seen \<subset> known_names q - set seen" using exact[OF row] by auto
          then have "card (known_names q - set ?seen) < card (known_names q - set seen)"
            by (rule psubset_card_mono[rotated]) (use fin in simp)
          then obtain tx seen' desc' where "profile_from lib q (tp_parents row) ?seen desc = Some (tx, seen', desc')"
            using less.hyps[of ?seen "tp_parents row" desc] False by auto
          with False show ?thesis
            by (simp add: profile_from_up[where q = q, OF row Inr] split: sum.split)
        qed
      qed
    qed
  qed
qed

text \<open>
  Property C37 (template_terminates). When the database compares the names of templates exactly, reading a template
  returns, whatever parents the templates name, cycles included.
\<close>

theorem template_terminates:
  assumes "\<And>x y. eq x y \<Longrightarrow> x = y"
  shows "\<exists>r. getProfileTemplate lib (template_query_of eq tbl) name = Some r"
proof -
  have row: "eq (tp_name row) n \<and> row \<in> set tbl" if "template_query_of eq tbl n = Inr (row # rows)" for n row rows
    using that by (auto simp: template_query_of_def filter_eq_Cons_iff)
  have "known_names (template_query_of eq tbl) \<subseteq> tp_name ` set tbl"
    unfolding known_names_def using row assms by blast
  then have fin: "finite (known_names (template_query_of eq tbl))" by (rule finite_subset) simp
  have exact: "tp_name r = n" if "template_query_of eq tbl n = Inr (r # rs)" for n r rs
    using row[OF that] assms by blast
  obtain r where "profile_from lib (template_query_of eq tbl) name [] '''' = Some r"
    using profile_from_returns[where q = "template_query_of eq tbl" and name = name and seen = "[]", OF exact fin] by fastforce
  then show ?thesis by (simp add: getProfileTemplate_def)
qed

section \<open>Templates that do not end\<close>

lemma alias_loop:
  assumes "tcf_parse lib (tp_profile row) = Inr c" and "tp_parents row \<noteq> ''''" and "tp_parents row \<noteq> tp_name row"
    and "\<And>n. n = name \<or> n = tp_parents row \<Longrightarrow> \<exists>rows. q n = Inr (row # rows)"
    and ret: "profile_from lib q name [] '''' = Some r"
  shows False
proof -
  let ?bad = "\<lambda>l' q' n seen. l' = lib \<and> q' = q \<and> (n = name \<or> n = tp_parents row) \<and> set seen \<subseteq> {tp_name row}"
  have "\<not> ?bad lib q name []"
  proof (rule profile_from.raw_induct[where P = "\<lambda>l' q' n seen desc r. \<not> ?bad l' q' n seen", OF _ ret])
    fix f l' q' n seen desc r
    assume IH: "\<And>l' q' n seen desc r. f l' q' n seen desc = Some r \<Longrightarrow> \<not> ?bad l' q' n seen"
      and eq: "(case q' n of
        Inl what \<Rightarrow> Some ('''', seen, desc @ desc_note n what)
      | Inr [] \<Rightarrow> Some ('''', seen, desc @ desc_note n ''template not found'')
      | Inr (row # rows) \<Rightarrow>
          (case tcf_parse l' (tp_profile row) of
             Inl what \<Rightarrow> Some ('''', seen, desc @ desc_note n what)
           | Inr confMyself \<Rightarrow>
               (if tp_parents row \<noteq> '''' \<and> tp_parents row \<notin> set (List.insert (tp_name row) seen) then
                  Option.bind (f l' q' (tp_parents row) (List.insert (tp_name row) seen) desc) (\<lambda>(text, seen', desc').
                    (case tcf_parse l' text of
                       Inl what \<Rightarrow> Some ('''', seen', desc' @ desc_note n what)
                     | Inr confParents \<Rightarrow>
                         Some (tcf_tostr l' (tcf_join l' confMyself confParents False), seen', desc' @ desc_note n ''OK'')))
                else Some (tcf_tostr l' confMyself, List.insert (tp_name row) seen, desc @ desc_note n ''OK'')))) = Some r"
    show "\<not> ?bad l' q' n seen"
    proof
      assume bad: "?bad l' q' n seen"
      then obtain rows where "q' n = Inr (row # rows)" using assms(4) by auto
      then obtain y where "f lib q (tp_parents row) (List.insert (tp_name row) seen) desc = Some y"
        using eq bad assms(1-3) by (auto simp: bind_eq_Some_conv split: if_splits)
      from IH[OF this] bad show False by auto
    qed
  qed
  then show False by simp
qed

text \<open>
  Property C38 (alias_parent_loops). A template whose parent is its own name in another spelling, which the comparison of
  the database takes for the same, is never read to the end: the map against repetition keeps the stored
  spelling, the recursion asks for the other one.
\<close>

theorem alias_parent_loops:
  assumes "find (\<lambda>r. eq (tp_name r) name) tbl = Some row" and "find (\<lambda>r. eq (tp_name r) (tp_parents row)) tbl = Some row"
    and "tp_parents row \<noteq> ''''" and "tp_parents row \<noteq> tp_name row" and "tcf_parse lib (tp_profile row) = Inr c"
  shows "getProfileTemplate lib (template_query_of eq tbl) name = None"
proof (rule ccontr)
  assume "getProfileTemplate lib (template_query_of eq tbl) name \<noteq> None"
  then obtain r where r: "profile_from lib (template_query_of eq tbl) name [] '''' = Some r"
    by (auto simp: getProfileTemplate_def)
  have "\<exists>rows. template_query_of eq tbl n = Inr (row # rows)" if "find (\<lambda>r. eq (tp_name r) n) tbl = Some row" for n
    using that by (induction tbl) (auto simp: template_query_of_def split: if_splits)
  from alias_loop[where q = "template_query_of eq tbl", OF assms(5,3,4) _ r] this assms(1,2) show False by blast
qed

section \<open>The value of a setting\<close>

text \<open>
  What the documentation of \<open>TC_Config\<close> promises, for the values \<open>val c k\<close> of a configuration: the printed
  text reads back, \<open>joinConfig\<close> keeps the own value or takes the other one, an empty text is an empty configuration.
\<close>

definition joined :: "string option \<Rightarrow> string option \<Rightarrow> string option" where
  "joined a b = (case a of Some v \<Rightarrow> Some v | None \<Rightarrow> b)"

definition config_laws :: "'c config_lib \<Rightarrow> ('c \<Rightarrow> string \<Rightarrow> string option) \<Rightarrow> bool" where
  "config_laws lib val \<longleftrightarrow>
     (\<forall>c. \<exists>c'. tcf_parse lib (tcf_tostr lib c) = Inr c' \<and> val c' = val c) \<and>
     (\<forall>a b k. val (tcf_join lib a b False) k = joined (val a k) (val b k)) \<and>
     (\<forall>a b k. val (tcf_join lib a b True) k = joined (val b k) (val a k)) \<and>
     (\<exists>c. tcf_parse lib '''' = Inr c \<and> (\<forall>k. val c k = None))"

text \<open>A template and its parents, nearest first; a parent that was met before ends the chain.\<close>

inductive template_chain :: "template_query \<Rightarrow> string list \<Rightarrow> string \<Rightarrow> template_row list \<Rightarrow> bool" for q where
  chain_missing: "q name = Inr [] \<Longrightarrow> template_chain q seen name []"
| chain_top: "q name = Inr (row # rows) \<Longrightarrow> tp_parents row = '''' \<or> tp_parents row \<in> set (List.insert (tp_name row) seen) \<Longrightarrow>
    template_chain q seen name [row]"
| chain_up: "q name = Inr (row # rows) \<Longrightarrow> tp_parents row \<noteq> '''' \<Longrightarrow> tp_parents row \<notin> set (List.insert (tp_name row) seen) \<Longrightarrow>
    template_chain q (List.insert (tp_name row) seen) (tp_parents row) ch \<Longrightarrow> template_chain q seen name (row # ch)"

fun nearest :: "'c config_lib \<Rightarrow> ('c \<Rightarrow> string \<Rightarrow> string option) \<Rightarrow> template_row list \<Rightarrow> string \<Rightarrow> string option" where
  "nearest lib val [] k = None"
| "nearest lib val (row # ch) k =
     joined (case tcf_parse lib (tp_profile row) of Inl what \<Rightarrow> None | Inr c \<Rightarrow> val c k) (nearest lib val ch k)"

definition chain_parses :: "'c config_lib \<Rightarrow> template_row list \<Rightarrow> bool" where
  "chain_parses lib ch \<longleftrightarrow> (\<forall>row \<in> set ch. \<exists>c. tcf_parse lib (tp_profile row) = Inr c)"

lemma config_reads_back: "config_laws lib val \<Longrightarrow> \<exists>c'. tcf_parse lib (tcf_tostr lib c) = Inr c' \<and> val c' = val c"
  unfolding config_laws_def by blast

lemma chain_value:
  assumes laws: "config_laws lib val"
  shows "template_chain q seen name ch \<Longrightarrow> chain_parses lib ch \<Longrightarrow>
    \<exists>tx seen' desc' c. profile_from lib q name seen desc = Some (tx, seen', desc') \<and> tcf_parse lib tx = Inr c \<and>
      (\<forall>k. val c k = nearest lib val ch k)"
proof (induction arbitrary: desc rule: template_chain.induct)
  case (chain_missing name seen)
  then show ?case using laws by (auto simp: profile_from_cases(2)[where q = q] config_laws_def)
next
  case (chain_top name row rows seen)
  obtain c where c: "tcf_parse lib (tp_profile row) = Inr c" using chain_top.prems by (auto simp: chain_parses_def)
  obtain c' where "tcf_parse lib (tcf_tostr lib c) = Inr c'" "val c' = val c" using config_reads_back[OF laws] by blast
  with c show ?case
    by (simp add: profile_from_last[where q = q, OF chain_top.hyps(1) c chain_top.hyps(2)] joined_def split: option.split)
next
  case (chain_up name row rows seen ch)
  obtain c where c: "tcf_parse lib (tp_profile row) = Inr c" using chain_up.prems by (auto simp: chain_parses_def)
  have "chain_parses lib ch" using chain_up.prems by (simp add: chain_parses_def)
  from chain_up.IH[OF this, of desc] obtain tx seen' desc' p
    where up: "profile_from lib q (tp_parents row) (List.insert (tp_name row) seen) desc = Some (tx, seen', desc')"
      and p: "tcf_parse lib tx = Inr p" "\<forall>k. val p k = nearest lib val ch k" by blast
  let ?j = "tcf_join lib c p False"
  obtain j where j: "tcf_parse lib (tcf_tostr lib ?j) = Inr j" "val j = val ?j" using config_reads_back[OF laws] by blast
  have "val ?j k = joined (val c k) (val p k)" for k using laws by (simp add: config_laws_def)
  with c p j up show ?case
    by (simp add: profile_from_up[where q = q, OF chain_up.hyps(1) c chain_up.hyps(2,3)])
qed

section \<open>The loop over the rows\<close>

definition serv_id :: "reg_descriptor \<Rightarrow> string" where
  "serv_id s = gs_application s @ ''.'' @ gs_serverName s @ ''_'' @ gs_nodeName s"

text \<open>A descriptor and the row that it was made from.\<close>

definition from_row :: "'c serve_env \<Rightarrow> descr_row \<Rightarrow> reg_descriptor \<Rightarrow> bool" where
  "from_row v r s \<longleftrightarrow> gs_application s = ds_application r \<and> gs_serverName s = ds_server_name r \<and> gs_nodeName s = ds_node_name r \<and>
     (\<exists>tx desc par own. getProfileTemplate (sv_lib v) (sv_templates v) (ds_template_name r) = Some (tx, desc) \<and>
        tcf_parse (sv_lib v) tx = Inr par \<and> tcf_parse (sv_lib v) (ds_profile r) = Inr own \<and>
        gs_profile s = tcf_tostr (sv_lib v) (tcf_join (sv_lib v) par own True))"

definition adapters_of :: "tc_common \<Rightarrow> string \<Rightarrow> descr_row list \<Rightarrow> (string, reg_adapter) omap" where
  "adapters_of tc i rs =
     fold (\<lambda>r. om_put (ds_adapter_name r) (adapter_of tc r)) (filter (\<lambda>r. row_id r = i \<and> ds_adapter_name r \<noteq> '''') rs) []"

definition serve_inv :: "'c serve_env \<Rightarrow> descr_row set \<Rightarrow> descr_row list \<Rightarrow> serve_state \<Rightarrow> bool" where
  "serve_inv v R rs st \<longleftrightarrow>
     (\<forall>t tx. om_find (sw_profiles st) t = Some tx \<longrightarrow> (\<exists>desc. getProfileTemplate (sv_lib v) (sv_templates v) t = Some (tx, desc))) \<and>
     (\<forall>s \<in> set (sw_servers st). \<exists>r \<in> R. from_row v r s) \<and>
     (\<forall>i n. om_find (sw_index st) i = Some n \<longrightarrow> n < length (sw_servers st) \<and> serv_id (sw_servers st ! n) = i) \<and>
     (\<forall>n < length (sw_servers st). om_find (sw_index st) (serv_id (sw_servers st ! n)) = Some n) \<and>
     (\<forall>r \<in> R. om_find (sw_index st) (row_id r) \<noteq> None) \<and>
     (\<forall>s \<in> set (sw_servers st). gs_adapters s = adapters_of (sv_tc v) (serv_id s) rs)"

lemma serve_invD:
  assumes "serve_inv v R rs st"
  shows "om_find (sw_profiles st) t = Some tx \<Longrightarrow> \<exists>desc. getProfileTemplate (sv_lib v) (sv_templates v) t = Some (tx, desc)"
    and "s \<in> set (sw_servers st) \<Longrightarrow> \<exists>r \<in> R. from_row v r s"
    and "om_find (sw_index st) i = Some n \<Longrightarrow> n < length (sw_servers st) \<and> serv_id (sw_servers st ! n) = i"
    and "n < length (sw_servers st) \<Longrightarrow> om_find (sw_index st) (serv_id (sw_servers st ! n)) = Some n"
    and "r \<in> R \<Longrightarrow> om_find (sw_index st) (row_id r) \<noteq> None"
    and "s \<in> set (sw_servers st) \<Longrightarrow> gs_adapters s = adapters_of (sv_tc v) (serv_id s) rs"
  using assms unfolding serve_inv_def by blast+

lemma new_descriptor_inv:
  assumes inv: "serve_inv v (set rs) rs st" and new: "om_find (sw_index st) (row_id r) = None"
    and run: "new_descriptor v r st = Some (Inr st')"
  shows "serve_inv v (insert r (set rs)) rs st'"
proof -
  let ?lib = "sv_lib v"
  obtain img d where img: "row_image v r (sw_docker st) = (img, d)" by (metis prod.collapse)
  obtain m where m: "row_template v r (sw_profiles st) = Some m"
    using run by (auto simp: new_descriptor_def img Let_def bind_eq_Some_conv)
  obtain par where par: "tcf_parse ?lib (om_get '''' m (ds_template_name r)) = Inr par"
    using run by (cases "tcf_parse ?lib (om_get '''' m (ds_template_name r))") (simp_all add: new_descriptor_def img Let_def m)
  obtain own where own: "tcf_parse ?lib (ds_profile r) = Inr own"
    using run by (cases "tcf_parse ?lib (ds_profile r)") (simp_all add: new_descriptor_def img Let_def m par)
  have st': "st' = \<lparr> sw_servers = sw_servers st @ [descriptor_of (sv_tc v) r img (tcf_tostr ?lib (tcf_join ?lib par own True))
                 (async_threads (sv_tc v) ?lib own r)],
        sw_index = om_put (row_id r) (length (sw_servers st)) (sw_index st), sw_profiles = m, sw_docker = d \<rparr>"
    using run by (simp add: new_descriptor_def img Let_def m par own)
  let ?s = "descriptor_of (sv_tc v) r img (tcf_tostr ?lib (tcf_join ?lib par own True)) (async_threads (sv_tc v) ?lib own r)"
  have i: "serv_id ?s = row_id r" by (simp add: serv_id_def row_id_def descriptor_of_def)
  have profs: "\<forall>t tx. om_find m t = Some tx \<longrightarrow> (\<exists>desc. getProfileTemplate ?lib (sv_templates v) t = Some (tx, desc))"
    using m inv by (auto simp: row_template_def serve_inv_def split: if_splits)
  have "om_find m (ds_template_name r) \<noteq> None" using m by (auto simp: row_template_def split: if_splits)
  then obtain tx where tx: "om_find m (ds_template_name r) = Some tx" by auto
  then obtain desc where "getProfileTemplate ?lib (sv_templates v) (ds_template_name r) = Some (tx, desc)" using profs by blast
  moreover have "tcf_parse ?lib tx = Inr par" using par tx by (simp add: om_get_def)
  ultimately have froms: "from_row v r ?s"
    using own unfolding from_row_def by (intro conjI exI[of _ tx] exI[of _ desc] exI[of _ par] exI[of _ own]) (simp_all add: descriptor_of_def)
  have "filter (\<lambda>q. row_id q = row_id r \<and> ds_adapter_name q \<noteq> '''') rs = []"
    using inv new by (auto simp: serve_inv_def filter_empty_conv)
  then have "gs_adapters ?s = adapters_of (sv_tc v) (row_id r) rs" by (simp add: adapters_of_def descriptor_of_def)
  note adapters = this
  let ?ss = "sw_servers st"
  have froms: "\<forall>s \<in> set (?ss @ [?s]). \<exists>q \<in> insert r (set rs). from_row v q s"
    using inv froms unfolding serve_inv_def by auto
  have index: "k < length (?ss @ [?s]) \<and> serv_id ((?ss @ [?s]) ! k) = j"
    if "om_find (om_put (row_id r) (length ?ss) (sw_index st)) j = Some k" for j k
  proof (cases "j = row_id r")
    case True
    with that have "k = length ?ss" by simp
    then show ?thesis using i True by simp
  next
    case False
    then have "om_find (sw_index st) j = Some k" using that by simp
    then have "k < length ?ss" "serv_id (?ss ! k) = j" using inv unfolding serve_inv_def by blast+
    then show ?thesis by (simp add: nth_append)
  qed
  have places: "om_find (om_put (row_id r) (length ?ss) (sw_index st)) (serv_id ((?ss @ [?s]) ! k)) = Some k"
    if "k < length (?ss @ [?s])" for k
  proof (cases "k = length ?ss")
    case True
    with i show ?thesis by simp
  next
    case False
    then have "om_find (sw_index st) (serv_id (?ss ! k)) = Some k" using inv that unfolding serve_inv_def by simp
    with new False that show ?thesis by (auto simp: nth_append)
  qed
  have rows: "\<forall>q \<in> insert r (set rs). om_find (om_put (row_id r) (length ?ss) (sw_index st)) (row_id q) \<noteq> None"
    using inv unfolding serve_inv_def by simp
  have ads: "\<forall>s \<in> set (?ss @ [?s]). gs_adapters s = adapters_of (sv_tc v) (serv_id s) rs"
    using inv adapters i unfolding serve_inv_def by auto
  show ?thesis
    unfolding serve_inv_def st' serve_state.simps using profs froms index places rows ads by blast
qed

lemma adapters_of_snoc:
  "adapters_of tc i (rs @ [r]) = (if row_id r = i \<and> ds_adapter_name r \<noteq> '''' then om_put (ds_adapter_name r) (adapter_of tc r) (adapters_of tc i rs)
     else adapters_of tc i rs)"
  by (simp add: adapters_of_def)

lemma add_adapter_inv:
  assumes inv: "serve_inv v R rs st" and r: "r \<in> R"
  shows "serve_inv v R (rs @ [r]) (add_adapter (sv_tc v) r st)"
proof (cases "ds_adapter_name r = ''''")
  case True
  then have "adapters_of (sv_tc v) i (rs @ [r]) = adapters_of (sv_tc v) i rs" for i by (simp add: adapters_of_snoc)
  with inv True show ?thesis by (simp add: serve_inv_def add_adapter_def)
next
  case False
  note I = serve_invD[OF inv]
  obtain n where n: "om_find (sw_index st) (row_id r) = Some n" using I(5)[OF r] by blast
  then have len: "n < length (sw_servers st)" and i: "serv_id (sw_servers st ! n) = row_id r" using I(3) by blast+
  define s where "s = sw_servers st ! n"
  define s' where "s' = s\<lparr> gs_adapters := om_put (ds_adapter_name r) (adapter_of (sv_tc v) r) (gs_adapters s) \<rparr>"
  define ss where "ss = (sw_servers st)[n := s']"
  have st': "add_adapter (sv_tc v) r st = st\<lparr> sw_servers := ss \<rparr>"
    using False n by (simp add: add_adapter_def om_get_def Let_def ss_def s'_def s_def)
  have same: "serv_id s' = serv_id s" "from_row v q s' = from_row v q s" for q
    by (simp_all add: serv_id_def from_row_def s'_def)
  have lens: "length ss = length (sw_servers st)" by (simp add: ss_def)
  have nth: "ss ! k = (if k = n then s' else sw_servers st ! k)" if "k < length ss" for k
    using that len by (simp add: ss_def)
  have ids: "serv_id (ss ! k) = serv_id (sw_servers st ! k)" if "k < length ss" for k
    using nth[OF that] same(1) by (simp add: s_def)
  have one: "(\<exists>q \<in> R. from_row v q (ss ! k)) \<and> gs_adapters (ss ! k) = adapters_of (sv_tc v) (serv_id (ss ! k)) (rs @ [r])"
    if k: "k < length ss" for k
  proof -
    have mem: "sw_servers st ! k \<in> set (sw_servers st)" using k lens by simp
    note old = I(2)[OF mem] I(6)[OF mem]
    show ?thesis
    proof (cases "k = n")
      case True
      have "gs_adapters s' = adapters_of (sv_tc v) (serv_id s') (rs @ [r])"
        using old(2) True False i by (simp add: adapters_of_snoc same(1) s_def[symmetric]) (simp add: s'_def)
      with old(1) True same(2) nth[OF k] show ?thesis by (simp add: s_def)
    next
      case other: False
      have "serv_id (sw_servers st ! k) \<noteq> row_id r" using I(4)[of k] k lens n other by auto
      then have "adapters_of (sv_tc v) (serv_id (sw_servers st ! k)) (rs @ [r]) = adapters_of (sv_tc v) (serv_id (sw_servers st ! k)) rs"
        by (simp add: adapters_of_snoc)
      with old other nth[OF k] show ?thesis by simp
    qed
  qed
  have each: "(\<exists>q \<in> R. from_row v q x) \<and> gs_adapters x = adapters_of (sv_tc v) (serv_id x) (rs @ [r])" if "x \<in> set ss" for x
    using that one unfolding in_set_conv_nth by blast
  have index: "k < length ss \<and> serv_id (ss ! k) = j" if "om_find (sw_index st) j = Some k" for j k
    using I(3)[OF that] ids[of k] lens by simp
  have places: "om_find (sw_index st) (serv_id (ss ! k)) = Some k" if "k < length ss" for k
    using I(4)[of k] ids[OF that] that lens by simp
  have f: "sw_servers (st\<lparr> sw_servers := ss \<rparr>) = ss" "sw_index (st\<lparr> sw_servers := ss \<rparr>) = sw_index st"
    "sw_profiles (st\<lparr> sw_servers := ss \<rparr>) = sw_profiles st" by simp_all
  show ?thesis unfolding st' serve_inv_def f using each index places I(1,5) by blast
qed

lemma serve_row_inv:
  assumes "serve_inv v (set rs) rs st" and "serve_row v r st = Some (Inr st')"
  shows "serve_inv v (set (rs @ [r])) (rs @ [r]) st'"
proof (cases "om_find (sw_index st) (row_id r)")
  case None
  then obtain x where x: "new_descriptor v r st = Some x" "map_sum id (add_adapter (sv_tc v) r) x = Inr st'"
    using assms(2) by (auto simp: serve_row_def)
  then obtain st1 where st1: "x = Inr st1" "st' = add_adapter (sv_tc v) r st1" by (cases x) auto
  have "serve_inv v (insert r (set rs)) rs st1" using new_descriptor_inv[OF assms(1) None] x(1) st1(1) by simp
  from add_adapter_inv[OF this, of r] show ?thesis using st1(2) by simp
next
  case (Some n)
  then have st': "st' = add_adapter (sv_tc v) r st" using assms(2) by (simp add: serve_row_def)
  have "serve_inv v (insert r (set rs)) rs st" using assms(1) Some by (auto simp: serve_inv_def)
  from add_adapter_inv[OF this, of r] show ?thesis using st' by simp
qed

lemma serve_rows_inv:
  "serve_inv v (set rs0) rs0 st \<Longrightarrow> serve_rows v rs st = Some (Inr st') \<Longrightarrow> serve_inv v (set (rs0 @ rs)) (rs0 @ rs) st'"
proof (induction rs arbitrary: rs0 st)
  case (Cons r rs)
  obtain x where x: "serve_row v r st = Some x" using Cons.prems(2) by (auto simp: bind_eq_Some_conv)
  then obtain st1 where st1: "serve_row v r st = Some (Inr st1)" "serve_rows v rs st1 = Some (Inr st')"
    using Cons.prems(2) by (cases x) auto
  from Cons.IH[OF serve_row_inv[OF Cons.prems(1) st1(1)] st1(2)] show ?case by simp
qed simp

lemma getServers_inv:
  assumes "db_getServers v eq (Some rows) app server node withDns d = Some (Inr (ss, d'))"
  shows "\<exists>st. serve_inv v (set (filter (row_wanted eq app server node withDns) rows)) (filter (row_wanted eq app server node withDns) rows) st \<and>
    sw_servers st = ss"
proof -
  let ?rs = "filter (row_wanted eq app server node withDns) rows"
  let ?st0 = "\<lparr> sw_servers = [], sw_index = [], sw_profiles = [], sw_docker = d \<rparr>"
  obtain x where x: "serve_rows v ?rs ?st0 = Some x" using assms by (auto simp: db_getServers_def)
  then obtain st where st: "x = Inr st" "sw_servers st = ss" using assms by (cases x) (simp_all add: db_getServers_def)
  have "serve_inv v (set []) [] ?st0" by (simp add: serve_inv_def)
  from serve_rows_inv[OF this] x st show ?thesis by (metis append_Nil)
qed

section \<open>What a node receives\<close>

text \<open>
  Property C40 (every_server_once). An answer holds every server of the wanted rows exactly once, in one descriptor with the
  adapters of all its rows.
\<close>

theorem every_server_once:
  assumes "db_getServers v eq (Some rows) app server node withDns d = Some (Inr (ss, d'))"
  shows "distinct (map serv_id ss) \<and> set (map serv_id ss) = row_id ` {r \<in> set rows. row_wanted eq app server node withDns r} \<and>
    (\<forall>s \<in> set ss. gs_adapters s = adapters_of (sv_tc v) (serv_id s) (filter (row_wanted eq app server node withDns) rows))"
proof -
  let ?rs = "filter (row_wanted eq app server node withDns) rows"
  obtain st where inv: "serve_inv v (set ?rs) ?rs st" and ss: "sw_servers st = ss" using getServers_inv[OF assms] by blast
  note I = serve_invD[OF inv, unfolded ss]
  have d: "distinct (map serv_id ss)"
    unfolding distinct_conv_nth
  proof (intro allI impI)
    fix i j assume "i < length (map serv_id ss)" "j < length (map serv_id ss)" "i \<noteq> j"
    with I(4)[of i] I(4)[of j] show "map serv_id ss ! i \<noteq> map serv_id ss ! j" by auto
  qed
  have "serv_id s \<in> row_id ` set ?rs" if "s \<in> set ss" for s
    using I(2)[OF that] by (auto simp: from_row_def serv_id_def row_id_def)
  moreover have "row_id r \<in> set (map serv_id ss)" if r: "r \<in> set ?rs" for r
  proof -
    obtain n where "om_find (sw_index st) (row_id r) = Some n" using I(5)[OF r] by blast
    from I(3)[OF this] show ?thesis by (metis image_eqI list.set_map nth_mem)
  qed
  ultimately have "set (map serv_id ss) = row_id ` set ?rs" by auto
  moreover have "set ?rs = {r \<in> set rows. row_wanted eq app server node withDns r}" by auto
  ultimately show ?thesis using d I(6) by metis
qed

text \<open>
  Property C39 (served_value). A setting of a served profile has the value of the server's own profile, else the one of the
  nearest template that has it, from the template of the server through its parents.
\<close>

theorem served_value:
  assumes "config_laws (sv_lib v) val" and "db_getServers v eq (Some rows) app server node withDns d = Some (Inr (ss, d'))" and "s \<in> set ss"
  shows "\<exists>r \<in> set rows. row_wanted eq app server node withDns r \<and> serv_id s = row_id r \<and>
    (\<forall>ch. template_chain (sv_templates v) [] (ds_template_name r) ch \<and> chain_parses (sv_lib v) ch \<longrightarrow>
      (\<exists>c own. tcf_parse (sv_lib v) (gs_profile s) = Inr c \<and> tcf_parse (sv_lib v) (ds_profile r) = Inr own \<and>
        (\<forall>k. val c k = joined (val own k) (nearest (sv_lib v) val ch k))))"
proof -
  let ?lib = "sv_lib v"
  let ?rs = "filter (row_wanted eq app server node withDns) rows"
  obtain st where inv: "serve_inv v (set ?rs) ?rs st" and ss: "sw_servers st = ss" using getServers_inv[OF assms(2)] by blast
  obtain r where r: "r \<in> set ?rs" "from_row v r s" using serve_invD(2)[OF inv, unfolded ss, OF assms(3)] by blast
  then obtain tx desc par own where t: "getProfileTemplate ?lib (sv_templates v) (ds_template_name r) = Some (tx, desc)"
    and p: "tcf_parse ?lib tx = Inr par" "tcf_parse ?lib (ds_profile r) = Inr own"
      "gs_profile s = tcf_tostr ?lib (tcf_join ?lib par own True)" by (auto simp: from_row_def)
  obtain c where c: "tcf_parse ?lib (gs_profile s) = Inr c" "val c = val (tcf_join ?lib par own True)"
    using config_reads_back[OF assms(1)] p(3) by metis
  have "val par k = nearest ?lib val ch k"
    if ch: "template_chain (sv_templates v) [] (ds_template_name r) ch" "chain_parses ?lib ch" for ch k
  proof -
    obtain tx' seen' desc' c' where "profile_from ?lib (sv_templates v) (ds_template_name r) [] '''' = Some (tx', seen', desc')"
      and "tcf_parse ?lib tx' = Inr c'" and "\<forall>k. val c' k = nearest ?lib val ch k"
      using chain_value[OF assms(1) ch] by blast
    with t p(1) show ?thesis by (auto simp: getProfileTemplate_def)
  qed
  moreover have "val c k = joined (val own k) (val par k)" for k
    using c(2) assms(1) unfolding config_laws_def by simp
  moreover have "serv_id s = row_id r" using r(2) by (simp add: from_row_def serv_id_def row_id_def)
  ultimately show ?thesis using r(1) c(1) p(2) by (intro bexI[of _ r]) auto
qed

text \<open>
  Fact (start_is_described). When the database compares names exactly, what the registry answers to the question for
  one server makes a proper push of \<open>Node_Manager\<close>: the descriptors describe the server that is started.
\<close>

lemma start_is_described:
  assumes "\<And>x y. eq x y \<Longrightarrow> x = y" and "app \<noteq> ''''" and "server \<noteq> ''''"
    and "db_getServers v eq rows app server node False d = Some (Inr (ss, d'))"
  shows "proper_push (PushStart app server, \<lparr>ra_time = t, ra_list = Some (map (node_descriptor tc) ss), ra_pinged = b\<rparr>)"
proof (cases rows)
  case None
  with assms(2-4) show ?thesis by (simp add: db_getServers_def proper_push_def)
next
  case (Some rs)
  obtain st where inv: "serve_inv v (set (filter (row_wanted eq app server node False) rs)) (filter (row_wanted eq app server node False) rs) st"
    and ss: "sw_servers st = ss" using getServers_inv[OF assms(4)[unfolded Some]] by blast
  have "gs_application s = app \<and> gs_serverName s = server" if "s \<in> set ss" for s
    using serve_invD(2)[OF inv, unfolded ss, OF that] assms(1-3) by (auto simp: from_row_def row_wanted_def)
  with assms(2,3) show ?thesis by (auto simp: proper_push_def node_descriptor_def)
qed

text \<open>
  Fact (bad_profile_fails_node). One server whose own profile cannot be parsed makes the whole answer fail: the node gets
  an exception instead of the descriptors of its other servers.
\<close>

lemma bad_profile_fails_node:
  assumes "r \<in> set rows" and "row_wanted eq app server node withDns r" and "tcf_parse (sv_lib v) (ds_profile r) = Inl what"
    and "\<And>q. q \<in> set rows \<Longrightarrow> row_id q = row_id r \<Longrightarrow> ds_profile q = ds_profile r"
  shows "db_getServers v eq (Some rows) app server node withDns d \<noteq> Some (Inr (ss, d'))"
proof
  let ?rs = "filter (row_wanted eq app server node withDns) rows"
  assume run: "db_getServers v eq (Some rows) app server node withDns d = Some (Inr (ss, d'))"
  obtain st where inv: "serve_inv v (set ?rs) ?rs st" and ss: "sw_servers st = ss" using getServers_inv[OF run] by blast
  note I = serve_invD[OF inv, unfolded ss]
  have "r \<in> set ?rs" using assms(1,2) by simp
  then obtain n where "om_find (sw_index st) (row_id r) = Some n" using I(5) by blast
  then have n: "n < length ss" "serv_id (ss ! n) = row_id r" using I(3) by blast+
  then obtain q where q: "q \<in> set ?rs" "from_row v q (ss ! n)" using I(2) nth_mem by blast
  then have "row_id q = row_id r" using n(2) by (simp add: from_row_def serv_id_def row_id_def)
  with assms(3,4) q show False by (auto simp: from_row_def)
qed

text \<open>
  Fact (failed_template_is_empty). A template that cannot be read or parsed is an empty text for its reader: a node that asks
  for its template gets the code 0.
\<close>

lemma failed_template_is_empty:
  assumes "q name = Inl what \<or> q name = Inr [] \<or> (\<exists>row rows. q name = Inr (row # rows) \<and> tcf_parse lib (tp_profile row) = Inl what)"
    and "name \<noteq> ''''"
  shows "ri_getNodeTemplate lib q (0, name) dflt = Some (0, '''')"
proof -
  obtain desc where "profile_from lib q name [] '''' = Some ('''', [], desc)"
    using assms(1) profile_from_cases[where q = q and name = name] by fastforce
  with assms(2) show ?thesis by (simp add: ri_getNodeTemplate_def getProfileTemplate_def)
qed

section \<open>Images\<close>

text \<open>
  Fact (pull_uses_old_entry). A pull takes the entry that it finds before the tables are read anew: new credentials or a new
  name of the image are used by the next pull only.
\<close>

lemma pull_uses_old_entry:
  assumes "findBaseImage i d = Some x"
  shows "fst (snd (docker_dockerPull fails db i d)) = Some x"
  using assms by (simp add: docker_dockerPull_def Let_def)

text \<open>The images that a load knows are those of the table.\<close>

definition image_ids :: "(string, docker_registry) omap \<Rightarrow> string set" where
  "image_ids m = (\<Union>dr \<in> snd ` set m. bi_id ` set (dr_images dr))"

lemma image_ids_put: "image_ids (om_put k v m) \<subseteq> bi_id ` set (dr_images v) \<union> image_ids m"
  using om_put_set[of k v m] by (fastforce simp: image_ids_def)

lemma image_ids_loaded: "image_ids (snd (loadDockerInfo fails db)) \<subseteq> bi_id ` set (dt_images db)"
proof -
  have regs: "image_ids (fold (\<lambda>(i, reg, user, pwd). om_put i \<lparr> dr_id = i, dr_registry = reg, dr_user = user, dr_password = pwd,
      dr_succ = False, dr_images = [] \<rparr>) rs m) \<subseteq> image_ids m" for rs m
  proof (induction rs arbitrary: m)
    case (Cons r rs)
    obtain i reg user pwd where r: "r = (i, reg, user, pwd)" by (cases r)
    let ?m = "om_put i \<lparr> dr_id = i, dr_registry = reg, dr_user = user, dr_password = pwd, dr_succ = False, dr_images = [] \<rparr> m"
    have "image_ids ?m \<subseteq> image_ids m"
      by (rule order_trans[OF image_ids_put]) simp
    then show ?case using Cons.IH[of ?m] by (simp add: r)
  qed simp
  have imgs: "image_ids (fold (\<lambda>r info. (case om_find info (bi_registryId r) of None \<Rightarrow> info
      | Some d \<Rightarrow> om_put (bi_registryId r) (d\<lparr> dr_images := dr_images d @ [base_image.truncate r] \<rparr>) info)) rs m)
      \<subseteq> image_ids m \<union> bi_id ` set rs" for rs :: "image_row list" and m
  proof (induction rs arbitrary: m)
    case (Cons r rs)
    let ?m = "case om_find m (bi_registryId r) of None \<Rightarrow> m
      | Some d \<Rightarrow> om_put (bi_registryId r) (d\<lparr> dr_images := dr_images d @ [base_image.truncate r] \<rparr>) m"
    have "image_ids ?m \<subseteq> image_ids m \<union> {bi_id r}"
    proof (cases "om_find m (bi_registryId r)")
      case (Some d)
      then have "(bi_registryId r, d) \<in> set m" by (rule map_of_SomeD)
      then have "bi_id ` set (dr_images d) \<subseteq> image_ids m" by (force simp: image_ids_def)
      with image_ids_put[of "bi_registryId r" "d\<lparr> dr_images := dr_images d @ [base_image.truncate r] \<rparr>" m] Some
      show ?thesis by (auto simp: base_image.truncate_def)
    qed auto
    then show ?case using Cons.IH[of ?m] by auto
  qed simp
  have nil: "image_ids [] = {}" by (simp add: image_ids_def)
  define info where "info = fold (\<lambda>(i, reg, user, pwd). om_put i \<lparr> dr_id = i, dr_registry = reg, dr_user = user, dr_password = pwd,
      dr_succ = False, dr_images = [] \<rparr>) (dt_registries db) []"
  have "image_ids info = {}" using regs[of "dt_registries db" "[]"] by (simp add: info_def nil)
  with imgs[of "dt_images db" info] show ?thesis
    unfolding loadDockerInfo_def info_def[symmetric] by (simp add: Let_def nil)
qed

text \<open>
  Fact (removed_image_is_served). An image that was deleted from the table goes on being handed to the nodes.
\<close>

lemma removed_image_is_served:
  assumes "om_find (dk_images d) i = Some x" and "i \<notin> bi_id ` set (dt_images db)"
  shows "fst (getBaseImageById fails' db' i (loadDockerRegistry fails db d)) = x"
proof -
  let ?rii = "snd (loadDockerInfo fails db)"
  have inner: "om_find (fold (\<lambda>e. om_put (bi_id e) (bi_image e, bi_sha e)) es m) i = om_find m i" if "i \<notin> bi_id ` set es" for es m
    using that by (induction es arbitrary: m) auto
  have "om_find (fold (\<lambda>(k, dr) m. fold (\<lambda>e. om_put (bi_id e) (bi_image e, bi_sha e)) (dr_images dr) m) rii m) i = om_find m i"
    if "i \<notin> image_ids rii" for rii m
    using that
  proof (induction rii arbitrary: m)
    case (Cons e rii)
    then have "i \<notin> bi_id ` set (dr_images (snd e))" "i \<notin> image_ids rii" by (auto simp: image_ids_def)
    with Cons.IH inner show ?case by (cases e) simp
  qed simp
  moreover have "i \<notin> image_ids ?rii" using image_ids_loaded assms(2) by blast
  ultimately have "om_find (dk_images (loadDockerRegistry fails db d)) i = Some x"
    using assms(1) by (simp add: loadDockerRegistry_def case_prod_beta Let_def)
  then show ?thesis by (simp add: getBaseImageById_def)
qed

section \<open>Examples\<close>

text \<open>A configuration that has one value for every path: its text, unless it is empty.\<close>

definition sample_lib :: "string config_lib" where
  "sample_lib = \<lparr> tcf_parse = Inr, tcf_join = (\<lambda>a b upd. if (if upd then b = '''' else a \<noteq> '''') then a else b), tcf_tostr = (\<lambda>c. c),
     tcf_get = (\<lambda>c k d. if c = '''' then d else c) \<rparr>"

definition sample_val :: "string \<Rightarrow> string \<Rightarrow> string option" where
  "sample_val c k = (if c = '''' then None else Some c)"

lemma sample_laws: "config_laws sample_lib sample_val"
  by (auto simp: config_laws_def sample_lib_def sample_val_def joined_def)

definition same_letters :: "string \<Rightarrow> string \<Rightarrow> bool" where
  "same_letters x y \<longleftrightarrow> map ascii_lower x = map ascii_lower y"

definition sample_template :: "string \<Rightarrow> string \<Rightarrow> template_row" where
  "sample_template n p = \<lparr> tp_name = n, tp_parents = p, tp_profile = ''3'' \<rparr>"

theorem template_terminates_witness:
  "\<exists>r. getProfileTemplate sample_lib (template_query_of (=) [sample_template ''a'' ''b'', sample_template ''b'' ''a'']) ''a'' = Some r"
  by (rule template_terminates) simp

theorem alias_parent_loops_witness:
  "getProfileTemplate sample_lib (template_query_of same_letters [sample_template ''a'' ''A'']) ''a'' = None"
proof -
  have "same_letters ''a'' ''a''" "same_letters ''a'' ''A''" by code_simp+
  then show ?thesis
    by (intro alias_parent_loops[where row = "sample_template ''a'' ''A''" and c = "''3''"]) (simp_all add: sample_template_def sample_lib_def)
qed

definition sample_descr_row :: "string \<Rightarrow> descr_row" where
  "sample_descr_row adapter =
     \<lparr> ds_application = ''App'', ds_server_name = ''Svr'', ds_node_name = ''10.0.0.1'', ds_run_type = '''', ds_base_image_id = '''',
       ds_base_path = '''', ds_exe_path = '''', ds_setting_state = ''active'', ds_present_state = ''active'', ds_adapter_name = adapter,
       ds_thread_num = ''5'', ds_async_thread_num = '''', ds_endpoint = '''', ds_profile = '''', ds_template_name = ''a'', ds_allow_ip = '''',
       ds_max_connections = '''', ds_servant = '''', ds_queuecap = '''', ds_queuetimeout = '''', ds_protocol = '''', ds_handlegroup = '''',
       ds_patch_version = '''', ds_patch_time = '''', ds_patch_user = '''', ds_server_type = ''tars_cpp'', ds_start_script = '''',
       ds_stop_script = '''', ds_monitor_script = '''', ds_config_center_port = '''', ds_enable_set = ''N'', ds_set_name = '''',
       ds_set_area = '''', ds_set_group = '''' \<rparr>"

definition sample_serve :: "string serve_env" where
  "sample_serve = \<lparr> sv_tc = sample_tc, sv_lib = sample_lib, sv_templates = template_query_of (=) [sample_template ''a'' ''''],
     sv_images = \<lparr> dt_registries = [], dt_images = [] \<rparr>, sv_imageFaults = (\<lambda>_. False) \<rparr>"

definition no_docker :: docker_thread where
  "no_docker = \<lparr> dk_registries = [], dk_images = [] \<rparr>"

lemma sample_profile: "getProfileTemplate sample_lib (template_query_of (=) [sample_template ''a'' '''']) ''a'' = Some (''3'', ''(a:OK)'')"
proof -
  let ?q = "template_query_of (=) [sample_template ''a'' '''']"
  have "?q ''a'' = Inr [sample_template ''a'' '''']" by (simp add: template_query_of_def sample_template_def)
  from profile_from_last[where q = ?q, OF this, of sample_lib "''3''" "[]" "''''"]
  have "profile_from sample_lib ?q ''a'' [] '''' = Some (''3'', [''a''], ''(a:OK)'')"
    by (simp add: sample_template_def sample_lib_def desc_note_def)
  then show ?thesis by (simp add: getProfileTemplate_def)
qed

lemma sample_answer:
  "\<exists>s. db_getServers sample_serve (=) (Some [sample_descr_row ''AdA'', sample_descr_row ''AdB'']) ''App'' ''Svr'' ''10.0.0.1'' False no_docker =
     Some (Inr ([s], no_docker))"
proof -
  have w: "row_wanted (=) ''App'' ''Svr'' ''10.0.0.1'' False (sample_descr_row a)" for a by (simp add: row_wanted_def sample_descr_row_def)
  have i: "row_id (sample_descr_row a) = ''App.Svr_10.0.0.1''" for a by (simp add: row_id_def sample_descr_row_def)
  have p: "tcf_parse sample_lib x = Inr x" for x by (simp add: sample_lib_def)
  have f: "ds_template_name (sample_descr_row a) = ''a''" "ds_base_image_id (sample_descr_row a) = ''''" for a by (simp_all add: sample_descr_row_def)
  show ?thesis
    by (simp add: db_getServers_def w serve_row_def new_descriptor_def row_image_def row_template_def f i p sample_serve_def sample_profile
        add_adapter_def no_docker_def om_get_def Let_def)
qed

lemma sample_adapters: "map fst (adapters_of tc ''App.Svr_10.0.0.1'' [sample_descr_row ''AdA'', sample_descr_row ''AdB'']) = [''AdA'', ''AdB'']"
proof -
  have i: "row_id (sample_descr_row a) = ''App.Svr_10.0.0.1''" "ds_adapter_name (sample_descr_row a) = a" for a
    by (simp_all add: row_id_def sample_descr_row_def)
  have "filter (\<lambda>r. row_id r = ''App.Svr_10.0.0.1'' \<and> ds_adapter_name r \<noteq> '''') [sample_descr_row ''AdA'', sample_descr_row ''AdB''] =
      [sample_descr_row ''AdA'', sample_descr_row ''AdB'']"
    by (simp add: i)
  then show ?thesis unfolding adapters_of_def by (simp add: i(2))
qed

theorem every_server_once_witness:
  "\<exists>s. db_getServers sample_serve (=) (Some [sample_descr_row ''AdA'', sample_descr_row ''AdB'']) ''App'' ''Svr'' ''10.0.0.1'' False no_docker =
     Some (Inr ([s], no_docker)) \<and> map fst (gs_adapters s) = [''AdA'', ''AdB'']"
proof -
  obtain s where s: "db_getServers sample_serve (=) (Some [sample_descr_row ''AdA'', sample_descr_row ''AdB'']) ''App'' ''Svr'' ''10.0.0.1'' False no_docker =
     Some (Inr ([s], no_docker))" using sample_answer by blast
  note o = every_server_once[OF s]
  have w: "row_wanted (=) ''App'' ''Svr'' ''10.0.0.1'' False (sample_descr_row a)" for a by (simp add: row_wanted_def sample_descr_row_def)
  have i: "row_id (sample_descr_row a) = ''App.Svr_10.0.0.1''" for a by (simp add: row_id_def sample_descr_row_def)
  have "serv_id s \<in> set (map serv_id [s])" by simp
  then obtain r where "r \<in> set [sample_descr_row ''AdA'', sample_descr_row ''AdB'']" "serv_id s = row_id r"
    unfolding o[THEN conjunct2, THEN conjunct1] by blast
  then have id: "serv_id s = ''App.Svr_10.0.0.1''" unfolding list.set by (elim insertE) (simp_all only: i empty_iff)
  have a: "gs_adapters s = adapters_of (sv_tc sample_serve) (serv_id s) [sample_descr_row ''AdA'', sample_descr_row ''AdB'']"
    using o[THEN conjunct2, THEN conjunct2, rule_format, of s] by (simp only: filter.simps w if_True list.set insert_iff simp_thms)
  have "map fst (gs_adapters s) = [''AdA'', ''AdB'']" by (simp only: a id sample_adapters)
  with s show ?thesis by (intro exI[of _ s] conjI)
qed

theorem served_value_witness:
  "\<exists>s c. db_getServers sample_serve (=) (Some [sample_descr_row ''AdA'', sample_descr_row ''AdB'']) ''App'' ''Svr'' ''10.0.0.1'' False no_docker =
     Some (Inr ([s], no_docker)) \<and> tcf_parse sample_lib (gs_profile s) = Inr c \<and> sample_val c ''/tars/x<y>'' = Some ''3''"
proof -
  obtain s where s: "db_getServers sample_serve (=) (Some [sample_descr_row ''AdA'', sample_descr_row ''AdB'']) ''App'' ''Svr'' ''10.0.0.1'' False no_docker =
     Some (Inr ([s], no_docker))" using sample_answer by blast
  have lib: "sv_lib sample_serve = sample_lib" "sv_templates sample_serve = template_query_of (=) [sample_template ''a'' '''']"
    by (simp_all add: sample_serve_def)
  let ?ch = "[sample_template ''a'' '''']"
  have ch: "template_chain (template_query_of (=) ?ch) [] ''a'' ?ch"
    by (rule chain_top[where rows = "[]"]) (simp_all add: template_query_of_def sample_template_def)
  have ok: "chain_parses sample_lib ?ch" by (simp add: chain_parses_def sample_lib_def)
  obtain r where r: "r \<in> set [sample_descr_row ''AdA'', sample_descr_row ''AdB'']"
    and v: "\<forall>ch. template_chain (template_query_of (=) ?ch) [] (ds_template_name r) ch \<and> chain_parses sample_lib ch \<longrightarrow>
      (\<exists>c own. tcf_parse sample_lib (gs_profile s) = Inr c \<and> tcf_parse sample_lib (ds_profile r) = Inr own \<and>
        (\<forall>k. sample_val c k = joined (sample_val own k) (nearest sample_lib sample_val ch k)))"
    using served_value[of sample_serve sample_val, unfolded lib, OF sample_laws s] by auto
  have f: "ds_template_name r = ''a''" "ds_profile r = ''''" using r by (auto simp: sample_descr_row_def)
  obtain c own where c: "tcf_parse sample_lib (gs_profile s) = Inr c" "tcf_parse sample_lib '''' = Inr own"
    "\<forall>k. sample_val c k = joined (sample_val own k) (nearest sample_lib sample_val ?ch k)"
    using v[rule_format, of ?ch] ch ok unfolding f by blast
  then have "sample_val c ''/tars/x<y>'' = Some ''3''"
    by (simp add: sample_lib_def sample_val_def joined_def sample_template_def)
  with s c(1) show ?thesis by (intro exI[of _ s] exI[of _ c] conjI)
qed

end
