(* ===== verification/Reg_Group.thy ===== *)
theory Reg_Group
  imports Tars_Map
begin

text \<open>
  \<open>RegistryServer/DbHandle\<close>, part 1: endpoints, dotted IPv4 addresses, the client group of an
  address (\<open>getGroupId\<close>) and the group rules and priorities loaded from the database.
\<close>

section \<open>Data\<close>

datatype transport = UDP | TCP | SSL

text \<open>The fields of \<open>EndpointF\<close> that the registry writes or reads.\<close>

record endpoint_f =
  host :: string
  port :: int
  timeout :: int
  istcp :: transport
  nodeName :: string
  authType :: int
  grouprealid :: int
  groupworkid :: int
  setId :: string
  bakFlag :: int
  weight :: int
  weightType :: int

record object_item =
  vActiveEndpoints :: "endpoint_f list"
  vInactiveEndpoints :: "endpoint_f list"

record group_priority_entry =
  sGroupID :: string
  sStation :: string
  setGroupID :: "int set"

text \<open>
  The two maps behind \<open>getGroupId\<close> and \<open>getGroupIdByName\<close>. Both are double buffers in the
  code (\<open>TC_ReadersWriterData\<close>): a loader fills the writer side and publishes it with
  \<open>swap\<close>. The model keeps the published side, which is all a reader ever sees.
\<close>

record group_maps =
  groupIdMap :: "(string, int) omap"
  groupNameMap :: "(string, int) omap"

section \<open>Dotted addresses\<close>

text \<open>A \<open>size_t\<close> position stored into a \<open>uint32_t\<close>.\<close>

definition pos32 :: "nat option \<Rightarrow> 32 word" where
  "pos32 p = (case p of None \<Rightarrow> -1 | Some n \<Rightarrow> of_nat n)"

definition stringIpToInt :: "tc_common \<Rightarrow> string \<Rightarrow> 32 word" where
  "stringIpToInt tc sip =
     (let p1 = pos32 (str_find_from CHR ''.'' sip 0);
          p2 = pos32 (str_find_from CHR ''.'' sip (unat (p1 + 1)));
          p3 = pos32 (str_find_from CHR ''.'' sip (unat (p2 + 1)));
          ip1 = str_substr sip 0 (unat p1);
          ip2 = str_substr sip (unat (p1 + 1)) (unat (p2 - p1 - 1));
          ip3 = str_substr sip (unat (p2 + 1)) (unat (p3 - p2 - 1));
          ip4 = str_substr sip (unat (p3 + 1))
                  (unat (of_nat (length sip) - ucast p3 - 1 :: 64 word));
          byte = (\<lambda>s. tc_strto_uint tc s mod 256)
      in of_nat (byte ip1 * 16777216 + byte ip2 * 65536 + byte ip3 * 256 + byte ip4))"

definition ip_byte :: "32 word \<Rightarrow> nat \<Rightarrow> nat" where
  "ip_byte ip i = unat ip div 256 ^ i mod 256"

definition Ip2Str :: "32 word \<Rightarrow> string" where
  "Ip2Str ip = show_nat (ip_byte ip 3) @ ''.'' @ show_nat (ip_byte ip 2) @ ''.'' @
     show_nat (ip_byte ip 1) @ ''.'' @ show_nat (ip_byte ip 0)"

definition Ip2StarStr :: "32 word \<Rightarrow> string" where
  "Ip2StarStr ip = show_nat (ip_byte ip 3) @ ''.'' @ show_nat (ip_byte ip 2) @ ''.'' @
     show_nat (ip_byte ip 1) @ ''.*''"

text \<open>The text of an address, for stating what the two conversions do to it.\<close>

definition dotted :: "nat \<Rightarrow> nat \<Rightarrow> nat \<Rightarrow> nat \<Rightarrow> string" where
  "dotted a b c d = show_nat a @ ''.'' @ show_nat b @ ''.'' @ show_nat c @ ''.'' @ show_nat d"

definition star_rule :: "nat \<Rightarrow> nat \<Rightarrow> nat \<Rightarrow> string" where
  "star_rule a b c = show_nat a @ ''.'' @ show_nat b @ ''.'' @ show_nat c @ ''.*''"

lemma pos32_Some [simp]: "n < 2 ^ 32 \<Longrightarrow> unat (pos32 (Some n)) = n"
  by (simp add: pos32_def unat_of_nat)

lemma pos32_plus1: "n + 1 < 2 ^ 32 \<Longrightarrow> unat (pos32 (Some n) + 1) = n + 1"
proof -
  assume "n + 1 < 2 ^ 32"
  have "pos32 (Some n) + 1 = of_nat (n + 1)" by (simp add: pos32_def)
  with \<open>n + 1 < 2 ^ 32\<close> show ?thesis by (simp only: unat_of_nat) simp
qed

lemma pos32_gap:
  "n + k + 1 < 2 ^ 32 \<Longrightarrow> unat (pos32 (Some (n + 1 + k)) - pos32 (Some n) - 1) = k"
proof -
  assume "n + k + 1 < 2 ^ 32"
  have "pos32 (Some (n + 1 + k)) - pos32 (Some n) - 1 = of_nat k"
    by (simp add: pos32_def)
  with \<open>n + k + 1 < 2 ^ 32\<close> show ?thesis by (simp only: unat_of_nat) simp
qed

lemma pos64_gap:
  "n + k + 1 < 2 ^ 32 \<Longrightarrow>
     unat (of_nat (n + 1 + k) - ucast (pos32 (Some n)) - 1 :: 64 word) = k"
proof -
  assume a: "n + k + 1 < 2 ^ 32"
  then have "(ucast (pos32 (Some n)) :: 64 word) = of_nat n"
    by (simp add: pos32_def unsigned_of_nat take_bit_nat_eq_self)
  then have "of_nat (n + 1 + k) - ucast (pos32 (Some n)) - 1 = (of_nat k :: 64 word)"
    by simp
  with a show ?thesis by (simp only: unat_of_nat) simp
qed

lemma find_from_append:
  "c \<notin> set ys \<Longrightarrow> str_find_from c (xs @ ys @ c # zs) (length xs) = Some (length xs + length ys)"
  by (simp add: str_find_from_def str_find_append)

lemma substr_mid: "str_substr (xs @ ys @ zs) (length xs) (length ys) = ys"
  by (simp add: str_substr_def)

lemma stringIpToInt_split:
  assumes dots: "CHR ''.'' \<notin> set A" "CHR ''.'' \<notin> set B" "CHR ''.'' \<notin> set C"
    and short: "length A + length B + length C + length D < 1000"
  shows "stringIpToInt tc (A @ ''.'' @ B @ ''.'' @ C @ ''.'' @ D) =
    of_nat (tc_strto_uint tc A mod 256 * 16777216 + tc_strto_uint tc B mod 256 * 65536 +
      tc_strto_uint tc C mod 256 * 256 + tc_strto_uint tc D mod 256)"
proof -
  let ?s = "A @ ''.'' @ B @ ''.'' @ C @ ''.'' @ D"
  let ?p1 = "length A" and ?p2 = "length A + 1 + length B"
  let ?p3 = "length A + 1 + length B + 1 + length C"
  have f1: "str_find_from CHR ''.'' ?s 0 = Some ?p1"
    using find_from_append[OF dots(1), of "[]"] by simp
  have f2: "str_find_from CHR ''.'' ?s (?p1 + 1) = Some ?p2"
    using find_from_append[OF dots(2), of "A @ ''.''" "C @ ''.'' @ D"] by simp
  have f3: "str_find_from CHR ''.'' ?s (?p2 + 1) = Some ?p3"
    using find_from_append[OF dots(3), of "A @ ''.'' @ B @ ''.''" D] by simp
  have u1: "unat (pos32 (Some ?p1)) = ?p1" "unat (pos32 (Some ?p1) + 1) = ?p1 + 1"
    using short by (simp_all add: pos32_plus1)
  have u2: "unat (pos32 (Some ?p2) + 1) = ?p2 + 1"
    using short by (intro pos32_plus1) simp
  have u3: "unat (pos32 (Some ?p3) + 1) = ?p3 + 1"
    using short by (intro pos32_plus1) simp
  have g2: "unat (pos32 (Some ?p2) - pos32 (Some ?p1) - 1) = length B"
    using short by (intro pos32_gap) simp
  have g3: "unat (pos32 (Some ?p3) - pos32 (Some ?p2) - 1) = length C"
    using short by (intro pos32_gap) simp
  have len: "length ?s = ?p3 + 1 + length D" by simp
  have g4: "unat (of_nat (length ?s) - ucast (pos32 (Some ?p3)) - 1 :: 64 word) = length D"
    unfolding len using short by (intro pos64_gap) simp
  have d1: "str_substr ?s 0 ?p1 = A" by (simp add: str_substr_def)
  have d2: "str_substr ?s (?p1 + 1) (length B) = B" by (simp add: str_substr_def)
  have d3: "str_substr ?s (?p2 + 1) (length C) = C"
    using substr_mid[of "A @ ''.'' @ B @ ''.''" C "''.'' @ D"] by simp
  have d4: "str_substr ?s (?p3 + 1) (length D) = D"
    using substr_mid[of "A @ ''.'' @ B @ ''.'' @ C @ ''.''" D "[]"] by (simp add: add.assoc)
  show ?thesis
    unfolding stringIpToInt_def Let_def f1 u1 f2 u2 f3 u3 g2 g3 g4 d1 d2 d3 d4 ..
qed

lemma div_block: "r < m \<Longrightarrow> (q * m + r) div m = (q::nat)"
  by simp

lemma bytes_of_quad:
  assumes "a < 256" "b < 256" "c < 256" "d < 256"
  defines "n \<equiv> a * 16777216 + b * 65536 + c * 256 + d"
  shows "ip_byte (of_nat n) 3 = a" and "ip_byte (of_nat n) 2 = b"
    and "ip_byte (of_nat n) (Suc 0) = c" and "ip_byte (of_nat n) 0 = d"
proof -
  have u: "unat (of_nat n :: 32 word) = n"
    using assms(1-4) unfolding n_def by (simp only: unat_of_nat) simp
  have q3: "n div 16777216 = a"
    using assms(1-4) div_block[of "b * 65536 + c * 256 + d" 16777216 a] by (simp add: n_def)
  have q2: "n div 65536 = a * 256 + b"
    using assms(1-4) div_block[of "c * 256 + d" 65536 "a * 256 + b"] by (simp add: n_def)
  have q1: "n div 256 = a * 65536 + b * 256 + c"
    using assms(1-4) div_block[of d 256 "a * 65536 + b * 256 + c"] by (simp add: n_def)
  have m1: "(a * 65536 + b * 256 + c) mod 256 = c"
    using mod_mult_self3[of "a * 256 + b" 256 c] assms(3) by (simp add: algebra_simps)
  have m0: "n mod 256 = d"
    using mod_mult_self3[of "a * 65536 + b * 256 + c" 256 d] assms(4)
    by (simp add: n_def algebra_simps)
  show "ip_byte (of_nat n) 3 = a" "ip_byte (of_nat n) 2 = b"
    "ip_byte (of_nat n) (Suc 0) = c" "ip_byte (of_nat n) 0 = d"
    using assms(1-4) by (simp_all add: ip_byte_def u q3 q2 q1 m1 m0)
qed

definition reads_octets :: "tc_common \<Rightarrow> bool" where
  "reads_octets tc \<longleftrightarrow> (\<forall>n < 256. tc_strto_uint tc (show_nat n) = n)"

lemma stringIpToInt_dotted:
  assumes "reads_octets tc" "a < 256" "b < 256" "c < 256" "d < 256"
  shows "stringIpToInt tc (dotted a b c d) = of_nat (a * 16777216 + b * 65536 + c * 256 + d)"
proof -
  have short: "length (show_nat a) + length (show_nat b) + length (show_nat c) + length (show_nat d) < 1000"
    using show_nat_len[OF assms(2)] show_nat_len[OF assms(3)] show_nat_len[OF assms(4)]
      show_nat_len[OF assms(5)] by simp
  show ?thesis
    using assms stringIpToInt_split[OF show_nat_no_dot[of a] show_nat_no_dot[of b]
        show_nat_no_dot[of c] short, of tc]
    by (simp add: dotted_def reads_octets_def)
qed

text \<open>
  The decimal reader of the sample instance reads what \<open>%u\<close> prints, so the hypothesis of the
  address properties is satisfiable.
\<close>

lemma dec_val_append: "dec_val acc (xs @ [char_of (d + 48)]) = dec_val acc xs * 10 + d"
  if "d < 10" "\<forall>c \<in> set xs. 48 \<le> (of_char c :: nat) \<and> (of_char c :: nat) \<le> 57" for acc xs d
  using that by (induction xs arbitrary: acc) (auto simp: Let_def)

lemma show_nat_digits: "\<forall>c \<in> set (show_nat n). 48 \<le> (of_char c :: nat) \<and> (of_char c :: nat) \<le> 57"
proof (induction n rule: show_nat.induct)
  case (1 n)
  then show ?case by (subst show_nat.simps) (auto simp: ball_Un)
qed

lemma dec_val_show_nat: "dec_val 0 (show_nat n) = n"
proof (induction n rule: show_nat.induct)
  case (1 n)
  show ?case
  proof (cases "n < 10")
    case True
    then show ?thesis by (subst show_nat.simps) (simp add: Let_def)
  next
    case False
    with 1 show ?thesis
      by (subst show_nat.simps) (simp add: dec_val_append[OF _ show_nat_digits])
  qed
qed

lemma sample_reads_octets: "reads_octets sample_tc"
  by (simp add: reads_octets_def sample_tc_def dec_val_show_nat)

section \<open>Groups\<close>

definition getGroupId :: "tc_common \<Rightarrow> group_maps \<Rightarrow> string \<Rightarrow> int" where
  "getGroupId tc g ip =
     (case om_find (groupIdMap g) ip of
        Some v \<Rightarrow> v
      | None \<Rightarrow>
          (let uip = stringIpToInt tc ip; ipStar = Ip2StarStr uip
           in case om_find (groupIdMap g) ipStar of Some v \<Rightarrow> v | None \<Rightarrow> -1))"

definition getGroupIdByName :: "group_maps \<Rightarrow> string \<Rightarrow> int" where
  "getGroupIdByName g sGroupName =
     (if sGroupName = [] then -1
      else case om_find (groupNameMap g) sGroupName of Some v \<Rightarrow> v | None \<Rightarrow> -1)"

text \<open>A row of \<open>t_server_group_rule\<close>, the columns \<open>load2GroupMap\<close> reads.\<close>

record group_rule_row =
  gr_group_id :: string
  gr_allow_ip_rule :: string
  gr_group_name :: string

definition load2GroupMap :: "tc_common \<Rightarrow> group_rule_row list \<Rightarrow> group_maps" where
  "load2GroupMap tc rows =
     fold (\<lambda>row g.
       (let groupId = tc_strto_int tc (gr_group_id row);
            vIp = tc_sepstr tc (gr_allow_ip_rule row) ''|'' False
        in g\<lparr> groupIdMap := fold (\<lambda>ip. om_put ip groupId) vIp (groupIdMap g),
              groupNameMap := om_put (gr_group_name row) groupId (groupNameMap g) \<rparr>))
       rows \<lparr> groupIdMap = [], groupNameMap = [] \<rparr>"

text \<open>A query either yields rows or raises, a \<open>TC_Mysql_Exception\<close> or another exception.\<close>

datatype 'r query_result = Rows "'r list" | MysqlException | StdException

text \<open>
  \<open>loadIPPhysicalGroupInfo\<close> and \<open>loadGroupPriority\<close> retry for ever while the database fails and
  \<open>fromInit\<close> is set. One attempt is a step that either ends with a return code or asks for a
  retry after a second of sleep.
\<close>

datatype 'a attempt = Done 'a | Retry

definition loadIPPhysicalGroupInfo ::
  "tc_common \<Rightarrow> bool \<Rightarrow> group_rule_row query_result \<Rightarrow> group_maps \<Rightarrow> (int \<times> group_maps) attempt" where
  "loadIPPhysicalGroupInfo tc fromInit q g =
     (case q of
        Rows rows \<Rightarrow> Done (-1, load2GroupMap tc rows)
      | _ \<Rightarrow> if fromInit then Retry else Done (-1, g))"

record group_priority_row =
  gp_id :: string
  gp_group_list :: string
  gp_station :: string

text \<open>The map from row index to entry is the list of entries in row order.\<close>

definition load_priority_entry :: "tc_common \<Rightarrow> group_priority_row \<Rightarrow> group_priority_entry" where
  "load_priority_entry tc row =
     \<lparr> sGroupID = gp_id row, sStation = gp_station row,
       setGroupID = set (tc_sepstr_int tc (gp_group_list row) ''|,;'' False) \<rparr>"

definition loadGroupPriority ::
  "tc_common \<Rightarrow> bool \<Rightarrow> group_priority_row query_result \<Rightarrow> group_priority_entry list \<Rightarrow>
     (int \<times> group_priority_entry list) attempt" where
  "loadGroupPriority tc fromInit q cur =
     (case q of
        Rows rows \<Rightarrow> Done (0, map (load_priority_entry tc) rows)
      | _ \<Rightarrow> if fromInit then Retry else Done (-1, cur))"

section \<open>Properties\<close>

lemma Ip2Str_dotted:
  assumes "a < 256" "b < 256" "c < 256" "d < 256"
  shows "Ip2Str (of_nat (a * 16777216 + b * 65536 + c * 256 + d)) = dotted a b c d"
    and "Ip2StarStr (of_nat (a * 16777216 + b * 65536 + c * 256 + d)) = star_rule a b c"
  using bytes_of_quad[OF assms] by (simp_all add: Ip2Str_def Ip2StarStr_def dotted_def star_rule_def)

text \<open>
  Fact (address_roundtrip). Parsing the text of an address and printing the number gives
  the text back, for every address.
\<close>

theorem address_roundtrip:
  assumes "reads_octets tc" and "a < 256" "b < 256" "c < 256" "d < 256"
  shows "Ip2Str (stringIpToInt tc (dotted a b c d)) = dotted a b c d"
  unfolding stringIpToInt_dotted[OF assms] by (rule Ip2Str_dotted[OF assms(2-5)])

theorem address_roundtrip_witness:
  "Ip2Str (stringIpToInt sample_tc (dotted 192 168 0 254)) = dotted 192 168 0 254"
  using address_roundtrip[OF sample_reads_octets, of 192 168 0 254] by simp

text \<open>
  Fact (group_of_address). A client address belongs to the group of its exact rule; without
  one, to the group of the rule for its /24 network; otherwise to no group (-1).
\<close>

theorem group_of_address:
  assumes "reads_octets tc" and "a < 256" "b < 256" "c < 256" "d < 256"
  shows "getGroupId tc g (dotted a b c d) =
    (case om_find (groupIdMap g) (dotted a b c d) of Some v \<Rightarrow> v
     | None \<Rightarrow> om_get (-1) (groupIdMap g) (star_rule a b c))"
  unfolding getGroupId_def Let_def stringIpToInt_dotted[OF assms] Ip2Str_dotted(2)[OF assms(2-5)] om_get_def ..

theorem group_of_address_witness:
  "getGroupId sample_tc \<lparr> groupIdMap = [(star_rule 10 1 2, 7)], groupNameMap = [] \<rparr> (dotted 10 1 2 3) = 7"
proof -
  have "dotted 10 1 2 3 \<noteq> star_rule 10 1 2" by code_simp
  then show ?thesis
    using group_of_address[OF sample_reads_octets, of 10 1 2 3
        "\<lparr> groupIdMap = [(star_rule 10 1 2, 7)], groupNameMap = [] \<rparr>"]
    by (simp add: om_get_def)
qed

end
