(* ===== verification/Reg_Load.thy ===== *)
theory Reg_Load
  imports Reg_Group
begin

text \<open>
  \<open>RegistryServer/DbHandle\<close>, part 2: the servant caches and \<open>loadObjectIdCache\<close>, which turns the
  joined rows of \<open>t_server_conf\<close>, \<open>t_adapter_conf\<close> and \<open>t_registry_info\<close> into the active and
  inactive endpoint lists, the set division and the two status maps.
\<close>

section \<open>Keys and states\<close>

datatype servant_status_key = Key (application: string) (serverName: string) (keyNode: string)

text \<open>The comparison the code declares for the key.\<close>

definition key_less :: "servant_status_key \<Rightarrow> servant_status_key \<Rightarrow> bool" where
  "key_less l r =
     (if application l \<noteq> application r then application l < application r
      else if serverName l \<noteq> serverName r then serverName l < serverName r
      else if keyNode l \<noteq> keyNode r then keyNode l < keyNode r
      else False)"

instantiation servant_status_key :: linorder
begin

definition less_servant_status_key :: "servant_status_key \<Rightarrow> servant_status_key \<Rightarrow> bool" where
  "less_servant_status_key l r = key_less l r"

definition less_eq_servant_status_key :: "servant_status_key \<Rightarrow> servant_status_key \<Rightarrow> bool" where
  "less_eq_servant_status_key l r = (l = r \<or> key_less l r)"

instance
proof
  fix x y z :: servant_status_key
  show "x < y \<longleftrightarrow> x \<le> y \<and> \<not> y \<le> x"
    by (cases x; cases y) (auto simp: less_servant_status_key_def less_eq_servant_status_key_def key_less_def)
  show "x \<le> x" by (simp add: less_eq_servant_status_key_def)
  show "x \<le> y \<Longrightarrow> y \<le> z \<Longrightarrow> x \<le> z"
    by (cases x; cases y; cases z)
       (auto simp: less_eq_servant_status_key_def key_less_def split: if_splits)
  show "x \<le> y \<Longrightarrow> y \<le> x \<Longrightarrow> x = y"
    by (cases x; cases y) (auto simp: less_eq_servant_status_key_def key_less_def split: if_splits)
  show "x \<le> y \<or> y \<le> x"
    by (cases x; cases y) (auto simp: less_eq_servant_status_key_def key_less_def)
qed

end

record set_server_info =
  sSetId :: string
  sSetArea :: string
  bActive :: bool
  epf :: endpoint_f

text \<open>The static caches of \<open>CDbHandle\<close> (published sides of the double buffers).\<close>

record db_handle =
  objectsCache :: "(string, object_item) omap"
  setDivisionCache :: "(string, (string, set_server_info list) omap) omap"
  mapGroupPriority :: "group_priority_entry list"
  groups :: group_maps
  mapServantStatus :: "(servant_status_key, server_state) omap"
  mapServantFlowStatus :: "(servant_status_key, server_state) omap"

definition empty_item :: object_item where
  "empty_item = \<lparr> vActiveEndpoints = [], vInactiveEndpoints = [] \<rparr>"

section \<open>One row\<close>

text \<open>The columns of the two queries, and what \<open>TC_Endpoint::parse\<close> yields (\<open>None\<close>: it throws).\<close>

record object_row =
  r_servant :: string
  r_endpoint :: string
  r_enable_group :: string
  r_setting_state :: string
  r_present_state :: string
  r_flow_state :: string
  r_application :: string
  r_server_name :: string
  r_node_name :: string
  r_enable_set :: string
  r_set_name :: string
  r_set_area :: string
  r_set_group :: string
  r_ip_group_name :: string
  r_bak_flag :: string

record tc_endpoint =
  te_host :: string
  te_port :: int
  te_timeout :: int
  te_weightType :: int
  te_weight :: int
  te_isTcp :: bool
  te_isSSL :: bool
  te_authType :: int

text \<open>What the loop has gathered from the rows so far.\<close>

record load_acc =
  la_objects :: "(string, object_item) omap"
  la_sets :: "(string, (string, set_server_info list) omap) omap"
  la_status :: "(servant_status_key, server_state) omap"
  la_flow :: "(servant_status_key, server_state) omap"

definition empty_acc :: load_acc where
  "empty_acc = \<lparr> la_objects = [], la_sets = [], la_status = [], la_flow = [] \<rparr>"

definition row_key :: "object_row \<Rightarrow> servant_status_key" where
  "row_key row = Key (r_application row) (r_server_name row) (r_node_name row)"

definition row_endpoint :: "tc_common \<Rightarrow> group_maps \<Rightarrow> object_row \<Rightarrow> tc_endpoint \<Rightarrow> endpoint_f" where
  "row_endpoint tc g row ep =
     (let ip_group_name = tc_trim tc (r_ip_group_name row);
          realid = (if ip_group_name = [] then getGroupId tc g (te_host ep)
                    else getGroupIdByName g ip_group_name)
      in \<lparr> host = te_host ep, port = te_port ep, timeout = te_timeout ep,
           istcp = (if \<not> te_isTcp ep then UDP else if te_isSSL ep then SSL else TCP),
           nodeName = tc_trim tc (r_node_name row), authType = te_authType ep,
           grouprealid = realid,
           groupworkid = (if tc_lower tc (r_enable_group row) = ''y'' then realid else -1),
           setId = (if tc_lower tc (r_enable_set row) = ''y''
                    then r_set_name row @ ''.'' @ r_set_area row @ ''.'' @ r_set_group row else []),
           bakFlag = tc_strto_int tc (r_bak_flag row),
           weight = te_weight ep, weightType = te_weightType ep \<rparr>)"

definition row_active :: "object_row \<Rightarrow> bool" where
  "row_active row \<longleftrightarrow> r_setting_state row = ''active'' \<and> r_present_state row = ''active'' \<and>
     r_flow_state row \<noteq> ''inactive''"

definition row_set_valid :: "tc_common \<Rightarrow> object_row \<Rightarrow> bool" where
  "row_set_valid tc row \<longleftrightarrow> tc_lower tc (r_enable_set row) = ''y'' \<and>
     \<not> (r_set_name row = [] \<or> r_set_area row = [] \<or> r_set_group row = [] \<or>
        r_set_name row = ''*'' \<or> r_set_area row = ''*'')"

definition row_set_info :: "object_row \<Rightarrow> endpoint_f \<Rightarrow> set_server_info" where
  "row_set_info row e =
     \<lparr> sSetId = r_set_name row @ ''.'' @ r_set_area row @ ''.'' @ r_set_group row,
       sSetArea = r_set_name row @ ''.'' @ r_set_area row, bActive = row_active row, epf = e \<rparr>"

definition push_endpoint :: "bool \<Rightarrow> endpoint_f \<Rightarrow> object_item \<Rightarrow> object_item" where
  "push_endpoint act e it =
     (if act then it\<lparr> vActiveEndpoints := vActiveEndpoints it @ [e] \<rparr>
      else it\<lparr> vInactiveEndpoints := vInactiveEndpoints it @ [e] \<rparr>)"

definition push_set ::
  "string \<Rightarrow> string \<Rightarrow> set_server_info \<Rightarrow> (string, (string, set_server_info list) omap) omap \<Rightarrow>
     (string, (string, set_server_info list) omap) omap" where
  "push_set servant name info m =
     (let byName = om_get [] m servant
      in om_put servant (om_put name (om_get [] byName name @ [info]) byName) m)"

definition load_row ::
  "tc_common \<Rightarrow> (string \<Rightarrow> tc_endpoint option) \<Rightarrow> group_maps \<Rightarrow> bool \<Rightarrow> object_row \<Rightarrow> load_acc \<Rightarrow> load_acc" where
  "load_row tc ep_parse g bLoadAll row acc =
     (if r_servant row = [] \<and> r_endpoint row = [] then
        acc\<lparr> la_status := om_put (row_key row)
               (if r_setting_state row = ''active'' \<and> r_present_state row = ''active''
                then tars_Active else tars_Inactive) (la_status acc) \<rparr>
      else case ep_parse (r_endpoint row) of
        None \<Rightarrow> acc
      | Some ep \<Rightarrow>
          (let e = row_endpoint tc g row ep; act = row_active row in
           if bakFlag e = 1 then acc
           else
             let acc1 = acc\<lparr>
                   la_objects := om_put (r_servant row)
                     (push_endpoint act e (om_get empty_item (la_objects acc) (r_servant row)))
                     (la_objects acc),
                   la_status := om_put (row_key row)
                     (if act then tars_Active else tars_Inactive) (la_status acc),
                   la_flow := om_put (row_key row)
                     (if r_flow_state row = ''inactive'' then tars_Inactive else tars_Active)
                     (la_flow acc) \<rparr>
             in if row_set_valid tc row then
                  acc1\<lparr> la_sets := push_set (r_servant row) (r_set_name row) (row_set_info row e)
                          (la_sets acc1) \<rparr>
                else if \<not> bLoadAll then
                  acc1\<lparr> la_sets := om_put (r_servant row) (om_get [] (la_sets acc1) (r_servant row))
                          (la_sets acc1) \<rparr>
                else acc1))"

definition load_rows ::
  "tc_common \<Rightarrow> (string \<Rightarrow> tc_endpoint option) \<Rightarrow> group_maps \<Rightarrow> bool \<Rightarrow> object_row list \<Rightarrow> load_acc" where
  "load_rows tc ep_parse g bLoadAll rows = fold (load_row tc ep_parse g bLoadAll) rows empty_acc"

section \<open>The caches\<close>

definition UnionRecord :: "object_row list \<Rightarrow> object_row list \<Rightarrow> object_row list" where
  "UnionRecord data1 data2 = data1 @ data2"

definition updateObjectsCache :: "(string, object_item) omap \<Rightarrow> bool \<Rightarrow> db_handle \<Rightarrow> db_handle" where
  "updateObjectsCache objCache updateAll s =
     s\<lparr> objectsCache := (if updateAll then objCache else om_put_all objCache (objectsCache s)) \<rparr>"

definition updateStatusCache ::
  "(servant_status_key, server_state) omap \<Rightarrow> bool \<Rightarrow> db_handle \<Rightarrow> db_handle" where
  "updateStatusCache mStatus updateAll s =
     s\<lparr> mapServantStatus := (if updateAll then mStatus else om_put_all mStatus (mapServantStatus s)) \<rparr>"

definition updateFlowStatusCache ::
  "(servant_status_key, server_state) omap \<Rightarrow> bool \<Rightarrow> db_handle \<Rightarrow> db_handle" where
  "updateFlowStatusCache mStatus updateAll s =
     s\<lparr> mapServantFlowStatus :=
          (if updateAll then mStatus else om_put_all mStatus (mapServantFlowStatus s)) \<rparr>"

definition updateDivisionCache ::
  "(string, (string, set_server_info list) omap) omap \<Rightarrow> bool \<Rightarrow> db_handle \<Rightarrow> db_handle" where
  "updateDivisionCache setCache updateAll s =
     s\<lparr> setDivisionCache :=
          (if updateAll then setCache
           else fold (\<lambda>e tmp.
                  if snd e \<noteq> [] then om_put (fst e) (snd e) tmp
                  else if om_find tmp (fst e) \<noteq> None then om_erase (fst e) tmp
                  else tmp)
                setCache (setDivisionCache s)) \<rparr>"

definition updateServerFlowState :: "string \<Rightarrow> string \<Rightarrow> string list \<Rightarrow> bool \<Rightarrow> db_handle \<Rightarrow> db_handle" where
  "updateServerFlowState app srv nodeList bAct s =
     s\<lparr> mapServantFlowStatus :=
          fold (\<lambda>node. om_put (Key app srv node) (if bAct then tars_Active else tars_Inactive))
            nodeList (mapServantFlowStatus s) \<rparr>"

text \<open>
  The share of inactive nodes in percent. The two columns are sums over \<open>t_node_info\<close>; a
  negative code reports why the rate is unknown.
\<close>

definition computeInactiveRate :: "tc_common \<Rightarrow> (string \<times> string) query_result \<Rightarrow> int" where
  "computeInactiveRate tc q =
     (case q of
        Rows res \<Rightarrow>
          (case res of
             [(act, inact)] \<Rightarrow>
               (let iActive = tc_strto_int tc act; iInactive = tc_strto_int tc inact
                in if iActive < 0 \<or> iInactive < 0 then -2
                   else if iInactive + iActive \<le> 0 then 0
                   else c_div (100 * iInactive) (iInactive + iActive))
           | _ \<Rightarrow> -1)
      | MysqlException \<Rightarrow> -3
      | StdException \<Rightarrow> -4)"

section \<open>Loading\<close>

text \<open>
  Every database call of the loader is answered by the environment. The answers are arbitrary
  functions of the number of calls made so far, so they may change from one call to the next and
  from one retry to the next.
\<close>

record db_env =
  q_groups :: "nat \<Rightarrow> group_rule_row query_result"
  q_priority :: "nat \<Rightarrow> group_priority_row query_result"
  q_servers :: "nat \<Rightarrow> object_row query_result"
  q_registry :: "nat \<Rightarrow> object_row query_result"
  q_rate :: "nat \<Rightarrow> (string \<times> string) query_result"

text \<open>\<open>goto start\<close>: the pass is repeated, with the state and the call count it left behind.\<close>

partial_function (option) retry ::
  "('s \<times> nat \<Rightarrow> ('a attempt \<times> 's \<times> nat) option) \<Rightarrow> 's \<times> nat \<Rightarrow> ('a \<times> 's \<times> nat) option" where
  "retry pass x =
     Option.bind (pass x) (\<lambda>(r, y). case r of Done a \<Rightarrow> Some (a, y) | Retry \<Rightarrow> retry pass y)"

definition groups_pass ::
  "tc_common \<Rightarrow> bool \<Rightarrow> db_env \<Rightarrow> db_handle \<times> nat \<Rightarrow> (int attempt \<times> db_handle \<times> nat) option" where
  "groups_pass tc fromInit env x =
     (case loadIPPhysicalGroupInfo tc fromInit (q_groups env (snd x)) (groups (fst x)) of
        Done (r, g) \<Rightarrow> Some (Done r, (fst x)\<lparr> groups := g \<rparr>, Suc (snd x))
      | Retry \<Rightarrow> Some (Retry, fst x, Suc (snd x)))"

definition priority_pass ::
  "tc_common \<Rightarrow> bool \<Rightarrow> db_env \<Rightarrow> db_handle \<times> nat \<Rightarrow> (int attempt \<times> db_handle \<times> nat) option" where
  "priority_pass tc fromInit env x =
     (case loadGroupPriority tc fromInit (q_priority env (snd x)) (mapGroupPriority (fst x)) of
        Done (r, p) \<Rightarrow> Some (Done r, (fst x)\<lparr> mapGroupPriority := p \<rparr>, Suc (snd x))
      | Retry \<Rightarrow> Some (Retry, fst x, Suc (snd x)))"

text \<open>The protection check and the replacement of the caches, after the rows are gathered.\<close>

definition publish_acc :: "load_acc \<Rightarrow> bool \<Rightarrow> db_handle \<Rightarrow> db_handle" where
  "publish_acc acc bLoadAll s =
     updateDivisionCache (la_sets acc) bLoadAll
       (updateFlowStatusCache (la_flow acc) bLoadAll
         (updateStatusCache (la_status acc) bLoadAll
           (updateObjectsCache (la_objects acc) bLoadAll s)))"

definition finish_load ::
  "tc_common \<Rightarrow> bool \<Rightarrow> int \<Rightarrow> bool \<Rightarrow> db_env \<Rightarrow> load_acc \<Rightarrow> db_handle \<times> nat \<Rightarrow> int \<times> db_handle \<times> nat" where
  "finish_load tc protect limit bLoadAll env acc x =
     (let iRate = (if protect then computeInactiveRate tc (q_rate env (snd x)) else 0);
          n = (if protect then Suc (snd x) else snd x)
      in if protect \<and> iRate > limit \<and> la_objects acc \<noteq> [] then (-1, fst x, n)
         else (0, publish_acc acc bLoadAll (fst x), n))"

definition load_pass ::
  "tc_common \<Rightarrow> (string \<Rightarrow> tc_endpoint option) \<Rightarrow> bool \<Rightarrow> int \<Rightarrow> bool \<Rightarrow> bool \<Rightarrow> db_env \<Rightarrow>
     db_handle \<times> nat \<Rightarrow> (int attempt \<times> db_handle \<times> nat) option" where
  "load_pass tc ep_parse protect limit bLoadAll fromInit env x =
     Option.bind
       (if bLoadAll then
          Option.bind (retry (groups_pass tc fromInit env) x)
            (\<lambda>(_, y). Option.bind (retry (priority_pass tc fromInit env) y) (\<lambda>(_, z). Some z))
        else Some x)
       (\<lambda>(s, n).
          let failed = Some (if fromInit then Retry else Done (-1)) in
          case q_servers env n of
            Rows res1 \<Rightarrow>
              (case q_registry env (Suc n) of
                 Rows res2 \<Rightarrow>
                   (let acc = load_rows tc ep_parse (groups s) bLoadAll (UnionRecord res1 res2);
                        (r, y) = finish_load tc protect limit bLoadAll env acc (s, Suc (Suc n))
                    in Some (Done r, y))
               | _ \<Rightarrow> map_option (\<lambda>r. (r, s, Suc (Suc n))) failed)
          | _ \<Rightarrow> map_option (\<lambda>r. (r, s, Suc n)) failed)"

definition loadObjectIdCache ::
  "tc_common \<Rightarrow> (string \<Rightarrow> tc_endpoint option) \<Rightarrow> bool \<Rightarrow> int \<Rightarrow> bool \<Rightarrow> bool \<Rightarrow> db_env \<Rightarrow>
     db_handle \<times> nat \<Rightarrow> (int \<times> db_handle \<times> nat) option" where
  "loadObjectIdCache tc ep_parse protect limit bLoadAll fromInit env x =
     retry (load_pass tc ep_parse protect limit bLoadAll fromInit env) x"

section \<open>What the rows become\<close>

text \<open>A row contributes an endpoint when it is not a bare server row, parses and is no backup.\<close>

definition row_counts ::
  "tc_common \<Rightarrow> (string \<Rightarrow> tc_endpoint option) \<Rightarrow> group_maps \<Rightarrow> object_row \<Rightarrow> endpoint_f option" where
  "row_counts tc ep_parse g row =
     (if r_servant row = [] \<and> r_endpoint row = [] then None
      else case ep_parse (r_endpoint row) of
        None \<Rightarrow> None
      | Some ep \<Rightarrow> (let e = row_endpoint tc g row ep in if bakFlag e = 1 then None else Some e))"

text \<open>The endpoints of servant \<open>sid\<close> whose rows have activity \<open>act\<close>, in row order.\<close>

definition expected_eps ::
  "tc_common \<Rightarrow> (string \<Rightarrow> tc_endpoint option) \<Rightarrow> group_maps \<Rightarrow> bool \<Rightarrow> string \<Rightarrow> object_row list \<Rightarrow>
     endpoint_f list" where
  "expected_eps tc ep_parse g act sid rows =
     List.map_filter (\<lambda>row. if r_servant row = sid \<and> row_active row = act
                            then row_counts tc ep_parse g row else None) rows"

lemma load_row_skip:
  "row_counts tc ep_parse g row = None \<Longrightarrow>
     la_objects (load_row tc ep_parse g al row acc) = la_objects acc \<and>
     la_sets (load_row tc ep_parse g al row acc) = la_sets acc \<and>
     la_flow (load_row tc ep_parse g al row acc) = la_flow acc"
  by (auto simp: row_counts_def load_row_def Let_def split: if_splits option.splits)

lemma load_row_objects:
  "row_counts tc ep_parse g row = Some e \<Longrightarrow>
     la_objects (load_row tc ep_parse g al row acc) =
       om_put (r_servant row)
         (push_endpoint (row_active row) e (om_get empty_item (la_objects acc) (r_servant row)))
         (la_objects acc)"
  by (auto simp: row_counts_def load_row_def Let_def split: if_splits option.splits)

lemma push_endpoint_active [simp]:
  "vActiveEndpoints (push_endpoint act e it) = vActiveEndpoints it @ (if act then [e] else [])"
  "vInactiveEndpoints (push_endpoint act e it) = vInactiveEndpoints it @ (if act then [] else [e])"
  by (simp_all add: push_endpoint_def)

text \<open>The gathered lists after any prefix of the rows, by induction from the right.\<close>

lemma load_rows_snoc:
  "load_rows tc ep_parse g al (rows @ [row]) = load_row tc ep_parse g al row (load_rows tc ep_parse g al rows)"
  by (simp add: load_rows_def)

lemma expected_eps_snoc:
  "expected_eps tc ep_parse g act sid (rows @ [row]) =
     expected_eps tc ep_parse g act sid rows @
       (if r_servant row = sid \<and> row_active row = act
        then (case row_counts tc ep_parse g row of None \<Rightarrow> [] | Some e \<Rightarrow> [e]) else [])"
  by (simp add: expected_eps_def List.map_filter_def split: option.splits)

lemma load_rows_lists:
  "vActiveEndpoints (om_get empty_item (la_objects (load_rows tc ep_parse g al rows)) sid) =
     expected_eps tc ep_parse g True sid rows \<and>
   vInactiveEndpoints (om_get empty_item (la_objects (load_rows tc ep_parse g al rows)) sid) =
     expected_eps tc ep_parse g False sid rows"
proof (induction rows rule: rev_induct)
  case Nil
  then show ?case by (simp add: load_rows_def empty_acc_def expected_eps_def empty_item_def List.map_filter_def)
next
  case (snoc row rows)
  show ?case
  proof (cases "row_counts tc ep_parse g row")
    case None
    with snoc load_row_skip[OF None] show ?thesis
      by (simp add: load_rows_snoc expected_eps_snoc)
  next
    case (Some e)
    with snoc load_row_objects[OF Some] show ?thesis
      by (auto simp: load_rows_snoc expected_eps_snoc)
  qed
qed

section \<open>The set division agrees with the endpoint lists\<close>

abbreviation eps_of :: "bool \<Rightarrow> object_item \<Rightarrow> endpoint_f list" where
  "eps_of act it \<equiv> (if act then vActiveEndpoints it else vInactiveEndpoints it)"

definition sets_agree ::
  "(string, (string, set_server_info list) omap) omap \<Rightarrow> (string, object_item) omap \<Rightarrow> bool" where
  "sets_agree sets objs \<longleftrightarrow>
     (\<forall>sid name info. info \<in> set (om_get [] (om_get [] sets sid) name) \<longrightarrow>
        epf info \<in> set (eps_of (bActive info) (om_get empty_item objs sid)))"

lemma sets_agreeD:
  "sets_agree sets objs \<Longrightarrow> info \<in> set (om_get [] (om_get [] sets sid) name) \<Longrightarrow>
     epf info \<in> set (eps_of (bActive info) (om_get empty_item objs sid))"
  by (simp only: sets_agree_def)

lemma push_endpoint_mono: "set (eps_of b it) \<subseteq> set (eps_of b (push_endpoint act e it))"
  by auto

lemma sets_agree_grow:
  assumes "sets_agree sets objs"
  shows "sets_agree sets (om_put sid (push_endpoint act e (om_get empty_item objs sid)) objs)"
  unfolding sets_agree_def
proof (intro allI impI)
  fix sid' name info
  assume "info \<in> set (om_get [] (om_get [] sets sid') name)"
  with assms have "epf info \<in> set (eps_of (bActive info) (om_get empty_item objs sid'))"
    unfolding sets_agree_def by blast
  then show "epf info \<in> set (eps_of (bActive info)
      (om_get empty_item (om_put sid (push_endpoint act e (om_get empty_item objs sid)) objs) sid'))"
    using push_endpoint_mono[of "bActive info" "om_get empty_item objs sid" act e] by (cases "sid' = sid") auto
qed

lemma sets_agree_push:
  "sets_agree sets objs \<Longrightarrow> epf info \<in> set (eps_of (bActive info) (om_get empty_item objs sid)) \<Longrightarrow>
     sets_agree (push_set sid name info sets) objs"
  by (auto simp: sets_agree_def push_set_def Let_def)

lemma sets_agree_default:
  "sets_agree sets objs \<Longrightarrow> sets_agree (om_put sid (om_get [] sets sid) sets) objs"
  by (auto simp: sets_agree_def)

definition acc_inv :: "bool \<Rightarrow> load_acc \<Rightarrow> bool" where
  "acc_inv al acc \<longleftrightarrow>
     om_ok (la_objects acc) \<and> om_ok (la_sets acc) \<and> om_ok (la_status acc) \<and> om_ok (la_flow acc) \<and>
     sets_agree (la_sets acc) (la_objects acc) \<and>
     (\<not> al \<longrightarrow> dom (om_find (la_sets acc)) = dom (om_find (la_objects acc)))"

lemma push_set_ok [simp]: "om_ok m \<Longrightarrow> om_ok (push_set sid name info m)"
  by (simp add: push_set_def Let_def)

lemma push_set_dom [simp]: "dom (om_find (push_set sid name info m)) = insert sid (dom (om_find m))"
  by (simp add: push_set_def Let_def)

lemma load_row_inv:
  assumes "acc_inv al acc"
  shows "acc_inv al (load_row tc ep_parse g al row acc)"
proof (cases "row_counts tc ep_parse g row")
  case None
  with assms load_row_skip[OF None, of al acc] show ?thesis
    by (auto simp: acc_inv_def load_row_def row_counts_def Let_def split: if_splits option.splits)
next
  case (Some e)
  then obtain ep where ep: "ep_parse (r_endpoint row) = Some ep" "e = row_endpoint tc g row ep"
    and not_bare: "\<not> (r_servant row = [] \<and> r_endpoint row = [])" and "bakFlag e \<noteq> 1"
    by (auto simp: row_counts_def Let_def split: if_splits option.splits)
  let ?objs = "om_put (r_servant row) (push_endpoint (row_active row) e
       (om_get empty_item (la_objects acc) (r_servant row))) (la_objects acc)"
  have agree: "sets_agree (la_sets acc) ?objs"
    using assms by (intro sets_agree_grow) (simp add: acc_inv_def)
  have member: "epf (row_set_info row e) \<in>
      set (eps_of (bActive (row_set_info row e)) (om_get empty_item ?objs (r_servant row)))"
    by (simp add: row_set_info_def)
  show ?thesis
    using assms not_bare ep \<open>bakFlag e \<noteq> 1\<close> agree sets_agree_push[OF agree member]
      sets_agree_default[OF agree]
    by (simp add: load_row_def Let_def acc_inv_def)
qed

lemma load_rows_inv: "acc_inv al (load_rows tc ep_parse g al rows)"
proof (induction rows rule: rev_induct)
  case Nil
  show ?case by (simp add: load_rows_def empty_acc_def acc_inv_def sets_agree_def)
next
  case (snoc row rows)
  then show ?case by (simp add: load_rows_snoc load_row_inv)
qed

text \<open>The incremental replacement of the set division, read key by key.\<close>

lemma division_loop_find:
  "distinct (map fst es) \<Longrightarrow>
     om_find (fold (\<lambda>e tmp. if snd e \<noteq> [] then om_put (fst e) (snd e) tmp
                    else if om_find tmp (fst e) \<noteq> None then om_erase (fst e) tmp else tmp) es m) k =
       (case om_find es k of Some v \<Rightarrow> if v \<noteq> [] then Some v else None | None \<Rightarrow> om_find m k)"
proof (induction es arbitrary: m)
  case Nil
  then show ?case by simp
next
  case (Cons e es)
  then have "fst e = k \<Longrightarrow> om_find es k = None"
    by (auto simp: map_of_eq_None_iff)
  with Cons show ?case by (auto split: option.splits)
qed

text \<open>
  The cache invariant: what a set lookup can return for a servant is among the endpoints the
  plain lookup returns for it, with the same activity.
\<close>

definition cache_agree :: "db_handle \<Rightarrow> bool" where
  "cache_agree s \<longleftrightarrow> sets_agree (setDivisionCache s) (objectsCache s)"

lemma publish_acc_agree:
  assumes "acc_inv al acc" and "cache_agree s"
  shows "cache_agree (publish_acc acc al s)"
proof (cases al)
  case True
  with assms show ?thesis
    by (simp add: cache_agree_def publish_acc_def updateDivisionCache_def updateFlowStatusCache_def
        updateStatusCache_def updateObjectsCache_def acc_inv_def)
next
  case False
  let ?s = "publish_acc acc al s"
  have objs: "om_get empty_item (objectsCache ?s) sid =
      (if om_find (la_objects acc) sid = None then om_get empty_item (objectsCache s) sid
       else om_get empty_item (la_objects acc) sid)" for sid
    using assms(1) False
    by (auto simp: publish_acc_def updateDivisionCache_def updateFlowStatusCache_def
        updateStatusCache_def updateObjectsCache_def acc_inv_def om_find_put_all om_get_def
        split: option.splits)
  have sets: "om_get [] (setDivisionCache ?s) sid =
      (if om_find (la_sets acc) sid = None then om_get [] (setDivisionCache s) sid
       else om_get [] (la_sets acc) sid)" for sid
    using assms(1) False
    by (auto simp: publish_acc_def updateDivisionCache_def updateFlowStatusCache_def
        updateStatusCache_def updateObjectsCache_def acc_inv_def division_loop_find om_ok_distinct
        om_get_def split: option.splits)
  have same: "om_find (la_sets acc) sid = None \<longleftrightarrow> om_find (la_objects acc) sid = None" for sid
    using assms(1) False unfolding acc_inv_def by (metis domIff)
  have both: "sets_agree (la_sets acc) (la_objects acc)" "sets_agree (setDivisionCache s) (objectsCache s)"
    using assms by (simp_all add: acc_inv_def cache_agree_def)
  show ?thesis
    unfolding cache_agree_def sets_agree_def
  proof (intro allI impI)
    fix sid name info
    assume "info \<in> set (om_get [] (om_get [] (setDivisionCache ?s) sid) name)"
    then show "epf info \<in> set (eps_of (bActive info) (om_get empty_item (objectsCache ?s) sid))"
    proof (cases "om_find (la_objects acc) sid = None")
      case True
      then have old: "om_get [] (setDivisionCache ?s) sid = om_get [] (setDivisionCache s) sid"
        "om_get empty_item (objectsCache ?s) sid = om_get empty_item (objectsCache s) sid"
        using sets[of sid] objs[of sid] same[of sid] by simp_all
      show ?thesis
        using \<open>info \<in> _\<close> unfolding old by (rule sets_agreeD[OF both(2)])
    next
      case False
      then have new: "om_get [] (setDivisionCache ?s) sid = om_get [] (la_sets acc) sid"
        "om_get empty_item (objectsCache ?s) sid = om_get empty_item (la_objects acc) sid"
        using sets[of sid] objs[of sid] same[of sid] by auto
      show ?thesis
        using \<open>info \<in> _\<close> unfolding new by (rule sets_agreeD[OF both(1)])
    qed
  qed
qed

section \<open>Retry loops\<close>

lemma retry_last:
  assumes ret: "retry pass x = Some (a, y)"
    and keep: "\<And>x y. I x \<Longrightarrow> pass x = Some (Retry, y) \<Longrightarrow> I y"
    and start: "I x"
  shows "\<exists>z. I z \<and> pass z = Some (Done a, y)"
proof -
  note induct = retry.raw_induct[where P = "\<lambda>p x r. p = pass \<longrightarrow> I x \<longrightarrow>
      (\<exists>z. I z \<and> pass z = Some (Done (fst r), snd r))" and xa = "(pass, x)", unfolded prod.case, OF _ ret]
  have "pass = pass \<longrightarrow> I x \<longrightarrow> (\<exists>z. I z \<and> pass z = Some (Done (fst (a, y)), snd (a, y)))"
  proof (rule induct)
    fix f and p :: "'b \<times> nat \<Rightarrow> ('a attempt \<times> 'b \<times> nat) option" and x r
    assume IH: "\<And>p x r. f p x = Some r \<Longrightarrow> p = pass \<longrightarrow> I x \<longrightarrow>
        (\<exists>z. I z \<and> pass z = Some (Done (fst r), snd r))"
      and eq: "Option.bind (p x) (\<lambda>(r, y). case r of Done a \<Rightarrow> Some (a, y) | Retry \<Rightarrow> f p y) = Some r"
    show "p = pass \<longrightarrow> I x \<longrightarrow> (\<exists>z. I z \<and> pass z = Some (Done (fst r), snd r))"
    proof (intro impI)
      assume "p = pass" "I x"
      from eq obtain q y where py: "p x = Some (q, y)" by (cases "p x") auto
      show "\<exists>z. I z \<and> pass z = Some (Done (fst r), snd r)"
      proof (cases q)
        case (Done a)
        with eq py \<open>p = pass\<close> \<open>I x\<close> show ?thesis by (intro exI[of _ x]) auto
      next
        case Retry
        with py keep \<open>p = pass\<close> \<open>I x\<close> have "I y" by blast
        with eq py IH[of p y r] \<open>p = pass\<close> Retry show ?thesis by auto
      qed
    qed
  qed
  with start show ?thesis by simp
qed

lemma retry_inv:
  assumes "retry pass x = Some (a, y)"
    and keep: "\<And>x r y. I x \<Longrightarrow> pass x = Some (r, y) \<Longrightarrow> I y"
    and "I x"
  shows "I y"
  using retry_last[OF assms(1), of I] keep assms(3) by blast

lemma retry_terminates:
  assumes total: "\<And>x. \<exists>r y. pass x = Some (r, y) \<and> snd x < snd y"
    and ends: "\<And>x. N \<le> snd x \<Longrightarrow> \<exists>a y. pass x = Some (Done a, y)"
  shows "\<exists>a y. retry pass x = Some (a, y) \<and> snd x < snd y"
proof (induction "N - snd x" arbitrary: x rule: less_induct)
  case less
  obtain r y where p: "pass x = Some (r, y)" "snd x < snd y" using total[of x] by auto
  show ?case
  proof (cases r)
    case (Done a)
    with p show ?thesis by (simp add: retry.simps[of pass x])
  next
    case Retry
    with p ends[of x] have "snd x < N" by (cases "N \<le> snd x") auto
    with p have "N - snd y < N - snd x" by simp
    from less[OF this] obtain a z where "retry pass y = Some (a, z)" "snd y < snd z" by auto
    with p Retry show ?thesis by (simp add: retry.simps[of pass x])
  qed
qed

definition db_recovers :: "db_env \<Rightarrow> nat \<Rightarrow> bool" where
  "db_recovers env N \<longleftrightarrow> (\<forall>n \<ge> N. (\<exists>r. q_groups env n = Rows r) \<and> (\<exists>r. q_priority env n = Rows r) \<and>
     (\<exists>r. q_servers env n = Rows r) \<and> (\<exists>r. q_registry env n = Rows r))"

lemma groups_pass_total: "\<exists>r y. groups_pass tc fi env x = Some (r, y) \<and> snd x < snd y"
  by (auto simp: groups_pass_def split: attempt.splits)

lemma priority_pass_total: "\<exists>r y. priority_pass tc fi env x = Some (r, y) \<and> snd x < snd y"
  by (auto simp: priority_pass_def split: attempt.splits)

lemma groups_loop:
  "db_recovers env N \<or> \<not> fi \<Longrightarrow> \<exists>a y. retry (groups_pass tc fi env) x = Some (a, y) \<and> snd x < snd y"
  by (rule retry_terminates[where N = "if fi then N else 0"])
     (use groups_pass_total in blast,
      fastforce simp: groups_pass_def loadIPPhysicalGroupInfo_def db_recovers_def
        split: attempt.splits query_result.splits)

lemma priority_loop:
  "db_recovers env N \<or> \<not> fi \<Longrightarrow> \<exists>a y. retry (priority_pass tc fi env) x = Some (a, y) \<and> snd x < snd y"
  by (rule retry_terminates[where N = "if fi then N else 0"])
     (use priority_pass_total in blast,
      fastforce simp: priority_pass_def loadGroupPriority_def db_recovers_def
        split: attempt.splits query_result.splits)

lemma load_pass_total:
  assumes "db_recovers env N \<or> \<not> fi"
  shows "\<exists>r y. load_pass tc ep_parse protect limit al fi env x = Some (r, y) \<and> snd x < snd y"
proof -
  obtain a1 y1 where 1: "retry (groups_pass tc fi env) x = Some (a1, y1)" "snd x < snd y1"
    using groups_loop[OF assms] by blast
  obtain a2 y2 where 2: "retry (priority_pass tc fi env) y1 = Some (a2, y2)" "snd y1 < snd y2"
    using priority_loop[OF assms] by blast
  show ?thesis
    using 1 2 by (cases x; cases y2)
      (auto simp: load_pass_def finish_load_def Let_def split: query_result.splits)
qed

lemma load_pass_ends:
  assumes "db_recovers env N \<or> \<not> fi" and "fi \<Longrightarrow> N \<le> snd x"
  shows "\<exists>a y. load_pass tc ep_parse protect limit al fi env x = Some (Done a, y)"
proof -
  obtain a1 y1 where 1: "retry (groups_pass tc fi env) x = Some (a1, y1)" "snd x < snd y1"
    using groups_loop[OF assms(1)] by blast
  obtain a2 y2 where 2: "retry (priority_pass tc fi env) y1 = Some (a2, y2)" "snd y1 < snd y2"
    using priority_loop[OF assms(1)] by blast
  have answers: "fi \<Longrightarrow> N \<le> m \<Longrightarrow> (\<exists>r. q_servers env m = Rows r) \<and> (\<exists>r. q_registry env m = Rows r)" for m
    using assms(1) by (auto simp: db_recovers_def)
  show ?thesis
    using 1 2 assms(2) answers[of "snd x"] answers[of "Suc (snd x)"] answers[of "snd y2"] answers[of "Suc (snd y2)"]
    by (cases x; cases y2)
       (auto simp: load_pass_def finish_load_def Let_def split: query_result.splits)
qed

lemma load_returns:
  assumes "db_recovers env N \<or> \<not> fi"
  shows "\<exists>r y. loadObjectIdCache tc ep_parse protect limit al fi env x = Some (r, y)"
proof -
  let ?pass = "load_pass tc ep_parse protect limit al fi env"
  have "\<exists>a y. retry ?pass x = Some (a, y) \<and> snd x < snd y"
  proof (rule retry_terminates[where N = "if fi then N else 0"])
    fix x :: "db_handle \<times> nat"
    show "\<exists>r y. ?pass x = Some (r, y) \<and> snd x < snd y"
      using assms by (rule load_pass_total)
    assume "(if fi then N else 0) \<le> snd x"
    then show "\<exists>a y. ?pass x = Some (Done a, y)"
      by (intro load_pass_ends[OF assms]) (simp split: if_splits)
  qed
  then show ?thesis unfolding loadObjectIdCache_def by blast
qed

lemma publish_frame:
  "groups (publish_acc acc al s) = groups s" "mapGroupPriority (publish_acc acc al s) = mapGroupPriority s"
  by (simp_all add: publish_acc_def updateDivisionCache_def updateFlowStatusCache_def
      updateStatusCache_def updateObjectsCache_def)

lemma groups_pass_frame:
  "groups_pass tc fi env x = Some (r, y) \<Longrightarrow> cache_agree (fst x) \<Longrightarrow> cache_agree (fst y)"
  by (auto simp: groups_pass_def cache_agree_def split: attempt.splits)

lemma priority_pass_frame:
  "priority_pass tc fi env x = Some (r, y) \<Longrightarrow> cache_agree (fst x) \<Longrightarrow> cache_agree (fst y)"
  by (auto simp: priority_pass_def cache_agree_def split: attempt.splits)

lemma finish_load_agree:
  "finish_load tc protect limit al env acc x = (r, y) \<Longrightarrow> acc_inv al acc \<Longrightarrow> cache_agree (fst x) \<Longrightarrow>
     cache_agree (fst y)"
  by (auto simp: finish_load_def Let_def publish_acc_agree split: if_splits)

lemma load_pass_agree:
  assumes "load_pass tc ep_parse protect limit al fi env x = Some (r, y)" and "cache_agree (fst x)"
  shows "cache_agree (fst y)"
proof -
  obtain s n where sn: "(if al then Option.bind (retry (groups_pass tc fi env) x)
            (\<lambda>(_, y). Option.bind (retry (priority_pass tc fi env) y) (\<lambda>(_, z). Some z))
        else Some x) = Some (s, n)"
    using assms(1) by (auto simp: load_pass_def bind_eq_Some_conv)
  have s: "cache_agree s"
  proof (cases al)
    case True
    with sn obtain a1 y1 a2 where r: "retry (groups_pass tc fi env) x = Some (a1, y1)"
      "retry (priority_pass tc fi env) y1 = Some (a2, (s, n))"
      by (auto simp: bind_eq_Some_conv)
    have "cache_agree (fst y1)"
      using retry_inv[OF r(1), of "\<lambda>x. cache_agree (fst x)"] groups_pass_frame assms(2) by auto
    then show ?thesis
      using retry_inv[OF r(2), of "\<lambda>x. cache_agree (fst x)"] priority_pass_frame by auto
  next
    case False
    with sn assms(2) show ?thesis by auto
  qed
  with assms(1) sn show ?thesis
    by (auto simp: load_pass_def Let_def split: query_result.splits if_splits prod.splits
        dest!: finish_load_agree[OF _ load_rows_inv])
qed

lemma load_agree:
  assumes "loadObjectIdCache tc ep_parse protect limit al fi env x = Some (r, y)" and "cache_agree (fst x)"
  shows "cache_agree (fst y)"
proof -
  show ?thesis
    using assms(1)[unfolded loadObjectIdCache_def]
  proof (rule retry_inv[where I = "\<lambda>x. cache_agree (fst x)"])
    show "cache_agree (fst x)" by (rule assms(2))
    fix x r y
    assume "cache_agree (fst x)" "load_pass tc ep_parse protect limit al fi env x = Some (r, y)"
    then show "cache_agree (fst y)" using load_pass_agree by blast
  qed
qed

text \<open>
  The incremental refresh as the reader of one servant sees it: a servant some counted row belongs
  to is replaced, every other servant keeps what it had.
\<close>

lemma expected_none:
  "(\<forall>row \<in> set rows. r_servant row = sid \<longrightarrow> row_counts tc ep_parse g row = None) \<Longrightarrow>
     om_find (la_objects (load_rows tc ep_parse g al rows)) sid = None"
proof (induction rows rule: rev_induct)
  case Nil
  then show ?case by (simp add: load_rows_def empty_acc_def)
next
  case (snoc row rows)
  then show ?case
    by (cases "row_counts tc ep_parse g row")
       (auto simp: load_rows_snoc load_row_skip load_row_objects)
qed

lemma publish_objects_incr:
  "acc_inv al acc \<Longrightarrow> om_find (objectsCache (publish_acc acc False s)) sid =
     (case om_find (la_objects acc) sid of Some it \<Rightarrow> Some it | None \<Rightarrow> om_find (objectsCache s) sid)"
  by (simp add: publish_acc_def updateDivisionCache_def updateFlowStatusCache_def
      updateStatusCache_def updateObjectsCache_def om_find_put_all acc_inv_def)

section \<open>Properties\<close>

text \<open>The part of the state that the servant caches make up.\<close>

definition servant_caches :: "db_handle \<Rightarrow> _" where
  "servant_caches s = (objectsCache s, setDivisionCache s, mapServantStatus s, mapServantFlowStatus s)"

lemma publish_full:
  "objectsCache (publish_acc acc True s) = la_objects acc"
  by (simp add: publish_acc_def updateDivisionCache_def updateFlowStatusCache_def
      updateStatusCache_def updateObjectsCache_def)

lemma groups_pass_caches:
  "groups_pass tc fi env x = Some (r, y) \<Longrightarrow> servant_caches (fst y) = servant_caches (fst x)"
  by (auto simp: groups_pass_def servant_caches_def split: attempt.splits)

lemma priority_pass_caches:
  "priority_pass tc fi env x = Some (r, y) \<Longrightarrow> servant_caches (fst y) = servant_caches (fst x)"
  by (auto simp: priority_pass_def servant_caches_def split: attempt.splits)

lemma preload_caches:
  assumes "(if al then Option.bind (retry (groups_pass tc fi env) x)
            (\<lambda>(_, y). Option.bind (retry (priority_pass tc fi env) y) (\<lambda>(_, z). Some z))
        else Some x) = Some (s, n)"
  shows "servant_caches s = servant_caches (fst x)"
proof (cases al)
  case True
  with assms obtain a1 y1 a2 where r: "retry (groups_pass tc fi env) x = Some (a1, y1)"
    "retry (priority_pass tc fi env) y1 = Some (a2, (s, n))"
    by (auto simp: bind_eq_Some_conv)
  let ?same = "\<lambda>z. servant_caches (fst z) = servant_caches (fst x)"
  have "?same y1"
    using r(1)
  proof (rule retry_inv[where I = ?same])
    fix x' r y assume "?same x'" "groups_pass tc fi env x' = Some (r, y)"
    then show "?same y" using groups_pass_caches by metis
  qed simp
  have "?same (s, n)"
    using r(2)
  proof (rule retry_inv[where I = ?same])
    show "?same y1" by fact
    fix x' r y assume "?same x'" "priority_pass tc fi env x' = Some (r, y)"
    then show "?same y" using priority_pass_caches by metis
  qed
  then show ?thesis by simp
next
  case False
  with assms show ?thesis by auto
qed

text \<open>
  The two ways a pass can end: with the caches as they were (a database error, or the protection),
  or with code 0 and the gathered rows published.
\<close>

lemma load_pass_cases:
  assumes "load_pass tc ep_parse protect limit al fi env x = Some (r, y)"
  shows "(r \<noteq> Done 0 \<and> servant_caches (fst y) = servant_caches (fst x)) \<or>
    (r = Done 0 \<and> (\<exists>s n rows1 rows2. servant_caches s = servant_caches (fst x) \<and>
       q_servers env n = Rows rows1 \<and> q_registry env (Suc n) = Rows rows2 \<and>
       fst y = publish_acc (load_rows tc ep_parse (groups s) al (UnionRecord rows1 rows2)) al s))"
proof -
  obtain s n where sn: "(if al then Option.bind (retry (groups_pass tc fi env) x)
            (\<lambda>(_, y). Option.bind (retry (priority_pass tc fi env) y) (\<lambda>(_, z). Some z))
        else Some x) = Some (s, n)"
    using assms(1) by (auto simp: load_pass_def bind_eq_Some_conv)
  have same: "servant_caches s = servant_caches (fst x)" by (rule preload_caches[OF sn])
  show ?thesis
  proof (cases "\<exists>r1 r2. q_servers env n = Rows r1 \<and> q_registry env (Suc n) = Rows r2")
    case True
    then obtain r1 r2 where q: "q_servers env n = Rows r1" "q_registry env (Suc n) = Rows r2" by blast
    let ?acc = "load_rows tc ep_parse (groups s) al (UnionRecord r1 r2)"
    have "r = Done (fst (finish_load tc protect limit al env ?acc (s, Suc (Suc n))))"
      "y = snd (finish_load tc protect limit al env ?acc (s, Suc (Suc n)))"
      using assms sn q by (auto simp: load_pass_def Let_def split: prod.splits)
    with q same show ?thesis
      by (cases "fst (finish_load tc protect limit al env ?acc (s, Suc (Suc n))) = -1")
         (auto simp: finish_load_def Let_def split: if_splits)
  next
    case False
    with assms sn same show ?thesis
      by (auto simp: load_pass_def Let_def split: query_result.splits if_splits)
  qed
qed

lemma load_pass_fail:
  "load_pass tc ep_parse protect limit al fi env x = Some (r, y) \<Longrightarrow> r \<noteq> Done 0 \<Longrightarrow>
     servant_caches (fst y) = servant_caches (fst x)"
  using load_pass_cases by blast

text \<open>
  Property C3 (load_full_lists). When a full load returns 0, the database has answered both
  queries, and every servant's active list holds exactly the endpoints of its rows that are set
  active, present active, not flow-inactive, parse and are no backup, in row order; the inactive
  list holds the other non-backup rows.
\<close>

theorem load_full_lists:
  assumes "loadObjectIdCache tc ep_parse protect limit True fi env x = Some (0, y)"
  shows "\<exists>n rows1 rows2. q_servers env n = Rows rows1 \<and> q_registry env (Suc n) = Rows rows2 \<and>
    (\<forall>sid. vActiveEndpoints (om_get empty_item (objectsCache (fst y)) sid) =
             expected_eps tc ep_parse (groups (fst y)) True sid (UnionRecord rows1 rows2) \<and>
           vInactiveEndpoints (om_get empty_item (objectsCache (fst y)) sid) =
             expected_eps tc ep_parse (groups (fst y)) False sid (UnionRecord rows1 rows2))"
proof -
  obtain z where "load_pass tc ep_parse protect limit True fi env z = Some (Done 0, y)"
    using retry_last[OF assms[unfolded loadObjectIdCache_def], of "\<lambda>_. True"] by auto
  from load_pass_cases[OF this] obtain s n rows1 rows2 where
    "q_servers env n = Rows rows1" "q_registry env (Suc n) = Rows rows2"
    "fst y = publish_acc (load_rows tc ep_parse (groups s) True (UnionRecord rows1 rows2)) True s"
    by blast
  then show ?thesis
    by (intro exI[of _ n] exI[of _ rows1] exI[of _ rows2]) (simp add: publish_full publish_frame load_rows_lists)
qed

text \<open>
  Fact (load_failure_keeps). A load that does not return 0 (a database error, or the
  protection against a mass outage) leaves the endpoint, set and status caches exactly as they
  were, however many retries it took.
\<close>

theorem load_failure_keeps:
  assumes "loadObjectIdCache tc ep_parse protect limit al fi env x = Some (r, y)" and "r \<noteq> 0"
  shows "servant_caches (fst y) = servant_caches (fst x)"
proof -
  let ?same = "\<lambda>z. servant_caches (fst z) = servant_caches (fst x)"
  obtain z where z: "?same z" "load_pass tc ep_parse protect limit al fi env z = Some (Done r, y)"
    using retry_last[OF assms(1)[unfolded loadObjectIdCache_def], of ?same] load_pass_fail by fastforce
  from assms(2) have "Done r \<noteq> Done 0" by simp
  from load_pass_fail[OF z(2) this] z(1) show ?thesis by simp
qed

text \<open>
  Property C4 (load_keeps_agreement). Whatever the load mode and the database answers, every load
  keeps the set division consistent with the endpoint lists: an entry of the division is listed
  for the same servant, with the same activity, in the plain cache.
\<close>

theorem load_keeps_agreement:
  assumes "loadObjectIdCache tc ep_parse protect limit al fi env x = Some (r, y)" and "cache_agree (fst x)"
  shows "cache_agree (fst y)"
  using assms by (rule load_agree)

text \<open>
  Property C8 (load_terminates). The load returns when it is not the initial one, and the initial
  one, which retries on every database error, returns as soon as the database stays up from some
  call on.
\<close>

theorem load_terminates:
  assumes "fi \<Longrightarrow> db_recovers env N"
  shows "\<exists>r y. loadObjectIdCache tc ep_parse protect limit al fi env x = Some (r, y)"
  by (rule load_returns) (use assms in blast)

text \<open>
  Fact (backup_refresh_is_lost). When every row of a servant in an incremental load is a
  backup (\<open>bak_flag\<close> 1) or does not parse, the load leaves the servant's cached lists as they
  were: nodes that were switched to backup stay advertised until the next full load.
\<close>

theorem backup_refresh_is_lost:
  assumes "loadObjectIdCache tc ep_parse protect limit False False env x = Some (r, y)"
    and "\<And>n rows row. q_servers env n = Rows rows \<Longrightarrow> row \<in> set rows \<Longrightarrow> r_servant row = sid \<Longrightarrow>
           row_counts tc ep_parse (groups (fst x)) row = None"
    and "\<And>n rows row. q_registry env n = Rows rows \<Longrightarrow> row \<in> set rows \<Longrightarrow> r_servant row \<noteq> sid"
  shows "om_find (objectsCache (fst y)) sid = om_find (objectsCache (fst x)) sid"
proof -
  have pass: "load_pass tc ep_parse protect limit False False env x = Some (Done r, y)"
    using assms(1) load_pass_ends[of env 0 False x tc ep_parse protect limit False]
    by (auto simp: loadObjectIdCache_def retry.simps[of _ x])
  show ?thesis
  proof (cases "r = 0")
    case True
    obtain r1 r2 where q: "q_servers env (snd x) = Rows r1" "q_registry env (Suc (snd x)) = Rows r2"
      and y: "fst y = publish_acc (load_rows tc ep_parse (groups (fst x)) False (UnionRecord r1 r2)) False (fst x)"
      using pass True
      by (cases x) (auto simp: load_pass_def finish_load_def Let_def split: query_result.splits if_splits prod.splits)
    have "\<forall>row \<in> set (UnionRecord r1 r2). r_servant row = sid \<longrightarrow>
        row_counts tc ep_parse (groups (fst x)) row = None"
      using assms(2)[OF q(1)] assms(3)[OF q(2)] by (auto simp: UnionRecord_def)
    from expected_none[OF this, of False] show ?thesis
      unfolding y publish_objects_incr[OF load_rows_inv] by simp
  next
    case False
    with load_pass_fail[OF pass] show ?thesis by (simp add: servant_caches_def)
  qed
qed

section \<open>Examples\<close>

definition sample_parse :: "string \<Rightarrow> tc_endpoint option" where
  "sample_parse s = (if s = ''bad'' then None else
     Some \<lparr> te_host = ''10.0.0.1'', te_port = 80, te_timeout = 3000, te_weightType = 0, te_weight = 100,
       te_isTcp = True, te_isSSL = False, te_authType = 0 \<rparr>)"

definition sample_row :: "string \<Rightarrow> string \<Rightarrow> object_row" where
  "sample_row servant bak =
     \<lparr> r_servant = servant, r_endpoint = ''tcp'', r_enable_group = ''n'', r_setting_state = ''active'',
       r_present_state = ''active'', r_flow_state = ''active'', r_application = ''App'',
       r_server_name = ''Srv'', r_node_name = ''node1'', r_enable_set = ''Y'', r_set_name = ''s'',
       r_set_area = ''a'', r_set_group = ''1'', r_ip_group_name = [], r_bak_flag = bak \<rparr>"

definition sample_env :: "nat \<Rightarrow> object_row list \<Rightarrow> db_env" where
  "sample_env up rows =
     \<lparr> q_groups = (\<lambda>n. if n < up then MysqlException else Rows []),
       q_priority = (\<lambda>n. if n < up then MysqlException else Rows []),
       q_servers = (\<lambda>n. if n < up then StdException else Rows rows),
       q_registry = (\<lambda>n. if n < up then StdException else Rows []), q_rate = (\<lambda>n. MysqlException) \<rparr>"

definition sample_db :: db_handle where
  "sample_db = \<lparr> objectsCache = [], setDivisionCache = [], mapGroupPriority = [],
     groups = \<lparr> groupIdMap = [], groupNameMap = [] \<rparr>, mapServantStatus = [], mapServantFlowStatus = [] \<rparr>"

lemmas load_eval = loadObjectIdCache_def load_pass_def groups_pass_def priority_pass_def
  loadIPPhysicalGroupInfo_def loadGroupPriority_def finish_load_def sample_env_def Let_def

lemma sample_full: "\<exists>y. loadObjectIdCache sample_tc sample_parse False 0 True False
     (sample_env 0 [sample_row ''App.Srv.Obj'' ''0'']) (sample_db, 0) = Some (0, y)"
  by (simp add: load_eval retry.simps)

lemma sample_incr: "\<exists>y. loadObjectIdCache sample_tc sample_parse False 0 False False
     (sample_env 0 [sample_row ''App.Srv.Obj'' ''1'']) (sample_db, 0) = Some (0, y)"
  by (simp add: load_eval retry.simps)

lemma sample_down: "\<exists>y. loadObjectIdCache sample_tc sample_parse True 0 False False
     (sample_env 1 [sample_row ''App.Srv.Obj'' ''1'']) (sample_db, 0) = Some (-1, y)"
  by (simp add: load_eval retry.simps)

theorem load_full_lists_witness:
  "\<exists>y n rows1 rows2. loadObjectIdCache sample_tc sample_parse False 0 True False
       (sample_env 0 [sample_row ''App.Srv.Obj'' ''0'']) (sample_db, 0) = Some (0, y) \<and>
     q_servers (sample_env 0 [sample_row ''App.Srv.Obj'' ''0'']) n = Rows rows1 \<and>
     vActiveEndpoints (om_get empty_item (objectsCache (fst y)) ''App.Srv.Obj'') =
       expected_eps sample_tc sample_parse (groups (fst y)) True ''App.Srv.Obj'' (UnionRecord rows1 rows2)"
proof -
  obtain y where y: "loadObjectIdCache sample_tc sample_parse False 0 True False
     (sample_env 0 [sample_row ''App.Srv.Obj'' ''0'']) (sample_db, 0) = Some (0, y)"
    using sample_full by blast
  from load_full_lists[OF this] obtain n rows1 rows2 where
    "q_servers (sample_env 0 [sample_row ''App.Srv.Obj'' ''0'']) n = Rows rows1"
    "vActiveEndpoints (om_get empty_item (objectsCache (fst y)) ''App.Srv.Obj'') =
       expected_eps sample_tc sample_parse (groups (fst y)) True ''App.Srv.Obj'' (UnionRecord rows1 rows2)"
    by auto
  with y show ?thesis by blast
qed

theorem load_failure_keeps_witness:
  "\<exists>y. loadObjectIdCache sample_tc sample_parse True 0 False False
     (sample_env 1 [sample_row ''App.Srv.Obj'' ''1'']) (sample_db, 0) = Some (-1, y) \<and>
     servant_caches (fst y) = servant_caches sample_db"
proof -
  obtain y where "loadObjectIdCache sample_tc sample_parse True 0 False False
     (sample_env 1 [sample_row ''App.Srv.Obj'' ''1'']) (sample_db, 0) = Some (-1, y)"
    using sample_down by blast
  with load_failure_keeps[OF this] show ?thesis by auto
qed

theorem load_keeps_agreement_witness:
  "\<exists>y. loadObjectIdCache sample_tc sample_parse False 0 True False
     (sample_env 0 [sample_row ''App.Srv.Obj'' ''0'']) (sample_db, 0) = Some (0, y) \<and> cache_agree (fst y)"
proof -
  obtain y where y: "loadObjectIdCache sample_tc sample_parse False 0 True False
     (sample_env 0 [sample_row ''App.Srv.Obj'' ''0'']) (sample_db, 0) = Some (0, y)"
    using sample_full by blast
  have "cache_agree (fst (sample_db, 0 :: nat))" by (simp add: cache_agree_def sets_agree_def sample_db_def)
  from load_keeps_agreement[OF y this] y show ?thesis by blast
qed

theorem load_terminates_witness:
  "\<exists>r y. loadObjectIdCache sample_tc sample_parse False 0 True True (sample_env 5 []) (sample_db, 0) = Some (r, y)"
  by (rule load_terminates[where N = 5]) (simp add: db_recovers_def sample_env_def)

theorem backup_refresh_is_lost_witness:
  "\<exists>y. loadObjectIdCache sample_tc sample_parse False 0 False False
     (sample_env 0 [sample_row ''App.Srv.Obj'' ''1'']) (sample_db\<lparr> objectsCache :=
        [(''App.Srv.Obj'', \<lparr> vActiveEndpoints = [undefined], vInactiveEndpoints = [] \<rparr>)] \<rparr>, 0) = Some (0, y) \<and>
     om_find (objectsCache (fst y)) ''App.Srv.Obj'' =
       Some \<lparr> vActiveEndpoints = [undefined], vInactiveEndpoints = [] \<rparr>"
proof -
  let ?db = "sample_db\<lparr> objectsCache :=
        [(''App.Srv.Obj'', \<lparr> vActiveEndpoints = [undefined], vInactiveEndpoints = [] \<rparr>)] \<rparr>"
  obtain y where y: "loadObjectIdCache sample_tc sample_parse False 0 False False
     (sample_env 0 [sample_row ''App.Srv.Obj'' ''1'']) (?db, 0) = Some (0, y)"
    by (simp add: load_eval retry.simps)
  have "om_find (objectsCache (fst y)) ''App.Srv.Obj'' = om_find (objectsCache (fst (?db, 0 :: nat))) ''App.Srv.Obj''"
    by (rule backup_refresh_is_lost[OF y])
       (auto simp: sample_env_def sample_row_def row_counts_def sample_parse_def row_endpoint_def
          sample_tc_def Let_def)
  with y show ?thesis by simp
qed

end
