(* ===== verification/Reg_State.thy ===== *)
theory Reg_State
  imports Reg_Load
begin

text \<open>
  \<open>RegistryServer/DbHandle\<close>, part 4: the states the nodes report. Single reports go straight to
  the database; a batch is cut into steps of 1000, reports whose state the status cache already
  holds are dropped, and the rest becomes one command, either a sequence of updates or one update
  with nested \<open>CASE\<close> expressions. The commands are data here; the database that runs them is a
  parameter.
\<close>

section \<open>Data\<close>

record server_state_info =
  si_state :: server_state
  si_pid :: int
  si_app :: string
  si_server :: string
  si_node :: string

definition si_key :: "server_state_info \<Rightarrow> servant_status_key" where
  "si_key i = Key (si_app i) (si_server i) (si_node i)"

type_synonym 'v by_server = "(string, (string, 'v) omap) omap"

text \<open>
  The commands: \<open>UpdateField\<close> sets one column (and the process id with \<open>present_state\<close>);
  \<open>UpdateEach\<close> is the \<open>;\<close>-separated sequence of row updates; \<open>UpdateCase\<close> is the single update
  whose \<open>CASE application .. CASE server_name .. CASE node_name\<close> lists the new values.
\<close>

datatype sql_command =
    UpdateField string server_state "int option" servant_status_key
  | UpdateEach "(servant_status_key \<times> server_state \<times> int) list"
  | UpdateCase "(string \<times> server_state \<times> int) list by_server"

text \<open>The database: \<open>None\<close> is an exception, otherwise the new content and the affected rows.\<close>

type_synonym 'd sql_exec = "sql_command \<Rightarrow> 'd \<Rightarrow> ('d \<times> nat) option"

section \<open>Operations\<close>

definition updateServerState ::
  "'d sql_exec \<Rightarrow> string \<Rightarrow> string \<Rightarrow> string \<Rightarrow> string \<Rightarrow> server_state \<Rightarrow> int \<Rightarrow> db_handle \<times> 'd \<Rightarrow>
     int \<times> db_handle \<times> 'd" where
  "updateServerState exec app server node stateFields state processId x =
     (let (s, d) = x
      in if stateFields \<noteq> ''setting_state'' \<and> stateFields \<noteq> ''present_state'' then (-1, s, d)
         else
           let pid = (if stateFields = ''present_state'' then Some processId else None)
           in case exec (UpdateField stateFields state pid (Key app server node)) d of
                None \<Rightarrow> (-1, s, d)
              | Some (d', _) \<Rightarrow>
                  (0, s\<lparr> mapServantStatus := om_put (Key app server node) state (mapServantStatus s) \<rparr>, d'))"

text \<open>The reports that differ from the cache, by application and server, in the order of the batch.\<close>

definition sort_info :: "server_state_info \<Rightarrow> server_state_info list by_server \<Rightarrow> server_state_info list by_server" where
  "sort_info i m =
     (let svrs = om_get [] m (si_app i); infos = om_get [] svrs (si_server i)
      in om_put (si_app i) (om_put (si_server i) (infos @ [i]) svrs) m)"

definition map_sort ::
  "(servant_status_key, server_state) omap \<Rightarrow> server_state_info list \<Rightarrow> server_state_info list by_server" where
  "map_sort cached vec =
     fold (\<lambda>i m. if om_find cached (si_key i) = Some (si_state i) then m else sort_info i m) vec []"

definition sorted_infos :: "server_state_info list by_server \<Rightarrow> server_state_info list" where
  "sorted_infos m = concat (map (\<lambda>a. concat (map snd (snd a))) m)"

definition updated_map :: "server_state_info list by_server \<Rightarrow> (servant_status_key, server_state) omap" where
  "updated_map m = fold (\<lambda>i. om_put (si_key i) (si_state i)) (sorted_infos m) []"

definition batch_command :: "bool \<Rightarrow> server_state_info list by_server \<Rightarrow> sql_command" where
  "batch_command enMultiSql m =
     (if enMultiSql then UpdateEach (map (\<lambda>i. (si_key i, si_state i, si_pid i)) (sorted_infos m))
      else UpdateCase (map (\<lambda>(app, svrs). (app, map (\<lambda>(svr, infos).
             (svr, map (\<lambda>i. (si_node i, si_state i, si_pid i)) infos)) svrs)) m))"

definition doUpdateServerStateBatch ::
  "'d sql_exec \<Rightarrow> bool \<Rightarrow> server_state_info list \<Rightarrow> db_handle \<times> 'd \<Rightarrow> int \<times> db_handle \<times> 'd" where
  "doUpdateServerStateBatch exec enMultiSql vec x =
     (let (s, d) = x; m = map_sort (mapServantStatus s) vec
      in if m = [] then (0, s, d)
         else case exec (batch_command enMultiSql m) d of
             None \<Rightarrow> (-1, s, d)
           | Some (d', iRows) \<Rightarrow>
               (0, (if iRows > 0
                    then s\<lparr> mapServantStatus := om_put_all (updated_map m) (mapServantStatus s) \<rparr> else s), d'))"

text \<open>The index loop over the batch: at most 1000 reports per step, stopping at the first failure.\<close>

function batch_from ::
  "'d sql_exec \<Rightarrow> bool \<Rightarrow> server_state_info list \<Rightarrow> nat \<Rightarrow> db_handle \<times> 'd \<Rightarrow> int \<times> db_handle \<times> 'd" where
  "batch_from exec enMultiSql vec i x =
     (if i < length vec then
        let iEnd = (if i + 1000 \<ge> length vec then length vec else i + 1000);
            (ret, x') = doUpdateServerStateBatch exec enMultiSql (take (iEnd - i) (drop i vec)) x
        in if ret \<noteq> 0 then (-1, x') else batch_from exec enMultiSql vec iEnd x'
      else (0, x))"
  by pat_completeness auto

termination
  by (relation "measure (\<lambda>(exec, m, vec, i, x). length vec - i)") (auto split: if_splits)

declare batch_from.simps [simp del]

definition updateServerStateBatch ::
  "'d sql_exec \<Rightarrow> bool \<Rightarrow> server_state_info list \<Rightarrow> db_handle \<times> 'd \<Rightarrow> int \<times> db_handle \<times> 'd" where
  "updateServerStateBatch exec enMultiSql vec x = batch_from exec enMultiSql vec 0 x"

section \<open>What the database does with a command\<close>

text \<open>
  The documented meaning of the commands, for a table from keys to state and process id. A
  sequence of updates leaves the values of the last one for a row; \<open>CASE\<close> takes the first
  alternative that matches. No affected row means that nothing changed.
\<close>

type_synonym state_table = "servant_status_key \<Rightarrow> (server_state \<times> int) option"

definition case_value :: "(string \<times> server_state \<times> int) list by_server \<Rightarrow> servant_status_key \<Rightarrow> (server_state \<times> int) option" where
  "case_value m k = map_of (om_get [] (om_get [] m (application k)) (serverName k)) (keyNode k)"

fun new_values :: "sql_command \<Rightarrow> servant_status_key \<Rightarrow> (server_state \<times> int) option" where
  "new_values (UpdateField f st (Some pid) k') k = (if k = k' then Some (st, pid) else None)"
| "new_values (UpdateField f st None k') k = None"
| "new_values (UpdateEach us) k = map_of (rev us) k"
| "new_values (UpdateCase m) k = case_value m k"

definition runs_updates :: "state_table sql_exec \<Rightarrow> bool" where
  "runs_updates exec \<longleftrightarrow>
     (\<forall>cmd t t' n. exec cmd t = Some (t', n) \<longrightarrow>
        (n = 0 \<longrightarrow> t' = t) \<and>
        (\<forall>k. t' k = (case new_values cmd k of None \<Rightarrow> t k | Some v \<Rightarrow> map_option (\<lambda>_. v) (t k))))"

text \<open>Every state in the cache is the present state of the row, where the row exists.\<close>

definition status_agrees :: "db_handle \<times> state_table \<Rightarrow> bool" where
  "status_agrees x \<longleftrightarrow>
     (\<forall>k st row. om_find (mapServantStatus (fst x)) k = Some st \<longrightarrow> snd x k = Some row \<longrightarrow> fst row = st)"

lemma runs_updatesD:
  assumes "runs_updates exec" and "exec cmd t = Some (t', n)"
  shows "n = 0 \<Longrightarrow> t' = t"
    and "t' k = (case new_values cmd k of None \<Rightarrow> t k | Some v \<Rightarrow> map_option (\<lambda>_. v) (t k))"
  using assms unfolding runs_updates_def by blast+

section \<open>Sorting the batch\<close>

lemma si_key_eq: "si_key i = k \<longleftrightarrow> si_app i = application k \<and> si_server i = serverName k \<and> si_node i = keyNode k"
  by (cases k) (auto simp: si_key_def)

definition bucket :: "server_state_info list by_server \<Rightarrow> string \<Rightarrow> string \<Rightarrow> server_state_info list" where
  "bucket m app svr = om_get [] (om_get [] m app) svr"

lemma bucket_sort_info:
  "bucket (sort_info i m) app svr =
     (if app = si_app i \<and> svr = si_server i then bucket m app svr @ [i] else bucket m app svr)"
  by (auto simp: bucket_def sort_info_def Let_def om_get_def)

definition fresh_infos :: "(servant_status_key, server_state) omap \<Rightarrow> server_state_info list \<Rightarrow> server_state_info list" where
  "fresh_infos cached vec = filter (\<lambda>i. om_find cached (si_key i) \<noteq> Some (si_state i)) vec"

lemma map_sort_filter: "map_sort cached vec = fold sort_info (fresh_infos cached vec) []"
proof -
  have "fold (\<lambda>i m. if om_find cached (si_key i) = Some (si_state i) then m else sort_info i m) vec m =
      fold sort_info (fresh_infos cached vec) m" for m
    by (induction vec arbitrary: m) (simp_all add: fresh_infos_def)
  then show ?thesis by (simp add: map_sort_def)
qed

lemma bucket_fold:
  "bucket (fold sort_info is m) app svr = bucket m app svr @ filter (\<lambda>i. si_app i = app \<and> si_server i = svr) is"
  by (induction "is" arbitrary: m) (auto simp: bucket_sort_info)

lemma bucket_map_sort:
  "bucket (map_sort cached vec) app svr =
     filter (\<lambda>i. si_app i = app \<and> si_server i = svr) (fresh_infos cached vec)"
  by (simp add: map_sort_filter bucket_fold) (simp add: bucket_def om_get_def)

text \<open>Both levels stay ordered maps, and every bucket holds reports of its own server only.\<close>

definition svr_ok :: "string \<Rightarrow> string \<times> server_state_info list \<Rightarrow> bool" where
  "svr_ok app e \<longleftrightarrow> (\<forall>i \<in> set (snd e). si_app i = app \<and> si_server i = fst e)"

definition app_ok :: "string \<times> (string, server_state_info list) omap \<Rightarrow> bool" where
  "app_ok e \<longleftrightarrow> om_ok (snd e) \<and> (\<forall>f \<in> set (snd e). svr_ok (fst e) f)"

definition sort_ok :: "server_state_info list by_server \<Rightarrow> bool" where
  "sort_ok m \<longleftrightarrow> om_ok m \<and> (\<forall>e \<in> set m. app_ok e)"

lemma om_put_ball: "\<forall>e \<in> set m. P e \<Longrightarrow> P (k, v) \<Longrightarrow> \<forall>e \<in> set (om_put k v m). P e"
  by (induction k v m rule: om_put.induct) auto

lemma om_get_ball: "\<forall>e \<in> set m. P e \<Longrightarrow> P (k, d) \<Longrightarrow> P (k, om_get d m k)"
  by (auto simp: om_get_def split: option.split dest: map_of_SomeD)

lemma app_ok_insert:
  assumes svrs: "om_ok svrs" "\<forall>f \<in> set svrs. svr_ok (si_app i) f"
  shows "app_ok (si_app i, om_put (si_server i) (om_get [] svrs (si_server i) @ [i]) svrs)"
proof -
  have "svr_ok (si_app i) (si_server i, om_get [] svrs (si_server i))"
    using om_get_ball[where P = "svr_ok (si_app i)" and d = "[]" and k = "si_server i", OF svrs(2)]
    by (simp add: svr_ok_def)
  then have "svr_ok (si_app i) (si_server i, om_get [] svrs (si_server i) @ [i])" by (simp add: svr_ok_def)
  then have "\<forall>f \<in> set (om_put (si_server i) (om_get [] svrs (si_server i) @ [i]) svrs). svr_ok (si_app i) f"
    by (rule om_put_ball[where P = "svr_ok (si_app i)", OF svrs(2)])
  with svrs(1) show ?thesis by (simp add: app_ok_def)
qed

lemma sort_ok_insert:
  assumes "sort_ok m"
  shows "sort_ok (sort_info i m)"
proof -
  have m: "\<forall>e \<in> set m. app_ok e" using assms by (simp add: sort_ok_def)
  have "app_ok (si_app i, om_get [] m (si_app i))"
    using om_get_ball[where P = app_ok and d = "[]" and k = "si_app i", OF m] by (simp add: app_ok_def)
  then have new: "app_ok (si_app i, om_put (si_server i)
      (om_get [] (om_get [] m (si_app i)) (si_server i) @ [i]) (om_get [] m (si_app i)))"
    by (intro app_ok_insert) (simp_all add: app_ok_def)
  have "\<forall>e \<in> set (sort_info i m). app_ok e"
    unfolding sort_info_def Let_def by (rule om_put_ball[where P = app_ok, OF m new])
  moreover have "om_ok (sort_info i m)" using assms by (simp add: sort_info_def Let_def sort_ok_def)
  ultimately show ?thesis by (simp add: sort_ok_def)
qed

lemma sort_ok_map_sort: "sort_ok (map_sort cached vec)"
proof -
  have "sort_ok m \<Longrightarrow> sort_ok (fold sort_info is m)" for "is" m
    by (induction "is" arbitrary: m) (simp_all add: sort_ok_insert)
  moreover have "sort_ok []" by (simp add: sort_ok_def)
  ultimately show ?thesis unfolding map_sort_filter by blast
qed

text \<open>Reading the sorted reports back: the reports of one key, in the order of the batch.\<close>

lemma filter_concat_key:
  assumes "om_ok m" and own: "\<And>e x. e \<in> set m \<Longrightarrow> x \<in> set (f (snd e)) \<Longrightarrow> P x \<Longrightarrow> fst e = k"
  shows "filter P (concat (map (\<lambda>e. f (snd e)) m)) = (case om_find m k of None \<Rightarrow> [] | Some v \<Rightarrow> filter P (f v))"
  using assms
proof (induction m)
  case (Cons e m)
  have none: "filter P (f (snd e)) = []" if "fst e \<noteq> k"
    using Cons.prems(2)[of e] that by (auto simp: filter_empty_conv)
  have rest: "filter P (concat (map (\<lambda>e. f (snd e)) m)) = (case om_find m k of None \<Rightarrow> [] | Some v \<Rightarrow> filter P (f v))"
    using Cons by (auto simp: om_ok_Cons)
  show ?case
  proof (cases "fst e = k")
    case True
    then have "om_find m k = None" using Cons.prems(1) by (auto simp: om_ok_Cons map_of_eq_None_iff)
    with rest True show ?thesis by (cases e) simp
  next
    case False
    with rest none show ?thesis by (cases e) simp
  qed
qed simp

lemma sorted_of_key:
  "filter (\<lambda>i. si_key i = k) (sorted_infos (map_sort cached vec)) =
     filter (\<lambda>i. si_key i = k) (fresh_infos cached vec)"
proof -
  let ?m = "map_sort cached vec" and ?P = "\<lambda>i. si_key i = k"
  note m = sort_ok_map_sort[of cached vec, unfolded sort_ok_def]
  have outer: "filter ?P (sorted_infos ?m) =
      (case om_find ?m (application k) of None \<Rightarrow> [] | Some svrs \<Rightarrow> filter ?P (concat (map snd svrs)))"
    unfolding sorted_infos_def
  proof (rule filter_concat_key)
    show "om_ok ?m" using m by simp
    show "fst e = application k" if "e \<in> set ?m" "x \<in> set (concat (map snd (snd e)))" "si_key x = k" for e x
    proof -
      from that(2) obtain f where f: "f \<in> set (snd e)" "x \<in> set (snd f)" by auto
      have "app_ok e" using m that(1) by blast
      with f have "si_app x = fst e" by (simp add: app_ok_def svr_ok_def)
      with that(3) show ?thesis by (simp add: si_key_eq)
    qed
  qed
  have inner: "filter ?P (concat (map snd svrs)) =
      (case om_find svrs (serverName k) of None \<Rightarrow> [] | Some infos \<Rightarrow> filter ?P infos)"
    if "om_find ?m (application k) = Some svrs" for svrs
  proof -
    have "app_ok (application k, svrs)" using m that by (auto dest: map_of_SomeD)
    then have ok: "om_ok svrs" "\<And>e x. e \<in> set svrs \<Longrightarrow> x \<in> set (snd e) \<Longrightarrow> si_key x = k \<Longrightarrow> fst e = serverName k"
      by (auto simp: app_ok_def svr_ok_def si_key_eq)
    show ?thesis
      using filter_concat_key[where f = "\<lambda>x. x" and m = svrs and P = ?P and k = "serverName k", OF ok] by simp
  qed
  have "filter ?P (sorted_infos ?m) = filter ?P (bucket ?m (application k) (serverName k))"
    by (simp add: outer inner bucket_def om_get_def split: option.split)
  then show ?thesis
    by (simp add: bucket_map_sort) (simp add: si_key_eq conj_ac cong: filter_cong)
qed

section \<open>The effect of one step\<close>

lemma fold_put_last:
  "om_find (fold (\<lambda>i. om_put (f i) (g i)) xs m) k =
     (if filter (\<lambda>i. f i = k) xs = [] then om_find m k else Some (g (last (filter (\<lambda>i. f i = k) xs))))"
  by (induction xs arbitrary: m) auto

lemma map_of_rev_last:
  "map_of (rev (map (\<lambda>i. (f i, g i)) xs)) k =
     (if filter (\<lambda>i. f i = k) xs = [] then None else Some (g (last (filter (\<lambda>i. f i = k) xs))))"
  by (induction xs) (auto simp: map_add_def)

lemma map_of_hd:
  "map_of (map (\<lambda>i. (f i, g i)) xs) k =
     (if filter (\<lambda>i. f i = k) xs = [] then None else Some (g (hd (filter (\<lambda>i. f i = k) xs))))"
  by (induction xs) auto

lemma om_get_map: "om_get [] (map (\<lambda>(a, v). (a, map f v)) m) k = map f (om_get [] m k)"
  by (induction m) (auto simp: om_get_def)

lemma om_ok_fold_put: "om_ok m \<Longrightarrow> om_ok (fold (\<lambda>i. om_put (f i) (g i)) xs m)"
  by (induction xs arbitrary: m) simp_all

definition of_key :: "servant_status_key \<Rightarrow> (servant_status_key, server_state) omap \<Rightarrow> server_state_info list \<Rightarrow>
    server_state_info list" where
  "of_key k cached vec = filter (\<lambda>i. si_key i = k) (fresh_infos cached vec)"

lemma updated_find:
  "om_find (updated_map (map_sort cached vec)) k =
     (if of_key k cached vec = [] then None else Some (si_state (last (of_key k cached vec))))"
  by (simp add: updated_map_def fold_put_last sorted_of_key of_key_def)

lemma case_command_value:
  "new_values (batch_command False (map_sort cached vec)) k =
     (if of_key k cached vec = [] then None
      else Some (si_state (hd (of_key k cached vec)), si_pid (hd (of_key k cached vec))))"
proof -
  have "new_values (batch_command False (map_sort cached vec)) k =
      map_of (map (\<lambda>i. (si_node i, si_state i, si_pid i))
        (bucket (map_sort cached vec) (application k) (serverName k))) (keyNode k)"
    by (simp add: batch_command_def case_value_def om_get_map bucket_def)
  moreover have "filter (\<lambda>i. si_node i = keyNode k) (bucket (map_sort cached vec) (application k) (serverName k)) =
      of_key k cached vec"
    by (simp add: bucket_map_sort of_key_def si_key_eq conj_ac cong: filter_cong)
  ultimately show ?thesis by (simp add: map_of_hd)
qed

lemma each_command_value:
  "new_values (batch_command True (map_sort cached vec)) k =
     (if of_key k cached vec = [] then None
      else Some (si_state (last (of_key k cached vec)), si_pid (last (of_key k cached vec))))"
  by (simp add: batch_command_def map_of_rev_last sorted_of_key of_key_def)

lemma hd_last_distinct:
  assumes "distinct (map si_key vec)"
  shows "of_key k cached vec \<noteq> [] \<Longrightarrow> hd (of_key k cached vec) = last (of_key k cached vec)"
proof -
  have "distinct (map si_key (fresh_infos cached vec))"
    using assms by (simp add: fresh_infos_def distinct_map_filter)
  then have "distinct (map si_key (of_key k cached vec))" by (simp add: of_key_def distinct_map_filter)
  moreover have "\<forall>i \<in> set (of_key k cached vec). si_key i = k" by (simp add: of_key_def)
  moreover assume "of_key k cached vec \<noteq> []"
  ultimately show ?thesis by (cases "of_key k cached vec") (auto simp: image_iff last_in_set)
qed

text \<open>What one step does to the row and to the cached state of a key.\<close>

definition key_effect :: "server_state_info list \<Rightarrow> server_state option \<Rightarrow> (server_state \<times> int) option \<Rightarrow>
    server_state option \<Rightarrow> (server_state \<times> int) option \<Rightarrow> bool" where
  "key_effect F c r c' r' \<longleftrightarrow>
     (if F = [] then r' = r \<and> c' = c
      else r' = map_option (\<lambda>_. (si_state (last F), si_pid (last F))) r \<and>
           (c' = Some (si_state (last F)) \<or> (c' = c \<and> r' = r)))"

lemma batch_step_effect:
  assumes exec: "runs_updates exec" and mode: "enMulti \<or> distinct (map si_key vec)"
    and run: "doUpdateServerStateBatch exec enMulti vec (s, t) = (0, s', t')"
  shows "key_effect (of_key k (mapServantStatus s) vec) (om_find (mapServantStatus s) k) (t k)
    (om_find (mapServantStatus s') k) (t' k)"
proof -
  let ?m = "map_sort (mapServantStatus s) vec" and ?F = "of_key k (mapServantStatus s) vec"
  show ?thesis
  proof (cases "?m = []")
    case True
    have "?F = []" using updated_find[of "mapServantStatus s" vec k] True
      by (auto simp: updated_map_def sorted_infos_def split: if_splits)
    with True run show ?thesis by (simp add: doUpdateServerStateBatch_def key_effect_def)
  next
    case False
    then obtain n where n: "exec (batch_command enMulti ?m) t = Some (t', n)"
      and s': "s' = (if n > 0 then s\<lparr> mapServantStatus := om_put_all (updated_map ?m) (mapServantStatus s) \<rparr> else s)"
      using run by (auto simp: doUpdateServerStateBatch_def Let_def split: option.splits)
    note t' = runs_updatesD[OF exec n]
    have v: "new_values (batch_command enMulti ?m) k =
      (if ?F = [] then None else Some (si_state (last ?F), si_pid (last ?F)))"
      using mode by (cases enMulti) (auto simp: each_command_value case_command_value hd_last_distinct)
    have c: "om_find (mapServantStatus s') k =
      (if n > 0 \<and> ?F \<noteq> [] then Some (si_state (last ?F)) else om_find (mapServantStatus s) k)"
      using om_find_put_all[of "updated_map ?m" "mapServantStatus s" k] updated_find[of "mapServantStatus s" vec k]
      by (auto simp: s' updated_map_def om_ok_fold_put)
    show ?thesis using t'(1) t'(2)[of k] v c by (auto simp: key_effect_def)
  qed
qed

lemma effect_agrees:
  assumes "key_effect F c r c' r'" and "\<And>st row. c = Some st \<Longrightarrow> r = Some row \<Longrightarrow> fst row = st"
    and "c' = Some st" and "r' = Some row"
  shows "fst row = st"
  using assms by (cases r) (auto simp: key_effect_def split: if_splits)

lemma batch_step_fail: "doUpdateServerStateBatch exec enMulti vec x = (r, y) \<Longrightarrow> r \<noteq> 0 \<Longrightarrow> y = x"
  by (cases x) (auto simp: doUpdateServerStateBatch_def Let_def split: option.splits if_splits)

lemma batch_step_agrees:
  assumes "runs_updates exec" and "enMulti \<or> distinct (map si_key vec)" and "status_agrees x"
    and run: "doUpdateServerStateBatch exec enMulti vec x = (r, y)"
  shows "status_agrees y"
proof (cases "r = 0")
  case False
  with batch_step_fail[OF run] assms(3) show ?thesis by simp
next
  case True
  obtain s t where x: "x = (s, t)" by (cases x)
  obtain s' t' where y: "y = (s', t')" by (cases y)
  note eff = batch_step_effect[OF assms(1,2) run[unfolded x y True]]
  show ?thesis
    unfolding status_agrees_def y fst_conv snd_conv
  proof (intro allI impI)
    fix k st row
    assume "om_find (mapServantStatus s') k = Some st" and "t' k = Some row"
    then show "fst row = st"
      by (rule effect_agrees[OF eff, rotated]) (use assms(3)[unfolded status_agrees_def x fst_conv snd_conv] in blast)
  qed
qed

lemma batch_from_agrees:
  "runs_updates exec \<Longrightarrow> enMulti \<or> distinct (map si_key vec) \<Longrightarrow> status_agrees x \<Longrightarrow>
     batch_from exec enMulti vec i x = (r, y) \<Longrightarrow> status_agrees y"
proof (induction exec enMulti vec i x rule: batch_from.induct)
  case (1 exec enMulti vec i x)
  show ?case
  proof (cases "i < length vec")
    case False
    with 1 show ?thesis by (simp add: batch_from.simps)
  next
    case True
    let ?e = "if i + 1000 \<ge> length vec then length vec else i + 1000"
    let ?c = "take (?e - i) (drop i vec)"
    obtain ret x' where step: "doUpdateServerStateBatch exec enMulti ?c x = (ret, x')"
      by (cases "doUpdateServerStateBatch exec enMulti ?c x")
    have "enMulti \<or> distinct (map si_key ?c)"
      using 1(3) by (auto simp: take_map[symmetric] drop_map[symmetric])
    then have ok: "status_agrees x'" using batch_step_agrees[OF 1(2) _ 1(4) step] by simp
    show ?thesis
    proof (cases "ret = 0")
      case nz: True
      then have "batch_from exec enMulti vec ?e x' = (r, y)"
        using 1(5) True step by (subst (asm) batch_from.simps) (simp add: Let_def)
      with 1(1)[OF True refl step[symmetric]] nz 1(2,3) ok show ?thesis by blast
    next
      case False
      then have "y = x'" using 1(5) True step by (subst (asm) batch_from.simps) (simp add: Let_def)
      with ok show ?thesis by simp
    qed
  qed
qed

section \<open>What a successful batch has written\<close>

lemma of_key_unreported: "k \<notin> si_key ` set vec \<Longrightarrow> of_key k cached vec = []"
  by (auto simp: of_key_def fresh_infos_def filter_empty_conv)

lemma of_key_single:
  assumes "distinct (map si_key vec)" and "i \<in> set vec" and "om_find cached (si_key i) \<noteq> Some (si_state i)"
  shows "of_key (si_key i) cached vec \<noteq> [] \<and> last (of_key (si_key i) cached vec) = i"
proof -
  have mem: "i \<in> set (of_key (si_key i) cached vec)" using assms by (simp add: of_key_def fresh_infos_def)
  moreover have "\<forall>j \<in> set (of_key (si_key i) cached vec). j = i"
    using assms(1,2) by (auto simp: of_key_def fresh_infos_def distinct_map inj_on_def)
  ultimately show ?thesis by (metis last_in_set empty_iff list.set(1))
qed

lemma batch_step_applies:
  assumes "runs_updates exec" and d: "distinct (map si_key vec)" and agree: "status_agrees (s, t)"
    and run: "doUpdateServerStateBatch exec enMulti vec (s, t) = (0, s', t')"
    and i: "i \<in> set vec" and row: "t' (si_key i) = Some row"
  shows "fst row = si_state i"
proof -
  have eff: "key_effect (of_key (si_key i) (mapServantStatus s) vec) (om_find (mapServantStatus s) (si_key i))
      (t (si_key i)) (om_find (mapServantStatus s') (si_key i)) (t' (si_key i))"
    using batch_step_effect[OF assms(1) _ run] d by blast
  show ?thesis
  proof (cases "om_find (mapServantStatus s) (si_key i) = Some (si_state i)")
    case True
    have "of_key (si_key i) (mapServantStatus s) vec = []"
    proof -
      have "j = i" if "j \<in> set vec" "si_key j = si_key i" for j
        using d i that by (auto simp: distinct_map inj_on_def)
      with True show ?thesis by (auto simp: of_key_def fresh_infos_def filter_empty_conv)
    qed
    with eff row have "t (si_key i) = Some row" by (simp add: key_effect_def)
    with agree True show ?thesis unfolding status_agrees_def fst_conv snd_conv by blast
  next
    case False
    from of_key_single[OF d i this] eff row show ?thesis
      by (cases "t (si_key i)") (auto simp: key_effect_def)
  qed
qed

lemma batch_step_unreported:
  assumes "runs_updates exec" and "distinct (map si_key vec)" and "k \<notin> si_key ` set vec"
    and run: "doUpdateServerStateBatch exec enMulti vec (s, t) = (0, s', t')"
  shows "t' k = t k"
  using batch_step_effect[OF assms(1) _ run, of k] assms(2) of_key_unreported[OF assms(3)]
  by (simp add: key_effect_def)

definition next_index :: "server_state_info list \<Rightarrow> nat \<Rightarrow> nat" where
  "next_index vec i = (if i + 1000 \<ge> length vec then length vec else i + 1000)"

definition chunk :: "server_state_info list \<Rightarrow> nat \<Rightarrow> server_state_info list" where
  "chunk vec i = take (next_index vec i - i) (drop i vec)"

lemma batch_from_zero:
  assumes "i < length vec" and "batch_from exec enMulti vec i x = (0, y)"
  shows "\<exists>x'. doUpdateServerStateBatch exec enMulti (chunk vec i) x = (0, x') \<and>
    batch_from exec enMulti vec (next_index vec i) x' = (0, y)"
proof -
  obtain ret x' where step: "doUpdateServerStateBatch exec enMulti (chunk vec i) x = (ret, x')"
    by (cases "doUpdateServerStateBatch exec enMulti (chunk vec i) x")
  have "batch_from exec enMulti vec i x =
      (if ret \<noteq> 0 then (-1, x') else batch_from exec enMulti vec (next_index vec i) x')"
    using assms(1) step by (subst batch_from.simps) (simp add: Let_def next_index_def chunk_def)
  with assms(2) step show ?thesis by (cases "ret = 0") simp_all
qed

lemma chunk_split: "i < length vec \<Longrightarrow> drop i vec = chunk vec i @ drop (next_index vec i) vec"
proof -
  assume "i < length vec"
  then have "drop (next_index vec i - i) (drop i vec) = drop (next_index vec i) vec"
    by (auto simp: next_index_def)
  then show ?thesis
    unfolding chunk_def using append_take_drop_id[of "next_index vec i - i" "drop i vec"] by simp
qed

text \<open>What holds of the table after the reports from an index on have been written.\<close>

definition written :: "server_state_info list \<Rightarrow> state_table \<Rightarrow> state_table \<Rightarrow> bool" where
  "written vec t t' \<longleftrightarrow>
     (\<forall>i \<in> set vec. \<forall>row. t' (si_key i) = Some row \<longrightarrow> fst row = si_state i) \<and>
     (\<forall>k. k \<notin> si_key ` set vec \<longrightarrow> t' k = t k)"

lemma written_append:
  assumes "written a t t1" and "written b t1 t2" and "si_key ` set a \<inter> si_key ` set b = {}"
  shows "written (a @ b) t t2"
  unfolding written_def
proof (intro conjI ballI allI impI)
  fix i row assume i: "i \<in> set (a @ b)" and row: "t2 (si_key i) = Some row"
  show "fst row = si_state i"
  proof (cases "i \<in> set b")
    case True
    with assms(2) row show ?thesis unfolding written_def by blast
  next
    case False
    with i assms(3) have a: "i \<in> set a" "si_key i \<notin> si_key ` set b" by auto
    with assms(2) row have "t1 (si_key i) = Some row" unfolding written_def by simp
    with assms(1) a(1) show ?thesis unfolding written_def by blast
  qed
next
  fix k assume "k \<notin> si_key ` set (a @ b)"
  then have "k \<notin> si_key ` set a" "k \<notin> si_key ` set b" by auto
  with assms(1,2) show "t2 k = t k" unfolding written_def by metis
qed

lemma batch_step_written:
  assumes "runs_updates exec" and "distinct (map si_key vec)" and "status_agrees (s, t)"
    and "doUpdateServerStateBatch exec enMulti vec (s, t) = (0, s', t')"
  shows "written vec t t'"
  unfolding written_def
  using batch_step_applies[OF assms] batch_step_unreported[OF assms(1,2) _ assms(4)] by blast

lemma batch_from_applies:
  assumes exec: "runs_updates exec" and "distinct (map si_key vec)"
  shows "status_agrees x \<Longrightarrow> batch_from exec enMulti vec i x = (0, y) \<Longrightarrow> written (drop i vec) (snd x) (snd y)"
proof (induction "length vec - i" arbitrary: i x rule: less_induct)
  case less
  show ?case
  proof (cases "i < length vec")
    case False
    with less.prems(2) show ?thesis by (simp add: batch_from.simps written_def)
  next
    case True
    obtain x' where step: "doUpdateServerStateBatch exec enMulti (chunk vec i) x = (0, x')"
      and rest: "batch_from exec enMulti vec (next_index vec i) x' = (0, y)"
      using batch_from_zero[OF True less.prems(2)] by blast
    obtain s t where x: "x = (s, t)" by (cases x)
    obtain s' t' where x': "x' = (s', t')" by (cases x')
    have "distinct (map si_key (drop i vec))" using assms(2) by (simp add: drop_map[symmetric])
    then have d: "distinct (map si_key (chunk vec i))"
      and apart: "si_key ` set (chunk vec i) \<inter> si_key ` set (drop (next_index vec i) vec) = {}"
      unfolding chunk_split[OF True] map_append distinct_append set_map by blast+
    have agree: "status_agrees x'" using batch_step_agrees[OF exec disjI2[OF d] less.prems(1) step] .
    have "length vec - next_index vec i < length vec - i" using True by (auto simp: next_index_def)
    from less.hyps[OF this agree rest] have later: "written (drop (next_index vec i) vec) t' (snd y)"
      by (simp add: x')
    have "written (chunk vec i) t t'"
      by (rule batch_step_written[OF exec d less.prems(1)[unfolded x] step[unfolded x x']])
    from written_append[OF this later apart] show ?thesis
      unfolding chunk_split[OF True] by (simp add: x)
  qed
qed

section \<open>A history of reports\<close>

datatype report =
    Single string string string server_state int
  | Batch "server_state_info list"

text \<open>\<open>RegistryImp::updateServer\<close> and \<open>updateServerBatch\<close>.\<close>

fun report_step :: "'d sql_exec \<Rightarrow> report \<Rightarrow> db_handle \<times> 'd \<Rightarrow> db_handle \<times> 'd" where
  "report_step exec (Single app server node st pid) x =
     snd (updateServerState exec app server node ''present_state'' st pid x)"
| "report_step exec (Batch vec) x = snd (updateServerStateBatch exec True vec x)"

lemma single_agrees:
  assumes "runs_updates exec" and "status_agrees x"
  shows "status_agrees (snd (updateServerState exec app server node ''present_state'' st pid x))"
proof -
  obtain s t where x: "x = (s, t)" by (cases x)
  let ?cmd = "UpdateField ''present_state'' st (Some pid) (Key app server node)"
  show ?thesis
  proof (cases "exec ?cmd t")
    case None
    with assms(2) show ?thesis by (simp add: x updateServerState_def)
  next
    case (Some res)
    obtain t' n where t': "exec ?cmd t = Some (t', n)" using Some by (cases res) simp
    from runs_updatesD(2)[OF assms(1) t'] t' assms(2) show ?thesis
      by (auto simp: x updateServerState_def status_agrees_def split: if_splits)
  qed
qed

interpretation reports: event_system "report_step exec" "\<lambda>x. runs_updates exec \<and> status_agrees x" for exec
proof
  fix x e
  assume x: "runs_updates exec \<and> status_agrees x"
  show "runs_updates exec \<and> status_agrees (report_step exec e x)"
  proof (cases e)
    case Single
    with x single_agrees show ?thesis by simp
  next
    case (Batch vec)
    with x batch_from_agrees[of exec True vec x 0] show ?thesis
      by (cases "batch_from exec True vec 0 x") (simp add: updateServerStateBatch_def)
  qed
qed

section \<open>Properties\<close>


text \<open>
  Fact (batch_applies_reports). A batch without repeated servers that returns 0 has left
  every reported row in the reported state, with either form of the command and across the steps
  of 1000, the reports it skipped included.
\<close>

theorem batch_applies_reports:
  assumes "runs_updates exec" and "distinct (map si_key vec)" and "status_agrees x"
    and "updateServerStateBatch exec enMulti vec x = (0, y)"
    and "i \<in> set vec" and "snd y (si_key i) = Some row"
  shows "fst row = si_state i"
  using batch_from_applies[OF assms(1-3) assms(4)[unfolded updateServerStateBatch_def]] assms(5,6)
  unfolding drop_0 written_def by blast

text \<open>
  Fact (repeated_report_diverges). When one step holds two reports of a server with
  different states, the \<open>CASE\<close> form writes the first one into the table and the last one into the
  cache.
\<close>

theorem repeated_report_diverges:
  assumes "runs_updates exec" and "si_key i = si_key j" and "si_state i \<noteq> si_state j"
    and "om_find (mapServantStatus s) (si_key i) = None" and "t (si_key i) = Some row"
    and "doUpdateServerStateBatch exec False [i, j] (s, t) = (0, s', t')" and "fst row \<noteq> si_state i"
  shows "om_find (mapServantStatus s') (si_key i) = Some (si_state j) \<and> t' (si_key i) = Some (si_state i, si_pid i)"
proof -
  let ?m = "map_sort (mapServantStatus s) [i, j]"
  have F: "of_key (si_key i) (mapServantStatus s) [i, j] = [i, j]"
    using assms(2,4) by (simp add: of_key_def fresh_infos_def)
  then have "?m \<noteq> []"
    using updated_find[of "mapServantStatus s" "[i, j]" "si_key i"]
    by (auto simp: updated_map_def sorted_infos_def)
  then obtain n where n: "exec (batch_command False ?m) t = Some (t', n)"
    and s': "s' = (if n > 0 then s\<lparr> mapServantStatus := om_put_all (updated_map ?m) (mapServantStatus s) \<rparr> else s)"
    using assms(6) by (auto simp: doUpdateServerStateBatch_def Let_def split: option.splits)
  have t': "n = 0 \<Longrightarrow> t' = t" "t' (si_key i) = Some (si_state i, si_pid i)"
    using runs_updatesD(1)[OF assms(1) n] runs_updatesD(2)[OF assms(1) n, of "si_key i"] assms(5)
      case_command_value[of "mapServantStatus s" "[i, j]" "si_key i"]
    by (simp_all add: F)
  with assms(5,7) have "n > 0" by (cases n) auto
  then show ?thesis
    using t'(2) om_find_put_all[of "updated_map ?m" "mapServantStatus s" "si_key i"]
      updated_find[of "mapServantStatus s" "[i, j]" "si_key i"]
    by (simp add: s' F updated_map_def om_ok_fold_put)
qed

text \<open>
  Fact (known_state_is_skipped). A batch whose states are all in the cache writes nothing
  and returns 0 even when the process ids have changed, so a restarted process keeps its old id in
  the table.
\<close>

theorem known_state_is_skipped:
  assumes "\<forall>i \<in> set vec. om_find (mapServantStatus s) (si_key i) = Some (si_state i)"
  shows "updateServerStateBatch exec enMulti vec (s, d) = (0, s, d)"
proof -
  have step: "doUpdateServerStateBatch exec enMulti c (s, d) = (0, s, d)" if "set c \<subseteq> set vec" for c
  proof -
    have "fresh_infos (mapServantStatus s) c = []"
      using assms that by (auto simp: fresh_infos_def filter_empty_conv)
    then show ?thesis by (simp add: doUpdateServerStateBatch_def map_sort_filter Let_def)
  qed
  have sub: "set (take n (drop m vec)) \<subseteq> set vec" for n m
    using set_take_subset set_drop_subset by (rule subset_trans)
  have "batch_from exec enMulti vec i (s, d) = (0, s, d)" for i
  proof (induction "length vec - i" arbitrary: i rule: less_induct)
    case less
    show ?case
      using less by (subst batch_from.simps) (simp add: step[OF sub] Let_def)
  qed
  then show ?thesis by (simp add: updateServerStateBatch_def)
qed

section \<open>Examples\<close>

text \<open>A table that runs the commands as documented.\<close>

definition table_exec :: "state_table sql_exec" where
  "table_exec cmd t =
     Some (\<lambda>k. case new_values cmd k of None \<Rightarrow> t k | Some v \<Rightarrow> map_option (\<lambda>_. v) (t k), 1)"

lemma table_runs: "runs_updates table_exec"
  by (simp add: runs_updates_def table_exec_def fun_eq_iff)

lemma table_never_fails: "fst (doUpdateServerStateBatch table_exec m vec x) = 0"
  by (cases x) (simp add: doUpdateServerStateBatch_def table_exec_def Let_def)

definition report_of :: "server_state \<Rightarrow> int \<Rightarrow> string \<Rightarrow> server_state_info" where
  "report_of st pid node = \<lparr> si_state = st, si_pid = pid, si_app = ''App'', si_server = ''Svr'', si_node = node \<rparr>"

definition sample_table :: state_table where
  "sample_table = [Key ''App'' ''Svr'' ''10.0.0.1'' \<mapsto> (tars_Inactive, -1)]"

definition empty_db :: db_handle where
  "empty_db = \<lparr> objectsCache = [], setDivisionCache = [], mapGroupPriority = [],
     groups = \<lparr> groupIdMap = [], groupNameMap = [] \<rparr>, mapServantStatus = [], mapServantFlowStatus = [] \<rparr>"

lemma empty_agrees: "status_agrees (empty_db, t)"
  by (simp add: status_agrees_def empty_db_def)


lemma one_report:
  "updateServerStateBatch table_exec m [report_of st pid n] (empty_db, t) =
     (0, empty_db\<lparr> mapServantStatus := [(Key ''App'' ''Svr'' n, st)] \<rparr>,
      t(Key ''App'' ''Svr'' n := map_option (\<lambda>_. (st, pid)) (t (Key ''App'' ''Svr'' n))))"
proof -
  have sort: "map_sort [] [report_of st pid n] = [(''App'', [(''Svr'', [report_of st pid n])])]"
    by (simp add: map_sort_def sort_info_def om_get_def report_of_def)
  have vals: "new_values (batch_command m [(''App'', [(''Svr'', [report_of st pid n])])]) k =
      (if k = Key ''App'' ''Svr'' n then Some (st, pid) else None)" for k
    by (cases k; cases m)
      (auto simp: batch_command_def sorted_infos_def case_value_def om_get_def report_of_def si_key_def)
  have upd: "updated_map [(''App'', [(''Svr'', [report_of st pid n])])] = [(Key ''App'' ''Svr'' n, st)]"
    by (simp add: updated_map_def sorted_infos_def report_of_def si_key_def)
  have "doUpdateServerStateBatch table_exec m [report_of st pid n] (empty_db, t) =
     (0, empty_db\<lparr> mapServantStatus := [(Key ''App'' ''Svr'' n, st)] \<rparr>,
      t(Key ''App'' ''Svr'' n := map_option (\<lambda>_. (st, pid)) (t (Key ''App'' ''Svr'' n))))"
    by (simp add: doUpdateServerStateBatch_def empty_db_def sort table_exec_def vals upd om_put_all_def fun_eq_iff)
  then show ?thesis by (simp add: updateServerStateBatch_def batch_from.simps)
qed

theorem batch_applies_reports_witness:
  "fst (the (snd (snd (updateServerStateBatch table_exec False [report_of tars_Active 7 ''10.0.0.1''] (empty_db, sample_table)))
     (Key ''App'' ''Svr'' ''10.0.0.1''))) = tars_Active"
proof -
  let ?i = "report_of tars_Active 7 ''10.0.0.1''"
  have k: "si_key ?i = Key ''App'' ''Svr'' ''10.0.0.1''" by (simp add: report_of_def si_key_def)
  note run = one_report[of False tars_Active 7 "''10.0.0.1''" sample_table]
  have "snd (snd (updateServerStateBatch table_exec False [?i] (empty_db, sample_table))) (si_key ?i) = Some (tars_Active, 7)"
    unfolding run k by (simp add: sample_table_def)
  moreover from this have "fst (tars_Active, 7 :: int) = si_state ?i"
    using batch_applies_reports[OF table_runs _ empty_agrees, of "[?i]" False sample_table _ ?i "(tars_Active, 7)"]
    by (simp add: run)
  ultimately show ?thesis unfolding k by simp
qed

theorem repeated_report_diverges_witness:
  "\<exists>s' t'. doUpdateServerStateBatch table_exec False
      [report_of tars_Activating 7 ''10.0.0.1'', report_of tars_Active 7 ''10.0.0.1''] (empty_db, sample_table) = (0, s', t') \<and>
     om_find (mapServantStatus s') (Key ''App'' ''Svr'' ''10.0.0.1'') = Some tars_Active \<and>
     t' (Key ''App'' ''Svr'' ''10.0.0.1'') = Some (tars_Activating, 7)"
proof -
  let ?i = "report_of tars_Activating 7 ''10.0.0.1''" and ?j = "report_of tars_Active 7 ''10.0.0.1''"
  have k: "si_key ?i = Key ''App'' ''Svr'' ''10.0.0.1''" "si_key ?j = si_key ?i"
    by (simp_all add: report_of_def si_key_def)
  have st: "si_state ?i = tars_Activating" "si_pid ?i = 7" "si_state ?j = tars_Active"
    by (simp_all add: report_of_def)
  obtain s' t' where run: "doUpdateServerStateBatch table_exec False [?i, ?j] (empty_db, sample_table) = (0, s', t')"
    using table_never_fails[of False "[?i, ?j]" "(empty_db, sample_table)"]
    by (cases "doUpdateServerStateBatch table_exec False [?i, ?j] (empty_db, sample_table)") auto
  have "om_find (mapServantStatus s') (si_key ?i) = Some (si_state ?j) \<and> t' (si_key ?i) = Some (si_state ?i, si_pid ?i)"
    by (rule repeated_report_diverges[OF table_runs k(2)[symmetric] _ _ _ run, where row = "(tars_Inactive, -1)"])
      (simp_all add: k st empty_db_def sample_table_def)
  with run st show ?thesis unfolding k by metis
qed

theorem known_state_is_skipped_witness:
  "updateServerStateBatch table_exec True [report_of tars_Active 8 ''10.0.0.1'']
     (empty_db\<lparr> mapServantStatus := [(Key ''App'' ''Svr'' ''10.0.0.1'', tars_Active)] \<rparr>, sample_table) =
   (0, empty_db\<lparr> mapServantStatus := [(Key ''App'' ''Svr'' ''10.0.0.1'', tars_Active)] \<rparr>, sample_table)"
  by (rule known_state_is_skipped) (simp add: report_of_def si_key_def)

end
