(* ===== verification/Node_Alive.thy ===== *)
theory Node_Alive
  imports Node_Manager Reg_State
begin

text \<open>
  The thread that keeps a node alive (\<open>NodeServer/KeepAliveThread.cpp\<close>): it registers the node, loads its
  servers, checks each of them, sends their states to the registry in batches and reports the node itself. One round reads
  the clock once, at time \<open>t\<close>. The answers of the registry are parameters; the batch of states is
  handed to a function that may be the registry of \<open>Reg_State\<close>.
\<close>

section \<open>The thread\<close>

record alive_conf =
  ac_runTime :: int
  ac_heartTimeout :: int
  ac_reportAliveInterval :: int
  ac_synInterval :: int
  ac_heartBeat :: int
  ac_nodeName :: string

record keep_alive =
  ka_tSyn :: int
  ka_tReport :: int
  ka_iFailNum :: nat
  ka_tLastLoadTime :: int
  ka_synStatBatch :: string
  ka_stat :: "server_state_info list"
  ka_fKey :: string
  ka_bRegistered :: bool
  ka_bLoaded :: bool
  ka_docker :: int
  ka_latest :: int

text \<open>The constructor clamps the interval between rounds; the static variables start at 0.\<close>

definition monitor_interval :: "int \<Rightarrow> int" where
  "monitor_interval n = (if n > 10 then 10 else if n < 1 then 1 else n)"

definition new_keep_alive :: "string \<Rightarrow> int \<Rightarrow> keep_alive" where
  "new_keep_alive batch t = \<lparr>ka_tSyn = 0, ka_tReport = 0, ka_iFailNum = 0, ka_tLastLoadTime = 0, ka_synStatBatch = batch, ka_stat = [],
     ka_fKey = '''', ka_bRegistered = False, ka_bLoaded = False, ka_docker = 0, ka_latest = t\<rparr>"

definition loadFrameworkKey :: "string option \<Rightarrow> keep_alive \<Rightarrow> keep_alive" where
  "loadFrameworkKey ans k = (case ans of Some key \<Rightarrow> if key \<noteq> '''' then k\<lparr>ka_fKey := key\<rparr> else k | None \<Rightarrow> k)"

definition registerNode :: "alive_conf \<Rightarrow> int option \<Rightarrow> bool" where
  "registerNode c ans \<longleftrightarrow> ac_nodeName c \<noteq> '''' \<and> ans = Some 0"

definition loadAllServers :: "manager_env \<Rightarrow> int \<Rightarrow> reg_answer \<Rightarrow> keep_alive \<times> server_factory \<Rightarrow> (bool \<times> keep_alive \<times> server_factory) option" where
  "loadAllServers w t a x =
     (let (k, f) = x; full = ka_iFailNum k \<ge> 5
      in if full \<and> t - ka_tLastLoadTime k < 600 then Some (False, k, f)
         else (let k = (if full then k\<lparr>ka_tLastLoadTime := t, ka_iFailNum := 0\<rparr> else k)
               in map_option (\<lambda>(ok, f). if ok then (True, k, f) else (False, k\<lparr>ka_iFailNum := ka_iFailNum k + 1\<rparr>, f))
                    (load_server w a '''' '''' True f)))"

definition reportAlive :: "alive_conf \<Rightarrow> int \<Rightarrow> int option \<Rightarrow> keep_alive \<Rightarrow> int \<times> keep_alive" where
  "reportAlive c t ans k =
     (if t - ka_tReport k > ac_reportAliveInterval c
      then ((case ans of Some r \<Rightarrow> r | None \<Rightarrow> 0), k\<lparr>ka_tReport := t\<rparr>) else (0, k))"

section \<open>The states of the servers\<close>

text \<open>The call of the registry: an exception with its text, or a code.\<close>

type_synonym 'r registry_call = "server_state_info list \<Rightarrow> 'r \<Rightarrow> (string + int) \<times> 'r"

definition synStat :: "'r registry_call \<Rightarrow> keep_alive \<times> 'r \<Rightarrow> int \<times> keep_alive \<times> 'r" where
  "synStat call x =
     (let (k, r) = x; v = ka_stat k; k = k\<lparr>ka_stat := []\<rparr>
      in if v = [] then (- 1, k, r)
         else (case call v r of
                 (Inr ret, r) \<Rightarrow> (ret, k, r)
               | (Inl s, r) \<Rightarrow>
                   (- 1, if str_contains s ''server function mismatch exception'' then k\<lparr>ka_synStatBatch := ''N''\<rparr> else k, r)))"

definition state_report :: "alive_conf \<Rightarrow> string \<Rightarrow> string \<Rightarrow> node_state \<Rightarrow> server_state_info" where
  "state_report c app name s =
     \<lparr>si_state = reported (ob s), si_pid = so_pid (ob s), si_app = app, si_server = name, si_node = ac_nodeName c\<rparr>"

text \<open>The shared map takes the setting from the object, whatever the registry said.\<close>

definition sync_cache :: "string \<Rightarrow> string \<Rightarrow> node_state \<Rightarrow> server_factory \<Rightarrow> server_factory" where
  "sync_cache app name s f =
     (case map_of (sf_descs f) (app, name) of
        Some d \<Rightarrow> f\<lparr>sf_cache := hm_set (app, name)
          (d\<lparr>ld_settingState := if so_enabled (ob s) then ''active'' else ''inactive''\<rparr>) (sf_cache f)\<rparr>
      | None \<Rightarrow> f)"

definition sync_one :: "manager_env \<Rightarrow> alive_conf \<Rightarrow> string \<Rightarrow> string \<Rightarrow> node_state \<Rightarrow> keep_alive \<times> server_factory \<Rightarrow> keep_alive \<times> server_factory" where
  "sync_one w c app name s x =
     (let (k, f) = x; f = sync_cache app name s f
      in if tc_lower (mg_tc w) (ka_synStatBatch k) = ''y''
         then (k\<lparr>ka_stat := ka_stat k @ [state_report c app name s]\<rparr>, putServer app name s f)
         else (k, putServer app name (asyncSynState s) f))"

definition check_one ::
  "manager_env \<Rightarrow> alive_conf \<Rightarrow> int \<Rightarrow> bool \<Rightarrow> string \<times> string \<Rightarrow> keep_alive \<times> server_factory \<Rightarrow> (keep_alive \<times> server_factory) option" where
  "check_one w c t sync an x =
     (let (app, name) = an; (k, f) = x; e = mg_cmd w app name
      in case getServer app name f of
           None \<Rightarrow> Some (k, f)
         | Some s \<Rightarrow>
             (let s = doMonScript (mg_tc w) (mg_fs w) e s
              in if t - ac_runTime c < ac_heartBeat c + 1 then Some (k, putServer app name s f)
                 else map_option (\<lambda>(b, s). if sync then sync_one w c app name s (k, f) else (k, putServer app name s f))
                        (checkServer (mg_tc w) (mg_fs w) e (ac_heartTimeout c) (checkCoredumpLimit e s))))"

fun check_all ::
  "manager_env \<Rightarrow> alive_conf \<Rightarrow> int \<Rightarrow> bool \<Rightarrow> (string \<times> string) list \<Rightarrow> keep_alive \<times> server_factory \<Rightarrow> (keep_alive \<times> server_factory) option" where
  "check_all w c t sync [] x = Some x"
| "check_all w c t sync (an # ans) x = Option.bind (check_one w c t sync an x) (check_all w c t sync ans)"

definition getAllServers :: "server_factory \<Rightarrow> (string \<times> string) list" where
  "getAllServers f = concat (map (\<lambda>(app, g). map (\<lambda>e. (app, fst e)) g) (sf_mmServerList f))"

definition checkAlive ::
  "manager_env \<Rightarrow> alive_conf \<Rightarrow> 'r registry_call \<Rightarrow> int \<Rightarrow> keep_alive \<times> server_factory \<times> 'r \<Rightarrow> (keep_alive \<times> server_factory \<times> 'r) option" where
  "checkAlive w c call t x =
     (let (k, f, r) = x; need = t - ka_tSyn k > ac_synInterval c;
          k = (if need then k\<lparr>ka_tSyn := t\<rparr> else k); k = k\<lparr>ka_stat := []\<rparr>
      in map_option (\<lambda>(k, f). if need then (let (ret, k, r) = synStat call (k, r) in (k, f, r)) else (k, f, r))
           (check_all w c t need (getAllServers f) (k, f)))"

section \<open>A round\<close>

text \<open>What the other calls of a round are answered: the key, the registration, the load, the beat of the node.\<close>

record round_answers =
  rd_key :: "string option"
  rd_register :: "int option"
  rd_load :: reg_answer
  rd_alive :: "int option"

definition round_register :: "alive_conf \<Rightarrow> int \<Rightarrow> round_answers \<Rightarrow> keep_alive \<Rightarrow> keep_alive" where
  "round_register c t a k =
     (let k = (if t - ka_docker k \<ge> 10 then loadFrameworkKey (rd_key a) (k\<lparr>ka_docker := t\<rparr>) else k)
      in if \<not> ka_bRegistered k \<and> ac_nodeName c \<noteq> '''' then k\<lparr>ka_bRegistered := registerNode c (rd_register a)\<rparr> else k)"

definition round_load ::
  "manager_env \<Rightarrow> int \<Rightarrow> round_answers \<Rightarrow> keep_alive \<times> server_factory \<Rightarrow> (keep_alive \<times> server_factory) option" where
  "round_load w t a x =
     map_option (\<lambda>(loaded, k, f). (k\<lparr>ka_bLoaded := loaded\<rparr>, if loaded then setAllServerResourceLimit f else f))
       (if ka_bLoaded (fst x) then Some (True, x) else loadAllServers w t (rd_load a) x)"

definition round_report :: "alive_conf \<Rightarrow> int \<Rightarrow> round_answers \<Rightarrow> keep_alive \<Rightarrow> keep_alive" where
  "round_report c t a k =
     (let (ret, k) = reportAlive c t (rd_alive a) k
      in (if ret \<noteq> 0 then k\<lparr>ka_bRegistered := False\<rparr> else k)\<lparr>ka_latest := t\<rparr>)"

definition alive_round ::
  "manager_env \<Rightarrow> alive_conf \<Rightarrow> 'r registry_call \<Rightarrow> int \<times> round_answers \<Rightarrow> keep_alive \<times> server_factory \<times> 'r \<Rightarrow> (keep_alive \<times> server_factory \<times> 'r) option" where
  "alive_round w c call ta x =
     (let (t, a) = ta; (k, f, r) = x
      in Option.bind (round_load w t a (round_register c t a k, f)) (\<lambda>(k, f).
           map_option (\<lambda>(k, f, r). (round_report c t a k, f, r)) (checkAlive w c call t (k, f, r))))"

section \<open>The servers of the factory\<close>

definition servers_ok :: "server_factory \<Rightarrow> bool" where
  "servers_ok f \<longleftrightarrow> om_ok (sf_mmServerList f) \<and> (\<forall>(a, g) \<in> set (sf_mmServerList f). om_ok g)"

lemma all_servers: "servers_ok f \<Longrightarrow> (a, n) \<in> set (getAllServers f) \<longleftrightarrow> getServer a n f \<noteq> None"
proof -
  assume ok: "servers_ok f"
  have "(a, n) \<in> set (getAllServers f) \<longleftrightarrow> (\<exists>g. (a, g) \<in> set (sf_mmServerList f) \<and> n \<in> fst ` set g)"
    by (force simp: getAllServers_def)
  also have "\<dots> \<longleftrightarrow> (\<exists>g. om_find (sf_mmServerList f) a = Some g \<and> om_find g n \<noteq> None)"
    using ok by (auto simp: servers_ok_def om_find_set map_of_eq_None_iff)
  finally show ?thesis by (auto simp: getServer_def split: option.splits)
qed

lemma all_servers_distinct: "servers_ok f \<Longrightarrow> distinct (getAllServers f)"
proof -
  have "distinct (concat (map (\<lambda>(app, g). map (\<lambda>e. (app, fst e)) g) m))"
    if "om_ok m" "\<forall>(a, g) \<in> set m. om_ok g" for m :: "(string, (string, node_state) omap) omap"
    using that
  proof (induction m)
    case (Cons e m)
    obtain a g where e: "e = (a, g)" by (cases e)
    have "distinct (map (\<lambda>x. (a, fst x)) g)"
      using om_ok_distinct[of g] Cons.prems(2) e by (simp add: distinct_map inj_on_def)
    with Cons e show ?case by (fastforce simp: om_ok_Cons)
  qed simp
  then show "servers_ok f \<Longrightarrow> ?thesis" by (simp add: getAllServers_def servers_ok_def)
qed

section \<open>A round of checks\<close>

lemma sync_cache_fields [simp]:
  "getServer a n (sync_cache app name s f) = getServer a n f" "sf_descs (sync_cache app name s f) = sf_descs f"
  by (simp_all add: sync_cache_def split: option.split)

lemma putServer_descs [simp]: "sf_descs (putServer a n s f) = sf_descs f" "sf_cache (putServer a n s f) = sf_cache f"
  by (simp_all add: putServer_def)

lemma sync_one_frame:
  "ka_synStatBatch (fst (sync_one w c app name s (k, f))) = ka_synStatBatch k"
  "sf_descs (snd (sync_one w c app name s (k, f))) = sf_descs f"
  "getServer a n (snd (sync_one w c app name s (k, f))) = (if (a, n) = (app, name)
     then Some (if tc_lower (mg_tc w) (ka_synStatBatch k) = ''y'' then s else asyncSynState s) else getServer a n f)"
  by (simp_all add: sync_one_def Let_def)

lemma check_one_frame:
  assumes "check_one w c t sync (app, name) (k, f) = Some (k', f')"
  shows "ka_synStatBatch k' = ka_synStatBatch k \<and>
    (\<forall>a n. (a, n) \<noteq> (app, name) \<longrightarrow> getServer a n f' = getServer a n f) \<and>
    (getServer app name f' = None \<longleftrightarrow> getServer app name f = None) \<and> sf_descs f' = sf_descs f"
proof (cases "getServer app name f")
  case None
  with assms show ?thesis by (simp add: check_one_def)
next
  case (Some s)
  then have "(\<exists>s1. (k', f') = (k, putServer app name s1 f)) \<or> (\<exists>s1. sync_one w c app name s1 (k, f) = (k', f'))"
    using assms by (auto simp: check_one_def Let_def split: if_splits)
  then show ?thesis
  proof (elim disjE exE)
    fix s1 assume "(k', f') = (k, putServer app name s1 f)"
    with Some show ?thesis by auto
  next
    fix s1 assume "sync_one w c app name s1 (k, f) = (k', f')"
    then have "k' = fst (sync_one w c app name s1 (k, f))" "f' = snd (sync_one w c app name s1 (k, f))" by (metis fst_conv snd_conv)+
    with Some show ?thesis by (simp add: sync_one_frame)
  qed
qed

text \<open>The part that a check due for synchronisation leaves in the batch and in the shared map.\<close>

definition mapped :: "server_factory \<Rightarrow> string \<times> string \<Rightarrow> bool" where
  "mapped f an \<longleftrightarrow> (\<forall>d s. map_of (sf_descs f) an = Some d \<longrightarrow> getServer (fst an) (snd an) f = Some s \<longrightarrow>
     map_of (sf_cache f) an = Some (d\<lparr>ld_settingState := if so_enabled (ob s) then ''active'' else ''inactive''\<rparr>))"

lemma hm_set_find: "map_of (hm_set k d m) x = (if x = k then Some d else map_of m x)"
  by simp

lemma asyncSynState_ob [simp]: "ob (asyncSynState s) = ob s"
  by (simp add: asyncSynState_def)

lemma check_one_sync:
  assumes "check_one w c t True (app, name) (k, f) = Some (k', f')" and "getServer app name f \<noteq> None"
    and "t - ac_runTime c \<ge> ac_heartBeat c + 1"
  shows "\<exists>s'. getServer app name f' = Some s' \<and> mapped f' (app, name) \<and>
    (\<forall>x. x \<noteq> (app, name) \<longrightarrow> map_of (sf_cache f') x = map_of (sf_cache f) x) \<and>
    (tc_lower (mg_tc w) (ka_synStatBatch k) = ''y'' \<longrightarrow> ka_stat k' = ka_stat k @ [state_report c app name s'])"
proof -
  obtain s1 where s: "sync_one w c app name s1 (k, f) = (k', f')"
    using assms by (auto simp: check_one_def Let_def)
  show ?thesis
  proof (cases "tc_lower (mg_tc w) (ka_synStatBatch k) = ''y''")
    case True
    with s show ?thesis
      by (auto simp: sync_one_def Let_def mapped_def sync_cache_def split: option.splits)
  next
    case False
    with s show ?thesis
      by (auto simp: sync_one_def Let_def mapped_def sync_cache_def split: option.splits)
  qed
qed

lemma check_all_sync:
  assumes "check_all w c t True ans (k, f) = Some (k', f')" and "distinct ans"
    and "\<And>an. an \<in> set ans \<Longrightarrow> getServer (fst an) (snd an) f \<noteq> None"
    and "t - ac_runTime c \<ge> ac_heartBeat c + 1"
  shows "ka_synStatBatch k' = ka_synStatBatch k \<and> sf_descs f' = sf_descs f \<and>
    (\<forall>a n. (a, n) \<notin> set ans \<longrightarrow> getServer a n f' = getServer a n f \<and> map_of (sf_cache f') (a, n) = map_of (sf_cache f) (a, n)) \<and>
    (\<forall>an \<in> set ans. getServer (fst an) (snd an) f' \<noteq> None \<and> mapped f' an) \<and>
    (tc_lower (mg_tc w) (ka_synStatBatch k) = ''y'' \<longrightarrow>
       ka_stat k' = ka_stat k @ map (\<lambda>an. state_report c (fst an) (snd an) (the (getServer (fst an) (snd an) f'))) ans)"
  using assms
proof (induction ans arbitrary: k f)
  case (Cons an ans)
  obtain app name where an: "an = (app, name)" by (cases an)
  obtain k1 f1 where one: "check_one w c t True (app, name) (k, f) = Some (k1, f1)"
    and rest: "check_all w c t True ans (k1, f1) = Some (k', f')"
    using Cons.prems(1) an by (auto simp: bind_eq_Some_conv)
  have have_an: "getServer app name f \<noteq> None" using Cons.prems(3)[of an] an by simp
  note fr = check_one_frame[OF one] and sy = check_one_sync[OF one have_an Cons.prems(4)]
  have new: "(app, name) \<notin> set ans" "distinct ans" using Cons.prems(2) an by auto
  have "getServer (fst x) (snd x) f1 \<noteq> None" if "x \<in> set ans" for x
    using Cons.prems(3)[of x] that fr new(1) by (cases x) (metis fst_conv list.set_intros(2) snd_conv)
  note ih = Cons.IH[OF rest new(2) this Cons.prems(4)]
  have keep: "getServer app name f' = getServer app name f1" "map_of (sf_cache f') (app, name) = map_of (sf_cache f1) (app, name)"
    using ih new(1) by blast+
  then have m: "mapped f' (app, name)" using sy ih by (auto simp: mapped_def)
  show ?case
    using ih fr sy keep m an by (auto split: option.splits)
qed simp


section \<open>The states reach the registry\<close>

text \<open>The batch handed to the registry of \<open>Reg_State\<close>, over its database.\<close>

definition registry_batch :: "'d sql_exec \<Rightarrow> (db_handle \<times> 'd) registry_call" where
  "registry_batch exec v x = (let (ret, y) = updateServerStateBatch exec True v x in (Inr ret, y))"

lemma batch_returns_0:
  assumes "\<And>cmd d. exec cmd d \<noteq> None"
  shows "fst (updateServerStateBatch exec m vec x) = 0"
proof -
  have step: "fst (doUpdateServerStateBatch exec m v y) = 0" for v y
  proof (cases "exec (batch_command m (map_sort (mapServantStatus (fst y)) v)) (snd y)")
    case None
    with assms show ?thesis by blast
  next
    case (Some z)
    then show ?thesis by (cases y) (simp add: doUpdateServerStateBatch_def Let_def split: prod.split)
  qed
  have "fst (batch_from exec m vec i x) = 0" for i
  proof (induction "length vec - i" arbitrary: i x rule: less_induct)
    case less
    show ?case
    proof (cases "i < length vec")
      case True
      let ?iEnd = "if i + 1000 \<ge> length vec then length vec else i + 1000"
      obtain x' where x': "doUpdateServerStateBatch exec m (take (?iEnd - i) (drop i vec)) x = (0, x')"
        using step by (metis prod.collapse)
      have "fst (batch_from exec m vec ?iEnd x') = 0" using less True by auto
      then show ?thesis by (subst batch_from.simps) (simp add: x' True Let_def)
    qed (simp add: batch_from.simps)
  qed
  then show ?thesis by (simp add: updateServerStateBatch_def)
qed

text \<open>
  Property C28 (states_reach_registry). When the states are due, after the first beats, and the database of the registry
  runs the updates, every server of the node is in the table of the registry, where it has a row, in
  the state in which the checks of this round have left it on the node.
\<close>

theorem states_reach_registry:
  assumes "checkAlive w c (registry_batch exec) t (k, f, r) = Some (k', f', r')"
    and "t - ka_tSyn k > ac_synInterval c" and "t - ac_runTime c \<ge> ac_heartBeat c + 1"
    and "tc_lower (mg_tc w) (ka_synStatBatch k) = ''y''" and "servers_ok f"
    and "runs_updates exec" and "\<And>cmd d. exec cmd d \<noteq> None" and "status_agrees r"
    and "getServer app name f' = Some s" and "snd r' (Key app name (ac_nodeName c)) = Some row"
  shows "fst row = reported (ob s)"
proof -
  let ?all = "getAllServers f"
  obtain k1 where all: "check_all w c t True ?all (k\<lparr>ka_tSyn := t, ka_stat := []\<rparr>, f) = Some (k1, f')"
    and syn: "\<exists>ret. synStat (registry_batch exec) (k1, r) = (ret, k', r')"
    using assms(1,2) by (auto simp: checkAlive_def Let_def case_prod_beta prod_eq_iff)
  have exist: "getServer (fst an) (snd an) f \<noteq> None" if "an \<in> set ?all" for an
    using all_servers[OF assms(5), of "fst an" "snd an"] that by simp
  note c = check_all_sync[OF all all_servers_distinct[OF assms(5)] exist assms(3)]
  define vec where "vec = map (\<lambda>an. state_report c (fst an) (snd an) (the (getServer (fst an) (snd an) f'))) ?all"
  have stat: "ka_stat k1 = vec" using c assms(4) by (simp add: vec_def)
  have mem: "(app, name) \<in> set ?all"
  proof (rule ccontr)
    assume "(app, name) \<notin> set ?all"
    then have "getServer app name f = None" "getServer app name f' = getServer app name f"
      using all_servers[OF assms(5)] c by (simp, blast)
    with assms(9) show False by simp
  qed
  then have i: "state_report c app name s \<in> set vec" using assms(9) by (force simp: vec_def)
  then have "vec \<noteq> []" by auto
  then have r': "snd (updateServerStateBatch exec True vec r) = r'"
    using syn by (auto simp: synStat_def stat registry_batch_def Let_def split: prod.splits)
  have key: "si_key (state_report c a n s) = Key a n (ac_nodeName c)" for a n s by (simp add: state_report_def si_key_def)
  have "map si_key vec = map (\<lambda>an. Key (fst an) (snd an) (ac_nodeName c)) ?all" by (simp add: vec_def key)
  then have d: "distinct (map si_key vec)"
    using all_servers_distinct[OF assms(5)] by (simp add: distinct_map inj_on_def prod_eq_iff)
  have run: "batch_from exec True vec 0 r = (0, r')"
    using batch_returns_0[of exec True vec r, OF assms(7)] r' by (simp add: updateServerStateBatch_def prod_eq_iff)
  have "\<forall>row. snd r' (si_key (state_report c app name s)) = Some row \<longrightarrow> fst row = si_state (state_report c app name s)"
    using batch_from_applies[OF assms(6) d assms(8) run] i unfolding written_def drop_0 by blast
  then show ?thesis using assms(10) by (simp only: key) (simp add: state_report_def)
qed

section \<open>The settings survive the node\<close>

lemma new_server_enabled: "so_enabled (ob (new_server d t)) = (ld_settingState d = ''active'')"
  by (simp add: new_server_def setServerDescriptor_def setLastKeepAliveTime_def Let_def desc_of_def)

lemma createServer_enabled:
  assumes "createServer tc fs v E t d succ f = Some (ok, f')"
  shows "(\<forall>a n. (a, n) \<noteq> (ld_application d, ld_serverName d) \<longrightarrow> getServer a n f' = getServer a n f) \<and>
    (\<forall>s'. getServer (ld_application d) (ld_serverName d) f' = Some s' \<longrightarrow> (so_enabled (ob s') \<longleftrightarrow> ld_settingState d = ''active''))"
proof (cases "getServer (ld_application d) (ld_serverName d) f")
  case None
  obtain r fe s z where c: "command_load tc fs v (E (ld_application d) (ld_serverName d)) d succ (new_server d t, sf_load f) = Some (r, fe, s, z)"
    using assms None by (auto simp: createServer_def Let_def)
  have "so_enabled (ob s) = (ld_settingState d = ''active'')"
    using command_load_run[OF c] by (simp add: run_part_def new_server_enabled)
  then show ?thesis
    using assms None c by (auto simp: createServer_def Let_def setServerLimitInfo_def split: if_splits)
next
  case (Some s)
  have "getServer a n f' = getServer a n f" if "(a, n) \<noteq> (ld_application d, ld_serverName d)" for a n
    using assms Some that by (auto simp: createServer_def Let_def)
  with reload_enabled[OF assms Some] show ?thesis by auto
qed

lemma create_all_enabled:
  assumes "create_all tc fs v E t succ ds (r0, f) = Some (r, f')"
    and "\<And>d. d \<in> set ds \<Longrightarrow> set_of (ld_application d, ld_serverName d) = Some (ld_settingState d = ''active'')"
    and "\<And>a n s. getServer a n f = Some s \<Longrightarrow> set_of (a, n) = Some (so_enabled (ob s))"
    and "getServer a n f' = Some s"
  shows "set_of (a, n) = Some (so_enabled (ob s))"
  using assms
proof (induction ds arbitrary: r0 f)
  case (Cons d ds)
  obtain r1 f1 where c: "createServer tc fs v E t d succ f = Some (r1, f1)" and rest: "create_all tc fs v E t succ ds (r1, f1) = Some (r, f')"
    using Cons.prems(1) by (auto simp: bind_eq_Some_conv)
  have inv: "set_of (a, n) = Some (so_enabled (ob s))" if "getServer a n f1 = Some s" for a n s
    using createServer_enabled[OF c] Cons.prems(2)[of d] Cons.prems(3)[of a n s] that
    by (cases "(a, n) = (ld_application d, ld_serverName d)") auto
  show ?case by (rule Cons.IH[OF rest _ inv Cons.prems(4)]) (use Cons.prems(2) in auto)
qed simp



section \<open>Well-formed factories\<close>

definition desc_map_ok :: "((string \<times> string) \<times> load_descriptor) list \<Rightarrow> bool" where
  "desc_map_ok c \<longleftrightarrow> entries_ok c \<and> distinct (map fst c)"

text \<open>Both maps are ordered, the shared map and the descriptors have one entry under each name, and every server has its descriptor.\<close>

definition factory_ok :: "server_factory \<Rightarrow> bool" where
  "factory_ok f \<longleftrightarrow> servers_ok f \<and> desc_map_ok (sf_cache f) \<and> desc_map_ok (sf_descs f) \<and>
     (\<forall>a n. getServer a n f \<noteq> None \<longrightarrow> map_of (sf_descs f) (a, n) \<noteq> None)"

lemma hm_set_ok: "desc_map_ok c \<Longrightarrow> desc_map_ok (hm_set (ld_application d, ld_serverName d) d c)"
proof -
  assume "desc_map_ok c"
  moreover have "distinct (map fst (filter P c))" if "distinct (map fst c)" for P and c :: "((string \<times> string) \<times> load_descriptor) list"
    using that by (induction c) auto
  ultimately show ?thesis by (auto simp: desc_map_ok_def hm_set_def entries_ok_def)
qed

lemma hm_set_all_ok: "desc_map_ok c \<Longrightarrow> desc_map_ok (fold (\<lambda>d. hm_set (ld_application d, ld_serverName d) d) ds c)"
  by (induction ds arbitrary: c) (auto intro: hm_set_ok)

lemma servers_ok_put: "servers_ok f \<Longrightarrow> servers_ok (putServer a n s f)"
proof -
  assume ok: "servers_ok f"
  have inner: "\<forall>e \<in> set (sf_mmServerList f). om_ok (snd e)" using ok by (auto simp: servers_ok_def)
  have "om_ok (om_get [] (sf_mmServerList f) a)"
    using om_get_ball[where P = "\<lambda>e. om_ok (snd e)" and d = "[]" and k = a, OF inner] by simp
  then have "\<forall>e \<in> set (om_put a (om_put n s (om_get [] (sf_mmServerList f) a)) (sf_mmServerList f)). om_ok (snd e)"
    by (intro om_put_ball[where P = "\<lambda>e. om_ok (snd e)", OF inner]) simp
  then show ?thesis using ok by (auto simp: servers_ok_def putServer_def)
qed

lemma factory_ok_put: "factory_ok f \<Longrightarrow> map_of (sf_descs f) (a, n) \<noteq> None \<Longrightarrow> factory_ok (putServer a n s f)"
  by (simp add: factory_ok_def servers_ok_put)

lemma factory_ok_fields [simp]:
  "factory_ok (f\<lparr>sf_load := z\<rparr>) = factory_ok f" "factory_ok (f\<lparr>sf_bReportLoadInfo := b\<rparr>) = factory_ok f"
  "factory_ok (lower_interval x f) = factory_ok f" "factory_ok (f\<lparr>sf_changed := b\<rparr>) = factory_ok f"
  by (simp_all add: factory_ok_def servers_ok_def lower_interval_def getServer_def)

lemma factory_ok_keepDesc: "factory_ok f \<Longrightarrow> factory_ok (keepDesc d f)"
  by (auto simp: factory_ok_def keepDesc_def hm_set_ok servers_ok_def getServer_def)

lemma keepDesc_find [simp]: "map_of (sf_descs (keepDesc d f)) (ld_application d, ld_serverName d) = Some d"
  by (simp add: keepDesc_def)

lemma createServer_ok:
  assumes "createServer tc fs v E t d succ f = Some (ok, f')" and "factory_ok f"
  shows "factory_ok f'"
  using assms
  by (auto simp: createServer_def Let_def factory_ok_keepDesc split: option.splits if_splits intro!: factory_ok_put)

lemma create_all_ok: "create_all tc fs v E t succ ds (r0, f) = Some (r, f') \<Longrightarrow> factory_ok f \<Longrightarrow> factory_ok f'"
  by (induction ds arbitrary: r0 f) (auto simp: bind_eq_Some_conv dest: createServer_ok)

lemma factory_ok_cache: "factory_ok f \<Longrightarrow> desc_map_ok c \<Longrightarrow> factory_ok (f\<lparr>sf_cache := c\<rparr>)"
  by (simp add: factory_ok_def servers_ok_def)

lemma load_server_ok:
  assumes "load_server w a app name c f = Some (ok, f')" and "factory_ok f"
  shows "factory_ok f'"
proof -
  obtain ds f1 where g: "getServerFromRegistry (ra_list a) app name f = (ds, f1)" by (metis surj_pair)
  have "desc_map_ok (sf_cache f)" "desc_map_ok []" using assms(2) by (simp_all add: factory_ok_def desc_map_ok_def entries_ok_def)
  then have "factory_ok f1"
    using g assms(2) by (auto simp: getServerFromRegistry_def Let_def hm_set_all_ok split: option.splits if_splits intro!: factory_ok_cache)
  then show ?thesis
    using assms(1) create_all_ok unfolding load_server_def factory_loadServer_def g Let_def by (auto split: if_splits)
qed

lemma sync_cache_ok: "factory_ok f \<Longrightarrow> factory_ok (sync_cache a n s f)"
proof (cases "map_of (sf_descs f) (a, n)")
  case (Some d)
  assume ok: "factory_ok f"
  have "(a, n) = (ld_application d, ld_serverName d)"
    using ok map_of_SomeD[OF Some] by (auto simp: factory_ok_def desc_map_ok_def entries_ok_def)
  then show ?thesis
    using ok Some hm_set_ok[of "sf_cache f" "d\<lparr>ld_settingState := if so_enabled (ob s) then ''active'' else ''inactive''\<rparr>"]
    by (simp add: sync_cache_def factory_ok_cache factory_ok_def[of f])
qed (simp add: sync_cache_def)

lemma check_one_ok:
  assumes "check_one w c t sync (app, name) (k, f) = Some (k', f')" and "factory_ok f"
  shows "factory_ok f'"
proof (cases "getServer app name f")
  case None
  with assms show ?thesis by (simp add: check_one_def)
next
  case (Some s)
  then have "map_of (sf_descs f) (app, name) \<noteq> None" using assms(2) by (simp add: factory_ok_def)
  then have put: "factory_ok (putServer app name s1 f)" "factory_ok (putServer app name s1 (sync_cache app name s2 f))" for s1 s2
    using assms(2) sync_cache_ok by (auto intro!: factory_ok_put)
  show ?thesis
    using assms(1) Some by (auto simp: check_one_def Let_def sync_one_def put split: if_splits)
qed

lemma check_all_ok: "check_all w c t sync ans (k, f) = Some (k', f') \<Longrightarrow> factory_ok f \<Longrightarrow> factory_ok f'"
proof (induction ans arbitrary: k f)
  case (Cons an ans)
  then show ?case by (cases an) (auto simp: bind_eq_Some_conv dest: check_one_ok)
qed simp

lemma limit_server_ok:
  assumes "factory_ok f" and "getServer app n f \<noteq> None"
  shows "factory_ok (limit_server app (n, s) f)"
proof -
  have "limit_server app (n, s) f = putServer app n (on_ob (setServerLimitInfo (lc_info (loadLimitInfo app (app @ ''.'' @ n) f))) s)
      (lower_interval (loadLimitInfo app (app @ ''.'' @ n) f) f)"
    by (simp add: limit_server_def Let_def putServer_def lower_interval_def)
  moreover have "map_of (sf_descs (lower_interval x f)) (app, n) \<noteq> None" for x
    using assms by (auto simp: factory_ok_def lower_interval_def)
  ultimately show ?thesis using assms(1) by (simp add: factory_ok_put)
qed

lemma limit_server_present: "getServer a n (limit_server app e f) \<noteq> None \<longleftrightarrow> getServer a n f \<noteq> None \<or> (a, n) = (app, fst e)"
proof -
  have "limit_server app e f = putServer app (fst e) (on_ob (setServerLimitInfo (lc_info (loadLimitInfo app (app @ ''.'' @ fst e) f))) (snd e))
      (lower_interval (loadLimitInfo app (app @ ''.'' @ fst e) f) f)"
    by (simp add: limit_server_def Let_def putServer_def lower_interval_def)
  then show ?thesis by auto
qed


lemma limit_group_ok:
  assumes "factory_ok f" and "\<And>e. e \<in> set g \<Longrightarrow> getServer app (fst e) f \<noteq> None"
  shows "factory_ok (fold (limit_server app) g f) \<and>
    (\<forall>a n. getServer a n f \<noteq> None \<longrightarrow> getServer a n (fold (limit_server app) g f) \<noteq> None)"
  using assms
proof (induction g arbitrary: f)
  case (Cons e g)
  let ?f1 = "limit_server app e f"
  have ok: "factory_ok ?f1" using limit_server_ok[OF Cons.prems(1), of app "fst e" "snd e"] Cons.prems(2)[of e] by simp
  have "getServer app (fst x) ?f1 \<noteq> None" if "x \<in> set g" for x
    using limit_server_present Cons.prems(2)[of x] that by simp
  from Cons.IH[OF ok this] show ?case using limit_server_present[of _ _ app e f] by auto
qed simp

lemma limits_ok: "factory_ok f \<Longrightarrow> factory_ok (setAllServerResourceLimit f)"
proof -
  assume ok: "factory_ok f"
  have "factory_ok (fold (\<lambda>(app, g). fold (limit_server app) g) m f1)"
    if "factory_ok f1" "\<And>app g e. (app, g) \<in> set m \<Longrightarrow> e \<in> set g \<Longrightarrow> getServer app (fst e) f1 \<noteq> None" for m f1
    using that
  proof (induction m arbitrary: f1)
    case (Cons x m)
    obtain app g where x: "x = (app, g)" by (cases x)
    have "\<And>e. e \<in> set g \<Longrightarrow> getServer app (fst e) f1 \<noteq> None" using Cons.prems(2)[of app g] x by simp
    note l = limit_group_ok[OF Cons.prems(1) this]
    have later: "\<And>a h e. (a, h) \<in> set m \<Longrightarrow> e \<in> set h \<Longrightarrow> getServer a (fst e) (fold (limit_server app) g f1) \<noteq> None"
      using l Cons.prems(2) by (meson list.set_intros(2))
    show ?case using Cons.IH[OF conjunct1[OF l] later] x by simp
  qed simp
  moreover have "getServer app (fst e) f \<noteq> None" if "(app, g) \<in> set (sf_mmServerList f)" "e \<in> set g" for app g e
    using ok that om_find_set[of "sf_mmServerList f" app g]
    by (auto simp: factory_ok_def servers_ok_def getServer_def map_of_eq_None_iff split: option.split)
  ultimately show ?thesis using ok by (auto simp: setAllServerResourceLimit_def)
qed

lemma checkAlive_checks:
  assumes "checkAlive w c call t (k, f, r) = Some (k', f', r')"
  shows "\<exists>k1 k2. check_all w c t (t - ka_tSyn k > ac_synInterval c) (getAllServers f) (k1, f) = Some (k2, f')"
  using assms by (auto simp: checkAlive_def Let_def case_prod_beta split: if_splits)

lemma checkAlive_ok:
  assumes "checkAlive w c call t (k, f, r) = Some (k', f', r')" and "factory_ok f"
  shows "factory_ok f'"
  using checkAlive_checks[OF assms(1)] check_all_ok assms(2) by blast

lemma loadAllServers_ok:
  "loadAllServers w t a (k, f) = Some (ok, k', f') \<Longrightarrow> factory_ok f \<Longrightarrow> factory_ok f'"
  by (auto simp: loadAllServers_def Let_def split: if_splits dest: load_server_ok)

lemma alive_round_parts:
  assumes "alive_round w c call (t, a) (k, f, r) = Some (k', f', r')"
  obtains k1 f1 k2 where "round_load w t a (round_register c t a k, f) = Some (k1, f1)"
    and "checkAlive w c call t (k1, f1, r) = Some (k2, f', r')" and "k' = round_report c t a k2"
  using assms by (auto simp: alive_round_def bind_eq_Some_conv)

lemma round_load_ok: "round_load w t a (k, f) = Some (k', f') \<Longrightarrow> factory_ok f \<Longrightarrow> factory_ok f'"
  by (auto simp: round_load_def split: if_splits intro: limits_ok dest: loadAllServers_ok)

lemma alive_round_ok:
  assumes "alive_round w c call (t, a) (k, f, r) = Some (k', f', r')" and "factory_ok f"
  shows "factory_ok f'"
  using assms(1) by (rule alive_round_parts) (metis assms(2) checkAlive_ok round_load_ok)

fun alive_run :: "manager_env \<Rightarrow> alive_conf \<Rightarrow> 'r registry_call \<Rightarrow> (int \<times> round_answers) list \<Rightarrow> keep_alive \<times> server_factory \<times> 'r \<Rightarrow>
    (keep_alive \<times> server_factory \<times> 'r) option" where
  "alive_run w c call [] x = Some x"
| "alive_run w c call (ta # tas) x = Option.bind (alive_round w c call ta x) (alive_run w c call tas)"




section \<open>How often the servers are loaded\<close>

definition load_tried :: "int \<Rightarrow> keep_alive \<Rightarrow> bool" where
  "load_tried t k \<longleftrightarrow> \<not> (ka_iFailNum k \<ge> 5 \<and> t - ka_tLastLoadTime k < 600)"

text \<open>The rounds until the servers are loaded, and how often they ask the registry for all of them.\<close>

fun load_attempts :: "manager_env \<Rightarrow> (int \<times> reg_answer) list \<Rightarrow> keep_alive \<times> server_factory \<Rightarrow> nat" where
  "load_attempts w [] x = 0"
| "load_attempts w ((t, a) # tas) x =
     (if load_tried t (fst x) then 1 else 0) +
     (case loadAllServers w t a x of Some (False, x') \<Rightarrow> load_attempts w tas x' | _ \<Rightarrow> 0)"

lemma attempts_in_window:
  assumes "\<And>t a. (t, a) \<in> set tas \<Longrightarrow> T \<le> t \<and> t < T + 600"
  shows "load_attempts w tas (k, f) \<le> (5 - ka_iFailNum k) + (if T \<le> ka_tLastLoadTime k then 0 else 5)"
  using assms
proof (induction tas arbitrary: k f)
  case (Cons ta tas)
  obtain t a where ta: "ta = (t, a)" by (cases ta)
  have t: "T \<le> t" "t < T + 600" using Cons.prems[of t a] ta by auto
  have ih: "load_attempts w tas (k, f) \<le> (5 - ka_iFailNum k) + (if T \<le> ka_tLastLoadTime k then 0 else 5)" for k f
    by (rule Cons.IH) (use Cons.prems in auto)
  show ?case
  proof (cases "load_tried t k")
    case False
    then have "loadAllServers w t a (k, f) = Some (False, k, f)" by (auto simp: load_tried_def loadAllServers_def Let_def)
    with False ih[of k f] ta show ?thesis by simp
  next
    case True
    define k1 where "k1 = (if ka_iFailNum k \<ge> 5 then k\<lparr>ka_tLastLoadTime := t, ka_iFailNum := 0\<rparr> else k)"
    have run: "loadAllServers w t a (k, f) = map_option (\<lambda>(ok, f). if ok then (True, k1, f) else (False, k1\<lparr>ka_iFailNum := ka_iFailNum k1 + 1\<rparr>, f))
        (load_server w a '''' '''' True f)"
      using True unfolding load_tried_def loadAllServers_def k1_def prod.case Let_def by simp
    have room: "Suc ((5 - ka_iFailNum (k1\<lparr>ka_iFailNum := ka_iFailNum k1 + 1\<rparr>)) + (if T \<le> ka_tLastLoadTime k1 then 0 else 5)) \<le>
        (5 - ka_iFailNum k) + (if T \<le> ka_tLastLoadTime k then 0 else 5)"
      using True t by (auto simp: k1_def load_tried_def)
    have pos: "1 \<le> (5 - ka_iFailNum k) + (if T \<le> ka_tLastLoadTime k then 0 else 5)" using room by linarith
    show ?thesis
    proof (cases "load_server w a '''' '''' True f")
      case None
      then show ?thesis using pos by (simp add: ta run)
    next
      case (Some z)
      obtain ok f1 where z: "z = (ok, f1)" by (cases z)
      show ?thesis
      proof (cases ok)
        case True
        then show ?thesis using pos Some z by (simp add: ta run)
      next
        case False
        then have "load_attempts w (ta # tas) (k, f) \<le> Suc (load_attempts w tas (k1\<lparr>ka_iFailNum := ka_iFailNum k1 + 1\<rparr>, f1))"
          using Some z by (simp add: ta run)
        also have "\<dots> \<le> Suc ((5 - ka_iFailNum (k1\<lparr>ka_iFailNum := ka_iFailNum k1 + 1\<rparr>)) + (if T \<le> ka_tLastLoadTime k1 then 0 else 5))"
          using ih[of "k1\<lparr>ka_iFailNum := ka_iFailNum k1 + 1\<rparr>" f1] by simp
        finally show ?thesis using room by linarith
      qed
    qed
  qed
qed simp

text \<open>
  Fact (ten_loads_in_ten_minutes). While the node has no servers, it asks the registry for all of them at most
  ten times in any ten minutes, however many rounds there are and from whatever state.
\<close>

theorem ten_loads_in_ten_minutes:
  assumes "\<And>t a. (t, a) \<in> set tas \<Longrightarrow> T \<le> t \<and> t < T + 600"
  shows "load_attempts w tas (k, f) \<le> 10"
proof -
  have "load_attempts w tas (k, f) \<le> (5 - ka_iFailNum k) + (if T \<le> ka_tLastLoadTime k then 0 else 5)"
    by (rule attempts_in_window) (use assms in blast)
  also have "\<dots> \<le> 10" by (simp split: if_split, arith)
  finally show ?thesis .
qed

section \<open>The first seconds\<close>

lemma early_check:
  assumes "check_all w c t sync ans (k, f) = Some (k', f')" and "t - ac_runTime c < ac_heartBeat c + 1" and "getServer a n f = Some s"
  shows "\<exists>s'. getServer a n f' = Some s' \<and> acts s' = acts s \<and> so_enabled (ob s') = so_enabled (ob s)"
  using assms
proof (induction ans arbitrary: k f s)
  case (Cons an ans)
  obtain app name where an: "an = (app, name)" by (cases an)
  obtain k1 f1 where one: "check_one w c t sync (app, name) (k, f) = Some (k1, f1)" and rest: "check_all w c t sync ans (k1, f1) = Some (k', f')"
    using Cons.prems(1) an by (auto simp: bind_eq_Some_conv)
  have "\<exists>s1. getServer a n f1 = Some s1 \<and> acts s1 = acts s \<and> so_enabled (ob s1) = so_enabled (ob s)"
    using one Cons.prems(2,3) by (auto simp: check_one_def Let_def doMonScript_outcome split: option.splits if_splits)
  then obtain s1 where s1: "getServer a n f1 = Some s1" "acts s1 = acts s \<and> so_enabled (ob s1) = so_enabled (ob s)" by blast
  from Cons.IH[OF rest Cons.prems(2) s1(1)] s1(2) show ?case by simp
qed simp

text \<open>
  Fact (first_beats_are_awaited). In the first eleven seconds after the node has started, with the interval of beats of
  ten seconds, the checks start, stop and signal no process.
\<close>

theorem first_beats_are_awaited:
  assumes "checkAlive w c call t (k, f, r) = Some (k', f', r')" and "t - ac_runTime c < ac_heartBeat c + 1" and "getServer a n f = Some s"
  shows "\<exists>s'. getServer a n f' = Some s' \<and> acts s' = acts s \<and> so_enabled (ob s') = so_enabled (ob s)"
  using checkAlive_checks[OF assms(1)] early_check assms(2,3) by blast

text \<open>
  Fact (restarted_registry_is_told). A registry that answers the report of the node with an error, as one that has been
  restarted does, is sent the registration of the node in the next round, and no later one unless it answers so again.
\<close>

theorem restarted_registry_is_told:
  assumes "t - ka_tReport k > ac_reportAliveInterval c" and "rd_alive a = Some ret" and "ret \<noteq> 0" and "ac_nodeName c \<noteq> ''''"
  shows "\<not> ka_bRegistered (round_report c t a k) \<and>
    (rd_register a2 = Some 0 \<longrightarrow> ka_bRegistered (round_register c t2 a2 (round_report c t a k)))"
  using assms by (auto simp: round_report_def reportAlive_def round_register_def registerNode_def Let_def loadFrameworkKey_def split: option.split)



section \<open>Examples\<close>

text \<open>A server that the registry has set inactive and a request has enabled since.\<close>

definition quiet_node :: node_state where
  "quiet_node = on_ob (\<lambda>so. so\<lparr>so_desc := (so_desc so)\<lparr>d_settingState := ''inactive''\<rparr>\<rparr>) sample_node"

definition quiet_factory :: server_factory where
  "quiet_factory = (putServer ''App'' ''Svr'' quiet_node sample_factory)
     \<lparr>sf_descs := [((''App'', ''Svr''), sample_ld\<lparr>ld_settingState := ''inactive''\<rparr>)]\<rparr>"

definition sample_alive :: alive_conf where
  "sample_alive = \<lparr>ac_runTime = 0, ac_heartTimeout = 10, ac_reportAliveInterval = 10, ac_synInterval = 60, ac_heartBeat = 10,
     ac_nodeName = ''10.0.0.1''\<rparr>"

lemma sample_env_fields [simp]: "ac_runTime sample_alive = 0" "ac_heartBeat sample_alive = 10" "ac_synInterval sample_alive = 60"
  "ac_nodeName sample_alive = ''10.0.0.1''" "mg_tc sample_manager = sample_tc" "mg_fs sample_manager = sample_fs"
  by (simp_all add: sample_alive_def sample_manager_def)

lemma quiet_list: "sf_mmServerList quiet_factory = [(''App'', [(''Svr'', quiet_node)])]"
  by (simp add: quiet_factory_def putServer_def sample_factory_def om_get_def)

lemma quiet_get [simp]: "getServer ''App'' ''Svr'' quiet_factory = Some quiet_node"
  by (simp add: getServer_def quiet_list)

lemma quiet_get_all: "getServer a n quiet_factory = (if a = ''App'' then if n = ''Svr'' then Some quiet_node else None else None)"
  by (simp add: getServer_def quiet_list)

lemma quiet_ok: "factory_ok quiet_factory"
  unfolding factory_ok_def
proof (intro conjI allI impI)
  fix a n assume "getServer a n quiet_factory \<noteq> None"
  then have "a = ''App''" "n = ''Svr''" unfolding quiet_get_all by presburger+
  then show "om_find (sf_descs quiet_factory) (a, n) \<noteq> None" by (simp add: quiet_factory_def)
next
  show "servers_ok quiet_factory" unfolding servers_ok_def quiet_list by (simp add: om_ok_Cons)
qed (simp_all add: desc_map_ok_def entries_ok_def quiet_factory_def)

lemma quiet_state: "reported (ob quiet_node) = tars_Inactive" "so_pid (ob quiet_node) = 0" "so_enabled (ob quiet_node)"
  by (simp_all add: quiet_node_def sample_node_def sample_object_def reported_def)

lemma quiet_fields: "state_of quiet_node = Inactive" "d_settingState (so_desc (ob quiet_node)) = ''inactive''"
  "so_monitorScript (ob quiet_node) = []" "so_startScript (ob quiet_node) = []" "so_tarsServer (ob quiet_node)"
  by (simp_all add: quiet_node_def sample_node_def sample_object_def)

lemma quiet_checked:
  "doMonScript sample_tc sample_fs k quiet_node = quiet_node" "checkCoredumpLimit k quiet_node = quiet_node"
  "checkServer tc fs k n quiet_node = Some (False, quiet_node)"
  by (simp_all add: doMonScript_def checkCoredumpLimit_def checkServer_def quiet_fields sample_fs_def Let_def)

lemma quiet_check: "check_one sample_manager sample_alive t True (''App'', ''Svr'') (k, quiet_factory) =
    Some (if t < 11 then (k, putServer ''App'' ''Svr'' quiet_node quiet_factory)
          else sync_one sample_manager sample_alive ''App'' ''Svr'' quiet_node (k, quiet_factory))"
proof -
  show ?thesis unfolding check_one_def prod.case Let_def quiet_get option.case sample_env_fields quiet_checked by simp
qed

lemma lower_Y: "tc_lower sample_tc ''Y'' = ''y''"
  by code_simp

definition quiet_synced :: server_factory where
  "quiet_synced = putServer ''App'' ''Svr'' quiet_node (sync_cache ''App'' ''Svr'' quiet_node quiet_factory)"

lemma quiet_round:
  "\<exists>k'. checkAlive sample_manager sample_alive (registry_batch table_exec) 100 (new_keep_alive ''Y'' 0, quiet_factory, (empty_db, t)) =
     Some (k', quiet_synced, snd (updateServerStateBatch table_exec True [report_of tars_Inactive 0 ''10.0.0.1''] (empty_db, t)))"
proof -
  have "state_report sample_alive ''App'' ''Svr'' quiet_node = report_of tars_Inactive 0 ''10.0.0.1''"
    by (simp add: state_report_def report_of_def quiet_state)
  then show ?thesis
    by (simp add: checkAlive_def Let_def getAllServers_def quiet_list quiet_check sync_one_def lower_Y new_keep_alive_def synStat_def registry_batch_def quiet_synced_def case_prod_beta)
qed

theorem states_reach_registry_witness:
  "\<exists>k' r'. checkAlive sample_manager sample_alive (registry_batch table_exec) 100
      (new_keep_alive ''Y'' 0, quiet_factory, (empty_db, [Key ''App'' ''Svr'' ''10.0.0.1'' \<mapsto> (tars_Active, 7)])) = Some (k', quiet_synced, r') \<and>
     map_option fst (snd r' (Key ''App'' ''Svr'' ''10.0.0.1'')) = Some tars_Inactive"
proof -
  let ?t = "[Key ''App'' ''Svr'' ''10.0.0.1'' \<mapsto> (tars_Active, 7 :: int)]"
  let ?r = "snd (updateServerStateBatch table_exec True [report_of tars_Inactive 0 ''10.0.0.1''] (empty_db, ?t))"
  obtain k' where c: "checkAlive sample_manager sample_alive (registry_batch table_exec) 100 (new_keep_alive ''Y'' 0, quiet_factory, (empty_db, ?t)) =
     Some (k', quiet_synced, ?r)" using quiet_round by blast
  obtain row where row: "snd ?r (Key ''App'' ''Svr'' ''10.0.0.1'') = Some row" by (simp add: one_report)
  have "fst row = reported (ob quiet_node)"
    by (rule states_reach_registry[OF c _ _ _ _ table_runs _ empty_agrees, where app = "''App''" and name = "''Svr''"])
      (use quiet_ok row in \<open>simp_all add: new_keep_alive_def lower_Y factory_ok_def table_exec_def
         quiet_synced_def\<close>)
  with c row show ?thesis by (cases row) (simp add: quiet_state)
qed


lemma sample_create_new:
  assumes "getServer ''App'' ''Svr'' f = None" and "sf_load f = sample_load_state"
  shows "map_option fst (createServer sample_tc sample_fs sample_load_env (\<lambda>x y. k_env (sample_cmd (\<lambda>p. True))) 5 sample_ld False f) = Some True"
proof -
  have "fst (load_can e (new_server sample_ld 5)) = EXECUTABLE" for e
    by (simp add: load_can_def in_transition_iff new_server_def setServerDescriptor_def setLastKeepAliveTime_def Let_def desc_of_def)
  from sample_load[OF this, of "k_env (sample_cmd (\<lambda>p. True))" False]
  obtain fe s z where "command_load sample_tc sample_fs sample_load_env (k_env (sample_cmd (\<lambda>p. True))) sample_ld False (new_server sample_ld 5, sample_load_state)
      = Some (0, fe, s, z)" by auto
  then show ?thesis by (simp add: createServer_def Let_def assms)
qed


theorem ten_loads_in_ten_minutes_witness:
  "load_attempts sample_manager [(1000, silent_registry), (1002, silent_registry)] (new_keep_alive ''Y'' 0, sample_factory) \<le> 10"
  by (rule ten_loads_in_ten_minutes[where T = 1000]) auto

theorem first_beats_are_awaited_witness:
  "\<exists>k' f'. checkAlive sample_manager sample_alive (\<lambda>v r. (Inr 0, r)) 5 ((new_keep_alive ''Y'' 0)\<lparr>ka_tSyn := - 100\<rparr>, quiet_factory, ()) = Some (k', f', ()) \<and>
     map_option acts (getServer ''App'' ''Svr'' f') = Some (acts quiet_node)"
proof -
  have "\<exists>k' f'. checkAlive sample_manager sample_alive (\<lambda>v r. (Inr 0, r)) 5 ((new_keep_alive ''Y'' 0)\<lparr>ka_tSyn := - 100\<rparr>, quiet_factory, ()) = Some (k', f', ())"
    by (simp add: checkAlive_def Let_def getAllServers_def quiet_list quiet_check case_prod_beta)
  then obtain k' f' where c: "checkAlive sample_manager sample_alive (\<lambda>v r. (Inr 0, r)) 5 ((new_keep_alive ''Y'' 0)\<lparr>ka_tSyn := - 100\<rparr>, quiet_factory, ()) = Some (k', f', ())"
    by blast
  from first_beats_are_awaited[OF c _ quiet_get] c show ?thesis by auto
qed

end
