(* ===== verification/Reg_Nodes.thy ===== *)
theory Reg_Nodes
  imports Node_Alive
begin

text \<open>
  \<open>RegistryServer\<close>, part 5: the nodes. Registration, beats, time outs and removal in the tables
  (\<open>DbHandle.cpp\<close>), the connections and proxies of the nodes (\<open>NodeManager.cpp\<close>), the requests of
  the nodes (\<open>RegistryImp.cpp\<close>), the queue that decouples them (\<open>RegistryProcThread.cpp\<close>) and the
  threads that check nodes and reload the caches (\<open>CheckNodeThread.cpp\<close>, \<open>ReapThread.cpp\<close>).
\<close>

section \<open>The tables\<close>

text \<open>
  The columns that the code reads or writes, and the two columns of a node (\<open>group_id\<close>, \<open>label\<close>)
  that it does not. Names are unique keys. Times are the seconds of \<open>now()\<close>; the loads are the
  texts that \<open>tostr<float>\<close> gives.
\<close>

record load_info =
  li_avg1 :: string
  li_avg5 :: string
  li_avg15 :: string

record node_info =
  ni_nodeObj :: string
  ni_endpointIp :: string
  ni_endpointPort :: int
  ni_dataDir :: string
  ni_version :: string

record reg_node_row =
  nd_obj :: string
  nd_ip :: string
  nd_port :: int
  nd_dataDir :: string
  nd_load :: load_info
  nd_regTime :: int
  nd_beat :: int
  nd_setting :: string
  nd_present :: string
  nd_version :: string
  nd_template :: string
  nd_group :: int
  nd_label :: string

record reg_server_row =
  sv_setting :: server_state
  sv_present :: server_state
  sv_pid :: int
  sv_type :: string
  sv_patchVersion :: string
  sv_patchUser :: string
  sv_patchTime :: int
  sv_tarsVersion :: string

record registry_row =
  rr_locator :: string
  rr_servant :: string
  rr_endpoint :: string
  rr_beat :: int
  rr_present :: string
  rr_version :: string

record reg_tables =
  tb_nodes :: "(string, reg_node_row) omap"
  tb_servers :: "(servant_status_key, reg_server_row) omap"
  tb_registries :: "registry_row list"

text \<open>\<open>faults i\<close>: the statement number \<open>i\<close> of the call throws.\<close>

type_synonym faults = "nat \<Rightarrow> bool"

definition set_servers :: "(servant_status_key \<Rightarrow> bool) \<Rightarrow> (reg_server_row \<Rightarrow> reg_server_row) \<Rightarrow> reg_tables \<Rightarrow> reg_tables" where
  "set_servers P g tb = tb\<lparr> tb_servers := map (\<lambda>(k, r). (k, if P k then g r else r)) (tb_servers tb) \<rparr>"

definition set_nodes :: "(string \<Rightarrow> reg_node_row \<Rightarrow> bool) \<Rightarrow> (reg_node_row \<Rightarrow> reg_node_row) \<Rightarrow> reg_tables \<Rightarrow> reg_tables" where
  "set_nodes P g tb = tb\<lparr> tb_nodes := map (\<lambda>(n, r). (n, if P n r then g r else r)) (tb_nodes tb) \<rparr>"

text \<open>The affected rows of an update: those that it changes.\<close>

definition rows_changed :: "('k \<times> 'r) list \<Rightarrow> ('k \<times> 'r) list \<Rightarrow> int" where
  "rows_changed a b = int (length (filter (\<lambda>(x, y). x \<noteq> y) (zip a b)))"

section \<open>Connections and proxies of the nodes\<close>

text \<open>A proxy is known by the object text it was made from; \<open>'c\<close> are the connections.\<close>

record 'c node_manager =
  nm_prx :: "(string, string) omap"
  nm_nodeId :: "(string, int) omap"
  nm_idNode :: "(int, string) omap"
  nm_idCurrent :: "(int, 'c) omap"

text \<open>\<open>valid\<close>: \<open>stringToProxy\<close> accepts the text; otherwise it throws before the map is changed.\<close>

definition createNodePrx :: "(string \<Rightarrow> bool) \<Rightarrow> string \<Rightarrow> string \<Rightarrow> 'c node_manager \<Rightarrow> (string \<times> 'c node_manager) option" where
  "createNodePrx valid nname nodeObj m =
     (if valid nodeObj then Some (nodeObj, m\<lparr> nm_prx := om_put nname nodeObj (nm_prx m) \<rparr>) else None)"

definition hasNodePrx :: "string \<Rightarrow> 'c node_manager \<Rightarrow> bool" where
  "hasNodePrx nname m \<longleftrightarrow> om_find (nm_prx m) nname \<noteq> None"

definition nm_getNodePrx :: "string \<Rightarrow> 'c node_manager \<Rightarrow> string option" where
  "nm_getNodePrx nname m = om_find (nm_prx m) nname"

definition rg_eraseNodePrx :: "string \<Rightarrow> 'c node_manager \<Rightarrow> 'c node_manager" where
  "rg_eraseNodePrx nname m = m\<lparr> nm_prx := om_erase nname (nm_prx m) \<rparr>"

definition eraseNode_name :: "string \<Rightarrow> 'c node_manager \<Rightarrow> 'c node_manager" where
  "eraseNode_name nname m =
     (let m1 = (case om_find (nm_nodeId m) nname of
                  None \<Rightarrow> m
                | Some u \<Rightarrow> m\<lparr> nm_idNode := om_erase u (nm_idNode m), nm_idCurrent := om_erase u (nm_idCurrent m) \<rparr>)
      in m1\<lparr> nm_nodeId := om_erase nname (nm_nodeId m1) \<rparr>)"

definition rg_createNodeCurrent :: "string \<Rightarrow> int \<Rightarrow> 'c \<Rightarrow> 'c node_manager \<Rightarrow> 'c node_manager" where
  "rg_createNodeCurrent nname u cur m =
     (let m1 = eraseNode_name nname m
      in m1\<lparr> nm_nodeId := om_put nname u (nm_nodeId m1), nm_idNode := om_put u nname (nm_idNode m1),
             nm_idCurrent := om_put u cur (nm_idCurrent m1) \<rparr>)"

text \<open>\<open>None\<close> is the exception of \<open>at\<close>, \<open>Some None\<close> the null pointer.\<close>

definition rg_getNodeCurrent :: "string \<Rightarrow> 'c node_manager \<Rightarrow> 'c option option" where
  "rg_getNodeCurrent nname m =
     (case om_find (nm_nodeId m) nname of
        Some u \<Rightarrow> map_option Some (om_find (nm_idCurrent m) u)
      | None \<Rightarrow> Some None)"

definition eraseNode_current :: "int \<Rightarrow> 'c node_manager \<Rightarrow> 'c node_manager" where
  "eraseNode_current u m =
     (case om_find (nm_idNode m) u of
        Some nname \<Rightarrow> m\<lparr> nm_nodeId := om_erase nname (nm_nodeId m), nm_idNode := om_erase u (nm_idNode m),
                            nm_idCurrent := om_erase u (nm_idCurrent m) \<rparr>
      | None \<Rightarrow> m)"

section \<open>Nodes in the database\<close>

text \<open>The row that \<open>replace into\<close> writes: a new one, with the defaults of the columns it does not name.\<close>

definition registered_row :: "int \<Rightarrow> string \<Rightarrow> node_info \<Rightarrow> load_info \<Rightarrow> reg_node_row" where
  "registered_row t template ni li =
     \<lparr> nd_obj = ni_nodeObj ni, nd_ip = ni_endpointIp ni, nd_port = ni_endpointPort ni, nd_dataDir = ni_dataDir ni,
       nd_load = li, nd_regTime = t, nd_beat = t, nd_setting = ''active'', nd_present = ''active'',
       nd_version = ni_version ni, nd_template = template, nd_group = - 1, nd_label = '''' \<rparr>"

definition db_registerNode ::
  "(string \<Rightarrow> bool) \<Rightarrow> faults \<Rightarrow> int \<Rightarrow> string \<Rightarrow> node_info \<Rightarrow> load_info \<Rightarrow> reg_tables \<times> 'c node_manager \<Rightarrow>
     int \<times> reg_tables \<times> 'c node_manager" where
  "db_registerNode valid fails t name ni li x =
     (let (tb, m) = x
      in if fails 0 then (2, tb, m)
         else
           let row = om_find (tb_nodes tb) name
           in if (case row of None \<Rightarrow> False
                  | Some r \<Rightarrow> nd_present r = ''active'' \<and> ni_nodeObj ni \<noteq> '''' \<and> nd_obj r \<noteq> ni_nodeObj ni)
              then (1, tb, m)
              else
                let sTemplateName = (case row of None \<Rightarrow> '''' | Some r \<Rightarrow> nd_template r)
                in if fails 1 then (2, tb, m)
                   else
                     let tb' = tb\<lparr> tb_nodes := om_put name (registered_row t sTemplateName ni li) (tb_nodes tb) \<rparr>
                     in case createNodePrx valid name (ni_nodeObj ni) m of
                          None \<Rightarrow> (3, tb', m)
                        | Some (prx, m') \<Rightarrow> (0, tb', m'))"

text \<open>The join starts at the node: without its row no server is touched.\<close>

definition db_destroyNode :: "faults \<Rightarrow> string \<Rightarrow> reg_tables \<times> 'c node_manager \<Rightarrow> int \<times> reg_tables \<times> 'c node_manager" where
  "db_destroyNode fails name x =
     (let (tb, m) = x
      in if fails 0 then (0, tb, m)
         else (0, (if om_find (tb_nodes tb) name = None then tb
                   else set_servers (\<lambda>k. keyNode k = name) (\<lambda>r. r\<lparr> sv_present := tars_Inactive \<rparr>)
                          (set_nodes (\<lambda>n r. n = name) (\<lambda>r. r\<lparr> nd_present := ''inactive'' \<rparr>) tb)),
               rg_eraseNodePrx name m))"

definition db_keepAlive :: "faults \<Rightarrow> int \<Rightarrow> string \<Rightarrow> load_info \<Rightarrow> reg_tables \<Rightarrow> int \<times> reg_tables" where
  "db_keepAlive fails t name li tb =
     (if fails 0 then (2, tb)
      else
        let tb' = set_nodes (\<lambda>n r. n = name) (\<lambda>r. r\<lparr> nd_beat := t, nd_present := ''active'', nd_load := li \<rparr>) tb
        in (if rows_changed (tb_nodes tb) (tb_nodes tb') = 0 then 1 else 0, tb'))"

definition getActiveNodeList :: "faults \<Rightarrow> reg_tables \<Rightarrow> (string, string) omap" where
  "getActiveNodeList fails tb =
     (if fails 0 then []
      else fold (\<lambda>(n, r). om_put n (nd_obj r)) (filter (\<lambda>(n, r). nd_present r = ''active'') (tb_nodes tb)) [])"

definition getNodeVersion :: "faults \<Rightarrow> string \<Rightarrow> reg_tables \<Rightarrow> int \<times> string option" where
  "getNodeVersion fails nname tb =
     (if fails 0 then (- 1, None)
      else case om_find (tb_nodes tb) nname of Some r \<Rightarrow> (0, Some (nd_version r)) | None \<Rightarrow> (- 1, None))"

definition getNodeTemplateName :: "faults \<Rightarrow> string \<Rightarrow> reg_tables \<Rightarrow> int \<times> string" where
  "getNodeTemplateName fails nname tb =
     (if fails 0 then (- 1, '''')
      else (0, case om_find (tb_nodes tb) nname of Some r \<Rightarrow> nd_template r | None \<Rightarrow> ''''))"

text \<open>\<open>None\<close>: an exception, the node is not registered, timed out, or its object is no valid text.\<close>

definition db_getNodePrx :: "(string \<Rightarrow> bool) \<Rightarrow> faults \<Rightarrow> string \<Rightarrow> reg_tables \<times> 'c node_manager \<Rightarrow> (string \<times> 'c node_manager) option" where
  "db_getNodePrx valid fails nname x =
     (let (tb, m) = x
      in case nm_getNodePrx nname m of
           Some p \<Rightarrow> Some (p, m)
         | None \<Rightarrow>
             if fails 0 then None
             else (case om_find (tb_nodes tb) nname of
                     None \<Rightarrow> None
                   | Some r \<Rightarrow> if nd_present r = ''active'' then createNodePrx valid nname (nd_obj r) m else None))"

definition timed_out :: "int \<Rightarrow> int \<Rightarrow> reg_node_row \<Rightarrow> bool" where
  "timed_out t uTimeout r \<longleftrightarrow> nd_beat r < t - uTimeout"

definition checkNodeTimeout :: "faults \<Rightarrow> int \<Rightarrow> int \<Rightarrow> reg_tables \<Rightarrow> int \<times> reg_tables" where
  "checkNodeTimeout fails t uTimeout tb =
     (if fails 0 \<or> fails 1 then (- 1, tb)
      else
        let silent = (\<lambda>n. case om_find (tb_nodes tb) n of None \<Rightarrow> False | Some r \<Rightarrow> timed_out t uTimeout r);
            tb' = set_servers (\<lambda>k. silent (keyNode k)) (\<lambda>r. r\<lparr> sv_present := tars_Inactive, sv_pid := 0 \<rparr>)
                    (set_nodes (\<lambda>n r. timed_out t uTimeout r) (\<lambda>r. r\<lparr> nd_present := ''inactive'' \<rparr>) tb)
        in (rows_changed (tb_nodes tb) (tb_nodes tb') + rows_changed (tb_servers tb) (tb_servers tb'), tb'))"

section \<open>Servers and registries in the database\<close>

definition setPatchInfo :: "faults \<Rightarrow> int \<Rightarrow> servant_status_key \<Rightarrow> string \<Rightarrow> string \<Rightarrow> reg_tables \<Rightarrow> int \<times> reg_tables" where
  "setPatchInfo fails t key version user tb =
     (if fails 0 then (- 1, tb)
      else (0, set_servers (\<lambda>k. k = key)
                 (\<lambda>r. r\<lparr> sv_patchVersion := version, sv_patchUser := user, sv_patchTime := t \<rparr>) tb))"

definition setServerTarsVersion :: "faults \<Rightarrow> servant_status_key \<Rightarrow> string \<Rightarrow> reg_tables \<Rightarrow> int \<times> reg_tables" where
  "setServerTarsVersion fails key version tb =
     (if fails 0 then (- 1, tb) else (0, set_servers (\<lambda>k. k = key) (\<lambda>r. r\<lparr> sv_tarsVersion := version \<rparr>) tb))"

definition getAllApplicationNames :: "faults \<Rightarrow> reg_tables \<Rightarrow> string list" where
  "getAllApplicationNames fails tb = (if fails 0 then [] else remdups (map (application \<circ> fst) (tb_servers tb)))"

text \<open>The rows in the order of the table; \<open>etos\<close> is the text of a state.\<close>

definition getAllServerIds :: "faults \<Rightarrow> (server_state \<Rightarrow> string) \<Rightarrow> reg_tables \<Rightarrow> string list list" where
  "getAllServerIds fails etos tb =
     (if fails 0 then []
      else map (\<lambda>(k, r). [application k @ ''.'' @ serverName k @ ''_'' @ keyNode k,
                            etos (sv_setting r), etos (sv_present r), sv_type r]) (tb_servers tb))"

definition checkRegistryTimeout :: "faults \<Rightarrow> int \<Rightarrow> int \<Rightarrow> reg_tables \<Rightarrow> int \<times> reg_tables" where
  "checkRegistryTimeout fails t uTimeout tb =
     (if fails 0 then (- 1, tb)
      else
        let rs = map (\<lambda>r. if rr_beat r < t - uTimeout then r\<lparr> rr_present := ''inactive'' \<rparr> else r) (tb_registries tb)
        in (int (length (filter (\<lambda>(a, b). a \<noteq> b) (zip (tb_registries tb) rs))), tb\<lparr> tb_registries := rs \<rparr>))"

text \<open>\<open>insert .. on duplicate key update\<close>, for the key of locator and servant.\<close>

fun put_registry :: "registry_row \<Rightarrow> registry_row list \<Rightarrow> registry_row list" where
  "put_registry r [] = [r]"
| "put_registry r (q # qs) =
     (if rr_locator q = rr_locator r \<and> rr_servant q = rr_servant r
      then q\<lparr> rr_endpoint := rr_endpoint r, rr_beat := rr_beat r, rr_present := rr_present r, rr_version := rr_version r \<rparr> # qs
      else q # put_registry r qs)"

text \<open>
  The loop stops at the statement that throws; the rows before it are written. \<open>locator\<close> is what
  parsing the endpoint of the query object gives (\<open>None\<close>: it throws).
\<close>

fun put_registries :: "faults \<Rightarrow> nat \<Rightarrow> int \<Rightarrow> string \<Rightarrow> string \<Rightarrow> (string, string) omap \<Rightarrow> registry_row list \<Rightarrow> int \<times> registry_row list" where
  "put_registries fails i t locator version [] rs = (0, rs)"
| "put_registries fails i t locator version (e # es) rs =
     (if fails i then (- 1, rs)
      else put_registries fails (Suc i) t locator version es
             (put_registry \<lparr> rr_locator = locator, rr_servant = fst e, rr_endpoint = snd e, rr_beat = t,
                rr_present = ''active'', rr_version = version \<rparr> rs))"

definition updateRegistryInfo2Db ::
  "faults \<Rightarrow> int \<Rightarrow> bool \<Rightarrow> (string, string) omap \<Rightarrow> string option \<Rightarrow> string \<Rightarrow> reg_tables \<Rightarrow> int \<times> reg_tables" where
  "updateRegistryInfo2Db fails t bRegHeartbeatOff mapServantEndpoint locator version tb =
     (if bRegHeartbeatOff then (0, tb)
      else if mapServantEndpoint = [] then (- 1, tb)
      else case locator of
          None \<Rightarrow> (- 1, tb)
        | Some l \<Rightarrow> (let (ret, rs) = put_registries fails 0 t l version mapServantEndpoint (tb_registries tb)
                     in (ret, tb\<lparr> tb_registries := rs \<rparr>)))"

section \<open>The queue\<close>

datatype proc_info =
    EM_REPORTVERSION servant_status_key string
  | EM_NODE_KEEPALIVE string load_info
  | EM_UPDATEPATCHRESULT servant_status_key string string

record proc_thread =
  pt_terminate :: bool
  pt_queue :: "proc_info list"

definition proc_put :: "proc_info \<Rightarrow> proc_thread \<Rightarrow> proc_thread" where
  "proc_put info p = (if \<not> pt_terminate p then p\<lparr> pt_queue := pt_queue p @ [info] \<rparr> else p)"

definition proc_pop :: "proc_thread \<Rightarrow> (proc_info \<times> proc_thread) option" where
  "proc_pop p = (case pt_queue p of [] \<Rightarrow> None | i # is \<Rightarrow> Some (i, p\<lparr> pt_queue := is \<rparr>))"

definition proc_terminate :: "proc_thread \<Rightarrow> proc_thread" where
  "proc_terminate p = p\<lparr> pt_terminate := True, pt_queue := [] \<rparr>"

fun proc_work :: "faults \<Rightarrow> int \<Rightarrow> proc_info \<Rightarrow> reg_tables \<Rightarrow> int \<times> reg_tables" where
  "proc_work fails t (EM_NODE_KEEPALIVE name li) tb = db_keepAlive fails t name li tb"
| "proc_work fails t (EM_UPDATEPATCHRESULT key version user) tb = setPatchInfo fails t key version user tb"
| "proc_work fails t (EM_REPORTVERSION key version) tb = setServerTarsVersion fails key version tb"

text \<open>One turn of a runner; the codes of the updates are dropped.\<close>

definition proc_run :: "faults \<Rightarrow> int \<Rightarrow> proc_thread \<times> reg_tables \<Rightarrow> proc_thread \<times> reg_tables" where
  "proc_run fails t x =
     (let (p, tb) = x
      in case proc_pop p of
           None \<Rightarrow> (p, tb)
         | Some (info, p') \<Rightarrow> (p', if pt_terminate p then tb else snd (proc_work fails t info tb)))"

section \<open>The requests of the nodes\<close>

text \<open>The table of servers as the database that runs the state commands of \<open>Reg_State\<close>.\<close>

definition set_state :: "(server_state \<times> int) option \<Rightarrow> reg_server_row \<Rightarrow> reg_server_row" where
  "set_state v r = (case v of None \<Rightarrow> r | Some (st, pid) \<Rightarrow> r\<lparr> sv_present := st, sv_pid := pid \<rparr>)"

definition tables_exec :: "faults \<Rightarrow> reg_tables sql_exec" where
  "tables_exec fails cmd tb =
     (if fails 0 then None
      else
        let rows = map (\<lambda>(k, r). (k, case cmd of
                       UpdateField f st None k' \<Rightarrow> if k = k' then r\<lparr> sv_setting := st \<rparr> else r
                     | _ \<Rightarrow> set_state (new_values cmd k) r)) (tb_servers tb)
        in Some (tb\<lparr> tb_servers := rows \<rparr>, nat (rows_changed (tb_servers tb) rows)))"

record 'c reg_world =
  rw_db :: db_handle
  rw_tb :: reg_tables
  rw_nm :: "'c node_manager"
  rw_proc :: proc_thread
  rw_lastCheck :: int

definition ri_reportNode :: "string \<Rightarrow> int \<Rightarrow> 'c \<Rightarrow> 'c reg_world \<Rightarrow> int \<times> 'c reg_world" where
  "ri_reportNode name u cur w = (0, w\<lparr> rw_nm := rg_createNodeCurrent name u cur (rw_nm w) \<rparr>)"

definition ri_doClose :: "int \<Rightarrow> 'c reg_world \<Rightarrow> int \<times> 'c reg_world" where
  "ri_doClose u w = (0, w\<lparr> rw_nm := eraseNode_current u (rw_nm w) \<rparr>)"

definition ri_registerNode ::
  "(string \<Rightarrow> bool) \<Rightarrow> faults \<Rightarrow> int \<Rightarrow> string \<Rightarrow> node_info \<Rightarrow> load_info \<Rightarrow> 'c reg_world \<Rightarrow> int \<times> 'c reg_world" where
  "ri_registerNode valid fails t name ni li w =
     (let (ret, tb, m) = db_registerNode valid fails t name ni li (rw_tb w, rw_nm w)
      in (ret, w\<lparr> rw_tb := tb, rw_nm := m \<rparr>))"

definition ri_keepAlive :: "string \<Rightarrow> load_info \<Rightarrow> 'c reg_world \<Rightarrow> int \<times> 'c reg_world" where
  "ri_keepAlive name li w = (0, w\<lparr> rw_proc := proc_put (EM_NODE_KEEPALIVE name li) (rw_proc w) \<rparr>)"

definition ri_updateServer ::
  "faults \<Rightarrow> string \<Rightarrow> string \<Rightarrow> string \<Rightarrow> server_state \<Rightarrow> int \<Rightarrow> 'c reg_world \<Rightarrow> int \<times> 'c reg_world" where
  "ri_updateServer fails node app server state pid w =
     (let (ret, s, tb) = updateServerState (tables_exec fails) app server node ''present_state'' state pid (rw_db w, rw_tb w)
      in (ret, w\<lparr> rw_db := s, rw_tb := tb \<rparr>))"

definition ri_updateServerBatch :: "faults \<Rightarrow> bool \<Rightarrow> server_state_info list \<Rightarrow> 'c reg_world \<Rightarrow> int \<times> 'c reg_world" where
  "ri_updateServerBatch fails enMulti vec w =
     (let (ret, s, tb) = updateServerStateBatch (tables_exec fails) enMulti vec (rw_db w, rw_tb w)
      in (ret, w\<lparr> rw_db := s, rw_tb := tb \<rparr>))"

definition ri_destroyNode :: "faults \<Rightarrow> string \<Rightarrow> 'c reg_world \<Rightarrow> int \<times> 'c reg_world" where
  "ri_destroyNode fails name w =
     (let (ret, tb, m) = db_destroyNode fails name (rw_tb w, rw_nm w) in (ret, w\<lparr> rw_tb := tb, rw_nm := m \<rparr>))"

definition ri_reportVersion :: "string \<Rightarrow> string \<Rightarrow> string \<Rightarrow> string \<Rightarrow> 'c reg_world \<Rightarrow> int \<times> 'c reg_world" where
  "ri_reportVersion app server node version w =
     (0, w\<lparr> rw_proc := proc_put (EM_REPORTVERSION (Key app server node) version) (rw_proc w) \<rparr>)"

definition ri_updatePatchResult ::
  "faults \<Rightarrow> int \<Rightarrow> string \<Rightarrow> string \<Rightarrow> string \<Rightarrow> string \<Rightarrow> string \<Rightarrow> 'c reg_world \<Rightarrow> int \<times> 'c reg_world" where
  "ri_updatePatchResult fails t app server node version user w =
     (let (ret, tb) = setPatchInfo fails t (Key app server node) version user (rw_tb w) in (ret, w\<lparr> rw_tb := tb \<rparr>))"

section \<open>The threads\<close>

record check_conf =
  cc_nodeTimeout :: int
  cc_interval :: int

definition at_least :: "int \<Rightarrow> int \<Rightarrow> int" where
  "at_least m x = (if x < m then m else x)"

text \<open>\<open>conf k d\<close> is the value of the configuration with its default.\<close>

definition check_init :: "tc_common \<Rightarrow> (string \<Rightarrow> string \<Rightarrow> string) \<Rightarrow> check_conf" where
  "check_init tc conf =
     \<lparr> cc_nodeTimeout = at_least 15 (tc_strto_int tc (conf ''/tars/reap<nodeTimeout>'' ''250'')),
       cc_interval = at_least 15 (tc_strto_int tc (conf ''/tars/reap<nodeTimeoutInterval>'' ''60'')) \<rparr>"

definition check_tick :: "check_conf \<Rightarrow> faults \<Rightarrow> int \<Rightarrow> int \<times> reg_tables \<Rightarrow> int \<times> reg_tables" where
  "check_tick c fails t x =
     (let (last, tb) = x
      in if t - last \<ge> cc_interval c then (t, snd (checkNodeTimeout fails t (cc_nodeTimeout c) tb)) else (last, tb))"

record reap_conf =
  rc_load1 :: int
  rc_changed1 :: int
  rc_load2 :: int
  rc_changed2 :: int
  rc_registryTimeout :: int
  rc_protect :: bool
  rc_protectRate :: int
  rc_heartBeatOff :: bool

definition reap_init :: "tc_common \<Rightarrow> (string \<Rightarrow> string \<Rightarrow> string) \<Rightarrow> reap_conf" where
  "reap_init tc conf =
     (let num = (\<lambda>k d. tc_strto_int tc (conf k d));
          rate = num ''/tars/reap<recoverProtectRate>'' ''30''
      in \<lparr> rc_load1 = at_least 5 (num ''/tars/reap<loadObjectsInterval1>'' ''10''),
           rc_changed1 = num ''/tars/reap<LeastChangedTime1>'' ''150'',
           rc_load2 = num ''/tars/reap<loadObjectsInterval2>'' ''300'',
           rc_changed2 = 30 * 60,
           rc_registryTimeout = at_least 5 (num ''/tars/reap<registryTimeout>'' ''''),
           rc_protect = conf ''/tars/reap<recoverProtect>'' ''N'' \<noteq> ''N'',
           rc_protectRate = (if rate < 1 then 30 else rate),
           rc_heartBeatOff = (conf ''/tars/reap<heartbeatoff>'' ''N'' = ''Y'') \<rparr>)"

text \<open>What the thread calls, in order; the loads are those of \<open>Reg_Load\<close>, with window, full and initial flag.\<close>

datatype reap_call =
    UpdateRegistryInfo bool
  | LoadObjects bool int int bool bool
  | CheckRegistry int

record reap_state =
  rs_step1 :: int
  rs_step2 :: int
  rs_query :: int

definition reap_start :: "reap_conf \<Rightarrow> int \<Rightarrow> reap_call list \<times> reap_state" where
  "reap_start c t =
     ([UpdateRegistryInfo (rc_heartBeatOff c), LoadObjects (rc_protect c) (rc_protectRate c) 0 True True],
      \<lparr> rs_step1 = t, rs_step2 = t, rs_query = 0 \<rparr>)"

definition reap_tick :: "reap_conf \<Rightarrow> int \<Rightarrow> reap_state \<Rightarrow> reap_call list \<times> reap_state" where
  "reap_tick c t s =
     (let (calls, s) =
        (if t - rs_step1 s \<ge> rc_load1 c then
           let s = s\<lparr> rs_step1 := t \<rparr>
           in if t - rs_step2 s \<ge> rc_load2 c
              then ([UpdateRegistryInfo (rc_heartBeatOff c), LoadObjects (rc_protect c) (rc_protectRate c) (rc_changed2 c) True False],
                    s\<lparr> rs_step2 := t \<rparr>)
              else ([UpdateRegistryInfo (rc_heartBeatOff c), LoadObjects (rc_protect c) (rc_protectRate c) (rc_changed1 c) False False], s)
         else ([], s))
      in if t - rs_query s \<ge> rc_registryTimeout c
         then (calls @ [CheckRegistry (rc_registryTimeout c)], s\<lparr> rs_query := t \<rparr>)
         else (calls, s))"

section \<open>Histories\<close>

datatype 'c reg_event =
    EvRegister string node_info load_info
  | EvKeepAlive string load_info
  | EvUpdateServer string string string server_state int
  | EvUpdateBatch bool "server_state_info list"
  | EvDestroy string
  | EvReportVersion string string string string
  | EvPatchResult string string string string string
  | EvReportNode string int 'c
  | EvClose int
  | EvWork
  | EvCheck

fun reg_step :: "check_conf \<Rightarrow> (string \<Rightarrow> bool) \<Rightarrow> faults \<Rightarrow> int \<Rightarrow> 'c reg_event \<Rightarrow> 'c reg_world \<Rightarrow> int \<times> 'c reg_world" where
  "reg_step c valid fails t (EvRegister name ni li) w = ri_registerNode valid fails t name ni li w"
| "reg_step c valid fails t (EvKeepAlive name li) w = ri_keepAlive name li w"
| "reg_step c valid fails t (EvUpdateServer node app server st pid) w = ri_updateServer fails node app server st pid w"
| "reg_step c valid fails t (EvUpdateBatch multi vec) w = ri_updateServerBatch fails multi vec w"
| "reg_step c valid fails t (EvDestroy name) w = ri_destroyNode fails name w"
| "reg_step c valid fails t (EvReportVersion app server node v) w = ri_reportVersion app server node v w"
| "reg_step c valid fails t (EvPatchResult app server node v u) w = ri_updatePatchResult fails t app server node v u w"
| "reg_step c valid fails t (EvReportNode name u cur) w = ri_reportNode name u cur w"
| "reg_step c valid fails t (EvClose u) w = ri_doClose u w"
| "reg_step c valid fails t EvWork w =
     (let (p, tb) = proc_run fails t (rw_proc w, rw_tb w) in (0, w\<lparr> rw_proc := p, rw_tb := tb \<rparr>))"
| "reg_step c valid fails t EvCheck w =
     (let (last, tb) = check_tick c fails t (rw_lastCheck w, rw_tb w) in (0, w\<lparr> rw_lastCheck := last, rw_tb := tb \<rparr>))"

fun reg_run :: "check_conf \<Rightarrow> (string \<Rightarrow> bool) \<Rightarrow> (faults \<times> int \<times> 'c reg_event) list \<Rightarrow> 'c reg_world \<Rightarrow> 'c reg_world" where
  "reg_run c valid [] w = w"
| "reg_run c valid ((fails, t, e) # es) w = reg_run c valid es (snd (reg_step c valid fails t e w))"

section \<open>Updates of the tables\<close>

lemma find_map_values: "map_of (map (\<lambda>(k, r). (k, f k r)) m) x = map_option (f x) (map_of m x)"
  by (induction m) auto

lemma om_ok_map_values [simp]: "om_ok (map (\<lambda>(k, r). (k, f k r)) m) = om_ok m"
proof (induction m)
  case (Cons e m)
  have "fst ` set (map (\<lambda>(k, r). (k, f k r)) m) = fst ` set m" by force
  with Cons show ?case by (cases e) (simp add: om_ok_Cons)
qed simp

lemma nodes_after [simp]:
  "om_find (tb_nodes (set_nodes P g tb)) n = map_option (\<lambda>r. if P n r then g r else r) (om_find (tb_nodes tb) n)"
  "tb_servers (set_nodes P g tb) = tb_servers tb" "om_ok (tb_nodes (set_nodes P g tb)) = om_ok (tb_nodes tb)"
  "tb_registries (set_nodes P g tb) = tb_registries tb"
  unfolding set_nodes_def by (simp_all add: find_map_values)

lemma servers_after [simp]:
  "om_find (tb_servers (set_servers Q h tb)) k = map_option (\<lambda>r. if Q k then h r else r) (om_find (tb_servers tb) k)"
  "tb_nodes (set_servers Q h tb) = tb_nodes tb" "om_ok (tb_servers (set_servers Q h tb)) = om_ok (tb_servers tb)"
  "tb_registries (set_servers Q h tb) = tb_registries tb"
  unfolding set_servers_def by (simp_all add: find_map_values)

text \<open>The table of servers as \<open>Reg_State\<close> sees it.\<close>

definition state_view :: "reg_tables \<Rightarrow> state_table" where
  "state_view tb k = map_option (\<lambda>r. (sv_present r, sv_pid r)) (om_find (tb_servers tb) k)"

lemma set_nodes_view [simp]: "state_view (set_nodes P g tb) = state_view tb"
  by (simp add: state_view_def fun_eq_iff)

definition view_exec :: "faults \<Rightarrow> state_table sql_exec" where
  "view_exec fails cmd t =
     (if fails 0 then None
      else let t' = (\<lambda>k. case new_values cmd k of None \<Rightarrow> t k | Some v \<Rightarrow> map_option (\<lambda>_. v) (t k))
           in Some (t', if t' = t then 0 else 1))"

lemma view_runs: "runs_updates (view_exec fails)"
  by (auto simp: runs_updates_def view_exec_def Let_def split: if_splits)

lemma changed_rows: "om_ok m \<Longrightarrow> 0 < rows_changed m (map (\<lambda>(k, r). (k, f k r)) m) \<longleftrightarrow> (\<exists>k r. om_find m k = Some r \<and> f k r \<noteq> r)"
proof -
  assume ok: "om_ok m"
  have "0 < rows_changed m (map (\<lambda>(k, r). (k, f k r)) m) \<longleftrightarrow> (\<exists>(k, r) \<in> set m. f k r \<noteq> r)"
    unfolding rows_changed_def by (induction m) auto
  then show ?thesis using om_find_set[OF ok] by fastforce
qed

lemma set_state_same: "set_state v r = r \<longleftrightarrow> (case v of None \<Rightarrow> True | Some x \<Rightarrow> x = (sv_present r, sv_pid r))"
  by (cases r) (auto simp: set_state_def split: option.split)

lemma exec_refines:
  assumes "om_ok (tb_servers tb)" and "\<And>f st k. cmd \<noteq> UpdateField f st None k"
  shows "case tables_exec fails cmd tb of
      None \<Rightarrow> view_exec fails cmd (state_view tb) = None
    | Some (tb', n) \<Rightarrow> om_ok (tb_servers tb') \<and> tb_nodes tb' = tb_nodes tb \<and>
        (\<exists>n'. view_exec fails cmd (state_view tb) = Some (state_view tb', n') \<and> (0 < n) = (0 < n'))"
proof (cases "fails 0")
  case True
  then show ?thesis by (simp add: tables_exec_def view_exec_def)
next
  case False
  let ?f = "\<lambda>k r. set_state (new_values cmd k) r"
  let ?rows = "map (\<lambda>(k, r). (k, ?f k r)) (tb_servers tb)"
  let ?tb = "tb\<lparr> tb_servers := ?rows \<rparr>"
  let ?t = "\<lambda>k. case new_values cmd k of None \<Rightarrow> state_view tb k | Some v \<Rightarrow> map_option (\<lambda>_. v) (state_view tb k)"
  have run: "tables_exec fails cmd tb = Some (?tb, nat (rows_changed (tb_servers tb) ?rows))"
  proof (cases cmd)
    case (UpdateField f st p k)
    with assms(2) obtain pid where "cmd = UpdateField f st (Some pid) k" by (cases p) auto
    then show ?thesis using False by (simp add: tables_exec_def Let_def)
  qed (use False in \<open>simp_all add: tables_exec_def Let_def\<close>)
  have view: "state_view ?tb = ?t"
    by (auto simp: fun_eq_iff state_view_def find_map_values set_state_def option.map_comp comp_def split: option.split)
  have "(\<exists>k r. om_find (tb_servers tb) k = Some r \<and> ?f k r \<noteq> r) \<longleftrightarrow> ?t \<noteq> state_view tb"
    unfolding fun_eq_iff not_all
    by (intro iff_exI) (auto simp: state_view_def set_state_same map_option_case split: option.splits)
  then have "0 < nat (rows_changed (tb_servers tb) ?rows) \<longleftrightarrow> ?t \<noteq> state_view tb"
    using changed_rows[OF assms(1), of ?f] by simp
  then show ?thesis using assms(1) False by (simp add: run view view_exec_def Let_def)
qed

lemma batch_from_step:
  "i < length vec \<Longrightarrow> doUpdateServerStateBatch ex m (chunk vec i) x = (ret, y) \<Longrightarrow>
     batch_from ex m vec i x = (if ret \<noteq> 0 then (- 1, y) else batch_from ex m vec (next_index vec i) y)"
  by (subst batch_from.simps) (simp add: Let_def next_index_def chunk_def)

lemma batch_from_sim:
  assumes step: "\<And>v s d r s' d'. J d \<Longrightarrow> doUpdateServerStateBatch exa m v (s, d) = (r, s', d') \<Longrightarrow>
      J d' \<and> doUpdateServerStateBatch exb m v (s, A d) = (r, s', A d')"
  shows "J d \<Longrightarrow> batch_from exa m vec i (s, d) = (r, s', d') \<Longrightarrow> J d' \<and> batch_from exb m vec i (s, A d) = (r, s', A d')"
proof (induction "length vec - i" arbitrary: i s d rule: less_induct)
  case less
  show ?case
  proof (cases "i < length vec")
    case False
    with less.prems show ?thesis by (simp add: batch_from.simps)
  next
    case True
    obtain ret s1 d1 where one: "doUpdateServerStateBatch exa m (chunk vec i) (s, d) = (ret, s1, d1)" by (metis prod.collapse)
    have two: "J d1" "doUpdateServerStateBatch exb m (chunk vec i) (s, A d) = (ret, s1, A d1)"
      using step[OF less.prems(1) one] by simp_all
    have "length vec - next_index vec i < length vec - i" using True by (auto simp: next_index_def)
    from less.hyps[OF this two(1)] less.prems(2) two(1) show ?thesis
      by (auto simp: batch_from_step[OF True one] batch_from_step[OF True two(2)] split: if_splits)
  qed
qed

lemma batch_commands: "batch_command m x \<noteq> UpdateField f st p k"
  by (simp add: batch_command_def)

text \<open>A batch over the tables is the batch of \<open>Reg_State\<close> over their view.\<close>

lemma batch_refines:
  assumes "om_ok (tb_servers tb)" and "updateServerStateBatch (tables_exec fails) m vec (s, tb) = (r, s', tb')"
  shows "om_ok (tb_servers tb')" and "tb_nodes tb' = tb_nodes tb"
    and "updateServerStateBatch (view_exec fails) m vec (s, state_view tb) = (r, s', state_view tb')"
proof -
  let ?J = "\<lambda>d. om_ok (tb_servers d) \<and> tb_nodes d = tb_nodes tb"
  have "?J tb' \<and> batch_from (view_exec fails) m vec 0 (s, state_view tb) = (r, s', state_view tb')"
  proof (rule batch_from_sim[where J = ?J and A = state_view and exa = "tables_exec fails"])
    fix v s d r s' d'
    assume J: "?J d" and run: "doUpdateServerStateBatch (tables_exec fails) m v (s, d) = (r, s', d')"
    let ?m = "map_sort (mapServantStatus s) v"
    have ex: "case tables_exec fails (batch_command m ?m) d of
        None \<Rightarrow> view_exec fails (batch_command m ?m) (state_view d) = None
      | Some (tb', n) \<Rightarrow> om_ok (tb_servers tb') \<and> tb_nodes tb' = tb_nodes d \<and>
          (\<exists>n'. view_exec fails (batch_command m ?m) (state_view d) = Some (state_view tb', n') \<and> (0 < n) = (0 < n'))"
      by (rule exec_refines) (use J batch_commands in auto)
    show "?J d' \<and> doUpdateServerStateBatch (view_exec fails) m v (s, state_view d) = (r, s', state_view d')"
      using run ex J by (auto simp: doUpdateServerStateBatch_def Let_def split: option.splits if_splits)
  qed (use assms in \<open>simp_all add: updateServerStateBatch_def\<close>)
  then show "om_ok (tb_servers tb')" and "tb_nodes tb' = tb_nodes tb"
    and "updateServerStateBatch (view_exec fails) m vec (s, state_view tb) = (r, s', state_view tb')"
    by (simp_all add: updateServerStateBatch_def)
qed

text \<open>A batch leaves the rows alone that it does not name, whatever it answers.\<close>

lemma unreported_value: "of_key k ca vec = [] \<Longrightarrow> new_values (batch_command m (map_sort ca vec)) k = None"
  by (cases m) (simp_all add: case_command_value each_command_value)

lemma step_unreported:
  assumes "runs_updates ex" and "k \<notin> si_key ` set vec" and "doUpdateServerStateBatch ex m vec (s, t) = (r, s', t')"
  shows "t' k = t k"
proof (cases "ex (batch_command m (map_sort (mapServantStatus s) vec)) t")
  case None
  with assms(3) show ?thesis by (auto simp: doUpdateServerStateBatch_def Let_def split: if_splits)
next
  case (Some y)
  obtain t1 n where y: "y = (t1, n)" by (cases y)
  have "t1 k = t k"
    using runs_updatesD(2)[OF assms(1) Some[unfolded y], of k] unreported_value[OF of_key_unreported[OF assms(2)]] by simp
  with assms(3) Some y show ?thesis by (auto simp: doUpdateServerStateBatch_def Let_def split: if_splits)
qed

lemma batch_unreported:
  assumes "runs_updates ex" and "k \<notin> si_key ` set vec"
  shows "batch_from ex m vec i (s, t) = (r, s', t') \<Longrightarrow> t' k = t k"
proof (induction "length vec - i" arbitrary: i s t rule: less_induct)
  case less
  show ?case
  proof (cases "i < length vec")
    case False
    with less.prems show ?thesis by (simp add: batch_from.simps)
  next
    case True
    obtain ret s1 t1 where one: "doUpdateServerStateBatch ex m (chunk vec i) (s, t) = (ret, s1, t1)" by (metis prod.collapse)
    have "set (chunk vec i) \<subseteq> set vec" unfolding chunk_def using set_take_subset set_drop_subset by (rule subset_trans)
    then have "t1 k = t k" by (intro step_unreported[OF assms(1) _ one]) (use assms(2) in blast)
    moreover have "length vec - next_index vec i < length vec - i" using True by (auto simp: next_index_def)
    ultimately show ?thesis
      using less.hyps[of "next_index vec i" s1 t1] less.prems by (auto simp: batch_from_step[OF True one] split: if_splits)
  qed
qed

section \<open>Nodes that fall silent\<close>

text \<open>The node and all its servers are inactive, the servers without a process.\<close>

definition node_marked :: "string \<Rightarrow> reg_tables \<Rightarrow> bool" where
  "node_marked n tb \<longleftrightarrow> (\<forall>r. om_find (tb_nodes tb) n = Some r \<longrightarrow> nd_present r = ''inactive'') \<and>
     (\<forall>k v. keyNode k = n \<longrightarrow> state_view tb k = Some v \<longrightarrow> v = (tars_Inactive, 0))"

definition tables_ok :: "reg_tables \<Rightarrow> bool" where
  "tables_ok tb \<longleftrightarrow> om_ok (tb_nodes tb) \<and> om_ok (tb_servers tb)"

lemma tables_ok_set [simp]: "tables_ok (set_nodes P g tb) = tables_ok tb" "tables_ok (set_servers Q h tb) = tables_ok tb"
  by (simp_all add: tables_ok_def)

lemma check_after:
  assumes "\<not> fails 0" and "\<not> fails 1"
  shows "om_find (tb_nodes (snd (checkNodeTimeout fails t m tb))) n =
      map_option (\<lambda>r. if timed_out t m r then r\<lparr> nd_present := ''inactive'' \<rparr> else r) (om_find (tb_nodes tb) n)"
    and "om_find (tb_servers (snd (checkNodeTimeout fails t m tb))) k =
      map_option (\<lambda>r. if \<exists>q. om_find (tb_nodes tb) (keyNode k) = Some q \<and> timed_out t m q
                      then r\<lparr> sv_present := tars_Inactive, sv_pid := 0 \<rparr> else r) (om_find (tb_servers tb) k)"
  using assms by (simp_all add: checkNodeTimeout_def Let_def split: option.split)

lemma check_ok [simp]: "tables_ok (snd (checkNodeTimeout fails t m tb)) = tables_ok tb"
  by (simp add: checkNodeTimeout_def Let_def)

lemma check_beat: "map_option nd_beat (om_find (tb_nodes (snd (checkNodeTimeout fails t m tb))) n) = map_option nd_beat (om_find (tb_nodes tb) n)"
  by (cases "om_find (tb_nodes tb) n") (simp_all add: checkNodeTimeout_def Let_def)

lemma check_marks:
  assumes "\<not> fails 0" and "\<not> fails 1" and "om_find (tb_nodes tb) n = Some r" and "timed_out t m r"
  shows "node_marked n (snd (checkNodeTimeout fails t m tb))"
  using assms(3,4) by (auto simp: node_marked_def state_view_def check_after[OF assms(1,2)])

lemma check_keeps_mark: "node_marked n tb \<Longrightarrow> node_marked n (snd (checkNodeTimeout fails t m tb))"
proof (cases "fails 0 \<or> fails 1")
  case False
  then have f: "\<not> fails 0" "\<not> fails 1" by simp_all
  show "node_marked n tb \<Longrightarrow> ?thesis"
    by (fastforce simp: node_marked_def state_view_def check_after[OF f])
qed (simp add: checkNodeTimeout_def)

text \<open>What the other operations do to a node that they do not name.\<close>

definition same_node :: "string \<Rightarrow> reg_tables \<Rightarrow> reg_tables \<Rightarrow> bool" where
  "same_node n tb tb' \<longleftrightarrow> om_find (tb_nodes tb') n = om_find (tb_nodes tb) n \<and>
     (\<forall>k. keyNode k = n \<longrightarrow> state_view tb' k = state_view tb k) \<and> (tables_ok tb \<longrightarrow> tables_ok tb')"

lemma same_node_refl [simp]: "same_node n tb tb"
  by (simp add: same_node_def)

lemma same_node_mark: "same_node n tb tb' \<Longrightarrow> node_marked n tb \<Longrightarrow> node_marked n tb'"
  unfolding same_node_def node_marked_def by metis

lemma register_other:
  "name \<noteq> n \<Longrightarrow> same_node n tb (fst (snd (db_registerNode valid fails t name ni li (tb, m))))"
  by (simp add: db_registerNode_def Let_def same_node_def state_view_def tables_ok_def split: option.split)

lemma set_state_columns: "(\<And>r. sv_present (h r) = sv_present r \<and> sv_pid (h r) = sv_pid r) \<Longrightarrow> same_node n tb (set_servers Q h tb)"
  by (auto simp: same_node_def state_view_def option.map_comp comp_def intro!: option.map_cong0)

lemma work_other:
  assumes "\<And>li. info \<noteq> EM_NODE_KEEPALIVE n li"
  shows "same_node n tb (snd (proc_work fails t info tb))"
proof (cases info)
  case (EM_NODE_KEEPALIVE name li)
  with assms have "n \<noteq> name" by auto
  then have "same_node n tb (set_nodes (\<lambda>m r. m = name) g tb)" for g
    by (simp add: same_node_def option.map_ident)
  with EM_NODE_KEEPALIVE show ?thesis by (simp add: db_keepAlive_def Let_def)
qed (simp_all add: setPatchInfo_def setServerTarsVersion_def set_state_columns)

lemma update_other:
  assumes "node \<noteq> n"
  shows "same_node n tb (snd (snd (updateServerState (tables_exec fails) app server node ''present_state'' st pid (s, tb))))"
proof (cases "fails 0")
  case True
  then show ?thesis by (simp add: updateServerState_def tables_exec_def)
next
  case False
  have "map_of (map (\<lambda>(k, r). (k, set_state (if k = Key app server node then Some (st, pid) else None) r)) m) k = map_of m k"
    if "keyNode k = n" for k m
    using that assms by (auto simp: find_map_values set_state_def option.map_ident)
  then show ?thesis
    using False by (simp add: updateServerState_def tables_exec_def Let_def same_node_def state_view_def tables_ok_def)
qed

lemma batch_other:
  assumes "tables_ok tb" and "\<And>i. i \<in> set vec \<Longrightarrow> si_node i \<noteq> n"
  shows "same_node n tb (snd (snd (updateServerStateBatch (tables_exec fails) multi vec (s, tb))))"
proof -
  obtain r s' tb' where run: "updateServerStateBatch (tables_exec fails) multi vec (s, tb) = (r, s', tb')" by (metis prod.collapse)
  note b = batch_refines[OF _ run]
  have "state_view tb' k = state_view tb k" if "keyNode k = n" for k
    by (rule batch_unreported[OF view_runs _ b(3)[unfolded updateServerStateBatch_def]])
      (use assms that in \<open>fastforce simp: tables_ok_def si_key_def\<close>)+
  with b assms(1) run show ?thesis by (simp add: same_node_def tables_ok_def)
qed

lemma destroy_marks: "node_marked n tb \<Longrightarrow> node_marked n (fst (snd (db_destroyNode fails name (tb, m))))"
  by (fastforce simp: db_destroyNode_def node_marked_def state_view_def)

lemma destroy_beat:
  "map_option nd_beat (om_find (tb_nodes (fst (snd (db_destroyNode fails name (tb, m))))) n) = map_option nd_beat (om_find (tb_nodes tb) n)"
  "tables_ok (fst (snd (db_destroyNode fails name (tb, m)))) = tables_ok tb"
  by (auto simp: db_destroyNode_def option.map_comp comp_def intro!: option.map_cong0)

fun silent_event :: "string \<Rightarrow> 'c reg_event \<Rightarrow> bool" where
  "silent_event n (EvRegister name ni li) \<longleftrightarrow> name \<noteq> n"
| "silent_event n (EvKeepAlive name li) \<longleftrightarrow> name \<noteq> n"
| "silent_event n (EvUpdateServer node app server st pid) \<longleftrightarrow> node \<noteq> n"
| "silent_event n (EvUpdateBatch multi vec) \<longleftrightarrow> (\<forall>i \<in> set vec. si_node i \<noteq> n)"
| "silent_event n e \<longleftrightarrow> True"

definition no_beat :: "string \<Rightarrow> proc_thread \<Rightarrow> bool" where
  "no_beat n p \<longleftrightarrow> (\<forall>li. EM_NODE_KEEPALIVE n li \<notin> set (pt_queue p))"

definition silent_inv :: "check_conf \<Rightarrow> string \<Rightarrow> int \<Rightarrow> 'c reg_world \<Rightarrow> bool" where
  "silent_inv c n b w \<longleftrightarrow> tables_ok (rw_tb w) \<and> map_option nd_beat (om_find (tb_nodes (rw_tb w)) n) = Some b \<and>
     no_beat n (rw_proc w) \<and> (rw_lastCheck w > b + cc_nodeTimeout c \<longrightarrow> node_marked n (rw_tb w))"

lemma silent_inv_same:
  assumes "silent_inv c n b w" and "same_node n (rw_tb w) (rw_tb w')"
    and "rw_lastCheck w' = rw_lastCheck w" and "no_beat n (rw_proc w')"
  shows "silent_inv c n b w'"
  using assms(1,3,4) assms(2)[unfolded same_node_def] same_node_mark[OF assms(2)] by (auto simp: silent_inv_def)

lemma no_beat_put: "no_beat n p \<Longrightarrow> (\<And>li. info \<noteq> EM_NODE_KEEPALIVE n li) \<Longrightarrow> no_beat n (proc_put info p)"
  by (auto simp: no_beat_def proc_put_def)

lemma run_other:
  assumes "no_beat n p"
  shows "no_beat n (fst (proc_run fails t (p, tb))) \<and> same_node n tb (snd (proc_run fails t (p, tb)))"
proof (cases "pt_queue p")
  case (Cons info q)
  then have "\<And>li. info \<noteq> EM_NODE_KEEPALIVE n li" using assms by (auto simp: no_beat_def)
  with Cons assms show ?thesis
    by (simp_all add: proc_run_def proc_pop_def no_beat_def work_other)
qed (use assms in \<open>simp_all add: proc_run_def proc_pop_def no_beat_def\<close>)

lemma check_tick_silent:
  assumes "silent_inv c n b w" and "\<not> fails 0" and "\<not> fails 1"
  shows "silent_inv c n b (snd (reg_step c valid fails t EvCheck w))"
proof (cases "t - rw_lastCheck w \<ge> cc_interval c")
  case True
  obtain r where r: "om_find (tb_nodes (rw_tb w)) n = Some r" "nd_beat r = b" using assms(1) by (auto simp: silent_inv_def)
  have "node_marked n (snd (checkNodeTimeout fails t (cc_nodeTimeout c) (rw_tb w)))" if "t > b + cc_nodeTimeout c"
    by (rule check_marks[OF assms(2,3) r(1)]) (use r(2) that in \<open>simp add: timed_out_def\<close>)
  with True assms(1) show ?thesis by (auto simp: check_tick_def silent_inv_def check_beat)
qed (use assms(1) in \<open>simp add: check_tick_def\<close>)

lemma silent_step:
  assumes inv: "silent_inv c n b w" and "silent_event n e" and "e = EvCheck \<Longrightarrow> \<not> fails 0 \<and> \<not> fails 1"
  shows "silent_inv c n b (snd (reg_step c valid fails t e w))"
proof -
  have tk: "tables_ok (rw_tb w)" and nb: "no_beat n (rw_proc w)" using inv by (simp_all add: silent_inv_def)
  show ?thesis
  proof (cases e)
    case (EvRegister name ni li)
    then show ?thesis
      using assms(2) register_other[of name n "rw_tb w" valid fails t ni li "rw_nm w"] nb
      by (auto simp: ri_registerNode_def Let_def intro!: silent_inv_same[OF inv] split: prod.splits)
  next
    case (EvKeepAlive name li)
    with assms(2) inv show ?thesis by (auto simp: ri_keepAlive_def silent_inv_def intro!: no_beat_put)
  next
    case (EvUpdateServer node app server st pid)
    then show ?thesis
      using assms(2) update_other[of node n "rw_tb w" fails app server st pid "rw_db w"] tk nb
      by (auto simp: ri_updateServer_def Let_def intro!: silent_inv_same[OF inv] split: prod.splits)
  next
    case (EvUpdateBatch multi vec)
    then show ?thesis
      using assms(2) batch_other[of "rw_tb w" vec n fails multi "rw_db w"] tk nb
      by (auto simp: ri_updateServerBatch_def Let_def intro!: silent_inv_same[OF inv] split: prod.splits)
  next
    case (EvDestroy name)
    with inv show ?thesis
      using destroy_marks[of n "rw_tb w" fails name "rw_nm w"] destroy_beat(1)[of fails name "rw_tb w" "rw_nm w" n] destroy_beat(2)[of fails name "rw_tb w" "rw_nm w"]
      by (cases "db_destroyNode fails name (rw_tb w, rw_nm w)") (simp add: ri_destroyNode_def silent_inv_def)
  next
    case (EvReportVersion app server node v)
    with inv show ?thesis by (auto simp: ri_reportVersion_def silent_inv_def intro!: no_beat_put)
  next
    case (EvPatchResult app server node v u)
    with nb show ?thesis
      by (auto simp: ri_updatePatchResult_def setPatchInfo_def set_state_columns intro!: silent_inv_same[OF inv])
  next
    case EvWork
    then show ?thesis
      using run_other[OF nb, of fails t "rw_tb w"]
      by (auto simp: case_prod_beta intro!: silent_inv_same[OF inv])
  next
    case EvCheck
    with assms check_tick_silent show ?thesis by blast
  qed (use inv in \<open>simp_all add: ri_reportNode_def ri_doClose_def silent_inv_def\<close>)
qed

lemma silent_run:
  assumes "\<And>fails t e. (fails, t, e) \<in> set es \<Longrightarrow> silent_event n e \<and> (e = EvCheck \<longrightarrow> \<not> fails 0 \<and> \<not> fails 1)"
  shows "silent_inv c n b w \<Longrightarrow> silent_inv c n b (reg_run c valid es w)"
  using assms
proof (induction es arbitrary: w)
  case (Cons x es)
  obtain fails t e where x: "x = (fails, t, e)" by (cases x)
  have "silent_inv c n b (snd (reg_step c valid fails t e w))"
    using silent_step[of c n b w e fails valid t] Cons.prems(1) Cons.prems(2)[of fails t e] x by auto
  from Cons.IH[OF this] show ?case unfolding x reg_run.simps using Cons.prems(2) by (meson list.set_intros(2))
qed simp

lemma reg_run_append: "reg_run c valid (es @ fs) w = reg_run c valid fs (reg_run c valid es w)"
  by (induction es arbitrary: w) auto

text \<open>
  Property C33 (silent_node_is_marked). When a node falls silent, whatever the other nodes, the administration and the
  workers do meanwhile, the first check that comes at least the time out and one interval after its last
  beat finds or leaves the node and all its servers inactive and without processes.
\<close>

theorem silent_node_is_marked:
  assumes "om_find (tb_nodes (rw_tb w)) n = Some r" and "tables_ok (rw_tb w)" and "no_beat n (rw_proc w)"
    and "rw_lastCheck w \<le> nd_beat r + cc_nodeTimeout c" and "0 < cc_interval c"
    and "\<And>fails t e. (fails, t, e) \<in> set es \<Longrightarrow> silent_event n e \<and> (e = EvCheck \<longrightarrow> \<not> fails 0 \<and> \<not> fails 1)"
    and "t \<ge> nd_beat r + cc_nodeTimeout c + cc_interval c" and "\<not> fails 0" and "\<not> fails 1"
  shows "node_marked n (rw_tb (reg_run c valid (es @ [(fails, t, EvCheck)]) w))"
proof -
  let ?w = "reg_run c valid es w"
  have "silent_inv c n (nd_beat r) w" using assms(1-4) by (simp add: silent_inv_def)
  from silent_run[OF assms(6) this] have inv: "silent_inv c n (nd_beat r) ?w" .
  from check_tick_silent[OF this assms(8,9)]
  have after: "silent_inv c n (nd_beat r) (snd (reg_step c valid fails t EvCheck ?w))" .
  show ?thesis
  proof (cases "t - rw_lastCheck ?w \<ge> cc_interval c")
    case True
    then have "rw_lastCheck (snd (reg_step c valid fails t EvCheck ?w)) = t" by (simp add: check_tick_def)
    with after assms(5,7) show ?thesis by (auto simp: reg_run_append silent_inv_def)
  next
    case False
    with inv assms(7) have "node_marked n (rw_tb ?w)" by (simp add: silent_inv_def)
    with False show ?thesis by (simp add: reg_run_append check_tick_def)
  qed
qed

text \<open>
  Fact (heard_node_is_spared). A check changes nothing of a node whose last beat is not older than the time out, nor of
  its servers.
\<close>

lemma heard_node_is_spared:
  assumes "om_find (tb_nodes tb) n = Some r" and "nd_beat r \<ge> t - m"
  shows "om_find (tb_nodes (snd (checkNodeTimeout fails t m tb))) n = Some r \<and>
    (keyNode k = n \<longrightarrow> om_find (tb_servers (snd (checkNodeTimeout fails t m tb))) k = om_find (tb_servers tb) k)"
proof (cases "fails 0 \<or> fails 1")
  case False
  then have f: "\<not> fails 0" "\<not> fails 1" by simp_all
  show ?thesis using assms unfolding check_after[OF f] by (auto simp: timed_out_def option.map_ident)
qed (use assms in \<open>simp add: checkNodeTimeout_def\<close>)

section \<open>Registration\<close>

text \<open>
  Fact (registration). What a registration answers and writes: a name that another object holds is refused while that node
  is active; otherwise the row is new, with the template of the old one.
\<close>

lemma registration:
  assumes "db_registerNode valid (\<lambda>_. False) t name ni li (tb, m) = (ret, tb', m')"
  shows "(\<exists>r. om_find (tb_nodes tb) name = Some r \<and> nd_present r = ''active'' \<and> ni_nodeObj ni \<noteq> '''' \<and> nd_obj r \<noteq> ni_nodeObj ni) \<and>
       ret = 1 \<and> tb' = tb \<and> m' = m \<or>
     (ret = 0 \<and> valid (ni_nodeObj ni) \<and> nm_getNodePrx name m' = Some (ni_nodeObj ni) \<or> ret = 3 \<and> \<not> valid (ni_nodeObj ni) \<and> m' = m) \<and>
       om_find (tb_nodes tb') name = Some (registered_row t (case om_find (tb_nodes tb) name of None \<Rightarrow> '''' | Some r \<Rightarrow> nd_template r) ni li)"
  using assms by (auto simp: db_registerNode_def Let_def createNodePrx_def nm_getNodePrx_def split: option.splits if_splits)

text \<open>
  Fact (registration_resets_columns). The replacement of the row loses the group and the label of the node.
\<close>

lemma registration_resets_columns:
  assumes "db_registerNode valid (\<lambda>_. False) t name ni li (tb, m) = (0, tb', m')"
  shows "map_option (\<lambda>r. (nd_group r, nd_label r)) (om_find (tb_nodes tb') name) = Some (- 1, '''')"
  using registration[OF assms] by (auto simp: registered_row_def)

text \<open>
  Fact (empty_object_takes_over). A registration without an object text is not compared with the holder of the name and
  replaces it.
\<close>

lemma empty_object_takes_over:
  assumes "ni_nodeObj ni = ''''" and "db_registerNode valid (\<lambda>_. False) t name ni li (tb, m) = (ret, tb', m')"
  shows "map_option nd_obj (om_find (tb_nodes tb') name) = Some ''''"
  using registration[OF assms(2)] assms(1) by (auto simp: registered_row_def)

text \<open>
  Fact (proxy_survives_time_out). The proxy of a node that was marked inactive is still given out, as long as it is in the
  map of the process; the text of the exception says otherwise.
\<close>

lemma proxy_survives_time_out:
  assumes "nm_getNodePrx n m = Some p"
  shows "db_getNodePrx valid fails n (snd (checkNodeTimeout fails' t u tb), m) = Some (p, m)"
  using assms by (simp add: db_getNodePrx_def)

section \<open>A lost registration\<close>

text \<open>
  A node and its registry: the round of \<open>Node_Alive\<close> registers when it must and beats when it is due; the answer of the beat
  is the one of \<open>RegistryImp::keepAlive\<close>, or nothing when the call fails (\<open>lost\<close>).
\<close>

definition no_load :: reg_answer where
  "no_load = \<lparr>ra_time = 0, ra_list = None, ra_pinged = False\<rparr>"

definition node_beats :: "alive_conf \<Rightarrow> int \<Rightarrow> keep_alive \<Rightarrow> bool" where
  "node_beats c t k \<longleftrightarrow> t - ka_tReport k > ac_reportAliveInterval c"

definition joint_round ::
  "check_conf \<Rightarrow> (string \<Rightarrow> bool) \<Rightarrow> alive_conf \<Rightarrow> faults \<times> int \<times> node_info \<times> load_info \<times> bool \<Rightarrow> keep_alive \<times> 'c reg_world \<Rightarrow>
     keep_alive \<times> 'c reg_world" where
  "joint_round cc valid c a x =
     (let (fails, t, ni, li, lost) = a; (k, w) = x;
          (ans, w) = (if ka_bRegistered k \<or> ac_nodeName c = '''' then (None, w)
                      else let (ret, w) = ri_registerNode valid fails t (ac_nodeName c) ni li w in (Some ret, w));
          k = round_register c t \<lparr>rd_key = None, rd_register = ans, rd_load = no_load, rd_alive = None\<rparr> k;
          (ans, w) = (if node_beats c t k \<and> \<not> lost
                      then let (ret, w) = ri_keepAlive (ac_nodeName c) li w in (Some ret, w) else (None, w))
      in (round_report c t \<lparr>rd_key = None, rd_register = None, rd_load = no_load, rd_alive = ans\<rparr> k, w))"

datatype 'c joint_event =
    NodeRound "faults \<times> int \<times> node_info \<times> load_info \<times> bool"
  | RegEvent "faults \<times> int \<times> 'c reg_event"

fun joint_run ::
  "check_conf \<Rightarrow> (string \<Rightarrow> bool) \<Rightarrow> alive_conf \<Rightarrow> 'c joint_event list \<Rightarrow> keep_alive \<times> 'c reg_world \<Rightarrow> keep_alive \<times> 'c reg_world" where
  "joint_run cc valid c [] x = x"
| "joint_run cc valid c (NodeRound a # es) x = joint_run cc valid c es (joint_round cc valid c a x)"
| "joint_run cc valid c (RegEvent (fails, t, e) # es) (k, w) =
     joint_run cc valid c es (k, snd (reg_step cc valid fails t e w))"

definition unknown_node :: "string \<Rightarrow> 'c reg_world \<Rightarrow> bool" where
  "unknown_node n w \<longleftrightarrow> om_find (tb_nodes (rw_tb w)) n = None"

lemma work_unknown:
  assumes "om_find (tb_nodes tb) n = None"
  shows "om_find (tb_nodes (snd (proc_work fails t info tb))) n = None"
  using assms by (cases info) (simp_all add: db_keepAlive_def setPatchInfo_def setServerTarsVersion_def Let_def)

lemma exec_nodes: "tables_exec fails cmd tb = Some (tb', m) \<Longrightarrow> tb_nodes tb' = tb_nodes tb"
  by (auto simp: tables_exec_def Let_def split: if_splits)

lemma update_nodes: "tb_nodes (snd (snd (updateServerState (tables_exec fails) a b d e st pid (s, tb)))) = tb_nodes tb"
  by (auto simp: updateServerState_def Let_def exec_nodes split: option.split)

lemma batch_nodes: "tb_nodes (snd (snd (updateServerStateBatch (tables_exec fails) multi vec (s, tb)))) = tb_nodes tb"
proof -
  obtain r s' tb' where run: "batch_from (tables_exec fails) multi vec 0 (s, tb) = (r, s', tb')" by (metis prod.collapse)
  have "tb_nodes tb' = tb_nodes tb \<and> batch_from (tables_exec fails) multi vec 0 (s, id tb) = (r, s', id tb')"
    by (rule batch_from_sim[where J = "\<lambda>d. tb_nodes d = tb_nodes tb", OF _ refl run])
      (auto simp: doUpdateServerStateBatch_def Let_def exec_nodes split: option.splits if_splits)
  with run show ?thesis by (simp add: updateServerStateBatch_def)
qed

lemma step_unknown:
  assumes "unknown_node n w" and "\<And>ni li. e \<noteq> EvRegister n ni li"
  shows "unknown_node n (snd (reg_step cc valid fails t e w))"
proof (cases e)
  case (EvRegister name ni li)
  then show ?thesis
    using assms by (auto simp: unknown_node_def ri_registerNode_def db_registerNode_def Let_def split: prod.splits option.splits if_splits)
next
  case (EvUpdateServer node app server st pid)
  with assms(1) update_nodes[of fails app server node "''present_state''" st pid "rw_db w" "rw_tb w"] show ?thesis
    by (auto simp: unknown_node_def ri_updateServer_def split: prod.splits)
next
  case (EvUpdateBatch multi vec)
  with assms(1) batch_nodes[of fails multi vec "rw_db w" "rw_tb w"] show ?thesis
    by (auto simp: unknown_node_def ri_updateServerBatch_def split: prod.splits)
next
  case EvWork
  with assms(1) show ?thesis
    by (simp add: unknown_node_def proc_run_def work_unknown split: prod.splits option.splits)
qed (use assms(1) in \<open>simp_all add: unknown_node_def ri_keepAlive_def ri_destroyNode_def db_destroyNode_def ri_reportVersion_def
      ri_updatePatchResult_def setPatchInfo_def ri_reportNode_def ri_doClose_def check_tick_def checkNodeTimeout_def Let_def\<close>)

lemma joint_round_unknown:
  assumes "ka_bRegistered k" and "unknown_node (ac_nodeName c) w" and "joint_round cc valid c a (k, w) = (k', w')"
  shows "ka_bRegistered k' \<and> unknown_node (ac_nodeName c) w'"
  using assms
  by (auto simp: joint_round_def round_register_def round_report_def reportAlive_def loadFrameworkKey_def ri_keepAlive_def unknown_node_def Let_def
      split: prod.splits if_splits)

text \<open>
  Property C34 (lost_registration_is_unnoticed). When the row of a registered node is gone from the database, the node goes on
  beating, every beat is answered 0, and for ever after, whatever else the registry is asked, the node does not
  register again and has no row, unless something else registers its name.
\<close>

theorem lost_registration_is_unnoticed:
  assumes "ka_bRegistered k" and "unknown_node (ac_nodeName c) w"
    and "\<And>fails t ni li. RegEvent (fails, t, EvRegister (ac_nodeName c) ni li) \<notin> set es"
    and "joint_run cc valid c es (k, w) = (k', w')"
  shows "ka_bRegistered k' \<and> unknown_node (ac_nodeName c) w' \<and> fst (ri_keepAlive (ac_nodeName c) li w') = 0"
  using assms
proof (induction es arbitrary: k w)
  case (Cons e es)
  show ?case
  proof (cases e)
    case (NodeRound a)
    obtain k1 w1 where one: "joint_round cc valid c a (k, w) = (k1, w1)" by (cases "joint_round cc valid c a (k, w)")
    note st = joint_round_unknown[OF Cons.prems(1,2) one]
    show ?thesis
      by (rule Cons.IH[OF conjunct1[OF st] conjunct2[OF st]]) (use Cons.prems(3,4) NodeRound one in auto)
  next
    case (RegEvent r)
    obtain fails t ev where r: "r = (fails, t, ev)" by (cases r)
    have "\<And>ni li. ev \<noteq> EvRegister (ac_nodeName c) ni li"
      using Cons.prems(3)[of fails t] RegEvent r by auto
    note st = step_unknown[OF Cons.prems(2) this, of cc valid fails t]
    show ?thesis by (rule Cons.IH[OF Cons.prems(1) st]) (use Cons.prems(3,4) RegEvent r in auto)
  qed
qed (simp add: ri_keepAlive_def)

section \<open>The cache after a time out\<close>

text \<open>Fact (batch_fills_tables). Over the tables themselves a batch leaves the states that it names.\<close>

lemma batch_fills_tables:
  assumes "tables_ok tb" and "distinct (map si_key vec)" and "status_agrees (s, state_view tb)"
    and "updateServerStateBatch (tables_exec fails) multi vec (s, tb) = (0, s', tb')"
    and "i \<in> set vec" and "om_find (tb_servers tb') (si_key i) = Some row"
  shows "sv_present row = si_state i"
proof -
  have "updateServerStateBatch (view_exec fails) multi vec (s, state_view tb) = (0, s', state_view tb')"
    using batch_refines(3)[OF _ assms(4)] assms(1) by (simp add: tables_ok_def)
  from batch_from_applies[OF view_runs assms(2) assms(3) this[unfolded updateServerStateBatch_def]] assms(5,6)
  show ?thesis by (auto simp: written_def state_view_def)
qed

definition known_batch :: "db_handle \<Rightarrow> server_state_info list \<Rightarrow> bool" where
  "known_batch s vec \<longleftrightarrow> (\<forall>i \<in> set vec. om_find (mapServantStatus s) (si_key i) = Some (si_state i))"

lemma known_batch_skipped:
  assumes "known_batch s vec"
  shows "updateServerStateBatch ex multi vec (s, d) = (0, s, d)"
proof -
  have step: "doUpdateServerStateBatch ex multi v (s, d) = (0, s, d)" if "set v \<subseteq> set vec" for v
  proof -
    have "fresh_infos (mapServantStatus s) v = []"
      using assms that by (auto simp: known_batch_def fresh_infos_def filter_empty_conv)
    then show ?thesis by (simp add: doUpdateServerStateBatch_def map_sort_filter Let_def)
  qed
  have "batch_from ex multi vec i (s, d) = (0, s, d)" for i
  proof (induction "length vec - i" arbitrary: i rule: less_induct)
    case less
    have sub: "set (chunk vec i) \<subseteq> set vec"
      unfolding chunk_def using set_take_subset set_drop_subset by (rule subset_trans)
    show ?case
    proof (cases "i < length vec")
      case True
      then show ?thesis
        using less by (simp add: batch_from_step[OF True step[OF sub]]) (auto simp: next_index_def)
    qed (simp add: batch_from.simps)
  qed
  then show ?thesis by (simp add: updateServerStateBatch_def)
qed

text \<open>The beats and batches of a node that is back, in any number and order.\<close>

fun recovery_event :: "db_handle \<Rightarrow> string \<Rightarrow> 'c reg_event \<Rightarrow> bool" where
  "recovery_event s n (EvKeepAlive name li) \<longleftrightarrow> name = n"
| "recovery_event s n (EvUpdateBatch multi vec) \<longleftrightarrow> known_batch s vec"
| "recovery_event s n EvWork \<longleftrightarrow> True"
| "recovery_event s n e \<longleftrightarrow> False"

definition only_beats :: "proc_thread \<Rightarrow> bool" where
  "only_beats p \<longleftrightarrow> (\<forall>i \<in> set (pt_queue p). \<exists>n li. i = EM_NODE_KEEPALIVE n li)"

lemma recovery_step:
  assumes "recovery_event s n e" and "rw_db w = s" and "only_beats (rw_proc w)"
  shows "rw_db (snd (reg_step c valid fails t e w)) = s \<and> only_beats (rw_proc (snd (reg_step c valid fails t e w))) \<and>
    tb_servers (rw_tb (snd (reg_step c valid fails t e w))) = tb_servers (rw_tb w)"
proof (cases e)
  case (EvKeepAlive name li)
  with assms show ?thesis by (auto simp: ri_keepAlive_def proc_put_def only_beats_def)
next
  case (EvUpdateBatch multi vec)
  with assms known_batch_skipped[of s vec "tables_exec fails" multi "rw_tb w"] show ?thesis
    by (simp add: ri_updateServerBatch_def)
next
  case EvWork
  show ?thesis
  proof (cases "pt_queue (rw_proc w)")
    case (Cons i q)
    then obtain m li where "i = EM_NODE_KEEPALIVE m li" using assms(3) by (auto simp: only_beats_def)
    with EvWork Cons assms show ?thesis
      by (auto simp: proc_run_def proc_pop_def only_beats_def db_keepAlive_def Let_def)
  qed (use EvWork assms in \<open>simp add: proc_run_def proc_pop_def\<close>)
qed (use assms in simp_all)

lemma recovery_run:
  assumes "\<And>fails t e. (fails, t, e) \<in> set es \<Longrightarrow> recovery_event s n e"
  shows "rw_db w = s \<Longrightarrow> only_beats (rw_proc w) \<Longrightarrow>
    rw_db (reg_run c valid es w) = s \<and> tb_servers (rw_tb (reg_run c valid es w)) = tb_servers (rw_tb w)"
  using assms
proof (induction es arbitrary: w)
  case (Cons x es)
  obtain fails t e where x: "x = (fails, t, e)" by (cases x)
  have "recovery_event s n e" using Cons.prems(3)[of fails t e] x by auto
  note st = recovery_step[OF this Cons.prems(1,2), of c valid fails t]
  have "rw_db (reg_run c valid es (snd (reg_step c valid fails t e w))) = s \<and>
      tb_servers (rw_tb (reg_run c valid es (snd (reg_step c valid fails t e w)))) = tb_servers (rw_tb (snd (reg_step c valid fails t e w)))"
    by (rule Cons.IH) (use st Cons.prems(3) in \<open>auto intro: Cons.prems(3)\<close>)
  with st x show ?case by simp
qed simp

text \<open>
  Property C35 (stale_cache_hides_recovery). The check marks the servers of a silent node in the table but not in the status
  cache: when the node is back and goes on reporting the states that the cache still holds, every batch is
  answered 0 and none is written, however many beats and batches follow, until the cache is loaded anew.
\<close>

theorem stale_cache_hides_recovery:
  assumes "om_find (tb_nodes (rw_tb w)) n = Some r" and "timed_out t (cc_nodeTimeout c) r" and "t - rw_lastCheck w \<ge> cc_interval c"
    and "\<not> fails 0" and "\<not> fails 1" and "only_beats (rw_proc w)"
    and "\<And>fails t e. (fails, t, e) \<in> set es \<Longrightarrow> recovery_event (rw_db w) n e"
    and "known_batch (rw_db w) vec" and "i \<in> set vec" and "si_node i = n" and "om_find (tb_servers (rw_tb w)) (si_key i) = Some row"
    and "reg_run c valid ((fails, t, EvCheck) # es) w = w'"
  shows "fst (ri_updateServerBatch fails' multi vec w') = 0 \<and>
    state_view (rw_tb (snd (ri_updateServerBatch fails' multi vec w'))) (si_key i) = Some (tars_Inactive, 0)"
proof -
  let ?w = "snd (reg_step c valid fails t EvCheck w)"
  have step: "rw_tb ?w = snd (checkNodeTimeout fails t (cc_nodeTimeout c) (rw_tb w))" "rw_db ?w = rw_db w" "rw_proc ?w = rw_proc w"
    using assms(3) by (simp_all add: check_tick_def)
  have "keyNode (si_key i) = n" using assms(10) by (simp add: si_key_def)
  then have marked: "state_view (rw_tb ?w) (si_key i) = Some (tars_Inactive, 0)"
    using assms(1,2,11) unfolding step state_view_def check_after[OF assms(4,5)] by auto
  have run: "rw_db w' = rw_db w \<and> tb_servers (rw_tb w') = tb_servers (rw_tb ?w)"
    unfolding assms(12)[symmetric] reg_run.simps by (rule recovery_run[OF assms(7)]) (use step assms(6) in auto)
  have "updateServerStateBatch (tables_exec fails') multi vec (rw_db w', rw_tb w') = (0, rw_db w', rw_tb w')"
    by (rule known_batch_skipped) (use run assms(8) in simp)
  with run marked show ?thesis by (simp add: ri_updateServerBatch_def state_view_def)
qed

section \<open>Loads in time\<close>

fun reap_run :: "reap_conf \<Rightarrow> int list \<Rightarrow> reap_state \<Rightarrow> (int \<times> reap_call) list" where
  "reap_run c [] s = []"
| "reap_run c (t # ts) s = (let (calls, s') = reap_tick c t s in map (Pair t) calls @ reap_run c ts s')"

text \<open>Turns that follow each other within \<open>d\<close>.\<close>

fun regular :: "int \<Rightarrow> int \<Rightarrow> int list \<Rightarrow> bool" where
  "regular d t0 [] \<longleftrightarrow> True"
| "regular d t0 (t # ts) \<longleftrightarrow> t0 \<le> t \<and> t \<le> t0 + d \<and> regular d t ts"

text \<open>A load at \<open>t\<close> reads the rows with a change at \<open>x\<close>: a full load all, another one those of its window.\<close>

fun reads_change :: "int \<times> reap_call \<Rightarrow> int \<Rightarrow> bool" where
  "reads_change (t, LoadObjects protect rate window full initial) x \<longleftrightarrow> x \<le> t \<and> (full \<or> x \<ge> t - window)"
| "reads_change (t, call) x \<longleftrightarrow> False"

lemma reap_tick_step1: "rs_step1 (snd (reap_tick c t s)) = (if t - rs_step1 s \<ge> rc_load1 c then t else rs_step1 s)"
  by (simp add: reap_tick_def Let_def)

lemma reap_tick_loads:
  assumes "t - rs_step1 s \<ge> rc_load1 c"
  shows "\<exists>w full. LoadObjects (rc_protect c) (rc_protectRate c) w full False \<in> set (fst (reap_tick c t s)) \<and> (full \<or> w = rc_changed1 c)"
  using assms by (cases "t - rs_step2 s \<ge> rc_load2 c") (auto simp: reap_tick_def Let_def)

lemma load_in_time:
  assumes "rc_load1 c + d \<le> rc_changed1 c" and "0 < rc_load1 c"
  shows "regular d t0 ts \<Longrightarrow> t0 - rs_step1 s < rc_load1 c \<Longrightarrow> rs_step1 s \<le> x \<Longrightarrow> last (t0 # ts) \<ge> x + rc_load1 c \<Longrightarrow>
    \<exists>e \<in> set (reap_run c ts s). reads_change e x \<and> fst e < x + rc_load1 c + d"
proof (induction ts arbitrary: t0 s)
  case (Cons t ts)
  let ?s = "snd (reap_tick c t s)"
  have run: "set (reap_run c (t # ts) s) = Pair t ` set (fst (reap_tick c t s)) \<union> set (reap_run c ts ?s)"
    by (simp add: Let_def case_prod_beta)
  have gap: "t \<le> t0 + d" "regular d t ts" using Cons.prems(1) by simp_all
  show ?case
  proof (cases "t - rs_step1 s \<ge> rc_load1 c \<and> x \<le> t")
    case True
    then obtain w full where l: "LoadObjects (rc_protect c) (rc_protectRate c) w full False \<in> set (fst (reap_tick c t s))"
      and w: "full \<or> w = rc_changed1 c" using reap_tick_loads by blast
    have "t < x + rc_load1 c + d" using Cons.prems(2,3) gap(1) by linarith
    then have "reads_change (t, LoadObjects (rc_protect c) (rc_protectRate c) w full False) x" using True w assms by auto
    with l \<open>t < x + rc_load1 c + d\<close> show ?thesis unfolding run by (intro bexI[of _ "(t, LoadObjects (rc_protect c) (rc_protectRate c) w full False)"]) auto
  next
    case False
    have "\<exists>e \<in> set (reap_run c ts ?s). reads_change e x \<and> fst e < x + rc_load1 c + d"
    proof (rule Cons.IH[OF gap(2)])
      show "t - rs_step1 ?s < rc_load1 c"
        unfolding reap_tick_step1 using False Cons.prems assms(2) by (cases "ts = []") auto
      show "rs_step1 ?s \<le> x" unfolding reap_tick_step1 using False Cons.prems(3) by auto
      show "last (t # ts) \<ge> x + rc_load1 c" using Cons.prems(4) by simp
    qed
    then show ?thesis unfolding run by blast
  qed
qed simp

text \<open>
  Property C36 (changes_are_loaded). With an interval and a window from the configuration in which the window is at least the
  interval and the time between two turns, every change of a row after the start is read by a load that begins less
  than one interval and one turn later.
\<close>

theorem changes_are_loaded:
  assumes "c = reap_init tc conf" and "rc_load1 c + d \<le> rc_changed1 c"
    and "regular d t0 ts" and "t0 \<le> x" and "last (t0 # ts) \<ge> x + rc_load1 c"
  shows "\<exists>e \<in> set (reap_run c ts (snd (reap_start c t0))). reads_change e x \<and> fst e < x + rc_load1 c + d"
proof -
  have "0 < rc_load1 c" by (simp add: assms(1) reap_init_def Let_def at_least_def)
  from load_in_time[OF assms(2) this assms(3)] this show ?thesis
    using assms(4,5) by (simp add: reap_start_def)
qed

text \<open>
  Fact (short_window_misses). Nothing in the configuration keeps the window as long as the interval: with a shorter one a
  change is read by no load until the next full one.
\<close>

lemma short_window_misses:
  assumes "\<And>t0 t1. \<lbrakk>t0 \<in> set ts; t1 = t0\<rbrakk> \<Longrightarrow> t1 < x \<or> t1 - x > rc_changed1 c"
    and "\<And>t. t \<in> set ts \<Longrightarrow> t - rs_step2 s < rc_load2 c"
  shows "\<forall>e \<in> set (reap_run c ts s). \<not> reads_change e x"
  using assms
proof (induction ts arbitrary: s)
  case (Cons t ts)
  have step2: "rs_step2 (snd (reap_tick c t s)) = rs_step2 s" using Cons.prems(2)[of t] by (simp add: reap_tick_def Let_def)
  have rest: "\<forall>e \<in> set (reap_run c ts (snd (reap_tick c t s))). \<not> reads_change e x"
    by (rule Cons.IH) (use Cons.prems step2 in auto)
  have "\<not> reads_change (t, call) x" if "call \<in> set (fst (reap_tick c t s))" for call
    using that Cons.prems(1)[of t t] Cons.prems(2)[of t] by (auto simp: reap_tick_def Let_def split: if_splits)
  with rest show ?case by (auto simp: case_prod_beta Let_def)
qed simp

section \<open>The connections of the nodes\<close>

text \<open>Every node with a connection has one that the process still knows.\<close>

definition linked :: "('a \<Rightarrow> 'b option) \<Rightarrow> ('b \<Rightarrow> 'a option) \<Rightarrow> bool" where
  "linked f g \<longleftrightarrow> (\<forall>n u. f n = Some u \<longleftrightarrow> g u = Some n)"

lemma linked_delete:
  assumes "linked f g" and "g u = Some n"
  shows "linked (f(n := None)) (g(u := None))"
  unfolding linked_def
proof (intro allI)
  fix n' u'
  have eq: "f n' = Some u' \<longleftrightarrow> g u' = Some n'" "f n = Some u'  \<longleftrightarrow> g u' = Some n" and fn: "f n = Some u"
    using assms by (simp_all add: linked_def)
  show "(f(n := None)) n' = Some u' \<longleftrightarrow> (g(u := None)) u' = Some n'"
  proof (cases "n' = n")
    case True
    with eq(2) fn show ?thesis by auto
  next
    case False
    with eq(1) assms(2) show ?thesis by auto
  qed
qed

lemma linked_add:
  assumes "linked f g" and "f n = None" and "g u = None"
  shows "linked (f(n \<mapsto> u)) (g(u \<mapsto> n))"
  unfolding linked_def
proof (intro allI)
  fix n' u'
  have "f n' = Some u' \<longleftrightarrow> g u' = Some n'" "f n' = Some u \<longleftrightarrow> g u = Some n'" "f n = Some u' \<longleftrightarrow> g u' = Some n"
    using assms(1) by (simp_all add: linked_def)
  with assms(2,3) show "(f(n \<mapsto> u)) n' = Some u' \<longleftrightarrow> (g(u \<mapsto> n)) u' = Some n'" by auto
qed

definition conns_ok :: "'c node_manager \<Rightarrow> bool" where
  "conns_ok m \<longleftrightarrow> linked (om_find (nm_nodeId m)) (om_find (nm_idNode m)) \<and>
     dom (om_find (nm_idNode m)) = dom (om_find (nm_idCurrent m))"

lemma conns_erase_name: "conns_ok m \<Longrightarrow> conns_ok (eraseNode_name n m)"
proof (cases "om_find (nm_nodeId m) n")
  case None
  then have "(om_find (nm_nodeId m))(n := None) = om_find (nm_nodeId m)" by auto
  with None show "conns_ok m \<Longrightarrow> ?thesis" by (simp add: conns_ok_def eraseNode_name_def)
next
  case (Some u)
  assume ok: "conns_ok m"
  then have "om_find (nm_idNode m) u = Some n" using Some by (simp add: conns_ok_def linked_def)
  with ok linked_delete[OF conjunct1[OF ok[unfolded conns_ok_def]] this] Some show ?thesis
    by (simp add: conns_ok_def eraseNode_name_def)
qed

lemma conns_erase_current: "conns_ok m \<Longrightarrow> conns_ok (eraseNode_current u m)"
  using linked_delete[of "om_find (nm_nodeId m)" "om_find (nm_idNode m)" u]
  by (cases "om_find (nm_idNode m) u") (auto simp: conns_ok_def eraseNode_current_def)

lemma erased_name: "om_find (nm_nodeId (eraseNode_name n m)) n = None"
  by (simp add: eraseNode_name_def Let_def)

lemma conns_create:
  assumes "conns_ok m" and "om_find (nm_idNode (eraseNode_name n m)) u = None"
  shows "conns_ok (rg_createNodeCurrent n u cur m)"
  using conns_erase_name[OF assms(1), of n] 
    linked_add[of "om_find (nm_nodeId (eraseNode_name n m))" "om_find (nm_idNode (eraseNode_name n m))" n u]
    assms(2) erased_name[of n m]
  by (simp add: rg_createNodeCurrent_def Let_def conns_ok_def)

lemma conns_no_throw: "conns_ok m \<Longrightarrow> rg_getNodeCurrent n m \<noteq> None"
proof (cases "om_find (nm_nodeId m) n")
  case (Some u)
  assume ok: "conns_ok m"
  then have "u \<in> dom (om_find (nm_idNode m))" using Some by (auto simp: conns_ok_def linked_def)
  then have "u \<in> dom (om_find (nm_idCurrent m))" using ok by (simp add: conns_ok_def)
  with Some show ?thesis by (auto simp: rg_getNodeCurrent_def)
qed (simp add: rg_getNodeCurrent_def)

text \<open>
  Fact (two_names_one_connection). A connection that reports a second name leaves the first one pointing at it: when it
  closes, looking the first name up throws.
\<close>

lemma two_names_one_connection:
  assumes "a \<noteq> b" and "om_find (nm_nodeId m) b = None"
  shows "rg_getNodeCurrent a (eraseNode_current u (rg_createNodeCurrent b u cur (rg_createNodeCurrent a u cur m))) = None"
  using assms by (simp add: rg_createNodeCurrent_def eraseNode_name_def eraseNode_current_def rg_getNodeCurrent_def Let_def split: option.split)

section \<open>Examples\<close>

definition sample_load_info :: load_info where
  "sample_load_info = \<lparr> li_avg1 = ''0'', li_avg5 = ''0'', li_avg15 = ''0'' \<rparr>"

definition sample_node_info :: node_info where
  "sample_node_info = \<lparr> ni_nodeObj = ''tars.tarsnode.NodeObj'', ni_endpointIp = ''10.0.0.1'', ni_endpointPort = 19385,
     ni_dataDir = ''/data'', ni_version = ''3.0'' \<rparr>"

definition sample_server_row :: reg_server_row where
  "sample_server_row = \<lparr> sv_setting = tars_Active, sv_present = tars_Active, sv_pid = 7, sv_type = ''tars_cpp'', sv_patchVersion = '''',
     sv_patchUser = '''', sv_patchTime = 0, sv_tarsVersion = '''' \<rparr>"

definition sample_tables :: reg_tables where
  "sample_tables = \<lparr> tb_nodes = [(''10.0.0.1'', registered_row 100 '''' sample_node_info sample_load_info)],
     tb_servers = [(Key ''App'' ''Svr'' ''10.0.0.1'', sample_server_row)], tb_registries = [] \<rparr>"

definition sample_reg_world :: "nat reg_world" where
  "sample_reg_world = \<lparr> rw_db = empty_db\<lparr> mapServantStatus := [(Key ''App'' ''Svr'' ''10.0.0.1'', tars_Active)] \<rparr>, rw_tb = sample_tables,
     rw_nm = \<lparr> nm_prx = [], nm_nodeId = [], nm_idNode = [], nm_idCurrent = [] \<rparr>,
     rw_proc = \<lparr> pt_terminate = False, pt_queue = [] \<rparr>, rw_lastCheck = 0 \<rparr>"

definition sample_check :: check_conf where
  "sample_check = \<lparr> cc_nodeTimeout = 250, cc_interval = 60 \<rparr>"

lemma sample_reg_world_parts [simp]:
  "om_find (tb_nodes (rw_tb sample_reg_world)) ''10.0.0.1'' = Some (registered_row 100 '''' sample_node_info sample_load_info)"
  "om_find (tb_servers (rw_tb sample_reg_world)) (Key ''App'' ''Svr'' ''10.0.0.1'') = Some sample_server_row"
  "tables_ok (rw_tb sample_reg_world)" "no_beat n (rw_proc sample_reg_world)" "only_beats (rw_proc sample_reg_world)"
  "rw_lastCheck sample_reg_world = 0" "nd_beat (registered_row 100 '''' sample_node_info sample_load_info) = 100"
  "cc_nodeTimeout sample_check = 250" "cc_interval sample_check = 60"
  "mapServantStatus (rw_db sample_reg_world) = [(Key ''App'' ''Svr'' ''10.0.0.1'', tars_Active)]"
  by (simp_all add: sample_reg_world_def sample_tables_def tables_ok_def om_ok_Cons no_beat_def only_beats_def registered_row_def
      sample_check_def)

theorem silent_node_is_marked_witness:
  "node_marked ''10.0.0.1'' (rw_tb (reg_run sample_check (\<lambda>_. True)
     ([(\<lambda>_. False, 350, EvRegister ''10.0.0.2'' sample_node_info sample_load_info), (\<lambda>_. True, 360, EvWork)] @
      [(\<lambda>_. False, 410, EvCheck)]) sample_reg_world))"
  by (rule silent_node_is_marked[where r = "registered_row 100 '''' sample_node_info sample_load_info"]) auto

theorem lost_registration_is_unnoticed_witness:
  "\<exists>k' w'. joint_run sample_check (\<lambda>_. True) sample_alive
     [RegEvent (\<lambda>_. False, 1000, EvWork), NodeRound (\<lambda>_. False, 1000, sample_node_info, sample_load_info, False)]
     ((new_keep_alive ''Y'' 0)\<lparr>ka_bRegistered := True\<rparr>, sample_reg_world\<lparr> rw_tb := sample_tables\<lparr> tb_nodes := [] \<rparr> \<rparr>) = (k', w') \<and>
   ka_bRegistered k' \<and> unknown_node (ac_nodeName sample_alive) w'"
proof -
  let ?es = "[RegEvent (\<lambda>_. False, 1000, EvWork), NodeRound (\<lambda>_. False, 1000, sample_node_info, sample_load_info, False)] :: nat joint_event list"
  let ?k = "(new_keep_alive ''Y'' 0)\<lparr>ka_bRegistered := True\<rparr>" and ?w = "sample_reg_world\<lparr> rw_tb := sample_tables\<lparr> tb_nodes := [] \<rparr> \<rparr>"
  obtain k' w' where run: "joint_run sample_check (\<lambda>_. True) sample_alive ?es (?k, ?w) = (k', w')"
    by (cases "joint_run sample_check (\<lambda>_. True) sample_alive ?es (?k, ?w)")
  have "ka_bRegistered k' \<and> unknown_node (ac_nodeName sample_alive) w' \<and>
      fst (ri_keepAlive (ac_nodeName sample_alive) sample_load_info w') = 0"
    by (rule lost_registration_is_unnoticed[OF _ _ _ run]) (auto simp: unknown_node_def)
  with run show ?thesis by blast
qed

theorem stale_cache_hides_recovery_witness:
  "\<exists>w'. reg_run sample_check (\<lambda>_. True)
     [(\<lambda>_. False, 410, EvCheck), (\<lambda>_. False, 420, EvKeepAlive ''10.0.0.1'' sample_load_info), (\<lambda>_. False, 421, EvWork),
      (\<lambda>_. False, 430, EvUpdateBatch True [report_of tars_Active 7 ''10.0.0.1''])] sample_reg_world = w' \<and>
   state_view (rw_tb (snd (ri_updateServerBatch (\<lambda>_. False) True [report_of tars_Active 7 ''10.0.0.1''] w')))
     (Key ''App'' ''Svr'' ''10.0.0.1'') = Some (tars_Inactive, 0)"
proof -
  let ?vec = "[report_of tars_Active 7 ''10.0.0.1'']"
  have key: "si_key (report_of tars_Active 7 ''10.0.0.1'') = Key ''App'' ''Svr'' ''10.0.0.1''" by (simp add: report_of_def si_key_def)
  have known: "known_batch (rw_db sample_reg_world) ?vec" by (simp add: known_batch_def key) (simp add: report_of_def)
  let ?es = "[(\<lambda>_. False, 420, EvKeepAlive ''10.0.0.1'' sample_load_info), (\<lambda>_. False, 421, EvWork), (\<lambda>_. False, 430, EvUpdateBatch True ?vec)]"
  have ev: "recovery_event (rw_db sample_reg_world) ''10.0.0.1'' e" if "(fails, t, e) \<in> set ?es" for fails t and e :: "nat reg_event"
    using that known by auto
  obtain w' where run: "reg_run sample_check (\<lambda>_. True) ((\<lambda>_. False, 410, EvCheck) # ?es) sample_reg_world = w'" by simp
  have "fst (ri_updateServerBatch (\<lambda>_. False) True ?vec w') = 0 \<and>
    state_view (rw_tb (snd (ri_updateServerBatch (\<lambda>_. False) True ?vec w'))) (si_key (report_of tars_Active 7 ''10.0.0.1'')) = Some (tars_Inactive, 0)"
    by (rule stale_cache_hides_recovery[OF sample_reg_world_parts(1) _ _ _ _ _ ev known _ _ _ run, where row = sample_server_row])
      (simp_all only: key sample_reg_world_parts, simp_all add: timed_out_def report_of_def)
  with run show ?thesis unfolding key by blast
qed

lemma sample_reap: "rc_load1 (reap_init sample_tc (\<lambda>k d. d)) = 10" "rc_changed1 (reap_init sample_tc (\<lambda>k d. d)) = 150"
  by (simp_all add: reap_init_def Let_def at_least_def sample_tc_def)

theorem changes_are_loaded_witness:
  "\<exists>e \<in> set (reap_run (reap_init sample_tc (\<lambda>k d. d)) [5, 10, 15, 20] (snd (reap_start (reap_init sample_tc (\<lambda>k d. d)) 0))).
     reads_change e 7 \<and> fst e < 7 + rc_load1 (reap_init sample_tc (\<lambda>k d. d)) + 5"
  by (rule changes_are_loaded[OF refl]) (simp_all add: sample_reap)

end
