(* ===== verification/Reg_Balance.thy ===== *)
theory Reg_Balance
  imports Reg_Load
begin

text \<open>
  \<open>RegistryServer/LoadBalanceThread\<close>: the statistics of the last minutes become one weight per
  node, and every endpoint list the registry hands out passes through \<open>getDynamicWeight\<close>.
  Signed overflow and division by zero are undefined in C++: where the code could run into them
  the model's result is \<open>None\<close>.
\<close>

section \<open>Data\<close>

abbreviation (input) "DEFAULT_WEIGHT \<equiv> (100 :: int)"
abbreviation (input) "MIN_WEIGHT \<equiv> (10 :: int)"
abbreviation (input) "WEIGHT_PERCENT_UNIT \<equiv> (100 :: int)"
abbreviation (input) "TIMEOUT_WEIGHT_FACTOR \<equiv> (90 :: int)"
abbreviation (input) "LOAD_BALANCE_LOOP \<equiv> (0 :: int)"
abbreviation (input) "LOAD_BALANCE_STATIC_WEIGHT \<equiv> (1 :: int)"
abbreviation (input) "LOAD_BALANCE_DYNAMIC_WEIGHT \<equiv> (2 :: int)"

record load_balance_item =
  statTime :: string
  date :: string
  slaveName :: string
  slaveIp :: string
  succCount :: int
  timeoutCount :: int
  aveTime :: int
  aveCount :: int
  lb_port :: int
  lb_weight :: int
  lb_weightType :: int

record load_balance_info =
  vtBalanceItem :: "load_balance_item list"
  aveTimeSum :: int

type_synonym load_cache = "(string, load_balance_info) omap"

record load_balance_thread =
  loadCache :: load_cache
  loadInterval :: int
  mapLoad2Proportion :: "(string, int) omap"
  dynamicSwitch :: int

text \<open>A row of the statistics tables.\<close>

record stat_row =
  s_stattime :: string
  s_f_date :: string
  s_slave_name :: string
  s_slave_ip :: string
  s_succ_count :: string
  s_timeout_count :: string
  s_ave_time :: string

datatype load_balance_db_result =
  LOAD_BALANCE_DB_SUCCESS | LOAD_BALANCE_DB_EMPTY_LIST | LOAD_BALANCE_DB_FAILED

section \<open>Configuration\<close>

text \<open>\<open>TC_Config\<close> is a parameter: \<open>cfg path default\<close> and the domain map of a path.\<close>

definition lb_init ::
  "tc_common \<Rightarrow> (string \<Rightarrow> string \<Rightarrow> string) \<Rightarrow> (string \<Rightarrow> (string, string) omap option) \<Rightarrow>
     load_balance_thread \<Rightarrow> load_balance_thread" where
  "lb_init tc cfg cfg_map th =
     (let props = (case cfg_map ''/tars/loadbalance/loadproportion'' of
            None \<Rightarrow> mapLoad2Proportion th
          | Some m \<Rightarrow>
              fold (\<lambda>e. let proportion = tc_strto_int tc (snd e);
                            final = (if proportion > 0 then proportion
                                     else c_div DEFAULT_WEIGHT (int (length m)))
                        in om_put (fst e) final) m (mapLoad2Proportion th))
      in th\<lparr> loadInterval := tc_strto_int tc (cfg ''/tars/loadbalance<loadinterval>'' ''120''),
             mapLoad2Proportion := props,
             dynamicSwitch := tc_strto_int tc (cfg ''/tars/loadbalance<loadswitch>'' ''0'') \<rparr>)"

definition getProportion :: "load_balance_thread \<Rightarrow> string \<Rightarrow> int" where
  "getProportion th weightFactor = om_get 0 (mapLoad2Proportion th) weightFactor"

section \<open>Reading the statistics\<close>

definition getAllDynamicWeightServant :: "(string, object_item) omap \<Rightarrow> string list" where
  "getAllDynamicWeightServant cache =
     List.map_filter (\<lambda>e. case vActiveEndpoints (snd e) of
         [] \<Rightarrow> None
       | ep # _ \<Rightarrow> if LOAD_BALANCE_DYNAMIC_WEIGHT = weightType ep then Some (fst e) else None) cache"

text \<open>The alternatives of the regular expression that selects the servers in the query.\<close>

fun stat_regexp :: "string list \<Rightarrow> string" where
  "stat_regexp [] = []"
| "stat_regexp (server # rest) =
     (case str_rfind CHR ''.'' server of
        Some pos \<Rightarrow> str_substr server 0 pos @ (if rest \<noteq> [] then ''|'' else [])
      | None \<Rightarrow> []) @ stat_regexp rest"

text \<open>
  \<open>query this_hour regexp\<close> and \<open>query False regexp\<close> are the query against the table of the
  current and of the previous hour; \<open>None\<close> is an exception.
\<close>

definition loadStatData ::
  "(bool \<Rightarrow> string \<Rightarrow> stat_row list option) \<Rightarrow> string list \<Rightarrow> load_balance_db_result \<times> stat_row list" where
  "loadStatData query vtServer =
     (if vtServer = [] then (LOAD_BALANCE_DB_EMPTY_LIST, [])
      else case query True (stat_regexp vtServer) of
        None \<Rightarrow> (LOAD_BALANCE_DB_FAILED, [])
      | Some (r # rs) \<Rightarrow> (LOAD_BALANCE_DB_SUCCESS, r # rs)
      | Some [] \<Rightarrow>
          (case query False (stat_regexp vtServer) of
             None \<Rightarrow> (LOAD_BALANCE_DB_FAILED, [])
           | Some rs \<Rightarrow> (LOAD_BALANCE_DB_SUCCESS, rs)))"

definition stat_item :: "tc_common \<Rightarrow> stat_row \<Rightarrow> load_balance_item" where
  "stat_item tc r =
     \<lparr> statTime = s_stattime r, date = s_f_date r, slaveName = s_slave_name r, slaveIp = s_slave_ip r,
       succCount = tc_strto_int tc (s_succ_count r), timeoutCount = tc_strto_int tc (s_timeout_count r),
       aveTime = tc_strto_int tc (s_ave_time r), aveCount = 0, lb_port = 0, lb_weight = 0, lb_weightType = 0 \<rparr>"

definition empty_info :: load_balance_info where
  "empty_info = \<lparr> vtBalanceItem = [], aveTimeSum = 0 \<rparr>"

definition push_item :: "load_balance_item \<Rightarrow> load_cache \<Rightarrow> load_cache" where
  "push_item i c =
     (let info = om_get empty_info c (slaveName i)
      in om_put (slaveName i) (info\<lparr> vtBalanceItem := vtBalanceItem info @ [i] \<rparr>) c)"

definition getMonitorDataFromDB ::
  "tc_common \<Rightarrow> (bool \<Rightarrow> string \<Rightarrow> stat_row list option) \<Rightarrow> string list \<Rightarrow> load_cache \<Rightarrow> load_cache" where
  "getMonitorDataFromDB tc query vtServer c =
     (case loadStatData query vtServer of
        (LOAD_BALANCE_DB_SUCCESS, rows) \<Rightarrow> fold (\<lambda>r. push_item (stat_item tc r)) rows c
      | _ \<Rightarrow> c)"

text \<open>The queries go out in batches of at most 300 servants.\<close>

definition stat_batches ::
  "(string list \<Rightarrow> load_cache \<Rightarrow> load_cache) \<Rightarrow> string list \<Rightarrow> load_cache" where
  "stat_batches fetch servants =
     (let (vt, c) = fold (\<lambda>servant (vt, c).
            let vt = vt @ [servant]
            in if length vt \<ge> 300 then ([], fetch vt c) else (vt, c)) servants ([], [])
      in if vt \<noteq> [] then fetch vt c else c)"

section \<open>Merging repeated nodes\<close>

record merge_acc =
  ma_map :: "(string, load_balance_item) omap"
  ma_items :: "load_balance_item list"
  ma_sum :: int
  ma_repeat :: bool

definition merge_item :: "load_balance_item \<Rightarrow> merge_acc \<Rightarrow> merge_acc option" where
  "merge_item i a =
     Option.bind (ck32 (ma_sum a + aveTime i)) (\<lambda>tot.
       case om_find (ma_map a) (slaveIp i) of
         None \<Rightarrow>
           (let i1 = i\<lparr> aveCount := 1 \<rparr>
            in Some (a\<lparr> ma_map := om_put (slaveIp i) i1 (ma_map a), ma_items := ma_items a @ [i1],
                        ma_sum := tot \<rparr>))
       | Some it \<Rightarrow>
           Option.bind (ck64 (timeoutCount it + timeoutCount i)) (\<lambda>tmo.
           Option.bind (ck64 (succCount it + succCount i)) (\<lambda>suc.
           Option.bind (ck32 (aveTime it + aveTime i)) (\<lambda>ave.
             Some (a\<lparr> ma_map := om_put (slaveIp i) (it\<lparr> timeoutCount := tmo, succCount := suc,
                          aveTime := ave, aveCount := aveCount it + 1 \<rparr>) (ma_map a),
                      ma_items := ma_items a @ [i], ma_sum := tot, ma_repeat := True \<rparr>)))))"

definition averaged :: "load_balance_item \<Rightarrow> load_balance_item" where
  "averaged i = i\<lparr> aveTime := c_div (aveTime i) (aveCount i) \<rparr>"

definition mergeLoadInfo_one :: "load_balance_info \<Rightarrow> load_balance_info option" where
  "mergeLoadInfo_one info =
     Option.bind (fold_opt merge_item (vtBalanceItem info)
         \<lparr> ma_map = [], ma_items = [], ma_sum = aveTimeSum info, ma_repeat = False \<rparr>) (\<lambda>a.
       if ma_repeat a then
         (let items = map (averaged \<circ> snd) (ma_map a)
          in Option.bind (fold_opt (\<lambda>i s. ck32 (s + aveTime i)) items 0) (\<lambda>tot.
               Some (info\<lparr> vtBalanceItem := items, aveTimeSum := tot \<rparr>)))
       else Some (info\<lparr> vtBalanceItem := ma_items a, aveTimeSum := ma_sum a \<rparr>))"

definition mergeLoadInfo :: "load_cache \<Rightarrow> load_cache option" where
  "mergeLoadInfo c = map_opt (\<lambda>e. map_option (Pair (fst e)) (mergeLoadInfo_one (snd e))) c"

section \<open>Weights\<close>

definition timeoutRateWeight :: "load_balance_item \<Rightarrow> int option" where
  "timeoutRateWeight i =
     (if succCount i \<noteq> 0 then
        Option.bind (ck64 (timeoutCount i * TIMEOUT_WEIGHT_FACTOR)) (\<lambda>p.
        Option.bind (ck64 (succCount i + timeoutCount i)) (\<lambda>q.
          if q = 0 then None else ck32 (DEFAULT_WEIGHT - c_div p q)))
      else Some (if timeoutCount i \<noteq> 0 then MIN_WEIGHT else DEFAULT_WEIGHT))"

definition aveTimeWeight :: "int \<Rightarrow> int \<Rightarrow> int \<Rightarrow> int option" where
  "aveTimeWeight itemSize tot ave =
     map_option (\<lambda>w. if w \<le> 0 then MIN_WEIGHT else w)
       (if tot \<noteq> 0 then
          Option.bind (ck32 (DEFAULT_WEIGHT * itemSize)) (\<lambda>a.
          Option.bind (ck32 (tot - ave)) (\<lambda>d.
          Option.bind (ck32 (a * d)) (\<lambda>p. ck32 (c_div p tot))))
        else Some 0)"

definition item_weight :: "load_balance_thread \<Rightarrow> int \<Rightarrow> int \<Rightarrow> load_balance_item \<Rightarrow> load_balance_item option" where
  "item_weight th itemSize tot i =
     Option.bind (aveTimeWeight itemSize tot (aveTime i)) (\<lambda>aw.
     Option.bind (timeoutRateWeight i) (\<lambda>tw.
     Option.bind (ck32 (aw * getProportion th ''timeout-consuming'')) (\<lambda>x.
     Option.bind (ck32 (tw * getProportion th ''timeout-weight'')) (\<lambda>y.
     Option.bind (ck32 (c_div x WEIGHT_PERCENT_UNIT + c_div y WEIGHT_PERCENT_UNIT)) (\<lambda>w.
       Some (i\<lparr> lb_weight := w \<rparr>))))))"

definition calculateWeight_one :: "load_balance_thread \<Rightarrow> load_balance_info \<Rightarrow> load_balance_info option" where
  "calculateWeight_one th info =
     (let itemSize = int (length (vtBalanceItem info))
      in if itemSize = 0 then None
         else map_option (\<lambda>items. info\<lparr> vtBalanceItem := items \<rparr>)
                (map_opt (item_weight th itemSize (aveTimeSum info)) (vtBalanceItem info)))"

definition calculateWeight :: "load_balance_thread \<Rightarrow> load_cache \<Rightarrow> load_cache option" where
  "calculateWeight th c = map_opt (\<lambda>e. map_option (Pair (fst e)) (calculateWeight_one th (snd e))) c"

definition updateWeightCache :: "load_cache \<Rightarrow> load_balance_thread \<Rightarrow> load_balance_thread" where
  "updateWeightCache c th = th\<lparr> loadCache := c \<rparr>"

definition updateDynamicWeight ::
  "tc_common \<Rightarrow> (bool \<Rightarrow> string \<Rightarrow> stat_row list option) \<Rightarrow> (string, object_item) omap \<Rightarrow>
     load_balance_thread \<Rightarrow> load_balance_thread option" where
  "updateDynamicWeight tc query cache th =
     (let c = stat_batches (getMonitorDataFromDB tc query) (getAllDynamicWeightServant cache)
      in Option.bind (mergeLoadInfo c) (\<lambda>c1.
         Option.bind (calculateWeight th c1) (\<lambda>c2. Some (updateWeightCache c2 th))))"

section \<open>Applying the weights\<close>

definition node_weight :: "load_balance_item list \<Rightarrow> endpoint_f \<Rightarrow> endpoint_f" where
  "node_weight items ep =
     (let ep1 = (case List.find (\<lambda>info. slaveIp info = host ep) items of
                   Some info \<Rightarrow> ep\<lparr> weightType := LOAD_BALANCE_STATIC_WEIGHT, weight := lb_weight info \<rparr>
                 | None \<Rightarrow> ep)
      in if weight ep1 = 0 then ep1\<lparr> weightType := LOAD_BALANCE_LOOP \<rparr> else ep1)"

definition find_load :: "load_cache \<Rightarrow> string \<Rightarrow> load_balance_info option" where
  "find_load c servant =
     (case om_find c servant of
        Some info \<Rightarrow> Some info
      | None \<Rightarrow>
          (case str_rfind CHR ''.'' servant of
             Some pos \<Rightarrow> om_find c (str_substr servant 0 pos)
           | None \<Rightarrow> None))"

definition getDynamicWeight :: "load_balance_thread \<Rightarrow> string \<Rightarrow> endpoint_f list \<Rightarrow> endpoint_f list" where
  "getDynamicWeight th servant eps =
     (if servant = [] then eps
      else
        let found = find_load (loadCache th) servant;
            eps1 = (case found of
                Some info \<Rightarrow>
                  map (\<lambda>ep. if LOAD_BALANCE_DYNAMIC_WEIGHT = weightType ep
                            then node_weight (vtBalanceItem info) ep else ep) eps
              | None \<Rightarrow> eps)
        in if dynamicSwitch th = 0 \<or> found = None then
             map (\<lambda>ep. if LOAD_BALANCE_DYNAMIC_WEIGHT = weightType ep
                       then ep\<lparr> weightType := LOAD_BALANCE_LOOP \<rparr> else ep) eps1
           else eps1)"

section \<open>Merging\<close>

text \<open>What the merge loop has established after the items it has seen.\<close>

definition nonneg_item :: "load_balance_item \<Rightarrow> bool" where
  "nonneg_item i \<longleftrightarrow> 0 \<le> succCount i \<and> 0 \<le> timeoutCount i \<and> 0 \<le> aveTime i"

definition node_entry_ok :: "string \<times> load_balance_item \<Rightarrow> bool" where
  "node_entry_ok e \<longleftrightarrow> slaveIp (snd e) = fst e \<and> 1 \<le> aveCount (snd e) \<and> nonneg_item (snd e)"

definition merge_inv :: "load_balance_item list \<Rightarrow> merge_acc \<Rightarrow> bool" where
  "merge_inv seen a \<longleftrightarrow>
     om_ok (ma_map a) \<and>
     (\<forall>e \<in> set (ma_map a). node_entry_ok e) \<and>
     fst ` set (ma_map a) = slaveIp ` set seen \<and>
     map slaveIp (ma_items a) = map slaveIp seen \<and> map aveTime (ma_items a) = map aveTime seen \<and>
     map succCount (ma_items a) = map succCount seen \<and> map timeoutCount (ma_items a) = map timeoutCount seen \<and>
     ma_sum a = sum_list (map aveTime seen) \<and>
     (\<Sum>e\<leftarrow>ma_map a. succCount (snd e)) = (\<Sum>i\<leftarrow>seen. succCount i) \<and>
     (\<Sum>e\<leftarrow>ma_map a. timeoutCount (snd e)) = (\<Sum>i\<leftarrow>seen. timeoutCount i) \<and>
     (\<not> ma_repeat a \<longrightarrow> distinct (map slaveIp seen))"

lemma sum_om_put_new:
  fixes f :: "'v \<Rightarrow> int"
  shows "om_find m k = None \<Longrightarrow> (\<Sum>e\<leftarrow>om_put k v m. f (snd e)) = (\<Sum>e\<leftarrow>m. f (snd e)) + f v"
  by (induction k v m rule: om_put.induct) (auto split: if_splits)

lemma sum_om_put_old:
  fixes f :: "'v \<Rightarrow> int"
  shows "om_ok m \<Longrightarrow> om_find m k = Some w \<Longrightarrow>
    (\<Sum>e\<leftarrow>om_put k v m. f (snd e)) = (\<Sum>e\<leftarrow>m. f (snd e)) - f w + f v"
proof (induction k v m rule: om_put.induct)
  case (2 k v k' v' m)
  from 2(2) have "k < k' \<Longrightarrow> om_find m k = None"
    by (auto simp: om_ok_Cons map_of_eq_None_iff dest: less_trans)
  with 2 show ?case by (auto simp: om_ok_Cons split: if_splits)
qed simp

lemma om_put_all_ok:
  "\<forall>e \<in> set m. P e \<Longrightarrow> P (k, v) \<Longrightarrow> \<forall>e \<in> set (om_put k v m). P e"
  by (induction k v m rule: om_put.induct) auto

lemma merge_item_new:
  assumes inv: "merge_inv seen a" and i: "nonneg_item i" and None: "om_find (ma_map a) (slaveIp i) = None"
    and b: "b = a\<lparr> ma_map := om_put (slaveIp i) (i\<lparr> aveCount := 1 \<rparr>) (ma_map a),
      ma_items := ma_items a @ [i\<lparr> aveCount := 1 \<rparr>], ma_sum := ma_sum a + aveTime i \<rparr>"
  shows "merge_inv (seen @ [i]) b"
proof -
  note m = inv[unfolded merge_inv_def]
  have fresh: "slaveIp i \<notin> slaveIp ` set seen"
    using m None by (simp add: map_of_eq_None_iff)
  have mp: "ma_map b = om_put (slaveIp i) (i\<lparr> aveCount := 1 \<rparr>) (ma_map a)" by (simp add: b)
  have "\<forall>e \<in> set (ma_map b). node_entry_ok e"
    using m i unfolding mp
    by (intro om_put_all_ok) (simp_all add: node_entry_ok_def nonneg_item_def)
  moreover have "om_ok (ma_map b)" "fst ` set (ma_map b) = slaveIp ` set (seen @ [i])"
    unfolding b using m by simp_all
  moreover have "\<not> ma_repeat b \<longrightarrow> distinct (map slaveIp (seen @ [i]))"
    unfolding b using m fresh by simp
  moreover have "(\<Sum>e\<leftarrow>ma_map b. succCount (snd e)) = (\<Sum>j\<leftarrow>seen @ [i]. succCount j)"
    "(\<Sum>e\<leftarrow>ma_map b. timeoutCount (snd e)) = (\<Sum>j\<leftarrow>seen @ [i]. timeoutCount j)"
    unfolding b using m None by (simp_all add: sum_om_put_new)
  moreover have "map slaveIp (ma_items b) = map slaveIp (seen @ [i])" "map aveTime (ma_items b) = map aveTime (seen @ [i])"
    "map succCount (ma_items b) = map succCount (seen @ [i])"
    "map timeoutCount (ma_items b) = map timeoutCount (seen @ [i])"
    "ma_sum b = sum_list (map aveTime (seen @ [i]))"
    unfolding b using m by simp_all
  ultimately show ?thesis
    unfolding merge_inv_def by blast
qed

lemma merge_item_old:
  assumes inv: "merge_inv seen a" and i: "nonneg_item i" and it: "om_find (ma_map a) (slaveIp i) = Some it"
    and b: "b = a\<lparr> ma_map := om_put (slaveIp i) (it\<lparr> timeoutCount := timeoutCount it + timeoutCount i,
      succCount := succCount it + succCount i, aveTime := aveTime it + aveTime i,
      aveCount := aveCount it + 1 \<rparr>) (ma_map a),
      ma_items := ma_items a @ [i], ma_sum := ma_sum a + aveTime i, ma_repeat := True \<rparr>"
  shows "merge_inv (seen @ [i]) b"
proof -
  note m = inv[unfolded merge_inv_def]
  have mem: "(slaveIp i, it) \<in> set (ma_map a)"
    using m it by (simp add: om_find_set)
  then have it_ok: "node_entry_ok (slaveIp i, it)" using m by blast
  from mem have "slaveIp i \<in> fst ` set (ma_map a)" by force
  then have known: "insert (slaveIp i) (slaveIp ` set seen) = slaveIp ` set seen"
    using m by (simp add: insert_absorb)
  have mp: "ma_map b = om_put (slaveIp i) (it\<lparr> timeoutCount := timeoutCount it + timeoutCount i,
      succCount := succCount it + succCount i, aveTime := aveTime it + aveTime i,
      aveCount := aveCount it + 1 \<rparr>) (ma_map a)" by (simp add: b)
  have "\<forall>e \<in> set (ma_map b). node_entry_ok e"
    using m i it_ok unfolding mp
    by (intro om_put_all_ok) (simp_all add: node_entry_ok_def nonneg_item_def)
  moreover have "om_ok (ma_map b)" "fst ` set (ma_map b) = slaveIp ` set (seen @ [i])"
    unfolding b using m known by simp_all
  moreover have "\<not> ma_repeat b \<longrightarrow> distinct (map slaveIp (seen @ [i]))"
    unfolding b by simp
  moreover have "(\<Sum>e\<leftarrow>ma_map b. succCount (snd e)) = (\<Sum>j\<leftarrow>seen @ [i]. succCount j)"
    "(\<Sum>e\<leftarrow>ma_map b. timeoutCount (snd e)) = (\<Sum>j\<leftarrow>seen @ [i]. timeoutCount j)"
    unfolding b using m it by (simp_all add: sum_om_put_old)
  moreover have "map slaveIp (ma_items b) = map slaveIp (seen @ [i])" "map aveTime (ma_items b) = map aveTime (seen @ [i])"
    "map succCount (ma_items b) = map succCount (seen @ [i])"
    "map timeoutCount (ma_items b) = map timeoutCount (seen @ [i])"
    "ma_sum b = sum_list (map aveTime (seen @ [i]))"
    unfolding b using m by simp_all
  ultimately show ?thesis
    unfolding merge_inv_def by blast
qed

lemma merge_item_inv:
  assumes inv: "merge_inv seen a" and step: "merge_item i a = Some b" and i: "nonneg_item i"
  shows "merge_inv (seen @ [i]) b"
proof (cases "om_find (ma_map a) (slaveIp i)")
  case None
  from step None show ?thesis
    by (intro merge_item_new[OF inv i None]) (auto simp: merge_item_def Let_def ck32_Some bind_eq_Some_conv)
next
  case (Some it)
  from step Some show ?thesis
    by (intro merge_item_old[OF inv i Some])
      (auto simp: merge_item_def Let_def ck32_Some ck64_Some bind_eq_Some_conv)
qed

lemma merge_loop_inv:
  "fold_opt merge_item rest a = Some b \<Longrightarrow> merge_inv seen a \<Longrightarrow> (\<forall>i \<in> set rest. nonneg_item i) \<Longrightarrow>
     merge_inv (seen @ rest) b"
proof (induction rest arbitrary: seen a)
  case Nil
  then show ?case by simp
next
  case (Cons i rest)
  then obtain c where c: "merge_item i a = Some c" "fold_opt merge_item rest c = Some b"
    by (cases "merge_item i a") auto
  from Cons.IH[OF c(2), of "seen @ [i]"] merge_item_inv[OF Cons.prems(2) c(1)] Cons.prems(3)
  show ?case by simp
qed

lemma sum_loop: "fold_opt (\<lambda>i s. ck32 (s + aveTime i)) items t = Some s \<Longrightarrow> s = t + sum_list (map aveTime items)"
  by (induction items arbitrary: t) (fastforce simp: ck32_Some bind_eq_Some_conv)+

text \<open>What one merged entry looks like: one item per node, the counts kept, the averages summed.\<close>

definition merged_ok :: "load_balance_info \<Rightarrow> load_balance_info \<Rightarrow> bool" where
  "merged_ok info info' \<longleftrightarrow>
     distinct (map slaveIp (vtBalanceItem info')) \<and>
     set (map slaveIp (vtBalanceItem info')) = set (map slaveIp (vtBalanceItem info)) \<and>
     sum_list (map succCount (vtBalanceItem info')) = sum_list (map succCount (vtBalanceItem info)) \<and>
     sum_list (map timeoutCount (vtBalanceItem info')) = sum_list (map timeoutCount (vtBalanceItem info)) \<and>
     aveTimeSum info' = sum_list (map aveTime (vtBalanceItem info')) \<and>
     (\<forall>i \<in> set (vtBalanceItem info'). nonneg_item i)"

lemma merged_repeat:
  assumes inv: "merge_inv (vtBalanceItem info) a"
    and s: "fold_opt (\<lambda>i s. ck32 (s + aveTime i)) (map (averaged \<circ> snd) (ma_map a)) 0 = Some s"
  shows "merged_ok info (info\<lparr> vtBalanceItem := map (averaged \<circ> snd) (ma_map a), aveTimeSum := s \<rparr>)"
proof -
  let ?items = "map (averaged \<circ> snd) (ma_map a)"
  have each: "slaveIp i = ip \<and> 1 \<le> aveCount i \<and> nonneg_item i" if "(ip, i) \<in> set (ma_map a)" for ip i
    using inv that by (force simp: merge_inv_def node_entry_ok_def)
  have ips: "map slaveIp ?items = map fst (ma_map a)"
    using each by (auto simp: averaged_def)
  have "nonneg_item i" if "i \<in> set ?items" for i
  proof -
    from that obtain ip j where j: "(ip, j) \<in> set (ma_map a)" "i = averaged j" by auto
    from each[OF j(1)] show ?thesis
      by (simp add: j(2) averaged_def nonneg_item_def pos_imp_zdiv_nonneg_iff)
  qed
  moreover have "distinct (map slaveIp ?items)"
    unfolding ips using inv by (simp add: merge_inv_def om_ok_distinct)
  moreover have "set (map slaveIp ?items) = set (map slaveIp (vtBalanceItem info))"
    unfolding ips using inv by (simp add: merge_inv_def)
  moreover have "sum_list (map succCount ?items) = sum_list (map succCount (vtBalanceItem info))"
    "sum_list (map timeoutCount ?items) = sum_list (map timeoutCount (vtBalanceItem info))"
    using inv by (simp_all add: merge_inv_def averaged_def comp_def)
  ultimately show ?thesis
    using sum_loop[OF s] by (simp add: merged_ok_def)
qed

lemma merged_single:
  assumes inv: "merge_inv (vtBalanceItem info) a" and "\<not> ma_repeat a"
    and nn: "\<forall>i \<in> set (vtBalanceItem info). nonneg_item i"
  shows "merged_ok info (info\<lparr> vtBalanceItem := ma_items a, aveTimeSum := ma_sum a \<rparr>)"
proof -
  have same: "map slaveIp (ma_items a) = map slaveIp (vtBalanceItem info)"
    "map aveTime (ma_items a) = map aveTime (vtBalanceItem info)"
    "map succCount (ma_items a) = map succCount (vtBalanceItem info)"
    "map timeoutCount (ma_items a) = map timeoutCount (vtBalanceItem info)"
    "ma_sum a = sum_list (map aveTime (vtBalanceItem info))"
    using inv by (simp_all add: merge_inv_def)
  have "nonneg_item i" if "i \<in> set (ma_items a)" for i
  proof -
    have "aveTime i \<in> set (map aveTime (ma_items a))" "succCount i \<in> set (map succCount (ma_items a))"
      "timeoutCount i \<in> set (map timeoutCount (ma_items a))"
      using that by auto
    with nn show ?thesis unfolding same by (auto simp: nonneg_item_def)
  qed
  then show ?thesis
    using assms(2) inv by (simp add: merged_ok_def same merge_inv_def)
qed

lemma merge_one:
  assumes "mergeLoadInfo_one info = Some info'" and "aveTimeSum info = 0"
    and "\<forall>i \<in> set (vtBalanceItem info). nonneg_item i"
  shows "merged_ok info info'"
proof -
  let ?start = "\<lparr> ma_map = [], ma_items = [], ma_sum = aveTimeSum info, ma_repeat = False \<rparr>"
  obtain a where a: "fold_opt merge_item (vtBalanceItem info) ?start = Some a"
    using assms(1) by (auto simp: mergeLoadInfo_one_def bind_eq_Some_conv)
  have inv: "merge_inv (vtBalanceItem info) a"
    using merge_loop_inv[OF a, of "[]"] assms(2,3) by (simp add: merge_inv_def)
  show ?thesis
  proof (cases "ma_repeat a")
    case True
    then obtain s where "fold_opt (\<lambda>i s. ck32 (s + aveTime i)) (map (averaged \<circ> snd) (ma_map a)) 0 = Some s"
      "info' = info\<lparr> vtBalanceItem := map (averaged \<circ> snd) (ma_map a), aveTimeSum := s \<rparr>"
      using assms(1) a by (auto simp: mergeLoadInfo_one_def bind_eq_Some_conv Let_def)
    with merged_repeat[OF inv] show ?thesis by simp
  next
    case False
    with assms(1) a merged_single[OF inv False assms(3)] show ?thesis
      by (simp add: mergeLoadInfo_one_def)
  qed
qed

section \<open>Bounds of the weights\<close>

lemma timeout_rate_bounds:
  assumes "timeoutRateWeight i = Some w" and "nonneg_item i"
  shows "10 \<le> w \<and> w \<le> 100"
proof (cases "succCount i = 0")
  case True
  with assms show ?thesis by (auto simp: timeoutRateWeight_def split: if_splits)
next
  case False
  let ?s = "succCount i" and ?t = "timeoutCount i"
  have st: "0 < ?s" "0 \<le> ?t" using False assms(2) by (auto simp: nonneg_item_def)
  have w: "w = 100 - ?t * 90 div (?s + ?t)"
    using assms(1) False st by (auto simp: timeoutRateWeight_def bind_eq_Some_conv ck64_Some ck32_Some split: if_splits)
  have "?t * 90 div (?s + ?t) \<le> 90 * (?s + ?t) div (?s + ?t)"
    using st by (intro zdiv_mono1) auto
  moreover have "90 * (?s + ?t) div (?s + ?t) = 90"
    using st by (intro nonzero_mult_div_cancel_right) auto
  ultimately have "?t * 90 div (?s + ?t) \<le> 90" by simp
  moreover have "0 \<le> ?t * 90 div (?s + ?t)"
    using st by (simp add: pos_imp_zdiv_nonneg_iff)
  ultimately show ?thesis by (simp add: w)
qed

text \<open>The weight from the average time, without the intermediate overflow checks.\<close>

definition raised :: "int \<Rightarrow> int" where
  "raised w = (if w \<le> 0 then MIN_WEIGHT else w)"

definition time_weight :: "int \<Rightarrow> int \<Rightarrow> int \<Rightarrow> int" where
  "time_weight n tot ave = raised (if tot = 0 then 0 else 100 * n * (tot - ave) div tot)"

lemma ave_weight_value:
  assumes "0 \<le> ave" and "ave \<le> tot" and "0 \<le> n" and w: "aveTimeWeight n tot ave = Some w"
  shows "w = time_weight n tot ave"
proof (cases "tot = 0")
  case True
  with w show ?thesis by (simp add: aveTimeWeight_def time_weight_def raised_def)
next
  case False
  then have "0 < tot" and "0 \<le> 100 * n * (tot - ave)" using assms(1-3) by simp_all
  with w False show ?thesis
    by (auto simp: aveTimeWeight_def time_weight_def raised_def bind_eq_Some_conv ck32_Some)
qed

lemma ave_weight_defined:
  assumes "0 \<le> ave" and "ave \<le> tot" and "1 \<le> n" and bound: "100 * n * (tot - ave) < 2 ^ 31"
    and n: "100 * n < 2 ^ 31" and t: "tot < 2 ^ 31"
  shows "aveTimeWeight n tot ave = Some (time_weight n tot ave)"
proof (cases "tot = 0")
  case True
  then show ?thesis by (simp add: aveTimeWeight_def time_weight_def raised_def)
next
  case False
  let ?p = "100 * n * (tot - ave)"
  have pos: "0 < tot" "0 \<le> ?p" using False assms(1-3) by simp_all
  have "?p div tot \<le> ?p" using zdiv_mono2[of ?p 1 tot] pos by simp
  then have "c_div ?p tot = ?p div tot" "0 \<le> ?p div tot" "?p div tot < 2 ^ 31"
    using pos bound by (simp_all add: pos_imp_zdiv_nonneg_iff)
  with False pos assms show ?thesis
    by (simp add: aveTimeWeight_def time_weight_def raised_def)
qed

lemma time_weight_bounds:
  assumes "0 \<le> ave" and "ave \<le> tot" and "1 \<le> n"
  shows "1 \<le> time_weight n tot ave \<and> time_weight n tot ave \<le> 100 * n"
proof (cases "tot = 0")
  case True
  with assms(3) show ?thesis by (simp add: time_weight_def raised_def)
next
  case False
  then have pos: "0 < tot" using assms by simp
  have "100 * n * (tot - ave) div tot \<le> (100 * n * tot) div tot"
    using pos assms by (intro zdiv_mono1 mult_left_mono) simp_all
  then have "100 * n * (tot - ave) div tot \<le> 100 * n" using pos by simp
  with False assms(3) show ?thesis by (auto simp: time_weight_def raised_def)
qed

text \<open>A slower node never gets more: at most one node of an entry can fall below the floor of 10.\<close>

lemma time_weight_mono:
  assumes "0 \<le> a" and "a \<le> b" and "a + b \<le> tot" and n: "1 \<le> n"
  shows "time_weight n tot b \<le> time_weight n tot a"
proof (cases "tot = 0")
  case True
  then show ?thesis by (simp add: time_weight_def)
next
  case False
  with assms have pos: "0 < tot" by linarith
  let ?r = "\<lambda>x. 100 * n * (tot - x) div tot"
  have le: "?r b \<le> ?r a"
    using pos assms by (intro zdiv_mono1 mult_left_mono) simp_all
  have half: "50 * n \<le> ?r a"
  proof -
    have "2 * a \<le> tot" using assms by linarith
    then have "tot \<le> 2 * (tot - a)" by simp
    then have "50 * n * tot \<le> 50 * n * (2 * (tot - a))" using n by (intro mult_left_mono) simp_all
    then have "50 * n * tot \<le> 100 * n * (tot - a)" by (simp add: algebra_simps)
    then have "(50 * n * tot) div tot \<le> ?r a" using pos by (rule zdiv_mono1)
    then show ?thesis using pos by simp
  qed
  with le n False show ?thesis by (simp add: time_weight_def raised_def)
qed

lemma ave_time_overflow_iff:
  assumes "1 \<le> n" and "0 < a" and "n * a < 2 ^ 31" and "100 * n < 2 ^ 31"
  shows "aveTimeWeight n (n * a) a \<noteq> None \<longleftrightarrow> 100 * n * (n * a - a) < 2 ^ 31"
proof
  assume "aveTimeWeight n (n * a) a \<noteq> None"
  with assms show "100 * n * (n * a - a) < 2 ^ 31"
    by (auto simp: aveTimeWeight_def bind_eq_Some_conv ck32_Some)
next
  assume "100 * n * (n * a - a) < 2 ^ 31"
  moreover have "a \<le> n * a" using assms(1,2) by simp
  ultimately show "aveTimeWeight n (n * a) a \<noteq> None"
    using ave_weight_defined[of a "n * a" n] assms by simp
qed

text \<open>The timeout weight as a function of the timeout rate, and that it only falls with it.\<close>

lemma timeout_weight_value:
  assumes "nonneg_item i" and "timeoutRateWeight i = Some w" and "0 < succCount i + timeoutCount i"
  shows "w = 100 - timeoutCount i * 90 div (succCount i + timeoutCount i)"
  using assms by (auto simp: timeoutRateWeight_def nonneg_item_def bind_eq_Some_conv ck64_Some ck32_Some split: if_splits)

lemma timeout_weight_mono:
  assumes "nonneg_item i" "nonneg_item j"
    and "timeoutRateWeight i = Some wi" "timeoutRateWeight j = Some wj"
    and rate: "timeoutCount i * (succCount j + timeoutCount j) \<le> timeoutCount j * (succCount i + timeoutCount i)"
    and j: "0 < succCount j + timeoutCount j"
  shows "wj \<le> wi"
proof (cases "succCount i + timeoutCount i = 0")
  case True
  with assms(1) have "succCount i = 0" "timeoutCount i = 0" by (auto simp: nonneg_item_def)
  with assms(3) have "wi = 100" by (simp add: timeoutRateWeight_def)
  with timeout_rate_bounds[OF assms(4,2)] show ?thesis by simp
next
  case False
  with assms(1) have i: "0 < succCount i + timeoutCount i" by (auto simp: nonneg_item_def)
  let ?ti = "timeoutCount i" and ?tj = "timeoutCount j"
  let ?ni = "succCount i + ?ti" and ?nj = "succCount j + ?tj"
  have "?ti * 90 div ?ni = ?ti * 90 * ?nj div (?ni * ?nj)" using j by simp
  also have "\<dots> \<le> ?tj * 90 * ?ni div (?ni * ?nj)"
  proof (rule zdiv_mono1)
    show "0 < ?ni * ?nj" using i j by simp
    have "90 * (?ti * ?nj) \<le> 90 * (?tj * ?ni)" using rate by simp
    then show "?ti * 90 * ?nj \<le> ?tj * 90 * ?ni" by (simp add: algebra_simps)
  qed
  also have "\<dots> = ?tj * 90 div ?nj" using i by (simp add: mult.commute[of ?ni])
  finally show ?thesis
    using timeout_weight_value[OF assms(1,3) i] timeout_weight_value[OF assms(2,4) j] by simp
qed

section \<open>The weights of an entry\<close>

lemma calc_items:
  assumes "calculateWeight_one th info = Some info'"
  shows "length (vtBalanceItem info') = length (vtBalanceItem info) \<and>
    (\<forall>k < length (vtBalanceItem info).
       item_weight th (int (length (vtBalanceItem info))) (aveTimeSum info) (vtBalanceItem info ! k) =
         Some (vtBalanceItem info' ! k))"
  using assms by (auto simp: calculateWeight_one_def Let_def split: if_splits dest: map_opt_Some)

text \<open>The weight of one item from its two component weights.\<close>

definition blend :: "load_balance_thread \<Rightarrow> int \<Rightarrow> int \<Rightarrow> int" where
  "blend th aw tw = aw * getProportion th ''timeout-consuming'' div 100 +
     tw * getProportion th ''timeout-weight'' div 100"

definition proportions_ok :: "load_balance_thread \<Rightarrow> bool" where
  "proportions_ok th \<longleftrightarrow> 0 \<le> getProportion th ''timeout-consuming'' \<and> 0 \<le> getProportion th ''timeout-weight'' \<and>
     getProportion th ''timeout-consuming'' + getProportion th ''timeout-weight'' \<le> 100"

lemma item_weight_value:
  assumes "item_weight th n tot i = Some i'" and p: "proportions_ok th" and i: "nonneg_item i"
    and ave: "aveTime i \<le> tot" and n: "1 \<le> n"
  shows "\<exists>tw. timeoutRateWeight i = Some tw \<and> lb_weight i' = blend th (time_weight n tot (aveTime i)) tw"
proof -
  obtain aw tw where aw: "aveTimeWeight n tot (aveTime i) = Some aw" and tw: "timeoutRateWeight i = Some tw"
    and i': "i' = i\<lparr> lb_weight := c_div (aw * getProportion th ''timeout-consuming'') 100 +
         c_div (tw * getProportion th ''timeout-weight'') 100 \<rparr>"
    using assms(1) by (auto simp: item_weight_def bind_eq_Some_conv ck32_Some)
  have "aw = time_weight n tot (aveTime i)"
    using ave_weight_value[OF _ ave _ aw] i n by (simp add: nonneg_item_def)
  moreover from this time_weight_bounds[OF _ ave n] i have "0 \<le> aw" by (simp add: nonneg_item_def)
  ultimately show ?thesis
    using p timeout_rate_bounds[OF tw i] tw by (simp add: i' blend_def proportions_ok_def)
qed

lemma blend_mono:
  "proportions_ok th \<Longrightarrow> a \<le> b \<Longrightarrow> t \<le> u \<Longrightarrow> blend th a t \<le> blend th b u"
  unfolding blend_def proportions_ok_def
  by (intro add_mono zdiv_mono1 mult_right_mono) simp_all

lemma blend_bounds:
  assumes p: "proportions_ok th" and "0 \<le> a" "a \<le> 100 * n" "0 \<le> t" "t \<le> 100 * n" and n: "1 \<le> n"
  shows "0 \<le> blend th a t \<and> blend th a t \<le> 100 * n"
proof -
  let ?p = "getProportion th ''timeout-consuming''" and ?q = "getProportion th ''timeout-weight''"
  have "blend th a t \<le> 100 * n * ?p div 100 + 100 * n * ?q div 100"
    using blend_mono[OF p assms(3,5)] by (simp add: blend_def)
  also have "\<dots> = n * (?p + ?q)" by (simp add: algebra_simps)
  also have "\<dots> \<le> n * 100" using p n by (intro mult_left_mono) (simp_all add: proportions_ok_def)
  finally show ?thesis
    using assms by (simp add: blend_def proportions_ok_def pos_imp_zdiv_nonneg_iff)
qed

lemma timeout_weight_defined:
  assumes "nonneg_item i" "succCount i < 2 ^ 56" "timeoutCount i < 2 ^ 56"
  shows "\<exists>tw. timeoutRateWeight i = Some tw"
proof (cases "succCount i = 0")
  case True
  then show ?thesis by (simp add: timeoutRateWeight_def)
next
  case False
  let ?s = "succCount i" and ?t = "timeoutCount i"
  have st: "0 < ?s" "0 \<le> ?t" using False assms(1) by (auto simp: nonneg_item_def)
  have "?t * 90 div (?s + ?t) \<le> 90 * (?s + ?t) div (?s + ?t)"
    using st by (intro zdiv_mono1) auto
  moreover have "90 * (?s + ?t) div (?s + ?t) = 90"
    using st by (intro nonzero_mult_div_cancel_right) auto
  moreover have "0 \<le> ?t * 90 div (?s + ?t)" using st by (simp add: pos_imp_zdiv_nonneg_iff)
  ultimately have "ck32 (100 - ?t * 90 div (?s + ?t)) = Some (100 - ?t * 90 div (?s + ?t))" by simp
  moreover have "ck64 (?t * 90) = Some (?t * 90)" "ck64 (?s + ?t) = Some (?s + ?t)"
    using st assms by simp_all
  ultimately show ?thesis using st by (simp add: timeoutRateWeight_def)
qed

lemma item_weight_defined:
  assumes p: "proportions_ok th" and i: "nonneg_item i" "succCount i < 2 ^ 56" "timeoutCount i < 2 ^ 56"
    and ave: "aveTime i \<le> tot" and n: "1 \<le> n" "n \<le> 200000" and t: "100 * n * tot < 2 ^ 31"
  shows "\<exists>i'. item_weight th n tot i = Some i' \<and> 0 \<le> lb_weight i' \<and> lb_weight i' \<le> 100 * n"
proof -
  let ?p = "getProportion th ''timeout-consuming''" and ?q = "getProportion th ''timeout-weight''"
  let ?aw = "time_weight n tot (aveTime i)"
  have a0: "0 \<le> aveTime i" using i by (simp add: nonneg_item_def)
  have "100 * n * (tot - aveTime i) \<le> 100 * n * tot" using a0 n by (intro mult_left_mono) simp_all
  moreover have "tot \<le> 100 * n * tot" using mult_right_mono[of 1 "100 * n" tot] n ave a0 by simp
  ultimately have bounds: "100 * n * (tot - aveTime i) < 2 ^ 31" "tot < 2 ^ 31"
    using t by linarith+
  have n31: "100 * n < 2 ^ 31" using n by simp
  have "aveTimeWeight n tot (aveTime i) = Some ?aw"
    by (rule ave_weight_defined[OF a0 ave n(1) bounds(1) n31 bounds(2)])
  moreover obtain tw where tw: "timeoutRateWeight i = Some tw" using timeout_weight_defined[OF i] by blast
  moreover have aw: "1 \<le> ?aw" "?aw \<le> 100 * n" using time_weight_bounds[OF a0 ave n(1)] by simp_all
  moreover have twb: "10 \<le> tw" "tw \<le> 100" using timeout_rate_bounds[OF tw i(1)] by simp_all
  moreover have "?aw * ?p \<le> (100 * n) * 100" "tw * ?q \<le> 100 * 100"
    using p aw twb by (intro mult_mono; simp add: proportions_ok_def)+
  moreover have "0 \<le> ?aw * ?p" "0 \<le> tw * ?q" using p aw twb by (simp_all add: proportions_ok_def)
  moreover have "0 \<le> blend th ?aw tw" "blend th ?aw tw \<le> 100 * n"
    using blend_bounds[OF p, of ?aw n tw] aw twb n by simp_all
  ultimately show ?thesis
    using n by (simp add: item_weight_def blend_def)
qed

lemma member_le_sum:
  fixes f :: "'a \<Rightarrow> int"
  shows "i \<in> set xs \<Longrightarrow> \<forall>x \<in> set xs. 0 \<le> f x \<Longrightarrow> f i \<le> sum_list (map f xs)"
proof (induction xs)
  case (Cons x xs)
  have "0 \<le> sum_list (map f xs)" using Cons.prems(2) by (intro sum_list_nonneg) auto
  with Cons show ?case by auto
qed simp

lemma two_members_le_sum:
  fixes f :: "'a \<Rightarrow> int"
  shows "k < length xs \<Longrightarrow> l < length xs \<Longrightarrow> k \<noteq> l \<Longrightarrow> \<forall>x \<in> set xs. 0 \<le> f x \<Longrightarrow>
    f (xs ! k) + f (xs ! l) \<le> sum_list (map f xs)"
proof (induction xs arbitrary: k l)
  case (Cons x xs)
  show ?case
  proof (cases k)
    case 0
    with Cons.prems obtain l' where "l = Suc l'" by (cases l) auto
    with 0 Cons.prems member_le_sum[of "xs ! l'" xs f] show ?thesis by simp
  next
    case (Suc k')
    show ?thesis
    proof (cases l)
      case 0
      with Suc Cons.prems member_le_sum[of "xs ! k'" xs f] show ?thesis by simp
    next
      case (Suc l')
      with \<open>k = Suc k'\<close> Cons.prems Cons.IH[of k' l'] show ?thesis by simp
    qed
  qed
qed simp

lemma item_weight_keeps:
  "item_weight th n tot i = Some i' \<Longrightarrow> i' = i\<lparr> lb_weight := lb_weight i' \<rparr>"
  by (auto simp: item_weight_def bind_eq_Some_conv)

section \<open>Adjusting an endpoint list\<close>

text \<open>What stays of an endpoint when its weight is replaced.\<close>

definition unweighted :: "endpoint_f \<Rightarrow> endpoint_f" where
  "unweighted ep = ep\<lparr> weight := 0, weightType := 0 \<rparr>"

text \<open>
  The contract the lookups rely on: whatever list they hand to the balancer comes back with the
  same endpoints in the same order, up to the attribute that the balancer owns.
\<close>

locale list_adjuster =
  fixes adjust :: "'s \<Rightarrow> 'e list \<Rightarrow> 'e list"
    and same :: "'e \<Rightarrow> 'k"
  assumes adjust_same: "map same (adjust s eps) = map same eps"
begin

lemma adjust_length: "length (adjust s eps) = length eps"
  using arg_cong[OF adjust_same[of s eps], of length] by simp

lemma adjust_Nil_iff: "adjust s eps = [] \<longleftrightarrow> eps = []"
  using adjust_length[of s eps] by auto

lemma adjust_members: "same ` set (adjust s eps) = same ` set eps"
  using arg_cong[OF adjust_same[of s eps], of set] by simp

end

lemma node_weight_same: "unweighted (node_weight items ep) = unweighted ep"
  by (simp add: node_weight_def unweighted_def Let_def split: option.split)

lemma getDynamicWeight_same: "map unweighted (getDynamicWeight th s eps) = map unweighted eps"
proof -
  have "unweighted (ep\<lparr> weightType := t \<rparr>) = unweighted ep" for ep t
    by (simp add: unweighted_def)
  then show ?thesis
    by (auto simp: getDynamicWeight_def Let_def node_weight_same split: option.split)
qed

interpretation balancer: list_adjuster "getDynamicWeight th" unweighted for th
  by unfold_locales (rule getDynamicWeight_same)

section \<open>Properties\<close>

text \<open>
  Fact (merge_conserves). Merging leaves one item per node in every entry, keeps the set
  of nodes, loses no answered and no timed-out call, and makes the entry's time sum the sum over
  the merged items.
\<close>

theorem merge_conserves:
  assumes "mergeLoadInfo c = Some c'" and "k < length c"
    and "aveTimeSum (snd (c ! k)) = 0" and "\<forall>i \<in> set (vtBalanceItem (snd (c ! k))). nonneg_item i"
  shows "length c' = length c \<and> fst (c' ! k) = fst (c ! k) \<and> merged_ok (snd (c ! k)) (snd (c' ! k))"
proof -
  have len: "length c' = length c"
    and "map_option (Pair (fst (c ! k))) (mergeLoadInfo_one (snd (c ! k))) = Some (c' ! k)"
    using map_opt_Some[OF assms(1)[unfolded mergeLoadInfo_def]] assms(2) by auto
  then obtain info where "mergeLoadInfo_one (snd (c ! k)) = Some info" "c' ! k = (fst (c ! k), info)" by auto
  with len merge_one assms(3,4) show ?thesis by simp
qed

text \<open>
  Fact (weights_defined). For a merged entry with up to 200000 nodes whose counts fit 56
  bits and whose times satisfy \<open>100 * n * sum < 2^31\<close>, and proportions that are not negative
  and add up to at most 100, the calculation has no undefined arithmetic and every weight lies
  between 0 and \<open>100 * n\<close>.
\<close>

theorem weights_defined:
  assumes "n = int (length (vtBalanceItem info))" "1 \<le> n" "n \<le> 200000" and "proportions_ok th"
    and tot: "aveTimeSum info = sum_list (map aveTime (vtBalanceItem info))" "100 * n * aveTimeSum info < 2 ^ 31"
    and items: "\<forall>i \<in> set (vtBalanceItem info). nonneg_item i \<and> succCount i < 2 ^ 56 \<and> timeoutCount i < 2 ^ 56"
  shows "\<exists>info'. calculateWeight_one th info = Some info' \<and>
    (\<forall>i \<in> set (vtBalanceItem info'). 0 \<le> lb_weight i \<and> lb_weight i \<le> 100 * n)"
proof -
  let ?f = "item_weight th n (aveTimeSum info)"
  have ok: "\<exists>i'. ?f i = Some i' \<and> 0 \<le> lb_weight i' \<and> lb_weight i' \<le> 100 * n"
    if "i \<in> set (vtBalanceItem info)" for i
  proof -
    have "aveTime i \<le> aveTimeSum info"
      unfolding tot(1) by (rule member_le_sum[OF that]) (use items in \<open>auto simp: nonneg_item_def\<close>)
    with items that item_weight_defined[OF assms(4) _ _ _ _ assms(2,3) tot(2)] show ?thesis by blast
  qed
  obtain items' where m: "map_opt ?f (vtBalanceItem info) = Some items'"
    using map_opt_total[of "vtBalanceItem info" ?f] ok by fastforce
  have "0 \<le> lb_weight i \<and> lb_weight i \<le> 100 * n" if "i \<in> set items'" for i
  proof -
    from that obtain k where "k < length items'" "i = items' ! k" by (auto simp: in_set_conv_nth)
    with map_opt_Some[OF m] ok[of "vtBalanceItem info ! k"] show ?thesis by auto
  qed
  moreover have "vtBalanceItem info \<noteq> []" using assms(1,2) by auto
  ultimately show ?thesis
    using m assms(1) by (simp add: calculateWeight_one_def Let_def)
qed

text \<open>
  Property C5 (better_node_no_lighter). Between two nodes of a merged entry, the one that answers
  no slower and whose timeout rate is no higher never gets the smaller weight, floors, truncations
  and the blend of the two component weights included.
\<close>

theorem better_node_no_lighter:
  assumes "calculateWeight_one th info = Some info'" and "proportions_ok th"
    and tot: "aveTimeSum info = sum_list (map aveTime (vtBalanceItem info))"
    and items: "\<forall>i \<in> set (vtBalanceItem info). nonneg_item i"
    and kl: "k < length (vtBalanceItem info)" "l < length (vtBalanceItem info)" "k \<noteq> l"
    and it: "i = vtBalanceItem info ! k" "j = vtBalanceItem info ! l"
    and faster: "aveTime i \<le> aveTime j"
    and rate: "timeoutCount i * (succCount j + timeoutCount j) \<le> timeoutCount j * (succCount i + timeoutCount i)"
    and j: "0 < succCount j + timeoutCount j"
  shows "lb_weight (vtBalanceItem info' ! l) \<le> lb_weight (vtBalanceItem info' ! k)"
proof -
  let ?n = "int (length (vtBalanceItem info))" and ?T = "aveTimeSum info"
  have nn: "nonneg_item i" "nonneg_item j" using items kl it by auto
  have n: "1 \<le> ?n" using kl by simp
  have two: "aveTime i + aveTime j \<le> ?T"
    unfolding tot it by (rule two_members_le_sum[OF kl]) (use items in \<open>auto simp: nonneg_item_def\<close>)
  then have each: "aveTime i \<le> ?T" "aveTime j \<le> ?T" using nn by (auto simp: nonneg_item_def)
  obtain ti where ti: "timeoutRateWeight i = Some ti"
    "lb_weight (vtBalanceItem info' ! k) = blend th (time_weight ?n ?T (aveTime i)) ti"
    using item_weight_value[OF _ assms(2) nn(1) each(1) n] calc_items[OF assms(1)] kl it by blast
  obtain tj where tj: "timeoutRateWeight j = Some tj"
    "lb_weight (vtBalanceItem info' ! l) = blend th (time_weight ?n ?T (aveTime j)) tj"
    using item_weight_value[OF _ assms(2) nn(2) each(2) n] calc_items[OF assms(1)] kl it by blast
  have "time_weight ?n ?T (aveTime j) \<le> time_weight ?n ?T (aveTime i)"
    using nn(1) by (intro time_weight_mono[OF _ faster two n]) (simp add: nonneg_item_def)
  moreover have "tj \<le> ti" by (rule timeout_weight_mono[OF nn ti(1) tj(1) rate j])
  ultimately show ?thesis
    unfolding ti tj by (rule blend_mono[OF assms(2)])
qed

text \<open>
  Fact (even_load_overflow). With \<open>n\<close> nodes that all answer in \<open>a\<close> milliseconds the
  32-bit product overflows exactly when \<open>100 * n * (n - 1) * a\<close> reaches \<open>2^31\<close>; one hundred nodes
  at three seconds are enough.
\<close>

theorem even_load_overflow:
  assumes "1 \<le> n" and "0 < a" and "n * a < 2 ^ 31" and "100 * n < 2 ^ 31"
  shows "aveTimeWeight n (n * a) a = None \<longleftrightarrow> 2 ^ 31 \<le> 100 * n * (n - 1) * a"
  using ave_time_overflow_iff[OF assms] by (auto simp: algebra_simps)

text \<open>
  Fact (weights_keep_endpoints). The balancer hands back the same endpoints in the same
  order; it touches only weight and weight type, and only of endpoints whose type is dynamic.
  No endpoint leaves with the dynamic type when the switch is off or the servant has no load entry.
\<close>

theorem weights_keep_endpoints:
  "map unweighted (getDynamicWeight th servant eps) = map unweighted eps \<and>
   (\<forall>k < length eps. weightType (eps ! k) \<noteq> LOAD_BALANCE_DYNAMIC_WEIGHT \<longrightarrow>
      getDynamicWeight th servant eps ! k = eps ! k) \<and>
   (servant \<noteq> [] \<and> (dynamicSwitch th = 0 \<or> find_load (loadCache th) servant = None) \<longrightarrow>
      (\<forall>ep \<in> set (getDynamicWeight th servant eps). weightType ep \<noteq> LOAD_BALANCE_DYNAMIC_WEIGHT))"
proof (intro conjI)
  show "map unweighted (getDynamicWeight th servant eps) = map unweighted eps"
    by (rule balancer.adjust_same)
  show "\<forall>k < length eps. weightType (eps ! k) \<noteq> LOAD_BALANCE_DYNAMIC_WEIGHT \<longrightarrow>
      getDynamicWeight th servant eps ! k = eps ! k"
    by (auto simp: getDynamicWeight_def Let_def split: option.split)
  show "servant \<noteq> [] \<and> (dynamicSwitch th = 0 \<or> find_load (loadCache th) servant = None) \<longrightarrow>
      (\<forall>ep \<in> set (getDynamicWeight th servant eps). weightType ep \<noteq> LOAD_BALANCE_DYNAMIC_WEIGHT)"
    by (auto simp: getDynamicWeight_def Let_def split: option.split if_splits)
qed

section \<open>Examples\<close>

definition item_at :: "string \<Rightarrow> int \<Rightarrow> int \<Rightarrow> int \<Rightarrow> load_balance_item" where
  "item_at ip ok tmo ave = \<lparr> statTime = ''1200'', date = ''20240101'', slaveName = ''App.Svr'', slaveIp = ip,
     succCount = ok, timeoutCount = tmo, aveTime = ave, aveCount = 0, lb_port = 0, lb_weight = 0, lb_weightType = 0 \<rparr>"

definition sample_thread :: load_balance_thread where
  "sample_thread = \<lparr> loadCache = [], loadInterval = 120,
     mapLoad2Proportion = [(''timeout-consuming'', 60), (''timeout-weight'', 40)], dynamicSwitch = 1 \<rparr>"

definition sample_info :: load_balance_info where
  "sample_info = \<lparr> vtBalanceItem = [item_at ''10.0.0.1'' 90 10 20, item_at ''10.0.0.2'' 50 50 60], aveTimeSum = 80 \<rparr>"

definition repeated_load :: load_cache where
  "repeated_load = [(''App.Svr'', \<lparr> vtBalanceItem =
     [item_at ''10.0.0.1'' 90 10 20, item_at ''10.0.0.2'' 50 50 60, item_at ''10.0.0.1'' 10 0 40], aveTimeSum = 0 \<rparr>)]"

lemma merge_conserves_witness:
  "\<exists>c'. mergeLoadInfo repeated_load = Some c' \<and>
     merged_ok (snd (repeated_load ! 0)) (snd (c' ! 0)) \<and> length (vtBalanceItem (snd (c' ! 0))) = 2"
proof -
  let ?c' = "[(''App.Svr'', \<lparr> vtBalanceItem =
     [(item_at ''10.0.0.1'' 100 10 30)\<lparr> aveCount := 2 \<rparr>, (item_at ''10.0.0.2'' 50 50 60)\<lparr> aveCount := 1 \<rparr>],
     aveTimeSum = 90 \<rparr>)]"
  have "mergeLoadInfo repeated_load = Some ?c'" by code_simp
  moreover from merge_conserves[OF this, of 0] have "merged_ok (snd (repeated_load ! 0)) (snd (?c' ! 0))"
    by (simp add: repeated_load_def item_at_def nonneg_item_def)
  ultimately show ?thesis by (intro exI[of _ ?c']) simp
qed

lemma weights_defined_witness: "\<exists>info'. calculateWeight_one sample_thread sample_info = Some info'"
  using weights_defined[of 2 sample_info sample_thread]
  by (auto simp: sample_info_def sample_thread_def item_at_def nonneg_item_def proportions_ok_def
      getProportion_def om_get_def)

lemma better_node_no_lighter_witness:
  "\<exists>info'. calculateWeight_one sample_thread sample_info = Some info' \<and>
     lb_weight (vtBalanceItem info' ! 1) \<le> lb_weight (vtBalanceItem info' ! 0)"
proof -
  let ?info' = "\<lparr> vtBalanceItem = [(item_at ''10.0.0.1'' 90 10 20)\<lparr> lb_weight := 126 \<rparr>,
     (item_at ''10.0.0.2'' 50 50 60)\<lparr> lb_weight := 52 \<rparr>], aveTimeSum = 80 \<rparr>"
  have c: "calculateWeight_one sample_thread sample_info = Some ?info'" by code_simp
  have "lb_weight (vtBalanceItem ?info' ! 1) \<le> lb_weight (vtBalanceItem ?info' ! 0)"
    by (rule better_node_no_lighter[OF c, where i = "item_at ''10.0.0.1'' 90 10 20" and j = "item_at ''10.0.0.2'' 50 50 60"])
      (simp_all add: sample_info_def sample_thread_def item_at_def nonneg_item_def proportions_ok_def
        getProportion_def om_get_def)
  with c show ?thesis by blast
qed

lemma even_load_overflow_witness: "aveTimeWeight 100 (100 * 3000) 3000 = None"
  using even_load_overflow[of 100 3000] by simp

definition dynamic_ep :: endpoint_f where
  "dynamic_ep = \<lparr> host = ''10.0.0.1'', port = 9000, timeout = 3000, istcp = TCP, nodeName = ''10.0.0.1'',
     authType = 0, grouprealid = 1, groupworkid = 1, setId = [], bakFlag = 0, weight = 100, weightType = 2 \<rparr>"

lemma weights_keep_endpoints_witness:
  "getDynamicWeight (sample_thread\<lparr> dynamicSwitch := 0 \<rparr>) ''App.Svr.Obj''
      [dynamic_ep, dynamic_ep\<lparr> weightType := 1 \<rparr>] ! 1 = dynamic_ep\<lparr> weightType := 1 \<rparr> \<and>
   weightType (getDynamicWeight (sample_thread\<lparr> dynamicSwitch := 0 \<rparr>) ''App.Svr.Obj''
      [dynamic_ep, dynamic_ep\<lparr> weightType := 1 \<rparr>] ! 0) \<noteq> 2"
proof -
  let ?eps = "[dynamic_ep, dynamic_ep\<lparr> weightType := 1 \<rparr>]"
  let ?out = "getDynamicWeight (sample_thread\<lparr> dynamicSwitch := 0 \<rparr>) ''App.Svr.Obj'' ?eps"
  note k = weights_keep_endpoints[of "sample_thread\<lparr> dynamicSwitch := 0 \<rparr>" "''App.Svr.Obj''" ?eps]
  have "?out ! 1 = ?eps ! 1"
    using k[THEN conjunct2, THEN conjunct1, rule_format, of 1] by simp
  moreover have "?out ! 0 \<in> set ?out"
    using arg_cong[OF k[THEN conjunct1], of length] by (intro nth_mem) simp
  ultimately show ?thesis using k by simp
qed

end
