(* ===== verification/Reg_Query.thy ===== *)
theory Reg_Query
  imports Reg_Balance
begin

text \<open>
  \<open>RegistryServer/DbHandle\<close>, part 3, and \<open>RegistryServer/QueryImp\<close>: the lookups clients call.
  Every lookup reads the caches that \<open>Reg_Load\<close> fills, selects endpoints by group, station or
  set, and passes the active list through the balancer. Output parameters are an explicit pair
  (active, inactive): the set lookups append to what the caller passed. The trace stream \<open>os\<close>,
  which only the day log reads, is left out.
\<close>

section \<open>State\<close>

record registry =
  db :: db_handle
  lb :: load_balance_thread

type_synonym outputs = "endpoint_f list \<times> endpoint_f list"

definition cache_item :: "registry \<Rightarrow> string \<Rightarrow> object_item option" where
  "cache_item r sid = om_find (objectsCache (db r)) sid"

section \<open>Selection by group\<close>

datatype group_use_select = ENUM_USE_WORK_GROUPID | ENUM_USE_REAL_GROUPID

definition getEpsByGroupId :: "endpoint_f list \<Rightarrow> group_use_select \<Rightarrow> int \<Rightarrow> endpoint_f list" where
  "getEpsByGroupId vecEps sel iGroupId =
     concat (map (\<lambda>ep. (if sel = ENUM_USE_WORK_GROUPID \<and> groupworkid ep = iGroupId then [ep] else []) @
                       (if sel = ENUM_USE_REAL_GROUPID \<and> grouprealid ep = iGroupId then [ep] else [])) vecEps)"

definition getEpsByGroupIds :: "endpoint_f list \<Rightarrow> group_use_select \<Rightarrow> int set \<Rightarrow> endpoint_f list" where
  "getEpsByGroupIds vecEps sel ids =
     concat (map (\<lambda>ep. (if sel = ENUM_USE_WORK_GROUPID \<and> groupworkid ep \<in> ids then [ep] else []) @
                       (if sel = ENUM_USE_REAL_GROUPID \<and> grouprealid ep \<in> ids then [ep] else [])) vecEps)"

lemma eps_by_group:
  "getEpsByGroupId eps ENUM_USE_WORK_GROUPID g = filter (\<lambda>ep. groupworkid ep = g) eps"
  "getEpsByGroupIds eps ENUM_USE_WORK_GROUPID G = filter (\<lambda>ep. groupworkid ep \<in> G) eps"
  "getEpsByGroupIds eps ENUM_USE_REAL_GROUPID G = filter (\<lambda>ep. grouprealid ep \<in> G) eps"
  by (induction eps) (auto simp: getEpsByGroupId_def getEpsByGroupIds_def)

section \<open>Lookups\<close>

definition db_findObjectById :: "registry \<Rightarrow> string \<Rightarrow> endpoint_f list" where
  "db_findObjectById r sid =
     (case cache_item r sid of
        Some it \<Rightarrow> getDynamicWeight (lb r) sid (vActiveEndpoints it)
      | None \<Rightarrow> [])"

definition db_findObjectById4All :: "registry \<Rightarrow> string \<Rightarrow> int \<times> outputs" where
  "db_findObjectById4All r sid =
     (case cache_item r sid of
        Some it \<Rightarrow> (0, getDynamicWeight (lb r) sid (vActiveEndpoints it), vInactiveEndpoints it)
      | None \<Rightarrow> (0, [], []))"

definition db_findObjectByIdInSameGroup :: "tc_common \<Rightarrow> registry \<Rightarrow> string \<Rightarrow> string \<Rightarrow> int \<times> outputs" where
  "db_findObjectByIdInSameGroup tc r sid ip =
     (let iClientGroupId = getGroupId tc (groups (db r)) ip
      in if iClientGroupId = -1 then db_findObjectById4All r sid
         else
           let (act, inact) = (case cache_item r sid of
                 None \<Rightarrow> ([], [])
               | Some it \<Rightarrow>
                   let out1 = (getEpsByGroupId (vActiveEndpoints it) ENUM_USE_WORK_GROUPID iClientGroupId,
                               getEpsByGroupId (vInactiveEndpoints it) ENUM_USE_WORK_GROUPID iClientGroupId);
                       out2 = (if fst out1 = []
                               then (getEpsByGroupId (vActiveEndpoints it) ENUM_USE_WORK_GROUPID (-1),
                                     getEpsByGroupId (vInactiveEndpoints it) ENUM_USE_WORK_GROUPID (-1))
                               else out1)
                   in if fst out2 = [] then (vActiveEndpoints it, vInactiveEndpoints it) else out2)
           in (0, getDynamicWeight (lb r) sid act, inact))"

text \<open>The loop over the priority sequence; it stops as soon as an entry yields active nodes.\<close>

fun priority_loop :: "int \<Rightarrow> object_item \<Rightarrow> group_priority_entry list \<Rightarrow> outputs \<Rightarrow> outputs" where
  "priority_loop g it [] out = out"
| "priority_loop g it (e # es) out =
     (if fst out \<noteq> [] then out
      else if g \<notin> setGroupID e then priority_loop g it es out
      else priority_loop g it es
             (getEpsByGroupIds (vActiveEndpoints it) ENUM_USE_WORK_GROUPID (setGroupID e),
              getEpsByGroupIds (vInactiveEndpoints it) ENUM_USE_WORK_GROUPID (setGroupID e)))"

definition db_findObjectByIdInGroupPriority :: "tc_common \<Rightarrow> registry \<Rightarrow> string \<Rightarrow> string \<Rightarrow> int \<times> outputs" where
  "db_findObjectByIdInGroupPriority tc r sid ip =
     (let iClientGroupID = getGroupId tc (groups (db r)) ip
      in if iClientGroupID = -1 then db_findObjectById4All r sid
         else case cache_item r sid of
             None \<Rightarrow> (0, [], [])
           | Some it \<Rightarrow>
               let out1 = (getEpsByGroupId (vActiveEndpoints it) ENUM_USE_WORK_GROUPID iClientGroupID,
                           getEpsByGroupId (vInactiveEndpoints it) ENUM_USE_WORK_GROUPID iClientGroupID);
                   out2 = priority_loop iClientGroupID it (mapGroupPriority (db r)) out1;
                   out3 = (if fst out2 = []
                           then (getEpsByGroupId (vActiveEndpoints it) ENUM_USE_WORK_GROUPID (-1),
                                 getEpsByGroupId (vInactiveEndpoints it) ENUM_USE_WORK_GROUPID (-1))
                           else out2);
                   out4 = (if fst out3 = [] then (vActiveEndpoints it, vInactiveEndpoints it) else out3)
               in (0, getDynamicWeight (lb r) sid (fst out4), snd out4))"

definition db_findObjectByIdInSameStation :: "registry \<Rightarrow> string \<Rightarrow> string \<Rightarrow> int \<times> outputs" where
  "db_findObjectByIdInSameStation r sid sStation' =
     (case List.find (\<lambda>e. sStation e = sStation') (mapGroupPriority (db r)) of
        None \<Rightarrow> (-1, [], [])
      | Some e \<Rightarrow>
          (case cache_item r sid of
             None \<Rightarrow> (0, [], [])
           | Some it \<Rightarrow>
               (0, getDynamicWeight (lb r) sid
                     (getEpsByGroupIds (vActiveEndpoints it) ENUM_USE_REAL_GROUPID (setGroupID e)),
                getEpsByGroupIds (vInactiveEndpoints it) ENUM_USE_REAL_GROUPID (setGroupID e))))"

text \<open>The loop both set lookups share: append every entry that satisfies the test.\<close>

definition take_set_servers :: "(set_server_info \<Rightarrow> bool) \<Rightarrow> set_server_info list \<Rightarrow> outputs \<Rightarrow> outputs" where
  "take_set_servers P infos out =
     fold (\<lambda>i (act, inact). if P i then (if bActive i then (act @ [epf i], inact) else (act, inact @ [epf i]))
                            else (act, inact)) infos out"

definition set_result :: "outputs \<Rightarrow> int" where
  "set_result out = (if fst out = [] \<and> snd out = [] then -2 else 0)"

definition db_findInSetId :: "string \<Rightarrow> set_server_info list \<Rightarrow> outputs \<Rightarrow> int \<times> outputs" where
  "db_findInSetId setid infos out =
     (let out' = take_set_servers (\<lambda>i. sSetId i = setid) infos out in (set_result out', out'))"

definition db_findObjectByIdInSameSet :: "registry \<Rightarrow> string \<Rightarrow> string list \<Rightarrow> outputs \<Rightarrow> int \<times> outputs" where
  "db_findObjectByIdInSameSet r sid vt out =
     (let sSetName = vt ! 0;
          area = vt ! 0 @ ''.'' @ vt ! 1;
          setid = vt ! 0 @ ''.'' @ vt ! 1 @ ''.'' @ vt ! 2
      in case om_find (setDivisionCache (db r)) sid of
           None \<Rightarrow> (-1, out)
         | Some names \<Rightarrow>
             (case om_find names sSetName of
                None \<Rightarrow> (-1, out)
              | Some infos \<Rightarrow>
                  if vt ! 2 = ''*'' then
                    (let out' = take_set_servers (\<lambda>i. sSetArea i = area) infos out;
                         act = getDynamicWeight (lb r) sid (fst out')
                     in (set_result (act, snd out'), act, snd out'))
                  else
                    (let (iRet, out1) = db_findInSetId setid infos out;
                         (iRet, out2) = (if iRet \<noteq> 0 \<and> vt ! 2 \<noteq> ''*''
                                         then db_findInSetId (vt ! 0 @ ''.'' @ vt ! 1 @ ''.*'') infos out1
                                         else (iRet, out1))
                     in (iRet, getDynamicWeight (lb r) sid (fst out2), snd out2))))"

section \<open>The servant's operations\<close>

text \<open>\<open>host\<close> is \<open>current->getHostName()\<close>.\<close>

definition q_findObjectById :: "registry \<Rightarrow> string \<Rightarrow> endpoint_f list" where
  "q_findObjectById r sid = db_findObjectById r sid"

definition q_findObjectById4Any :: "registry \<Rightarrow> string \<Rightarrow> int \<times> outputs" where
  "q_findObjectById4Any r sid = db_findObjectById4All r sid"

definition q_findObjectById4All :: "tc_common \<Rightarrow> registry \<Rightarrow> string \<Rightarrow> string \<Rightarrow> int \<times> outputs" where
  "q_findObjectById4All tc r ip sid = db_findObjectByIdInGroupPriority tc r sid ip"

definition q_findObjectByIdInSameGroup :: "tc_common \<Rightarrow> registry \<Rightarrow> string \<Rightarrow> string \<Rightarrow> int \<times> outputs" where
  "q_findObjectByIdInSameGroup tc r ip sid = db_findObjectByIdInGroupPriority tc r sid ip"

definition q_findObjectByIdInSameStation :: "registry \<Rightarrow> string \<Rightarrow> string \<Rightarrow> int \<times> outputs" where
  "q_findObjectByIdInSameStation r sid station = db_findObjectByIdInSameStation r sid station"

definition q_findObjectByIdInSameSet ::
  "tc_common \<Rightarrow> registry \<Rightarrow> string \<Rightarrow> string \<Rightarrow> string \<Rightarrow> outputs \<Rightarrow> int \<times> outputs" where
  "q_findObjectByIdInSameSet tc r ip sid setid out =
     (let vtSetInfo = tc_sepstr tc setid ''.'' False
      in if length vtSetInfo \<noteq> 3 \<or> (length vtSetInfo = 3 \<and> (vtSetInfo ! 0 = ''*'' \<or> vtSetInfo ! 1 = ''*''))
         then (-1, out)
         else let (iRet, out') = db_findObjectByIdInSameSet r sid vtSetInfo out
              in if iRet = -1 then q_findObjectByIdInSameGroup tc r ip sid
                 else if iRet = -2 then (-1, out')
                 else if iRet = -3 then (-1, out')
                 else (iRet, out'))"

section \<open>The day log\<close>

datatype funid = FUNID_findObjectById | FUNID_findObjectById4Any | FUNID_findObjectById4All
  | FUNID_findObjectByIdInSameGroup | FUNID_findObjectByIdInSameStation | FUNID_findObjectByIdInSameSet

fun eFunTostr :: "funid \<Rightarrow> string" where
  "eFunTostr FUNID_findObjectByIdInSameGroup = ''findObjectByIdInSameGroup''"
| "eFunTostr FUNID_findObjectByIdInSameSet = ''findObjectByIdInSameSet''"
| "eFunTostr FUNID_findObjectById4Any = ''findObjectById4All''"
| "eFunTostr FUNID_findObjectById = ''findObjectById''"
| "eFunTostr FUNID_findObjectById4All = ''findObjectById4All''"
| "eFunTostr FUNID_findObjectByIdInSameStation = ''findObjectByIdInSameStation''"

fun daylog_name :: "funid \<Rightarrow> string" where
  "daylog_name FUNID_findObjectById4All = ''query_idc''"
| "daylog_name FUNID_findObjectByIdInSameGroup = ''query_idc''"
| "daylog_name FUNID_findObjectByIdInSameSet = ''query_set''"
| "daylog_name _ = ''query''"

section \<open>The order of the stages\<close>

text \<open>
  What the group lookup promises: the first of the following selections that has an active node
  decides for both lists: the client's own group; each entry of the priority sequence that names
  the client's group; the nodes outside every group; all nodes.
\<close>

definition stages :: "int \<Rightarrow> group_priority_entry list \<Rightarrow> (endpoint_f \<Rightarrow> bool) list" where
  "stages g prios = [\<lambda>ep. groupworkid ep = g] @
     map (\<lambda>e ep. groupworkid ep \<in> setGroupID e) (filter (\<lambda>e. g \<in> setGroupID e) prios) @
     [\<lambda>ep. groupworkid ep = -1]"

definition first_stage :: "(endpoint_f \<Rightarrow> bool) list \<Rightarrow> object_item \<Rightarrow> endpoint_f \<Rightarrow> bool" where
  "first_stage ps it =
     (case List.find (\<lambda>P. \<exists>ep \<in> set (vActiveEndpoints it). P ep) ps of Some P \<Rightarrow> P | None \<Rightarrow> \<lambda>_. True)"

definition pick :: "(endpoint_f \<Rightarrow> bool) \<Rightarrow> object_item \<Rightarrow> outputs" where
  "pick P it = (filter P (vActiveEndpoints it), filter P (vInactiveEndpoints it))"

lemma pick_empty: "fst (pick P it) = [] \<longleftrightarrow> \<not> (\<exists>ep \<in> set (vActiveEndpoints it). P ep)"
  by (simp add: pick_def filter_empty_conv)

lemma find_append:
  "List.find P (xs @ ys) = (case List.find P xs of Some x \<Rightarrow> Some x | None \<Rightarrow> List.find P ys)"
  by (induction xs) simp_all

lemma priority_loop_stop: "fst out \<noteq> [] \<Longrightarrow> priority_loop g it es out = out"
  by (cases es) simp_all

lemma priority_loop_find:
  "fst out = [] \<Longrightarrow>
   (case List.find (\<lambda>P. \<exists>ep \<in> set (vActiveEndpoints it). P ep)
           (map (\<lambda>e ep. groupworkid ep \<in> setGroupID e) (filter (\<lambda>e. g \<in> setGroupID e) es)) of
      Some P \<Rightarrow> priority_loop g it es out = pick P it
    | None \<Rightarrow> fst (priority_loop g it es out) = [])"
proof (induction es arbitrary: out)
  case Nil
  then show ?case by simp
next
  case (Cons e es)
  let ?P = "\<lambda>ep. groupworkid ep \<in> setGroupID e"
  show ?case
  proof (cases "g \<in> setGroupID e")
    case False
    then have step: "priority_loop g it (e # es) out = priority_loop g it es out"
      using Cons.prems by simp
    show ?thesis
      using Cons.IH[OF Cons.prems] False unfolding step by simp
  next
    case True
    then have step: "priority_loop g it (e # es) out = priority_loop g it es (pick ?P it)"
      using Cons.prems by (simp add: eps_by_group pick_def)
    show ?thesis
    proof (cases "\<exists>ep \<in> set (vActiveEndpoints it). ?P ep")
      case found: True
      then have "priority_loop g it es (pick ?P it) = pick ?P it"
        by (intro priority_loop_stop) (simp add: pick_empty)
      with found True step show ?thesis by simp
    next
      case none: False
      then have "fst (pick ?P it) = []" by (simp add: pick_empty)
      from Cons.IH[OF this] none True show ?thesis unfolding step by simp
    qed
  qed
qed

lemma group_lookup_stages:
  assumes "getGroupId tc (groups (db r)) ip = g" and "g \<noteq> -1" and it: "cache_item r sid = Some it"
  defines "P \<equiv> first_stage (stages g (mapGroupPriority (db r))) it"
  shows "db_findObjectByIdInGroupPriority tc r sid ip =
    (0, getDynamicWeight (lb r) sid (filter P (vActiveEndpoints it)), filter P (vInactiveEndpoints it))"
proof -
  let ?own = "\<lambda>ep. groupworkid ep = g" and ?none = "\<lambda>ep. groupworkid ep = -1"
  let ?hit = "\<lambda>P. \<exists>ep \<in> set (vActiveEndpoints it). P ep"
  let ?ps = "map (\<lambda>e ep. groupworkid ep \<in> setGroupID e) (filter (\<lambda>e. g \<in> setGroupID e) (mapGroupPriority (db r)))"
  let ?o2 = "priority_loop g it (mapGroupPriority (db r)) (pick ?own it)"
  let ?o3 = "if fst ?o2 = [] then pick ?none it else ?o2"
  let ?o4 = "if fst ?o3 = [] then (vActiveEndpoints it, vInactiveEndpoints it) else ?o3"
  have code: "db_findObjectByIdInGroupPriority tc r sid ip = (0, getDynamicWeight (lb r) sid (fst ?o4), snd ?o4)"
    using assms(1,2) by (simp add: db_findObjectByIdInGroupPriority_def it Let_def eps_by_group pick_def)
  have "?o4 = pick P it"
  proof (cases "?hit ?own")
    case True
    then have "?o2 = pick ?own it" by (intro priority_loop_stop) (simp add: pick_empty)
    moreover have "P = ?own" using True by (simp add: P_def first_stage_def stages_def)
    ultimately show ?thesis using True by (simp add: pick_empty)
  next
    case False
    then have "fst (pick ?own it) = []" by (simp add: pick_empty)
    note loop = priority_loop_find[where it = it and g = g and es = "mapGroupPriority (db r)", OF this]
    show ?thesis
    proof (cases "List.find ?hit ?ps")
      case None
      then have "fst ?o2 = []" using loop by simp
      moreover have "P = (if ?hit ?none then ?none else (\<lambda>_. True))"
        using False None by (simp add: P_def first_stage_def stages_def find_append)
      ultimately show ?thesis by (simp add: pick_empty) (simp add: pick_def)
    next
      case (Some Q)
      then have "?o2 = pick Q it" using loop by simp
      moreover from Some have "?hit Q" by (auto simp: find_Some_iff)
      moreover have "P = Q" using False Some by (simp add: P_def first_stage_def stages_def find_append)
      ultimately show ?thesis by (simp add: pick_empty)
    qed
  qed
  then show ?thesis unfolding code by (simp add: pick_def)
qed

lemma first_stage_hits:
  "vActiveEndpoints it \<noteq> [] \<Longrightarrow> \<exists>ep \<in> set (vActiveEndpoints it). first_stage ps it ep"
  by (cases "vActiveEndpoints it") (auto simp: first_stage_def find_Some_iff split: option.split)

section \<open>What a set lookup returns\<close>

lemma take_set_servers_eq:
  "take_set_servers P infos (a, i) =
     (a @ map epf (filter (\<lambda>x. P x \<and> bActive x) infos), i @ map epf (filter (\<lambda>x. P x \<and> \<not> bActive x) infos))"
  by (induction infos arbitrary: a i) (simp_all add: take_set_servers_def)

lemma find_in_set_some:
  "\<exists>x \<in> set infos. sSetId x = s \<Longrightarrow> db_findInSetId s infos ([], []) =
     (0, map epf (filter (\<lambda>x. sSetId x = s \<and> bActive x) infos), map epf (filter (\<lambda>x. sSetId x = s \<and> \<not> bActive x) infos))"
  by (auto simp: db_findInSetId_def take_set_servers_eq set_result_def Let_def filter_empty_conv)

lemma find_in_set_none:
  "\<not> (\<exists>x \<in> set infos. sSetId x = s) \<Longrightarrow> db_findInSetId s infos ([], []) = (-2, [], [])"
  by (auto simp: db_findInSetId_def take_set_servers_eq set_result_def Let_def filter_empty_conv)

section \<open>The contract of a lookup\<close>

text \<open>
  Every lookup returns only endpoints the caches list for the servant, the active ones as active
  and the inactive ones as inactive.
\<close>

definition listed :: "registry \<Rightarrow> string \<Rightarrow> outputs \<Rightarrow> bool" where
  "listed r sid out \<longleftrightarrow>
     unweighted ` set (fst out) \<subseteq> unweighted ` set (eps_of True (om_get empty_item (objectsCache (db r)) sid)) \<and>
     set (snd out) \<subseteq> set (eps_of False (om_get empty_item (objectsCache (db r)) sid))"

locale endpoint_lookup =
  fixes answer :: "registry \<Rightarrow> string \<Rightarrow> outputs"
  assumes answer_listed: "cache_agree (db r) \<Longrightarrow> listed r sid (answer r sid)"
begin

lemma unknown_servant:
  assumes "cache_agree (db r)" and "cache_item r sid = None"
  shows "answer r sid = ([], [])"
  using answer_listed[OF assms(1), of sid] assms(2)
  by (cases "answer r sid") (simp add: listed_def cache_item_def om_get_def empty_item_def)

lemma no_active_node:
  assumes "cache_agree (db r)" and "cache_item r sid = Some it" and "vActiveEndpoints it = []"
  shows "fst (answer r sid) = []"
  using answer_listed[OF assms(1), of sid] assms(2,3) by (simp add: listed_def cache_item_def om_get_def)

lemma known_hosts:
  assumes "cache_agree (db r)" and "ep \<in> set (fst (answer r sid))"
  shows "host ep \<in> host ` set (vActiveEndpoints (om_get empty_item (objectsCache (db r)) sid))"
proof -
  have "unweighted ep \<in> unweighted ` set (vActiveEndpoints (om_get empty_item (objectsCache (db r)) sid))"
    using answer_listed[OF assms(1), of sid] assms(2) by (auto simp: listed_def)
  then obtain e where "e \<in> set (vActiveEndpoints (om_get empty_item (objectsCache (db r)) sid))"
    and "unweighted ep = unweighted e" by blast
  moreover from this(2) have "host (unweighted ep) = host (unweighted e)" by simp
  then have "host ep = host e" by (simp add: unweighted_def)
  ultimately show ?thesis by blast
qed

end

lemma listed_weighted:
  "listed r sid (a, i) \<Longrightarrow> listed r sid (getDynamicWeight th s a, i)"
  by (simp add: listed_def balancer.adjust_members)

lemma listed_mono:
  "listed r sid (a, i) \<Longrightarrow> set a' \<subseteq> set a \<Longrightarrow> set i' \<subseteq> set i \<Longrightarrow> listed r sid (a', i')"
  by (force simp: listed_def)

lemma listed_item: "cache_item r sid = Some it \<Longrightarrow> listed r sid (vActiveEndpoints it, vInactiveEndpoints it)"
  by (simp add: listed_def cache_item_def om_get_def)

lemma listed_Nil [simp]: "listed r sid ([], [])"
  by (simp add: listed_def)

lemma listed_4All: "listed r sid (snd (db_findObjectById4All r sid))"
  by (auto simp: db_findObjectById4All_def split: option.split intro!: listed_weighted listed_item)

lemma listed_group: "listed r sid (snd (db_findObjectByIdInGroupPriority tc r sid ip))"
proof (cases "getGroupId tc (groups (db r)) ip = -1")
  case True
  then show ?thesis by (simp add: db_findObjectByIdInGroupPriority_def listed_4All)
next
  case False
  show ?thesis
  proof (cases "cache_item r sid")
    case None
    with False show ?thesis by (simp add: db_findObjectByIdInGroupPriority_def)
  next
    case (Some it)
    show ?thesis
      unfolding group_lookup_stages[OF refl False Some] snd_conv
      by (intro listed_weighted listed_mono[OF listed_item[OF Some]]) auto
  qed
qed

lemma listed_station: "listed r sid (snd (db_findObjectByIdInSameStation r sid st))"
  by (auto simp: db_findObjectByIdInSameStation_def eps_by_group split: option.split
      intro!: listed_weighted listed_mono[OF listed_item])

lemma listed_set_infos:
  assumes "cache_agree (db r)" and "om_find (setDivisionCache (db r)) sid = Some names"
    and "om_find names nm = Some infos"
  shows "listed r sid (map epf (filter (\<lambda>x. P x \<and> bActive x) infos), map epf (filter (\<lambda>x. Q x \<and> \<not> bActive x) infos))"
proof -
  have "epf x \<in> set (eps_of (bActive x) (om_get empty_item (objectsCache (db r)) sid))" if "x \<in> set infos" for x
    using sets_agreeD[OF assms(1)[unfolded cache_agree_def], of x sid nm] assms(2,3) that by (simp add: om_get_def)
  then show ?thesis unfolding listed_def by (fastforce split: if_splits)
qed

lemma listed_set:
  assumes "cache_agree (db r)"
  shows "listed r sid (snd (db_findObjectByIdInSameSet r sid vt ([], [])))"
proof (cases "om_find (setDivisionCache (db r)) sid")
  case None
  then show ?thesis by (simp add: db_findObjectByIdInSameSet_def Let_def)
next
  case names: (Some names)
  show ?thesis
  proof (cases "om_find names (vt ! 0)")
    case None
    with names show ?thesis by (simp add: db_findObjectByIdInSameSet_def Let_def)
  next
    case (Some infos)
    note infos = listed_set_infos[OF assms names Some]
    have both: "listed r sid (map epf (filter (\<lambda>x. P x \<and> bActive x) infos) @ map epf (filter (\<lambda>x. Q x \<and> bActive x) infos),
        map epf (filter (\<lambda>x. P x \<and> \<not> bActive x) infos) @ map epf (filter (\<lambda>x. Q x \<and> \<not> bActive x) infos))" for P Q
      by (rule listed_mono[OF infos[of "\<lambda>x. P x \<or> Q x" "\<lambda>x. P x \<or> Q x"]]) auto
    show ?thesis
      using names Some infos both
      by (auto simp: db_findObjectByIdInSameSet_def Let_def db_findInSetId_def take_set_servers_eq
          split: if_splits intro!: listed_weighted)
  qed
qed

lemma listed_sameSet:
  assumes "cache_agree (db r)"
  shows "listed r sid (snd (q_findObjectByIdInSameSet tc r ip sid setid ([], [])))"
  using listed_set[OF assms, of sid "tc_sepstr tc setid ''.'' False"]
  by (auto simp: q_findObjectByIdInSameSet_def q_findObjectByIdInSameGroup_def Let_def listed_group split: prod.split)

interpretation any_lookup: endpoint_lookup "\<lambda>r sid. snd (q_findObjectById4Any r sid)"
  by unfold_locales (simp add: q_findObjectById4Any_def listed_4All)

interpretation id_lookup: endpoint_lookup "\<lambda>r sid. (q_findObjectById r sid, [])"
  by unfold_locales
    (auto simp: q_findObjectById_def db_findObjectById_def listed_mono[OF listed_item]
      split: option.split intro!: listed_weighted)

interpretation group_lookup: endpoint_lookup "\<lambda>r sid. snd (q_findObjectById4All tc r ip sid)" for tc ip
  by unfold_locales (simp add: q_findObjectById4All_def listed_group)

interpretation same_group_lookup: endpoint_lookup "\<lambda>r sid. snd (q_findObjectByIdInSameGroup tc r ip sid)" for tc ip
  by unfold_locales (simp add: q_findObjectByIdInSameGroup_def listed_group)

interpretation station_lookup: endpoint_lookup "\<lambda>r sid. snd (q_findObjectByIdInSameStation r sid station)" for station
  by unfold_locales (simp add: q_findObjectByIdInSameStation_def listed_station)

interpretation set_lookup: endpoint_lookup "\<lambda>r sid. snd (q_findObjectByIdInSameSet tc r ip sid setid ([], []))"
  for tc ip setid
  by unfold_locales (rule listed_sameSet)

section \<open>Properties\<close>

text \<open>
  Property C1 (group_lookup_first_stage). For a client inside a group, the group lookup answers 0
  with exactly the endpoints of the first stage that has an active node: own group, the priority
  entries that name the group in sequence order, the nodes outside every group, all nodes. The
  active list goes through the balancer, the inactive list is selected by the same stage.
\<close>

theorem group_lookup_first_stage:
  assumes "getGroupId tc (groups (db r)) ip = g" and "g \<noteq> -1" and "cache_item r sid = Some it"
    and "P = first_stage (stages g (mapGroupPriority (db r))) it"
  shows "q_findObjectById4All tc r ip sid =
    (0, getDynamicWeight (lb r) sid (filter P (vActiveEndpoints it)), filter P (vInactiveEndpoints it))"
  unfolding q_findObjectById4All_def assms(4) by (rule group_lookup_stages[OF assms(1-3)])

text \<open>
  Fact (same_group_is_group_lookup). The older same-group lookup is the group lookup of a
  registry whose priority sequence is empty.
\<close>

theorem same_group_is_group_lookup:
  "db_findObjectByIdInSameGroup tc r sid ip =
     db_findObjectByIdInGroupPriority tc (r\<lparr> db := (db r)\<lparr> mapGroupPriority := [] \<rparr> \<rparr>) sid ip"
  by (auto simp: db_findObjectByIdInSameGroup_def db_findObjectByIdInGroupPriority_def Let_def cache_item_def
      db_findObjectById4All_def getDynamicWeight_def eps_by_group split: option.split)

text \<open>
  Fact (active_node_is_found). As long as the cache lists an active node for a servant,
  every client gets at least one active node, whatever its group and the priority sequence.
\<close>

theorem active_node_is_found:
  assumes "cache_item r sid = Some it" and "vActiveEndpoints it \<noteq> []"
  shows "q_findObjectById r sid \<noteq> [] \<and> fst (snd (q_findObjectById4Any r sid)) \<noteq> [] \<and>
    fst (snd (q_findObjectById4All tc r ip sid)) \<noteq> [] \<and> fst (snd (q_findObjectByIdInSameGroup tc r ip sid)) \<noteq> []"
proof -
  have all: "fst (snd (db_findObjectById4All r sid)) \<noteq> []"
    using assms by (simp add: db_findObjectById4All_def balancer.adjust_Nil_iff)
  have "fst (snd (db_findObjectByIdInGroupPriority tc r sid ip)) \<noteq> []"
  proof (cases "getGroupId tc (groups (db r)) ip = -1")
    case True
    with all show ?thesis by (simp add: db_findObjectByIdInGroupPriority_def)
  next
    case False
    show ?thesis
      unfolding group_lookup_stages[OF refl False assms(1)]
      using first_stage_hits[OF assms(2)] by (simp add: balancer.adjust_Nil_iff filter_empty_conv)
  qed
  with all assms show ?thesis
    by (simp add: q_findObjectById_def db_findObjectById_def q_findObjectById4Any_def q_findObjectById4All_def
        q_findObjectByIdInSameGroup_def balancer.adjust_Nil_iff)
qed

text \<open>
  Property C2 (lookups_return_listed). With caches that agree (which every load keeps), each of the
  six lookups returns only endpoints that the cache lists for the servant: active ones as active up
  to the weight the balancer sets, inactive ones as inactive.
\<close>

theorem lookups_return_listed:
  assumes "cache_agree (db r)"
  shows "listed r sid (q_findObjectById r sid, []) \<and> listed r sid (snd (q_findObjectById4Any r sid)) \<and>
    listed r sid (snd (q_findObjectById4All tc r ip sid)) \<and>
    listed r sid (snd (q_findObjectByIdInSameGroup tc r ip sid)) \<and>
    listed r sid (snd (q_findObjectByIdInSameStation r sid station)) \<and>
    listed r sid (snd (q_findObjectByIdInSameSet tc r ip sid setid ([], [])))"
  using assms
  by (intro conjI id_lookup.answer_listed any_lookup.answer_listed group_lookup.answer_listed
      same_group_lookup.answer_listed station_lookup.answer_listed set_lookup.answer_listed)

text \<open>
  Property C7 (set_lookup_selects). A client with the set id \<open>name.area.group\<close> whose set the servant
  uses gets the endpoints of its own set group; only when that group has no node at all, neither
  active nor inactive, those of the wildcard group \<open>name.area.*\<close>; when both are empty the call
  fails with -1 and returns nothing. A servant without that set is answered by group.
\<close>

theorem set_lookup_selects:
  assumes "tc_sepstr tc setid ''.'' False = [name, area, grp]" and "name \<noteq> ''*''" "area \<noteq> ''*''" "grp \<noteq> ''*''"
    and "infos = om_get [] (om_get [] (setDivisionCache (db r)) sid) name"
    and "used \<longleftrightarrow> (\<exists>names. om_find (setDivisionCache (db r)) sid = Some names \<and> om_find names name \<noteq> None)"
    and "own = name @ ''.'' @ area @ ''.'' @ grp" and "wild = name @ ''.'' @ area @ ''.*''"
    and "sel = (if \<exists>x \<in> set infos. sSetId x = own then own else wild)"
  shows "q_findObjectByIdInSameSet tc r ip sid setid ([], []) =
    (if \<not> used then q_findObjectByIdInSameGroup tc r ip sid
     else ((if \<exists>x \<in> set infos. sSetId x = sel then 0 else -1),
       getDynamicWeight (lb r) sid (map epf (filter (\<lambda>x. sSetId x = sel \<and> bActive x) infos)),
       map epf (filter (\<lambda>x. sSetId x = sel \<and> \<not> bActive x) infos)))"
proof -
  let ?has = "\<lambda>s. \<exists>x \<in> set infos. sSetId x = s"
  let ?out = "\<lambda>s. (map epf (filter (\<lambda>x. sSetId x = s \<and> bActive x) infos),
    map epf (filter (\<lambda>x. sSetId x = s \<and> \<not> bActive x) infos))"
  show ?thesis
  proof (cases used)
    case False
    then have "db_findObjectByIdInSameSet r sid [name, area, grp] ([], []) = (-1, [], [])"
      using assms(6) by (auto simp: db_findObjectByIdInSameSet_def Let_def split: option.split)
    with False assms(1-4) show ?thesis by (simp add: q_findObjectByIdInSameSet_def Let_def)
  next
    case True
    then obtain names where names: "om_find (setDivisionCache (db r)) sid = Some names" "om_find names name = Some infos"
      using assms(5,6) by (auto simp: om_get_def)
    let ?wildcard = "if ?has own then db_findInSetId own infos ([], []) else db_findInSetId wild infos ([], [])"
    have "db_findObjectByIdInSameSet r sid [name, area, grp] ([], []) =
      (fst ?wildcard, getDynamicWeight (lb r) sid (fst (snd ?wildcard)), snd (snd ?wildcard))"
      using names assms(4) find_in_set_some[of infos own] find_in_set_none[of infos own]
      by (cases "?has own") (simp_all add: db_findObjectByIdInSameSet_def assms(7,8) split_beta Let_def)
    also have "?wildcard = db_findInSetId sel infos ([], [])"
      by (simp add: assms(9))
    also have "\<dots> = (if ?has sel then (0, ?out sel) else (-2, [], []))"
    proof (cases "?has sel")
      case True
      show ?thesis unfolding if_P[OF True] by (rule find_in_set_some[OF True])
    next
      case False
      show ?thesis unfolding if_not_P[OF False] by (rule find_in_set_none[OF False])
    qed
    finally have code: "db_findObjectByIdInSameSet r sid [name, area, grp] ([], []) =
      (if ?has sel then (0, getDynamicWeight (lb r) sid (fst (?out sel)), snd (?out sel))
       else (-2, getDynamicWeight (lb r) sid [], []))" by simp
    have none: "?out sel = ([], [])" if "\<not> ?has sel" using that by (auto simp: filter_empty_conv)
    show ?thesis
      using True code none assms(1-3) by (cases "?has sel") (simp_all add: q_findObjectByIdInSameSet_def Let_def)
  qed
qed

section \<open>Examples\<close>

definition ep_in :: "string \<Rightarrow> int \<Rightarrow> endpoint_f" where
  "ep_in h g = dynamic_ep\<lparr> host := h, groupworkid := g, grouprealid := g, weightType := 0 \<rparr>"

definition sample_registry :: registry where
  "sample_registry = \<lparr> db = sample_db\<lparr>
       objectsCache := [(''App.Svr.Obj'',
         \<lparr> vActiveEndpoints = [ep_in ''10.0.1.1'' 1, ep_in ''10.0.2.1'' 2], vInactiveEndpoints = [ep_in ''10.0.3.1'' 3] \<rparr>)],
       setDivisionCache := [(''App.Svr.Obj'', [(''prod'',
         [\<lparr> sSetId = ''prod.sz.*'', sSetArea = ''prod.sz'', bActive = True, epf = ep_in ''10.0.2.1'' 2 \<rparr>])])],
       mapGroupPriority := [\<lparr> sGroupID = ''1'', sStation = ''sz'', setGroupID = {2, 3} \<rparr>],
       groups := \<lparr> groupIdMap = [(''10.0.3.7'', 3)], groupNameMap = [] \<rparr> \<rparr>,
     lb = sample_thread \<rparr>"

lemma sample_item: "cache_item sample_registry ''App.Svr.Obj'' =
  Some \<lparr> vActiveEndpoints = [ep_in ''10.0.1.1'' 1, ep_in ''10.0.2.1'' 2], vInactiveEndpoints = [ep_in ''10.0.3.1'' 3] \<rparr>"
  by (simp add: sample_registry_def cache_item_def)

lemma sample_group: "getGroupId sample_tc (groups (db sample_registry)) ''10.0.3.7'' = 3"
  by (simp add: sample_registry_def getGroupId_def)

lemma sample_unbalanced: "getDynamicWeight (lb sample_registry) s [ep_in h g] = [ep_in h g]"
  by (simp add: sample_registry_def sample_thread_def getDynamicWeight_def find_load_def ep_in_def
      dynamic_ep_def split: option.split)

theorem group_lookup_first_stage_witness:
  "q_findObjectById4All sample_tc sample_registry ''10.0.3.7'' ''App.Svr.Obj'' =
     (0, [ep_in ''10.0.2.1'' 2], [ep_in ''10.0.3.1'' 3])"
proof -
  let ?it = "\<lparr> vActiveEndpoints = [ep_in ''10.0.1.1'' 1, ep_in ''10.0.2.1'' 2], vInactiveEndpoints = [ep_in ''10.0.3.1'' 3] \<rparr>"
  have w: "groupworkid (ep_in h g) = g" for h g by (simp add: ep_in_def)
  have "first_stage (stages 3 (mapGroupPriority (db sample_registry))) ?it = (\<lambda>ep. groupworkid ep \<in> {2, 3})"
    by (simp add: first_stage_def stages_def sample_registry_def w)
  note group_lookup_first_stage[OF sample_group _ sample_item this[symmetric]]
  then show ?thesis by (simp add: w sample_unbalanced)
qed

theorem active_node_is_found_witness:
  "q_findObjectById sample_registry ''App.Svr.Obj'' \<noteq> [] \<and>
   fst (snd (q_findObjectById4All sample_tc sample_registry ''1.2.3.4'' ''App.Svr.Obj'')) \<noteq> []"
  using active_node_is_found[OF sample_item, of sample_tc "''1.2.3.4''"] by simp

theorem lookups_return_listed_witness:
  "listed sample_registry ''App.Svr.Obj'' (snd (q_findObjectById4All sample_tc sample_registry ''10.0.3.7'' ''App.Svr.Obj''))"
proof -
  have "cache_agree (db sample_registry)"
    by (auto simp: cache_agree_def sets_agree_def sample_registry_def om_get_def split: if_splits option.splits)
  from lookups_return_listed[OF this, of "''App.Svr.Obj''" sample_tc "''10.0.3.7''"] show ?thesis by simp
qed

theorem set_lookup_selects_witness:
  "q_findObjectByIdInSameSet sample_tc sample_registry ''10.0.3.7'' ''App.Svr.Obj'' ''prod.sz.7'' ([], []) =
     (0, [ep_in ''10.0.2.1'' 2], [])"
proof -
  let ?info = "\<lparr> sSetId = ''prod.sz.*'', sSetArea = ''prod.sz'', bActive = True, epf = ep_in ''10.0.2.1'' 2 \<rparr>"
  have "om_get [] (om_get [] (setDivisionCache (db sample_registry)) ''App.Svr.Obj'') ''prod'' = [?info]"
    by (simp add: sample_registry_def om_get_def)
  moreover have "\<exists>names. om_find (setDivisionCache (db sample_registry)) ''App.Svr.Obj'' = Some names \<and>
      om_find names ''prod'' \<noteq> None"
    by (simp add: sample_registry_def)
  moreover have "tc_sepstr sample_tc ''prod.sz.7'' ''.'' False = [''prod'', ''sz'', ''7'']"
    by (simp add: sample_tc_def)
  moreover have "sSetId ?info \<noteq> ''prod.sz.7''" "sSetId ?info = ''prod.sz.*''" by simp_all
  ultimately have "q_findObjectByIdInSameSet sample_tc sample_registry ''10.0.3.7'' ''App.Svr.Obj'' ''prod.sz.7'' ([], []) =
    (if \<not> True then q_findObjectByIdInSameGroup sample_tc sample_registry ''10.0.3.7'' ''App.Svr.Obj''
     else ((if \<exists>x \<in> set [?info]. sSetId x = ''prod.sz.*'' then 0 else -1),
       getDynamicWeight (lb sample_registry) ''App.Svr.Obj''
         (map epf (filter (\<lambda>x. sSetId x = ''prod.sz.*'' \<and> bActive x) [?info])),
       map epf (filter (\<lambda>x. sSetId x = ''prod.sz.*'' \<and> \<not> bActive x) [?info])))"
    by (intro set_lookup_selects[where name = "''prod''" and area = "''sz''" and grp = "''7''"
        and own = "''prod.sz.7''" and wild = "''prod.sz.*''"]) simp_all
  then show ?thesis by (simp add: sample_unbalanced)
qed

end
