(* ===== verification/Spec2Isabelle.thy ===== *)
theory Spec2Isabelle
  imports Admin_Task Config_Server Patch_Server Property_Server Reg_Descr Reg_Nodes Reg_Query
begin

text \<open>
  \<^bold>\<open>TarsFramework: a model of the framework services.\<close>

  TarsFramework is the control plane of Tars: the registry tells clients where the servants of an
  application run, every machine has a node that starts, stops and watches the servers on it and
  reports their states to the registry, and further services patch, configure, count and notify.
  The theories translate the C++ sources below \<open>src/\<close> function by function, with the names of the
  code. The database, the file system, the process table, docker, remote calls and the utility
  library \<open>tarscpp\<close> (a submodule that is not part of the repository) are arguments of the model.

  \<^bold>\<open>How the parts interact.\<close> Nodes report states (\<open>ServerObject::synState\<close>) to the registry
  (\<open>RegistryImp::updateServer\<close>), which writes them to the database and to the status cache. The
  registry reads the tables of servers and adapters into its caches at intervals
  (\<open>CDbHandle::loadObjectIdCache\<close>) and answers lookups from them (\<open>QueryImp\<close>), by group, station or
  set, with weights from the load balancer. The admin registry passes the commands of its clients and
  of its tasks to the nodes, over the connections on which the nodes report (\<open>reportNode\<close>) or over proxies.

  \<^bold>\<open>Theories.\<close>
  \<^item> \<open>Tars_Prelude\<close>: 32-bit checked arithmetic, strings as the utility library sees them
    (\<open>tc_common\<close>), loops that may fail, loops that wait for a clock, and the locale \<open>event_system\<close>
    of an invariant kept along every history of events.
  \<^item> \<open>Tars_Map\<close>: \<open>std::map\<close> as an association list in key order, with the locale of its laws.
  \<^item> \<open>Reg_Group\<close> (\<open>RegistryServer/DbHandle.cpp\<close>): address arithmetic and group rules.
  \<^item> \<open>Reg_Load\<close> (\<open>DbHandle.cpp\<close>): the servant caches and their full and incremental loads.
  \<^item> \<open>Reg_Balance\<close> (\<open>LoadBalanceThread.cpp\<close>): dynamic weights in 32-bit arithmetic, where \<open>None\<close> is an overflow.
  \<^item> \<open>Reg_Query\<close> (\<open>DbHandle.cpp\<close>, \<open>QueryImp.cpp\<close>): the six lookups.
  \<^item> \<open>Reg_State\<close> (\<open>DbHandle.cpp\<close>, \<open>RegistryImp.cpp\<close>): state reports, single and in batches.
  \<^item> \<open>Node_Limit\<close> (\<open>NodeServer/Activator\<close>, \<open>ServerLimitResource\<close>): restart and core file limits.
  \<^item> \<open>Node_Server\<close> (\<open>NodeServer/ServerObject\<close>): the server object, its state, process and reports.
  \<^item> \<open>Node_Commands\<close> (\<open>ServerCommand.h\<close>, \<open>Command*.cpp\<close>): start, stop, notify, destroy and add file.
    Each decision step meets the contract of the locale \<open>server_command\<close>.
  \<^item> \<open>Node_Check\<close> (\<open>ServerObject::checkServer\<close> and others): the periodic work, all events of an
    object, and the abstract machine of server states they refine.
  \<^item> \<open>Node_Patch\<close> (\<open>CommandPatch.cpp\<close>, \<open>SingleFileDownloader.cpp\<close>, \<open>BatchPatchThread.cpp\<close>,
    \<open>ServerManager::patchPro\<close>): requests, their queue, download, installation and backups.
  \<^item> \<open>Node_Factory\<close> (\<open>CommandLoad.cpp\<close>, \<open>ServerFactory.cpp\<close>): the paths, ports and configuration of a server,
    the load command, the objects of the node with their descriptors, the shared map and the limits.
  \<^item> \<open>Node_Manager\<close> (\<open>ServerManager.cpp\<close>, \<open>ServerImp.cpp\<close>): the requests to a node as loads and commands on the
    factory, and the connections to the administration.
  \<^item> \<open>Node_Alive\<close> (\<open>KeepAliveThread.cpp\<close>): the rounds that register, load, check and report; the batch of states is
    composed with \<open>Reg_State\<close>.
  \<^item> \<open>Reg_Nodes\<close> (\<open>DbHandle.cpp\<close>, \<open>RegistryImp.cpp\<close>, \<open>RegistryProcThread.cpp\<close>, \<open>NodeManager.cpp\<close>, \<open>CheckNodeThread.cpp\<close>,
    \<open>ReapThread.cpp\<close> of the registry): the nodes in the tables, their beats through the queue, time outs and connections, the
    times of the loads; composed with the batches of \<open>Reg_State\<close> and the rounds of \<open>Node_Alive\<close>.
  \<^item> \<open>Reg_Descr\<close> (\<open>DbHandle.cpp\<close>, \<open>RegistryImp.cpp\<close>, \<open>DockerThread.cpp\<close>): the descriptors of the servers with their templates,
    adapters and base images.
  \<^item> \<open>Admin_Nodes\<close> (\<open>AdminRegistryServer/NodeManager.cpp\<close>): which connection reaches a node.
  \<^item> \<open>Admin_Requests\<close> (\<open>NodeManager.cpp\<close>, \<open>AdminRegistryImp.cpp\<close>, \<open>DbProxy.cpp\<close>): requests of clients and of tasks
    to nodes, the pending ones, their answers, time outs and proxies.
  \<^item> \<open>Admin_Task\<close> (\<open>AdminRegistryServer/ExecuteTask.cpp\<close>): lists of commands that run serially, in
    parallel or in batches without loss of traffic, on the operations of \<open>Admin_Requests\<close>.
  \<^item> \<open>Stat_Count\<close> (\<open>StatServer/StatImp.cpp\<close>, \<open>StatHashMap.h\<close>, \<open>ReapSSDThread.cpp\<close>): counted calls in two groups
    of maps, collected by turns or weights for the databases.
  \<^item> \<open>Stat_Db\<close> (\<open>StatServer/StatDbManager.cpp\<close>): threads, tables and insertion.
  \<^item> \<open>Property_Server\<close> (\<open>PropertyServer/\<close>): values merged by policies, the marks of threads, insertion.
  \<^item> \<open>Config_Server\<close> (\<open>ConfigServer/ConfigImp.cpp\<close>): files of settings, their references and sets, the merge a
    server receives, and the limit of requests.
  \<^item> \<open>Patch_Server\<close> (\<open>PatchServer/PatchCache.cpp\<close>, \<open>PatchImp.cpp\<close>): the shared blocks of memory as a heap, parts of
    packages, uploads; composed with the downloader of \<open>Node_Patch\<close>.

  \<^bold>\<open>What is shown.\<close> For the registry: which stage of a lookup answers, that lookups return only
  listed endpoints, that caches and tables agree after every load and every history of reports, that
  weights are monotone and bounded and where their arithmetic overflows, when a silent node is marked, when a
  change is loaded, what a node is not told, and which servers and settings it receives. For the node: that every
  sequence of events follows the abstract machine of states, that disabled servers stay down and
  crashed ones are started again, that commands return when the clock runs and what they leave
  behind, when the limits close, and what a patch
  installs, keeps and answers; that requests touch only the servers they name, that the states of all servers reach
  the table of the registry, and that the shared map stands in for the registry in an outage and carries the settings over
  a restart of the node. For the admin registry: which connection is used, that every request is
  answered once, and which items of a task have run when it ends. For the stat and the property server: that no count is
  lost between a report and the databases, how records merge, how weights share them, and when batches are lost. For the
  config server: what a server receives and how often. For the patch
  server: that shared blocks stay with their files and that a node gets the package that was uploaded. Properties of kind error state behaviour that the comments or
  the callers of the code do not expect; they are listed as findings of the manifest.

  \<^bold>\<open>Loops and bounds.\<close> Loops over data are recursive functions or folds. Loops that wait
  for a clock, for a database or for a directory tree are partial functions, and their
  results are proved to exist under the hypotheses named there (\<open>clock_runs\<close>, a database that
  answers within some number of attempts, a directory tree without cycles). There is no fuel.
  Machine integers that can overflow are checked (\<open>ck32\<close>); times and process ids are unbounded.

  \<^bold>\<open>Not modelled.\<close> See the components of the manifest: network and thread plumbing, the text
  of SQL statements, log output, and the parts of the services listed there with their reasons.
\<close>

end
